(* ===== verification/Prelude.thy ===== *)
theory Prelude
  imports Complex_Main "HOL-Library.Word" "HOL-Library.Log_Nat"
begin

text \<open>
  Shared ground of the development: the lemma collections, the result type that carries the
  errors of the Go code, and the generic facts on powers of two, rounding to integers and lists
  that the component theories use.

  A Go function that returns \<open>(T, error)\<close> becomes a function into \<open>('e, 'a) result\<close>, that is
  the sum type \<open>'e + 'a\<close>: \<open>Inl e\<close> is a non-nil error and \<open>Inr v\<close> a value with a nil error.
\<close>

named_theorems f64_eval \<open>equations that evaluate closed floating-point terms in the simplifier\<close>
named_theorems valof_simps \<open>the real value of floating-point operations\<close>

type_synonym ('e, 'a) result = "'e + 'a"

definition result_bind :: "('e, 'a) result \<Rightarrow> ('a \<Rightarrow> ('e, 'b) result) \<Rightarrow> ('e, 'b) result" where
  "result_bind r k = (case r of Inl e \<Rightarrow> Inl e | Inr v \<Rightarrow> k v)"

lemma result_bind_simps [simp]:
  "result_bind (Inl e) k = Inl e"
  "result_bind (Inr v) k = k v"
  by (simp_all add: result_bind_def)

lemma result_bind_eq_Inr:
  "result_bind r k = Inr w \<longleftrightarrow> (\<exists>v. r = Inr v \<and> k v = Inr w)"
  by (cases r) auto

lemma result_bind_eq_Inl:
  "result_bind r k = Inl e \<longleftrightarrow> r = Inl e \<or> (\<exists>v. r = Inr v \<and> k v = Inl e)"
  by (cases r) auto

text \<open>A loop over a slice whose body may fail: the first error ends it.\<close>

fun result_map :: "('a \<Rightarrow> ('e, 'b) result) \<Rightarrow> 'a list \<Rightarrow> ('e, 'b list) result" where
  "result_map f [] = Inr []"
| "result_map f (x # xs) =
     (case f x of Inl e \<Rightarrow> Inl e
      | Inr y \<Rightarrow> (case result_map f xs of Inl e \<Rightarrow> Inl e | Inr ys \<Rightarrow> Inr (y # ys)))"

lemma result_map_Inr:
  "(\<And>x. x \<in> set xs \<Longrightarrow> f x = Inr (g x)) \<Longrightarrow> result_map f xs = Inr (map g xs)"
  by (induction xs) auto

lemma result_map_length: "result_map f xs = Inr ys \<Longrightarrow> length ys = length xs"
  by (induction xs arbitrary: ys) (auto split: sum.splits)

lemma result_map_nth:
  "result_map f xs = Inr ys \<Longrightarrow> i < length xs \<Longrightarrow> f (xs ! i) = Inr (ys ! i)"
proof (induction xs arbitrary: ys i)
  case Nil
  then show ?case by simp
next
  case (Cons x xs)
  then show ?case by (cases i) (auto split: sum.splits)
qed

lemma result_map_error:
  "result_map f xs = Inl e \<Longrightarrow> \<exists>x \<in> set xs. f x = Inl e"
  by (induction xs) (auto split: sum.splits)

subsection \<open>Powers of two with an integer exponent\<close>

lemma pow2_pos [simp]: "(0::real) < 2 powi k"
  by simp

lemma pow2_not_neg [simp]: "\<not> (2::real) powi k < 0" "\<not> (2::real) powi k \<le> 0"
  by (simp_all add: not_less not_le)

lemma pow2_add: "(2::real) powi (a + b) = 2 powi a * 2 powi b"
  by (simp add: power_int_add)

lemma pow2_diff: "(2::real) powi (a - b) = 2 powi a / 2 powi b"
  by (simp add: power_int_diff)

lemma pow2_le_iff [simp]: "(2::real) powi a \<le> 2 powi b \<longleftrightarrow> a \<le> b"
  using power_int_increasing [of a b "2::real"] power_int_strict_increasing [of b a "2::real"]
  by (cases "a \<le> b") auto

lemma pow2_less_iff [simp]: "(2::real) powi a < 2 powi b \<longleftrightarrow> a < b"
  using pow2_le_iff [of b a] by (simp only: not_le [symmetric])

lemma pow2_nat: "0 \<le> k \<Longrightarrow> (2::real) powi k = of_int (2 ^ nat k)"
  by (simp add: power_int_def)

end
