(* ===== verification/Rounding.thy ===== *)
theory Rounding
  imports Prelude
begin

text \<open>
  Round-to-nearest-even over the reals, for the binary64 format: \<open>rne\<close> rounds to an integer,
  \<open>texp\<close> is the exponent of the last mantissa bit at a given magnitude, and \<open>rnd\<close> rounds a
  non-negative real to the grid of that exponent, without an upper limit. The theory Float64
  shows that the executable arithmetic computes \<open>rnd\<close> of the exact result.
\<close>

subsection \<open>Rounding to an integer\<close>

definition rne :: "real \<Rightarrow> int" where
  "rne x = (let m = \<lfloor>x\<rfloor>; d = x - of_int m in
     if d < 1/2 then m else if 1/2 < d then m + 1 else if even m then m else m + 1)"

lemma rne_cases:
  obtains (down) "rne x = \<lfloor>x\<rfloor>" "x - of_int \<lfloor>x\<rfloor> \<le> 1/2"
    | (up) "rne x = \<lfloor>x\<rfloor> + 1" "1/2 \<le> x - of_int \<lfloor>x\<rfloor>"
  by (fastforce simp: rne_def Let_def split: if_splits)

lemma rne_error: "\<bar>of_int (rne x) - x\<bar> \<le> 1/2"
proof (cases x rule: rne_cases)
  case down
  then show ?thesis using of_int_floor_le [of x] by linarith
next
  case up
  then show ?thesis using real_of_int_floor_add_one_gt [of x] by (simp; linarith)
qed

lemma rne_of_int [simp]: "rne (of_int i) = i"
  by (simp add: rne_def)

lemma rne_0 [simp]: "rne 0 = 0"
  using rne_of_int [of 0] by simp

lemma rne_mono:
  assumes "x \<le> y"
  shows "rne x \<le> rne y"
proof (cases "\<lfloor>x\<rfloor> = \<lfloor>y\<rfloor>")
  case True
  with assms show ?thesis by (auto simp: rne_def Let_def)
next
  case False
  with assms have "\<lfloor>x\<rfloor> + 1 \<le> \<lfloor>y\<rfloor>"
    using floor_mono [OF assms] by linarith
  moreover have "rne x \<le> \<lfloor>x\<rfloor> + 1" by (cases x rule: rne_cases) auto
  moreover have "\<lfloor>y\<rfloor> \<le> rne y" by (cases y rule: rne_cases) auto
  ultimately show ?thesis by linarith
qed

lemma rne_ge_int: "of_int i \<le> x \<Longrightarrow> i \<le> rne x"
  using rne_mono [of "of_int i" x] by simp

lemma rne_le_int: "x \<le> of_int i \<Longrightarrow> rne x \<le> i"
  using rne_mono [of x "of_int i"] by simp

subsection \<open>The exponent of the last place\<close>

definition ilog :: "real \<Rightarrow> int" where
  "ilog x = \<lfloor>log 2 x\<rfloor>"

lemma ilog_eq_iff:
  assumes "0 < x"
  shows "ilog x = k \<longleftrightarrow> 2 powi k \<le> x \<and> x < 2 powi (k + 1)"
proof -
  have "ilog x = k \<longleftrightarrow> 2 powr of_int k \<le> x \<and> x < 2 powr (of_int k + 1)"
    unfolding ilog_def using assms by (subst floor_log_eq_powr_iff) auto
  also have "2 powr of_int k = (2::real) powi k"
    by (simp add: powr_real_of_int')
  also have "2 powr (of_int k + 1) = (2::real) powi (k + 1)"
    using powr_real_of_int' [of "2::real" "k + 1"] by simp
  finally show ?thesis .
qed

lemma ilog_bounds:
  assumes "0 < x"
  shows "2 powi (ilog x) \<le> x" "x < 2 powi (ilog x + 1)"
  using ilog_eq_iff [OF assms, of "ilog x"] by auto

lemma ilog_mono: "0 < x \<Longrightarrow> x \<le> y \<Longrightarrow> ilog x \<le> ilog y"
  by (simp add: ilog_def floor_mono)

lemma ilog_ge: "0 < x \<Longrightarrow> 2 powi k \<le> x \<Longrightarrow> k \<le> ilog x"
  using ilog_bounds [of x] pow2_less_iff [of k "ilog x + 1"] by (smt (verit))

lemma ilog_less: "0 < x \<Longrightarrow> x < 2 powi k \<Longrightarrow> ilog x < k"
  using ilog_bounds [of x] pow2_less_iff [of "ilog x" k] by (smt (verit))

text \<open>\<open>texp x\<close>: the mantissa of \<open>x\<close> has 53 bits unless \<open>x\<close> is subnormal.\<close>

definition texp :: "real \<Rightarrow> int" where
  "texp x = max (-1074) (ilog x - 52)"

lemma texp_mono: "0 < x \<Longrightarrow> x \<le> y \<Longrightarrow> texp x \<le> texp y"
  using ilog_mono [of x y] by (auto simp: texp_def)

lemma texp_ge: "-1074 \<le> texp x"
  by (simp add: texp_def)

lemma texp_upper: "0 < x \<Longrightarrow> x < 2 powi (texp x + 53)"
proof -
  assume "0 < x"
  then have "x < 2 powi (ilog x + 1)" by (rule ilog_bounds)
  also have "\<dots> \<le> 2 powi (texp x + 53)" by (simp add: texp_def)
  finally show ?thesis .
qed

lemma texp_lower: "0 < x \<Longrightarrow> -1074 < texp x \<Longrightarrow> 2 powi (texp x + 52) \<le> x"
  using ilog_bounds [of x] by (auto simp: texp_def max_def split: if_splits)

lemma texp_eqI:
  assumes "0 < x" "x < 2 powi (t + 53)" "-1074 \<le> t" "-1074 < t \<Longrightarrow> 2 powi (t + 52) \<le> x"
  shows "texp x = t"
proof (cases "t = -1074")
  case True
  have "ilog x < t + 53" using assms by (intro ilog_less)
  with True show ?thesis by (simp add: texp_def)
next
  case False
  with assms have lo: "2 powi (t + 52) \<le> x" by auto
  have "t + 52 \<le> ilog x" using assms(1) lo by (rule ilog_ge)
  moreover have "ilog x < t + 53" using assms by (intro ilog_less)
  ultimately show ?thesis using assms(3) by (simp add: texp_def)
qed

subsection \<open>Rounding to the binary64 grid\<close>

text \<open>The integer mantissa and the rounded value of a positive real.\<close>

definition mrnd :: "real \<Rightarrow> int" where
  "mrnd x = rne (x / 2 powi texp x)"

definition rnd :: "real \<Rightarrow> real" where
  "rnd x = (if x = 0 then 0 else if x < 0 then - (of_int (mrnd (- x)) * 2 powi texp (- x))
            else of_int (mrnd x) * 2 powi texp x)"

lemma rnd_0 [simp]: "rnd 0 = 0"
  by (simp add: rnd_def)

lemma rnd_minus [simp]: "rnd (- x) = - rnd x"
  by (auto simp: rnd_def)

lemma rnd_signed: "(if x < 0 then - rnd \<bar>x\<bar> else rnd \<bar>x\<bar>) = rnd x"
  by simp

lemma rnd_pos_eq: "0 < x \<Longrightarrow> rnd x = of_int (mrnd x) * 2 powi texp x"
  by (simp add: rnd_def)

lemma mrnd_nonneg: "0 < x \<Longrightarrow> 0 \<le> mrnd x"
  unfolding mrnd_def by (intro rne_ge_int) simp

lemma mrnd_le: "0 < x \<Longrightarrow> mrnd x \<le> 2 ^ 53"
proof -
  assume x: "0 < x"
  have "x / 2 powi texp x \<le> 2 powi 53"
    using texp_upper [OF x] by (simp add: pow2_add pos_divide_le_eq mult.commute)
  then show ?thesis
    unfolding mrnd_def by (intro rne_le_int) simp
qed

lemma mrnd_ge: "0 < x \<Longrightarrow> -1074 < texp x \<Longrightarrow> 2 ^ 52 \<le> mrnd x"
proof -
  assume x: "0 < x" and t: "-1074 < texp x"
  have "2 powi 52 \<le> x / 2 powi texp x"
    using texp_lower [OF x t] by (simp add: pow2_add pos_le_divide_eq mult.commute)
  then show ?thesis
    unfolding mrnd_def by (intro rne_ge_int) simp
qed

lemma rnd_nonneg: "0 \<le> x \<Longrightarrow> 0 \<le> rnd x"
  using mrnd_nonneg [of x] by (auto simp: rnd_def)

lemma rnd_pos_le:
  assumes "0 < x"
  shows "rnd x \<le> 2 powi (texp x + 53)"
proof -
  have "real_of_int (mrnd x) \<le> of_int (2 ^ 53)"
    using mrnd_le [OF assms] by (simp only: of_int_le_iff)
  then have "real_of_int (mrnd x) * 2 powi texp x \<le> of_int (2 ^ 53) * 2 powi texp x"
    by (intro mult_right_mono) auto
  then show ?thesis using assms by (simp add: rnd_pos_eq pow2_add mult.commute)
qed

lemma rnd_pos_ge:
  assumes "0 < x" "-1074 < texp x"
  shows "2 powi (texp x + 52) \<le> rnd x"
proof -
  have "of_int (2 ^ 52) \<le> real_of_int (mrnd x)"
    using mrnd_ge [OF assms] by (simp only: of_int_le_iff)
  then have "of_int (2 ^ 52) * 2 powi texp x \<le> real_of_int (mrnd x) * 2 powi texp x"
    by (intro mult_right_mono) auto
  then show ?thesis using assms(1) by (simp add: rnd_pos_eq pow2_add mult.commute)
qed

lemma rnd_abs: "rnd \<bar>x\<bar> = \<bar>rnd x\<bar>"
  using rnd_nonneg [of x] rnd_nonneg [of "- x"] by (cases "0 \<le> x") auto

lemma rnd_mono_pos:
  assumes "0 < x" "x \<le> y"
  shows "rnd x \<le> rnd y"
proof (cases "texp x = texp y")
  case True
  have "mrnd x \<le> mrnd y"
    unfolding mrnd_def True using assms by (intro rne_mono divide_right_mono) auto
  then show ?thesis using assms True by (simp add: rnd_pos_eq)
next
  case False
  have y: "0 < y" using assms by simp
  from False have lt: "texp x < texp y" using texp_mono [OF assms] by simp
  with texp_ge [of x] have big: "-1074 < texp y" by simp
  have "rnd x \<le> 2 powi (texp x + 53)" using assms(1) by (rule rnd_pos_le)
  also have "\<dots> \<le> 2 powi (texp y + 52)" using lt by simp
  also have "\<dots> \<le> rnd y" using y big by (rule rnd_pos_ge)
  finally show ?thesis .
qed

lemma rnd_mono: "x \<le> y \<Longrightarrow> rnd x \<le> rnd y"
proof -
  assume le: "x \<le> y"
  consider "0 < x" | "x \<le> 0" "0 \<le> y" | "y < 0" by linarith
  then show ?thesis
  proof cases
    case 1
    then show ?thesis using le by (rule rnd_mono_pos)
  next
    case 2
    then have "rnd x \<le> 0" using rnd_nonneg [of "- x"] by simp
    with 2 show ?thesis using rnd_nonneg [of y] by simp
  next
    case 3
    with le have "rnd (- y) \<le> rnd (- x)" by (intro rnd_mono_pos) auto
    then show ?thesis by simp
  qed
qed

subsection \<open>Representable numbers and rounding errors\<close>

definition representable :: "real \<Rightarrow> bool" where
  "representable x \<longleftrightarrow> (\<exists>m e. x = of_int m * 2 powi e \<and> \<bar>m\<bar> \<le> 2 ^ 53 \<and> -1074 \<le> e)"

lemma representable_0 [simp]: "representable 0"
  unfolding representable_def by (rule exI [of _ 0]) auto

lemma representable_uminus: "representable x \<Longrightarrow> representable (- x)"
  unfolding representable_def
proof (elim exE conjE)
  fix m e
  assume "x = of_int m * 2 powi e" "\<bar>m\<bar> \<le> 2 ^ 53" "-1074 \<le> e"
  then show "\<exists>m e. - x = of_int m * 2 powi e \<and> \<bar>m\<bar> \<le> 2 ^ 53 \<and> -1074 \<le> e"
    by (intro exI [of _ "- m"] exI [of _ e]) simp
qed

lemma representable_minus [simp]: "representable (- x) \<longleftrightarrow> representable x"
  using representable_uminus [of x] representable_uminus [of "- x"] by auto

lemma representable_pow2: "-1074 \<le> e \<Longrightarrow> representable (2 powi e)"
  unfolding representable_def by (rule exI [of _ 1], rule exI [of _ e]) simp

lemma representable_int: "\<bar>i\<bar> \<le> 2 ^ 53 \<Longrightarrow> representable (of_int i)"
  unfolding representable_def by (rule exI [of _ i], rule exI [of _ 0]) simp

lemma rnd_representable_pos:
  assumes "0 < x" "representable x"
  shows "rnd x = x"
proof -
  obtain m e where x: "x = of_int m * 2 powi e" and m: "\<bar>m\<bar> \<le> 2 ^ 53" and e: "-1074 \<le> e"
    using assms(2) by (auto simp: representable_def)
  have mpos: "0 < m" using assms(1) x by (simp add: zero_less_mult_iff)
  show ?thesis
  proof (cases "texp x \<le> e")
    case True
    have "x / 2 powi texp x = of_int m * 2 powi (e - texp x)" by (simp add: x pow2_diff)
    also have "\<dots> = of_int (m * 2 ^ nat (e - texp x))"
      using True by (simp add: pow2_nat)
    finally have *: "x / 2 powi texp x = of_int (m * 2 ^ nat (e - texp x))" .
    have "rnd x = of_int (m * 2 ^ nat (e - texp x)) * 2 powi texp x"
      using assms(1) by (simp only: rnd_pos_eq mrnd_def * rne_of_int)
    also have "\<dots> = x / 2 powi texp x * 2 powi texp x" by (simp only: *)
    also have "\<dots> = x" by simp
    finally show ?thesis .
  next
    case False
    with e have t: "-1074 < texp x" and lt: "e < texp x" by auto
    have "2 powi (texp x + 52) \<le> x" using assms(1) t by (rule texp_lower)
    also have "x \<le> 2 powi (e + 53)"
    proof -
      have "real_of_int m \<le> of_int (2 ^ 53)" using m mpos by (simp only: of_int_le_iff)
      then have "real_of_int m * 2 powi e \<le> of_int (2 ^ 53) * 2 powi e"
        by (intro mult_right_mono) auto
      then show ?thesis by (simp add: x pow2_add mult.commute)
    qed
    finally have "texp x = e + 1" using lt by simp
    with \<open>x \<le> 2 powi (e + 53)\<close> \<open>2 powi (texp x + 52) \<le> x\<close> have x': "x = 2 powi (texp x + 52)"
      by (simp add: add.assoc add.commute)
    then have "x / 2 powi texp x = of_int (2 ^ 52)"
      by (simp add: pow2_add divide_eq_eq mult.commute)
    then have "rnd x = of_int (2 ^ 52) * 2 powi texp x"
      using assms(1) by (simp only: rnd_pos_eq mrnd_def rne_of_int)
    then show ?thesis using x' by (simp add: pow2_add)
  qed
qed

lemma rnd_representable [simp]: "representable x \<Longrightarrow> rnd x = x"
  using rnd_representable_pos [of x] rnd_representable_pos [of "- x"]
  by (cases x "0::real" rule: linorder_cases) auto

lemma representable_rnd [simp]: "representable (rnd x)"
proof -
  have pos: "representable (rnd y)" if "0 < y" for y
    unfolding representable_def
    by (rule exI [of _ "mrnd y"], rule exI [of _ "texp y"])
      (use that mrnd_nonneg [of y] mrnd_le [of y] texp_ge [of y] in \<open>simp add: rnd_pos_eq\<close>)
  show ?thesis
    using pos [of x] pos [of "- x"] by (cases x "0::real" rule: linorder_cases) auto
qed

lemma rnd_le_representable: "x \<le> y \<Longrightarrow> representable y \<Longrightarrow> rnd x \<le> y"
  using rnd_mono [of x y] by simp

lemma rnd_ge_representable: "y \<le> x \<Longrightarrow> representable y \<Longrightarrow> y \<le> rnd x"
  using rnd_mono [of y x] by simp

lemma rnd_error_pos:
  assumes "0 < x"
  shows "\<bar>rnd x - x\<bar> \<le> 2 powi texp x / 2"
proof -
  have "rnd x - x = (of_int (mrnd x) - x / 2 powi texp x) * 2 powi texp x"
    using assms by (simp add: rnd_pos_eq algebra_simps)
  then have "\<bar>rnd x - x\<bar> = \<bar>of_int (mrnd x) - x / 2 powi texp x\<bar> * 2 powi texp x"
    by (simp add: abs_mult)
  also have "\<dots> \<le> 1/2 * 2 powi texp x"
    unfolding mrnd_def by (intro mult_right_mono rne_error) simp
  finally show ?thesis by simp
qed

text \<open>An absolute bound: half a unit in the last place below any power of two.\<close>

lemma rnd_error_abs:
  assumes "\<bar>x\<bar> < 2 powi (k + 53)" "-1074 \<le> k"
  shows "\<bar>rnd x - x\<bar> \<le> 2 powi k / 2"
proof -
  have pos: "\<bar>rnd y - y\<bar> \<le> 2 powi k / 2" if y: "0 < y" "y < 2 powi (k + 53)" for y
  proof -
    have "ilog y < k + 53" using y by (intro ilog_less)
    then have "texp y \<le> k" using assms(2) by (simp add: texp_def)
    then have "(2::real) powi texp y \<le> 2 powi k" by simp
    then show ?thesis using rnd_error_pos [OF y(1)] by linarith
  qed
  consider "0 < x" | "x = 0" | "x < 0" by linarith
  then show ?thesis
  proof cases
    case 1
    then show ?thesis using pos [of x] assms by simp
  next
    case 2
    then show ?thesis by simp
  next
    case 3
    then have "\<bar>rnd (- x) - (- x)\<bar> \<le> 2 powi k / 2" using pos [of "- x"] assms by simp
    then show ?thesis by (simp add: abs_minus_commute)
  qed
qed

text \<open>The relative bound on normal numbers.\<close>

lemma rnd_error_rel:
  assumes "2 powi (-1022) \<le> \<bar>x\<bar>"
  shows "\<bar>rnd x - x\<bar> \<le> \<bar>x\<bar> * 2 powi (-53)"
proof -
  have pos: "\<bar>rnd y - y\<bar> \<le> y * 2 powi (-53)" if y: "2 powi (-1022) \<le> y" for y :: real
  proof -
    have y0: "0 < y" using y by (rule less_le_trans [rotated]) simp
    have "-1022 \<le> ilog y" using y0 y by (rule ilog_ge)
    then have "texp y = ilog y - 52" by (simp add: texp_def)
    then have "(2::real) powi texp y / 2 = 2 powi (ilog y) * 2 powi (-53)"
      by (simp add: pow2_diff power_int_minus)
    also have "\<dots> \<le> y * 2 powi (-53)"
      using ilog_bounds [OF y0] by (intro mult_right_mono) auto
    finally show ?thesis using rnd_error_pos [OF y0] by linarith
  qed
  have "0 < \<bar>x\<bar>" using assms by (rule less_le_trans [rotated]) simp
  then consider "0 < x" | "x < 0" by linarith
  then show ?thesis
  proof cases
    case 1
    then show ?thesis using pos [of x] assms by simp
  next
    case 2
    then have "\<bar>rnd (- x) - (- x)\<bar> \<le> (- x) * 2 powi (-53)" using pos [of "- x"] assms by simp
    then show ?thesis using 2 by simp
  qed
qed

end
