(* ===== verification/Float64.thy ===== *)
theory Float64
  imports Rounding
begin

text \<open>
  Go's \<open>float64\<close>: IEEE-754 binary64 values as their three bit fields, with executable
  arithmetic (\<open>+\<close>, \<open>-\<close>, \<open>*\<close>, \<open>/\<close>, negation, comparison, conversion of integers and of
  rational constants), each operation rounded to nearest even. Every NaN an operation produces
  is the one quiet NaN with payload 0; Go gives the payload no meaning and the program never
  looks at it.

  Go's \<open>==\<close> on floats is \<open>feq\<close>, not HOL equality: NaN differs from itself and the two zeros
  are equal. \<open><\<close> and \<open>\<le>\<close> are instances of the type class \<open>ord\<close> and are false on NaN.

  The theory Float64_Real relates the operations to real arithmetic: \<open>valof\<close> is the value of a finite
  float, and an operation on finite operands whose rounded result is below \<open>2\<^sup>1\<^sup>0\<^sup>2\<^sup>4\<close> is finite
  and has the value \<open>rnd\<close> of the exact result.
\<close>

datatype float64 = Float64 (fsign: bool) (fexp: "11 word") (ffrac: "52 word")

subsection \<open>Classes of values\<close>

definition is_nan :: "float64 \<Rightarrow> bool" where
  "is_nan x \<longleftrightarrow> fexp x = 2047 \<and> ffrac x \<noteq> 0"

definition is_inf :: "float64 \<Rightarrow> bool" where
  "is_inf x \<longleftrightarrow> fexp x = 2047 \<and> ffrac x = 0"

definition is_finite :: "float64 \<Rightarrow> bool" where
  "is_finite x \<longleftrightarrow> fexp x \<noteq> 2047"

definition is_zero :: "float64 \<Rightarrow> bool" where
  "is_zero x \<longleftrightarrow> fexp x = 0 \<and> ffrac x = 0"

definition f64_nan :: float64 where
  "f64_nan = Float64 False 2047 0x8000000000000"

definition f64_inf :: "bool \<Rightarrow> float64" where
  "f64_inf s = Float64 s 2047 0"

lemmas f64_class_defs = is_nan_def is_inf_def is_finite_def is_zero_def

text \<open>A finite float is \<open>f64_mant x * 2 ^ f64_expo x\<close> up to its sign.\<close>

definition f64_mant :: "float64 \<Rightarrow> int" where
  "f64_mant x = (if fexp x = 0 then uint (ffrac x) else 2 ^ 52 + uint (ffrac x))"

definition f64_expo :: "float64 \<Rightarrow> int" where
  "f64_expo x = (if fexp x = 0 then -1074 else uint (fexp x) - 1075)"

text \<open>The encoding without the sign bit, read as a number: it orders magnitudes.\<close>

definition f64_key :: "float64 \<Rightarrow> int" where
  "f64_key x = uint (fexp x) * 2 ^ 52 + uint (ffrac x)"

definition f64_skey :: "float64 \<Rightarrow> int" where
  "f64_skey x = (if fsign x then - f64_key x else f64_key x)"

subsection \<open>Rounding of an exact rational\<close>

definition ipow2 :: "int \<Rightarrow> int" where
  "ipow2 k = 2 ^ nat k"

definition rne_div :: "int \<Rightarrow> int \<Rightarrow> int" where
  "rne_div p q = (let m = p div q; r = p mod q in
     if 2 * r < q then m else if q < 2 * r then m + 1 else if even m then m else m + 1)"

definition scale_div :: "int \<Rightarrow> int \<Rightarrow> int \<Rightarrow> int" where
  "scale_div p q k =
     (if 0 \<le> k then rne_div (p * ipow2 k) q else rne_div p (q * ipow2 (- k)))"

definition f64_pack :: "bool \<Rightarrow> int \<Rightarrow> int \<Rightarrow> float64" where
  "f64_pack s t m = (let b = (t + 1074) * 2 ^ 52 + m in
     if 2047 * 2 ^ 52 \<le> b then f64_inf s
     else Float64 s (of_int (b div 2 ^ 52)) (of_int (b mod 2 ^ 52)))"

text \<open>The float nearest to \<open>p / q * 2 ^ e\<close> (\<open>p\<close> not negative, \<open>q\<close> positive), with sign \<open>s\<close>.\<close>

definition f64_round :: "bool \<Rightarrow> int \<Rightarrow> int \<Rightarrow> int \<Rightarrow> float64" where
  "f64_round s p q e = (if p = 0 then Float64 s 0 0 else
     let k = bitlen p - bitlen q;
         big = (if 0 \<le> k then q * ipow2 k \<le> p else q \<le> p * ipow2 (- k));
         t = max (-1074) (e + k - (if big then 52 else 53))
     in f64_pack s t (scale_div p q (e - t)))"

subsection \<open>Arithmetic\<close>

text \<open>Go's conversion \<open>float64(i)\<close> of an integer, and a constant expression \<open>p / q\<close>.\<close>

definition f64 :: "int \<Rightarrow> float64" where
  "f64 i = f64_round (i < 0) \<bar>i\<bar> 1 0"

definition f64_const :: "int \<Rightarrow> int \<Rightarrow> float64" where
  "f64_const p q = f64_round (p < 0) \<bar>p\<bar> q 0"

definition f64_signed_mant :: "float64 \<Rightarrow> int" where
  "f64_signed_mant x = (if fsign x then - f64_mant x else f64_mant x)"

definition f64_add :: "float64 \<Rightarrow> float64 \<Rightarrow> float64" where
  "f64_add x y =
     (if is_nan x \<or> is_nan y then f64_nan
      else if is_inf x then (if is_inf y \<and> fsign x \<noteq> fsign y then f64_nan else x)
      else if is_inf y then y
      else if is_zero x \<and> is_zero y then Float64 (fsign x \<and> fsign y) 0 0
      else if is_zero x then y
      else if is_zero y then x
      else let e = min (f64_expo x) (f64_expo y);
               n = f64_signed_mant x * ipow2 (f64_expo x - e)
                 + f64_signed_mant y * ipow2 (f64_expo y - e)
           in if n = 0 then Float64 False 0 0
              else f64_round (n < 0) \<bar>n\<bar> 1 e)"

definition f64_neg :: "float64 \<Rightarrow> float64" where
  "f64_neg x = Float64 (\<not> fsign x) (fexp x) (ffrac x)"

definition f64_mul :: "float64 \<Rightarrow> float64 \<Rightarrow> float64" where
  "f64_mul x y =
     (if is_nan x \<or> is_nan y then f64_nan
      else if is_inf x \<and> is_zero y \<or> is_zero x \<and> is_inf y then f64_nan
      else if is_inf x \<or> is_inf y then f64_inf (fsign x \<noteq> fsign y)
      else f64_round (fsign x \<noteq> fsign y) (f64_mant x * f64_mant y) 1 (f64_expo x + f64_expo y))"

definition f64_div :: "float64 \<Rightarrow> float64 \<Rightarrow> float64" where
  "f64_div x y =
     (if is_nan x \<or> is_nan y then f64_nan
      else if is_inf x \<and> is_inf y \<or> is_zero x \<and> is_zero y then f64_nan
      else if is_inf x \<or> is_zero y then f64_inf (fsign x \<noteq> fsign y)
      else if is_inf y then Float64 (fsign x \<noteq> fsign y) 0 0
      else f64_round (fsign x \<noteq> fsign y) (f64_mant x) (f64_mant y) (f64_expo x - f64_expo y))"

definition f64_lt :: "float64 \<Rightarrow> float64 \<Rightarrow> bool" where
  "f64_lt x y \<longleftrightarrow> \<not> is_nan x \<and> \<not> is_nan y \<and> f64_skey x < f64_skey y"

definition f64_le :: "float64 \<Rightarrow> float64 \<Rightarrow> bool" where
  "f64_le x y \<longleftrightarrow> \<not> is_nan x \<and> \<not> is_nan y \<and> f64_skey x \<le> f64_skey y"

definition feq :: "float64 \<Rightarrow> float64 \<Rightarrow> bool" where
  "feq x y \<longleftrightarrow> \<not> is_nan x \<and> \<not> is_nan y \<and> f64_skey x = f64_skey y"

instantiation float64 :: "{zero, one, plus, minus, uminus, times, inverse, ord}"
begin

definition zero_float64 :: float64 where "zero_float64 = Float64 False 0 0"

definition one_float64 :: float64 where "one_float64 = Float64 False 1023 0"

definition plus_float64 :: "float64 \<Rightarrow> float64 \<Rightarrow> float64" where
  "plus_float64 x y = f64_add x y"

definition minus_float64 :: "float64 \<Rightarrow> float64 \<Rightarrow> float64" where
  "minus_float64 x y = f64_add x (f64_neg y)"

definition uminus_float64 :: "float64 \<Rightarrow> float64" where
  "uminus_float64 x = f64_neg x"

definition times_float64 :: "float64 \<Rightarrow> float64 \<Rightarrow> float64" where
  "times_float64 x y = f64_mul x y"

definition divide_float64 :: "float64 \<Rightarrow> float64 \<Rightarrow> float64" where
  "divide_float64 x y = f64_div x y"

definition inverse_float64 :: "float64 \<Rightarrow> float64" where
  "inverse_float64 x = f64_div (Float64 False 1023 0) x"

definition less_float64 :: "float64 \<Rightarrow> float64 \<Rightarrow> bool" where
  "less_float64 x y \<longleftrightarrow> f64_lt x y"

definition less_eq_float64 :: "float64 \<Rightarrow> float64 \<Rightarrow> bool" where
  "less_eq_float64 x y \<longleftrightarrow> f64_le x y"

instance ..

end

lemmas f64_instance_defs =
  zero_float64_def one_float64_def plus_float64_def minus_float64_def uminus_float64_def
  times_float64_def divide_float64_def less_float64_def less_eq_float64_def

lemma bitlen_num:
  "bitlen (1::int) = 1"
  "bitlen (numeral (Num.Bit0 n) :: int) = bitlen (numeral n :: int) + 1"
  "bitlen (numeral (Num.Bit1 n) :: int) = bitlen (numeral n :: int) + 1"
proof -
  show "bitlen (1::int) = 1" by (subst compute_bitlen) simp
  show "bitlen (numeral (Num.Bit0 n) :: int) = bitlen (numeral n :: int) + 1"
    by (subst compute_bitlen) simp
  show "bitlen (numeral (Num.Bit1 n) :: int) = bitlen (numeral n :: int) + 1"
    by (subst compute_bitlen) simp
qed

lemmas f64_eval_defs [f64_eval] =
  f64_instance_defs f64_class_defs f64_nan_def f64_inf_def f64_mant_def f64_expo_def f64_key_def
  f64_skey_def ipow2_def rne_div_def scale_div_def f64_pack_def f64_round_def f64_def
  f64_const_def f64_signed_mant_def f64_add_def f64_neg_def f64_mul_def f64_div_def f64_lt_def
  f64_le_def feq_def bitlen_num Let_def

text \<open>
  Code equations on constructor patterns: evaluation never unfolds an operation before its
  operands are values.
\<close>

lemmas f64_pattern_code [code] =
  f64_add_def [of "Float64 s e f" "Float64 s' e' f'" for s e f s' e' f']
  f64_mul_def [of "Float64 s e f" "Float64 s' e' f'" for s e f s' e' f']
  f64_div_def [of "Float64 s e f" "Float64 s' e' f'" for s e f s' e' f']
  f64_lt_def [of "Float64 s e f" "Float64 s' e' f'" for s e f s' e' f']
  f64_le_def [of "Float64 s e f" "Float64 s' e' f'" for s e f s' e' f']
  feq_def [of "Float64 s e f" "Float64 s' e' f'" for s e f s' e' f']
  f64_neg_def [of "Float64 s e f" for s e f]
  f64_mant_def [of "Float64 s e f" for s e f]
  f64_expo_def [of "Float64 s e f" for s e f]
  f64_key_def [of "Float64 s e f" for s e f]
  f64_skey_def [of "Float64 s e f" for s e f]
  f64_signed_mant_def [of "Float64 s e f" for s e f]
  is_nan_def [of "Float64 s e f" for s e f]
  is_inf_def [of "Float64 s e f" for s e f]
  is_finite_def [of "Float64 s e f" for s e f]
  is_zero_def [of "Float64 s e f" for s e f]

end
