(* ===== verification/Float64_Real.thy ===== *)
theory Float64_Real
  imports Float64
begin

text \<open>
  The executable arithmetic of Float64 against real arithmetic. \<open>f64_round\<close> computes \<open>rnd\<close> of
  the rational it is given; from this, each operation on finite operands has the value \<open>rnd\<close>
  of the exact result unless that overflows, comparison is comparison of values, and a finite
  non-zero float is determined by its value. The exact cases (multiplying by one, subtracting a
  number from itself, \<dots>) that the seams of the program rest on are corollaries.
\<close>

definition f64_mag :: "float64 \<Rightarrow> real" where
  "f64_mag x = of_int (f64_mant x) * 2 powi f64_expo x"

definition valof :: "float64 \<Rightarrow> real" where
  "valof x = (if fsign x then - f64_mag x else f64_mag x)"

text \<open>The magnitude at which rounding overflows, kept folded so that it is never computed.\<close>

definition f64_limit :: real where
  "f64_limit = 2 powi 1024"

lemma f64_limit_le: "f64_limit \<le> 2 powi k \<longleftrightarrow> 1024 \<le> k"
  unfolding f64_limit_def by (rule pow2_le_iff)

lemma pow2_less_limit: "2 powi k < f64_limit \<longleftrightarrow> k < 1024"
  unfolding f64_limit_def by (rule pow2_less_iff)

lemma pow2_le_limit: "2 powi k \<le> f64_limit \<longleftrightarrow> k \<le> 1024"
  unfolding f64_limit_def by (rule pow2_le_iff)

lemma less_limitI: "x < 2 powi k \<Longrightarrow> k \<le> 1024 \<Longrightarrow> x < f64_limit"
  by (meson less_le_trans pow2_le_limit)

subsection \<open>Fields of a packed value\<close>

lemma uint11 [simp]: "uint (w :: 11 word) < 2048" "0 \<le> uint (w :: 11 word)"
  using uint_lt2p [of w] by auto

lemma uint52 [simp]: "uint (w :: 52 word) < 2 ^ 52" "uint (w :: 52 word) < 4503599627370496"
  using uint_lt2p [of w] by auto

lemma uint11_of_int: "0 \<le> i \<Longrightarrow> i < 2048 \<Longrightarrow> uint (word_of_int i :: 11 word) = i"
  by (simp add: uint_word_of_int)

lemma uint52_of_int: "0 \<le> i \<Longrightarrow> i < 2 ^ 52 \<Longrightarrow> uint (word_of_int i :: 52 word) = i"
  by (simp add: uint_word_of_int)

lemma f64_mant_nonneg [simp]: "0 \<le> f64_mant x"
  by (simp add: f64_mant_def)

lemma f64_mant_less: "f64_mant x < 2 ^ 53"
  using uint52 [of "ffrac x"] unfolding f64_mant_def by (simp; linarith)

lemma f64_expo_ge: "-1074 \<le> f64_expo x"
proof (cases "fexp x = 0")
  case False
  then have "uint (fexp x) \<noteq> 0" by (simp add: uint_0_iff)
  then have "1 \<le> uint (fexp x)" using uint11 [of "fexp x"] by linarith
  with False show ?thesis by (simp add: f64_expo_def)
qed (simp add: f64_expo_def)

lemma is_finite_uint: "is_finite x \<longleftrightarrow> uint (fexp x) \<noteq> 2047"
proof -
  have "fexp x = 2047 \<longleftrightarrow> uint (fexp x) = uint (2047 :: 11 word)"
    by (simp only: word_uint_eq_iff)
  then show ?thesis by (simp add: is_finite_def)
qed

lemma f64_expo_le: "is_finite x \<Longrightarrow> f64_expo x \<le> 971"
  using uint11 [of "fexp x"] unfolding f64_expo_def is_finite_uint by (simp; linarith)

lemma is_zero_iff: "is_zero x \<longleftrightarrow> f64_mant x = 0"
  by (auto simp: is_zero_def f64_mant_def uint_0_iff) (smt (verit) uint52 uint_ge_0)

lemma f64_mag_nonneg [simp]: "0 \<le> f64_mag x"
  by (simp add: f64_mag_def)

lemma f64_mag_not_neg [simp]: "\<not> f64_mag x < 0"
  by (simp add: not_less)

lemma f64_mag_0_iff: "f64_mag x = 0 \<longleftrightarrow> is_zero x"
  by (simp add: f64_mag_def is_zero_iff)

lemma abs_valof: "\<bar>valof x\<bar> = f64_mag x"
  by (simp add: valof_def)

lemma valof_0_iff: "valof x = 0 \<longleftrightarrow> is_zero x"
  by (simp add: valof_def f64_mag_0_iff)

lemma representable_mag [simp]: "representable (f64_mag x)"
  unfolding representable_def
  by (rule exI [of _ "f64_mant x"], rule exI [of _ "f64_expo x"])
    (use f64_mant_less [of x] f64_expo_ge [of x] in \<open>auto simp: f64_mag_def\<close>)

lemma representable_valof [simp]: "representable (valof x)"
  by (simp add: valof_def)

lemma f64_mag_less: "is_finite x \<Longrightarrow> f64_mag x < f64_limit"
proof (rule less_limitI)
  assume fin: "is_finite x"
  have "real_of_int (f64_mant x) < of_int (2 ^ 53)"
    using f64_mant_less [of x] by (simp only: of_int_less_iff)
  then have "f64_mag x < of_int (2 ^ 53) * 2 powi f64_expo x"
    unfolding f64_mag_def by (intro mult_strict_right_mono) auto
  then show "f64_mag x < 2 powi (f64_expo x + 53)" by (simp add: pow2_add mult.commute)
  show "f64_expo x + 53 \<le> 1024" using f64_expo_le [OF fin] by simp
qed

lemma f64_pack_finite:
  assumes "0 \<le> m" "m \<le> 2 ^ 53" "-1074 \<le> t" "-1074 < t \<Longrightarrow> 2 ^ 52 \<le> m"
    and "(t + 1074) * 2 ^ 52 + m < 2047 * 2 ^ 52"
  shows "is_finite (f64_pack s t m) \<and> fsign (f64_pack s t m) = s
    \<and> f64_mag (f64_pack s t m) = of_int m * 2 powi t"
proof -
  define b where "b = (t + 1074) * 2 ^ 52 + m"
  have b0: "0 \<le> b" using assms by (simp add: b_def)
  have bd: "0 \<le> b div 2 ^ 52" "b div 2 ^ 52 < 2047"
    using assms(5) [folded b_def] b0 by auto
  have bm: "0 \<le> b mod 2 ^ 52" "b mod 2 ^ 52 < 2 ^ 52" by simp_all
  have pk: "f64_pack s t m = Float64 s (of_int (b div 2 ^ 52)) (of_int (b mod 2 ^ 52))"
    using assms(5) by (simp add: f64_pack_def b_def Let_def)
  have ue: "uint (fexp (f64_pack s t m)) = b div 2 ^ 52"
    using bd by (simp add: pk uint11_of_int)
  have uf: "uint (ffrac (f64_pack s t m)) = b mod 2 ^ 52"
    using bm by (simp add: pk uint52_of_int)
  have z: "fexp (f64_pack s t m) = 0 \<longleftrightarrow> b div 2 ^ 52 = 0"
    using ue by (metis uint_0_iff)
  have "of_int (f64_mant (f64_pack s t m)) * 2 powi f64_expo (f64_pack s t m)
      = real_of_int m * 2 powi t"
  proof -
    consider "m < 2 ^ 52" | "2 ^ 52 \<le> m" "m < 2 ^ 53" | "m = 2 ^ 53" using assms(2) by linarith
    then show ?thesis
    proof cases
      case 1
      then have "t = -1074" using assms(3,4) by force
      then have "b = m" by (simp add: b_def)
      with 1 assms(1) have "b div 2 ^ 52 = 0" "b mod 2 ^ 52 = m" by auto
      then show ?thesis using z uf \<open>t = -1074\<close> by (simp add: f64_mant_def f64_expo_def)
    next
      case 2
      then have "b = 2 ^ 52 * (t + 1075) + (m - 2 ^ 52)" "0 \<le> m - 2 ^ 52" "m - 2 ^ 52 < 2 ^ 52"
        by (auto simp: b_def)
      then have "b div 2 ^ 52 = t + 1075" "b mod 2 ^ 52 = m - 2 ^ 52"
        by (rule int_div_pos_eq, rule int_mod_pos_eq)
      then show ?thesis using z ue uf assms(3) by (simp add: f64_mant_def f64_expo_def)
    next
      case 3
      then have "b = (t + 1076) * 2 ^ 52" by (simp add: b_def)
      then have "b div 2 ^ 52 = t + 1076" "b mod 2 ^ 52 = 0" by auto
      then have "f64_mant (f64_pack s t m) = 2 ^ 52" "f64_expo (f64_pack s t m) = t + 1"
        using z ue uf assms(3) by (auto simp: f64_mant_def f64_expo_def)
      then show ?thesis using 3 by (simp add: pow2_add)
    qed
  qed
  then show ?thesis using bd ue by (simp add: f64_mag_def is_finite_uint pk)
qed

subsection \<open>The rounding function computes \<open>rnd\<close>\<close>

lemma rne_div_eq:
  assumes "0 < q"
  shows "rne_div p q = rne (of_int p / of_int q)"
proof -
  have fl: "\<lfloor>real_of_int p / of_int q\<rfloor> = p div q" by (simp add: floor_divide_of_int_eq)
  have "real_of_int p = of_int (p div q) * of_int q + of_int (p mod q)"
    by (metis div_mult_mod_eq of_int_add of_int_mult)
  then have d: "real_of_int p / of_int q - of_int (p div q) = of_int (p mod q) / of_int q"
    using assms by (simp add: field_simps)
  have c1: "of_int (p mod q) / of_int q < (1/2::real) \<longleftrightarrow> 2 * (p mod q) < q"
    using assms by (simp add: field_simps) linarith
  have c2: "(1/2::real) < of_int (p mod q) / of_int q \<longleftrightarrow> q < 2 * (p mod q)"
    using assms by (simp add: field_simps) linarith
  show ?thesis by (simp only: rne_div_def rne_def Let_def fl d c1 c2)
qed

lemma ipow2_eq: "0 \<le> k \<Longrightarrow> real_of_int (ipow2 k) = 2 powi k"
  by (simp add: ipow2_def pow2_nat)

lemma ipow2_pos [simp]: "0 < ipow2 k"
  by (simp add: ipow2_def)

lemma scale_div_eq:
  assumes "0 < q"
  shows "scale_div p q k = rne (of_int p / of_int q * 2 powi k)"
  using assms
  by (auto simp: scale_div_def rne_div_eq ipow2_eq mult.commute divide_simps power_int_minus)

lemma bitlen_real_bounds:
  assumes "0 < p"
  shows "2 powi (bitlen p - 1) \<le> real_of_int p" "real_of_int p < 2 powi bitlen p"
proof -
  have b: "2 ^ nat (bitlen p - 1) \<le> p \<and> p < 2 ^ nat (bitlen p)" by (rule bitlen_bounds [OF assms])
  have pos: "1 \<le> bitlen p" using assms bitlen_eq_zero_iff [of p] bitlen_nonneg [of p] by linarith
  show "2 powi (bitlen p - 1) \<le> real_of_int p"
    using b pos by (simp only: pow2_nat of_int_le_iff)
  show "real_of_int p < 2 powi bitlen p"
    using b pos by (simp only: pow2_nat of_int_less_iff)
qed

lemma ilog_ratio:
  assumes "0 < p" "0 < q"
  defines "k \<equiv> bitlen p - bitlen q"
  shows "ilog (of_int p / of_int q)
    = (if (if 0 \<le> k then q * ipow2 k \<le> p else q \<le> p * ipow2 (- k)) then k else k - 1)"
proof -
  let ?v = "real_of_int p / of_int q"
  have v: "0 < ?v" using assms by simp
  have bp: "2 powi (bitlen p - 1) \<le> real_of_int p" "real_of_int p < 2 powi bitlen p"
    and bq: "2 powi (bitlen q - 1) \<le> real_of_int q" "real_of_int q < 2 powi bitlen q"
    using assms bitlen_real_bounds by auto
  have up: "?v < 2 powi (k + 1)"
  proof -
    have "real_of_int p < 2 powi (k + 1) * 2 powi (bitlen q - 1)"
      using bp(2) by (simp add: k_def flip: pow2_add)
    also have "\<dots> \<le> 2 powi (k + 1) * of_int q" using bq(1) by (intro mult_left_mono) auto
    finally show ?thesis using assms by (simp add: pos_divide_less_eq)
  qed
  have lo: "2 powi (k - 1) \<le> ?v"
  proof -
    have "2 powi (k - 1) * real_of_int q \<le> 2 powi (k - 1) * 2 powi bitlen q"
      using bq(2) by (intro mult_left_mono) auto
    also have "\<dots> = 2 powi (bitlen p - 1)" by (simp add: k_def flip: pow2_add)
    finally show ?thesis using bp(1) assms by (simp add: pos_le_divide_eq)
  qed
  have big: "(if 0 \<le> k then q * ipow2 k \<le> p else q \<le> p * ipow2 (- k)) \<longleftrightarrow> 2 powi k \<le> ?v"
  proof (cases "0 \<le> k")
    case True
    have "q * ipow2 k \<le> p \<longleftrightarrow> real_of_int q * 2 powi k \<le> of_int p"
      by (simp only: ipow2_eq [OF True, symmetric] of_int_mult [symmetric] of_int_le_iff)
    then show ?thesis using True assms(1,2) by (simp add: pos_le_divide_eq mult.commute)
  next
    case False
    then have "q \<le> p * ipow2 (- k) \<longleftrightarrow> real_of_int q \<le> of_int p * 2 powi (- k)"
      by (simp add: ipow2_eq [symmetric] del: of_int_mult flip: of_int_mult)
    then show ?thesis using False assms(1,2)
      by (simp add: pos_le_divide_eq power_int_minus field_simps)
  qed
  show ?thesis
    unfolding big
    using up lo v by (auto simp: ilog_eq_iff)
qed

lemma ilog_scale: "0 < x \<Longrightarrow> ilog (x * 2 powi e) = ilog x + e"
  using ilog_bounds [of x] by (subst ilog_eq_iff) (auto simp: pow2_add mult.commute)

lemma f64_round_eq:
  assumes "0 < p" "0 < q" and v_def: "v = of_int p / of_int q * 2 powi e"
  shows "f64_round s p q e = f64_pack s (texp v) (mrnd v)"
proof -
  have ne: "p \<noteq> 0" using assms by simp
  have "ilog v = ilog (of_int p / of_int q) + e"
    unfolding v_def using assms by (intro ilog_scale) simp
  then have t: "texp v = (let k = bitlen p - bitlen q;
      big = (if 0 \<le> k then q * ipow2 k \<le> p else q \<le> p * ipow2 (- k))
     in max (-1074) (e + k - (if big then 52 else 53)))"
    by (simp add: texp_def Let_def ilog_ratio [OF assms(1,2)] algebra_simps)
  have m: "mrnd v = scale_div p q (e - texp v)"
    unfolding mrnd_def using assms(2) by (simp add: v_def scale_div_eq pow2_diff)
  show ?thesis
    by (simp only: f64_round_def ne if_False m) (simp only: t Let_def)
qed

lemma f64_overflow_iff:
  assumes v: "0 < v"
  shows "(texp v + 1074) * 2 ^ 52 + mrnd v < 2047 * 2 ^ 52 \<longleftrightarrow> rnd v < f64_limit"
proof -
  have m: "0 \<le> mrnd v" "mrnd v \<le> 2 ^ 53" using mrnd_nonneg [OF v] mrnd_le [OF v] by auto
  consider "texp v \<le> 970" | "texp v = 971" | "972 \<le> texp v" by linarith
  then show ?thesis
  proof cases
    case 1
    have "rnd v \<le> 2 powi (texp v + 53)" by (rule rnd_pos_le [OF v])
    also have "\<dots> < f64_limit" using 1 by (simp add: pow2_less_limit)
    finally have "rnd v < f64_limit" .
    moreover have "(texp v + 1074) * 2 ^ 52 + mrnd v < 2047 * 2 ^ 52" using 1 m by simp
    ultimately show ?thesis by simp
  next
    case 2
    have "f64_limit = 2 powi 53 * 2 powi (texp v)"
      unfolding 2 f64_limit_def pow2_add [symmetric] by (simp only: arith_simps rel_simps)
    then have "rnd v < f64_limit \<longleftrightarrow> of_int (mrnd v) * 2 powi texp v < 2 powi 53 * (2::real) powi texp v"
      using v by (simp only: rnd_pos_eq)
    also have "\<dots> \<longleftrightarrow> real_of_int (mrnd v) < 2 powi 53"
      by (subst mult_less_cancel_right) simp
    also have "\<dots> \<longleftrightarrow> mrnd v < 2 ^ 53"
      by (simp add: pow2_nat flip: of_int_less_iff)
    finally show ?thesis using 2 by simp
  next
    case 3
    then have big: "-1074 < texp v" by simp
    have "f64_limit \<le> 2 powi (texp v + 52)" using 3 by (simp add: f64_limit_le)
    also have "\<dots> \<le> rnd v" by (rule rnd_pos_ge [OF v big])
    finally have "\<not> rnd v < f64_limit" by simp
    moreover have "\<not> (texp v + 1074) * 2 ^ 52 + mrnd v < 2047 * 2 ^ 52"
      using 3 mrnd_ge [OF v big] by simp
    ultimately show ?thesis by simp
  qed
qed

lemma f64_round_finite:
  assumes "0 \<le> p" "0 < q" "rnd (of_int p / of_int q * 2 powi e) < f64_limit"
  shows "is_finite (f64_round s p q e)" "fsign (f64_round s p q e) = s"
    "f64_mag (f64_round s p q e) = rnd (of_int p / of_int q * 2 powi e)"
proof -
  let ?v = "real_of_int p / of_int q * 2 powi e"
  have "is_finite (f64_round s p q e) \<and> fsign (f64_round s p q e) = s
    \<and> f64_mag (f64_round s p q e) = rnd ?v"
  proof (cases "p = 0")
    case True
    then show ?thesis by (simp add: f64_round_def is_finite_def f64_mag_def f64_mant_def)
  next
    case False
    with assms have p: "0 < p" by simp
    then have v: "0 < ?v" using assms by simp
    have "is_finite (f64_pack s (texp ?v) (mrnd ?v)) \<and> fsign (f64_pack s (texp ?v) (mrnd ?v)) = s
      \<and> f64_mag (f64_pack s (texp ?v) (mrnd ?v)) = of_int (mrnd ?v) * 2 powi texp ?v"
      using assms(3) v mrnd_nonneg [OF v] mrnd_le [OF v] mrnd_ge [OF v] texp_ge [of ?v]
      by (intro f64_pack_finite) (auto simp only: f64_overflow_iff)
    then show ?thesis using v by (simp add: f64_round_eq [OF p assms(2) refl] rnd_pos_eq)
  qed
  then show "is_finite (f64_round s p q e)" "fsign (f64_round s p q e) = s"
    "f64_mag (f64_round s p q e) = rnd ?v" by auto
qed

lemma f64_round_overflow:
  assumes "0 < p" "0 < q" "f64_limit \<le> rnd (of_int p / of_int q * 2 powi e)"
  shows "f64_round s p q e = f64_inf s"
proof -
  let ?v = "real_of_int p / of_int q * 2 powi e"
  have v: "0 < ?v" using assms by simp
  have "\<not> (texp ?v + 1074) * 2 ^ 52 + mrnd ?v < 2047 * 2 ^ 52"
    using assms(3) by (simp only: f64_overflow_iff [OF v] not_less)
  then show ?thesis by (simp add: f64_round_eq [OF assms(1,2) refl] f64_pack_def Let_def)
qed

subsection \<open>Values of the operations\<close>

lemma not_nan_finite [simp]: "is_finite x \<Longrightarrow> \<not> is_nan x"
  by (simp add: f64_class_defs)

lemma not_inf_finite [simp]: "is_finite x \<Longrightarrow> \<not> is_inf x"
  by (simp add: f64_class_defs)

lemma f64_classes: "is_finite x \<or> is_inf x \<or> is_nan x"
  by (auto simp: f64_class_defs)

lemma valof_round:
  assumes "0 \<le> p" "0 < q" "rnd (of_int p / of_int q * 2 powi e) < f64_limit"
  shows "valof (f64_round s p q e)
    = (if s then - rnd (of_int p / of_int q * 2 powi e) else rnd (of_int p / of_int q * 2 powi e))"
  using f64_round_finite [OF assms, of s] by (simp only: valof_def)

lemma signed_zero [simp]: "valof (Float64 s 0 0) = 0" "is_finite (Float64 s 0 0)"
  by (simp_all add: valof_def f64_mag_def f64_mant_def is_finite_def)

lemma valof_neg [simp]: "valof (f64_neg x) = - valof x"
  by (simp add: valof_def f64_neg_def f64_mag_def f64_mant_def f64_expo_def)

lemma is_finite_neg [simp]: "is_finite (f64_neg x) = is_finite x"
  by (simp add: f64_class_defs f64_neg_def)

lemma valof_uminus [valof_simps]: "valof (- x) = - valof x"
  by (simp add: uminus_float64_def)

lemma is_finite_uminus [simp]: "is_finite (- x) = is_finite x"
  by (simp add: uminus_float64_def)

lemma valof_signed_mant: "valof x = of_int (f64_signed_mant x) * 2 powi f64_expo x"
  by (simp add: valof_def f64_mag_def f64_signed_mant_def)

lemma f64_add_exact:
  fixes x y :: float64
  defines "e \<equiv> min (f64_expo x) (f64_expo y)"
  defines "n \<equiv> f64_signed_mant x * ipow2 (f64_expo x - e) + f64_signed_mant y * ipow2 (f64_expo y - e)"
  shows "valof x + valof y = of_int n * 2 powi e"
proof -
  have "of_int n * 2 powi e = of_int (f64_signed_mant x) * (2 powi (f64_expo x - e) * 2 powi e)
      + of_int (f64_signed_mant y) * ((2::real) powi (f64_expo y - e) * 2 powi e)"
    unfolding n_def by (simp add: ipow2_eq e_def algebra_simps)
  also have "\<dots> = valof x + valof y"
    by (simp add: valof_signed_mant flip: pow2_add)
  finally show ?thesis by simp
qed

lemma add_finite_nonzero:
  assumes x: "is_finite x" "\<not> is_zero x" and y: "is_finite y" "\<not> is_zero y"
    and lim: "\<bar>rnd (valof x + valof y)\<bar> < f64_limit"
  shows "is_finite (x + y) \<and> valof (x + y) = rnd (valof x + valof y)"
proof -
  define e where "e = min (f64_expo x) (f64_expo y)"
  define n where "n = f64_signed_mant x * ipow2 (f64_expo x - e) + f64_signed_mant y * ipow2 (f64_expo y - e)"
  have ex: "valof x + valof y = of_int n * 2 powi e"
    unfolding n_def e_def by (rule f64_add_exact)
  have def: "x + y = (if n = 0 then Float64 False 0 0 else f64_round (n < 0) \<bar>n\<bar> 1 e)"
    using x y by (simp add: plus_float64_def f64_add_def Let_def n_def e_def)
  show ?thesis
  proof (cases "n = 0")
    case True
    then show ?thesis by (simp add: def ex)
  next
    case False
    have abs: "real_of_int \<bar>n\<bar> / of_int 1 * 2 powi e = \<bar>valof x + valof y\<bar>"
      by (simp add: ex abs_mult)
    have lt: "rnd (of_int \<bar>n\<bar> / of_int 1 * 2 powi e) < f64_limit" using lim by (simp only: abs rnd_abs)
    have sgn: "n < 0 \<longleftrightarrow> valof x + valof y < 0" by (simp add: ex mult_less_0_iff)
    have "is_finite (x + y)"
      using f64_round_finite(1) [OF _ _ lt] False by (simp add: def)
    moreover have "valof (x + y) = rnd (valof x + valof y)"
    proof -
      have "valof (x + y) = (if n < 0 then - rnd \<bar>valof x + valof y\<bar> else rnd \<bar>valof x + valof y\<bar>)"
        using valof_round [OF _ _ lt] False by (simp only: def if_False abs)
      then show ?thesis by (simp only: sgn rnd_signed)
    qed
    ultimately show ?thesis ..
  qed
qed

lemma add_zero:
  assumes "is_finite x" "is_finite y"
  shows "is_zero x \<Longrightarrow> \<not> is_zero y \<Longrightarrow> x + y = y"
    and "\<not> is_zero x \<Longrightarrow> is_zero y \<Longrightarrow> x + y = x"
    and "is_zero x \<Longrightarrow> is_zero y \<Longrightarrow> x + y = Float64 (fsign x \<and> fsign y) 0 0"
  using assms by (simp_all add: plus_float64_def f64_add_def)

lemma add_finite:
  assumes x: "is_finite x" and y: "is_finite y" and lim: "\<bar>rnd (valof x + valof y)\<bar> < f64_limit"
  shows "is_finite (x + y)" "valof (x + y) = rnd (valof x + valof y)"
proof -
  have z: "is_zero w \<Longrightarrow> valof w = 0" for w by (simp add: valof_0_iff)
  have "is_finite (x + y) \<and> valof (x + y) = rnd (valof x + valof y)"
    using add_zero [OF x y] add_finite_nonzero [OF x _ y _ lim] x y z [of x] z [of y]
    by (cases "is_zero x"; cases "is_zero y") simp_all
  then show "is_finite (x + y)" "valof (x + y) = rnd (valof x + valof y)" by auto
qed

lemma minus_eq_plus: "x - y = x + (- y)" for x y :: float64
  by (simp add: minus_float64_def plus_float64_def uminus_float64_def)

lemma sub_finite:
  assumes "is_finite x" "is_finite y" "\<bar>rnd (valof x - valof y)\<bar> < f64_limit"
  shows "is_finite (x - y)" "valof (x - y) = rnd (valof x - valof y)"
  using add_finite [of x "- y"] assms by (simp_all add: minus_eq_plus valof_uminus)

lemma mul_finite:
  assumes x: "is_finite x" and y: "is_finite y" and lim: "\<bar>rnd (valof x * valof y)\<bar> < f64_limit"
  shows "is_finite (x * y)" "valof (x * y) = rnd (valof x * valof y)"
    "fsign (x * y) = (fsign x \<noteq> fsign y)"
proof -
  have def: "x * y = f64_round (fsign x \<noteq> fsign y) (f64_mant x * f64_mant y) 1 (f64_expo x + f64_expo y)"
    using x y by (simp add: times_float64_def f64_mul_def)
  have mag: "real_of_int (f64_mant x * f64_mant y) / of_int 1 * 2 powi (f64_expo x + f64_expo y)
      = f64_mag x * f64_mag y"
    by (simp add: f64_mag_def pow2_add)
  have v: "rnd (valof x * valof y) = (if fsign x \<noteq> fsign y then - rnd (f64_mag x * f64_mag y)
      else rnd (f64_mag x * f64_mag y))"
    by (simp add: valof_def)
  have lt: "rnd (real_of_int (f64_mant x * f64_mant y) / of_int 1 * 2 powi (f64_expo x + f64_expo y)) < f64_limit"
    unfolding mag using lim v rnd_nonneg [of "f64_mag x * f64_mag y"] by (simp split: if_splits)
  have nn: "0 \<le> f64_mant x * f64_mant y" by simp
  show "is_finite (x * y)" "fsign (x * y) = (fsign x \<noteq> fsign y)"
    unfolding def using f64_round_finite [OF nn _ lt] by auto
  show "valof (x * y) = rnd (valof x * valof y)"
    unfolding def v using valof_round [OF nn _ lt] by (simp only: mag)
qed

lemma div_finite:
  assumes x: "is_finite x" and y: "is_finite y" and nz: "valof y \<noteq> 0"
    and lim: "\<bar>rnd (valof x / valof y)\<bar> < f64_limit"
  shows "is_finite (x / y)" "valof (x / y) = rnd (valof x / valof y)"
    "fsign (x / y) = (fsign x \<noteq> fsign y)"
proof -
  have y0: "\<not> is_zero y" using nz by (simp add: valof_0_iff)
  then have my: "0 < f64_mant y" using f64_mant_nonneg [of y] is_zero_iff [of y] by linarith
  have def: "x / y = f64_round (fsign x \<noteq> fsign y) (f64_mant x) (f64_mant y) (f64_expo x - f64_expo y)"
    using x y y0 by (simp add: divide_float64_def f64_div_def)
  have mag: "real_of_int (f64_mant x) / of_int (f64_mant y) * 2 powi (f64_expo x - f64_expo y)
      = f64_mag x / f64_mag y"
    by (simp add: f64_mag_def pow2_diff)
  have v: "rnd (valof x / valof y) = (if fsign x \<noteq> fsign y then - rnd (f64_mag x / f64_mag y)
      else rnd (f64_mag x / f64_mag y))"
    by (simp add: valof_def)
  have lt: "rnd (real_of_int (f64_mant x) / of_int (f64_mant y) * 2 powi (f64_expo x - f64_expo y)) < f64_limit"
    unfolding mag using lim v rnd_nonneg [of "f64_mag x / f64_mag y"] by (simp split: if_splits)
  show "is_finite (x / y)" "fsign (x / y) = (fsign x \<noteq> fsign y)"
    unfolding def using f64_round_finite [OF f64_mant_nonneg my lt] by auto
  show "valof (x / y) = rnd (valof x / valof y)"
    unfolding def v using valof_round [OF f64_mant_nonneg my lt] by (simp only: mag)
qed

lemma const_finite:
  assumes "0 < q" "\<bar>rnd (of_int p / of_int q)\<bar> < f64_limit"
  shows "is_finite (f64_const p q)" "valof (f64_const p q) = rnd (of_int p / of_int q)"
proof -
  have r: "rnd (of_int \<bar>p\<bar> / of_int q) = \<bar>rnd (of_int p / of_int q)\<bar>"
  proof (cases "0 \<le> p")
    case True
    then show ?thesis using assms(1) rnd_nonneg [of "of_int p / of_int q"] by simp
  next
    case False
    then have "0 \<le> rnd (- (of_int p / of_int q))" using assms(1)
      by (intro rnd_nonneg) (simp add: divide_le_0_iff)
    with False show ?thesis by simp
  qed
  then have lt: "rnd (of_int \<bar>p\<bar> / of_int q * 2 powi 0) < f64_limit" using assms(2) by simp
  show "is_finite (f64_const p q)"
    unfolding f64_const_def using f64_round_finite(1) [OF _ assms(1) lt] by simp
  show "valof (f64_const p q) = rnd (of_int p / of_int q)"
    unfolding f64_const_def using valof_round [OF _ assms(1) lt, of "p < 0"]
    by (auto simp: abs_if rnd_minus [symmetric] simp del: rnd_minus)
qed

lemma f64_eq_const: "f64 i = f64_const i 1"
  by (simp add: f64_def f64_const_def)

lemma f64_exact:
  assumes "\<bar>i\<bar> \<le> 2 ^ 53"
  shows "is_finite (f64 i)" "valof (f64 i) = of_int i"
proof -
  have r: "rnd (of_int i / of_int 1) = of_int i"
    using representable_int [OF assms] by simp
  have "\<bar>real_of_int i\<bar> \<le> of_int (2 ^ 53)" using assms by (simp only: of_int_abs [symmetric] of_int_le_iff)
  also have "\<dots> = 2 powi 53" by simp
  also have "\<dots> < f64_limit" by (simp only: pow2_less_limit)
  finally have lim: "\<bar>rnd (of_int i / of_int 1)\<bar> < f64_limit" by (simp only: r)
  show "is_finite (f64 i)" "valof (f64 i) = of_int i"
    unfolding f64_eq_const using const_finite [OF _ lim] by (simp_all only: r)
qed

subsection \<open>Comparison\<close>

lemma f64_key_nonneg [simp]: "0 \<le> f64_key x"
  by (simp add: f64_key_def)

lemma f64_key_0_iff: "f64_key x = 0 \<longleftrightarrow> is_zero x"
proof -
  have "f64_key x = 0 \<longleftrightarrow> uint (fexp x) = 0 \<and> uint (ffrac x) = 0"
    unfolding f64_key_def by (subst add_nonneg_eq_0_iff) auto
  then show ?thesis by (simp add: is_zero_def uint_0_iff)
qed

lemma f64_mag_strict_mono:
  assumes "f64_key x < f64_key y"
  shows "f64_mag x < f64_mag y"
proof (cases "fexp x = fexp y")
  case True
  then have "f64_mant x < f64_mant y" "f64_expo x = f64_expo y"
    using assms by (auto simp: f64_key_def f64_mant_def f64_expo_def)
  then show ?thesis by (simp add: f64_mag_def)
next
  case False
  then have ne: "uint (fexp x) \<noteq> uint (fexp y)" by (simp add: word_uint_eq_iff)
  have lt: "uint (fexp x) < uint (fexp y)"
    using assms ne uint52 [of "ffrac x"] uint52 [of "ffrac y"] uint_ge_0 [of "ffrac x"]
      uint_ge_0 [of "ffrac y"] unfolding f64_key_def by (simp; linarith)
  then have y: "fexp y \<noteq> 0" using uint11 [of "fexp x"] by auto
  have my: "2 ^ 52 \<le> f64_mant y" using y by (simp add: f64_mant_def)
  show ?thesis
  proof (cases "fexp x = 0")
    case True
    then have "f64_mant x < 2 ^ 52" using uint52 [of "ffrac x"] by (simp add: f64_mant_def)
    with my have "real_of_int (f64_mant x) < of_int (f64_mant y)" by (simp only: of_int_less_iff)
    moreover have "f64_expo x \<le> f64_expo y" using True f64_expo_ge [of y] by (simp add: f64_expo_def)
    ultimately show ?thesis unfolding f64_mag_def
      by (intro mult_less_le_imp_less) auto
  next
    case False
    then have "f64_expo x + 1 \<le> f64_expo y" using lt y by (simp add: f64_expo_def)
    then have "(2::real) powi (f64_expo x + 1) \<le> 2 powi f64_expo y" by simp
    moreover have "f64_mag x < of_int (2 ^ 52) * 2 powi (f64_expo x + 1)"
    proof -
      have "real_of_int (f64_mant x) < of_int (2 ^ 53)"
        using f64_mant_less [of x] by (simp only: of_int_less_iff)
      then have "f64_mag x < of_int (2 ^ 53) * 2 powi f64_expo x"
        unfolding f64_mag_def by (intro mult_strict_right_mono) auto
      then show ?thesis by (simp add: pow2_add)
    qed
    moreover have "of_int (2 ^ 52) \<le> real_of_int (f64_mant y)" using my by (simp only: of_int_le_iff)
    ultimately have "f64_mag x < of_int (2 ^ 52) * 2 powi f64_expo y"
      by (smt (verit) mult_left_mono of_int_pos zero_less_power)
    also have "\<dots> \<le> f64_mag y"
      unfolding f64_mag_def using \<open>of_int (2 ^ 52) \<le> real_of_int (f64_mant y)\<close>
      by (intro mult_right_mono) auto
    finally show ?thesis .
  qed
qed

lemma f64_key_inject: "f64_key x = f64_key y \<longleftrightarrow> fexp x = fexp y \<and> ffrac x = ffrac y"
proof
  assume eq: "f64_key x = f64_key y"
  have "f64_key z div 2 ^ 52 = uint (fexp z)" "f64_key z mod 2 ^ 52 = uint (ffrac z)" for z
    by (auto simp: f64_key_def)
  with eq have "uint (fexp x) = uint (fexp y)" "uint (ffrac x) = uint (ffrac y)" by metis+
  then show "fexp x = fexp y \<and> ffrac x = ffrac y" by (simp add: word_uint_eq_iff)
qed (simp add: f64_key_def)

lemma f64_mag_key_cong: "f64_key x = f64_key y \<Longrightarrow> f64_mag x = f64_mag y"
  by (simp add: f64_key_inject f64_mag_def f64_mant_def f64_expo_def)

lemma f64_mag_eq_key: "f64_mag x = f64_mag y \<longleftrightarrow> f64_key x = f64_key y"
  using f64_mag_strict_mono [of x y] f64_mag_strict_mono [of y x] f64_mag_key_cong [of x y]
  by (cases "f64_key x" "f64_key y" rule: linorder_cases) auto

lemma f64_mag_less_key: "f64_mag x < f64_mag y \<longleftrightarrow> f64_key x < f64_key y"
  using f64_mag_strict_mono [of x y] f64_mag_strict_mono [of y x] f64_mag_eq_key [of x y]
  by (cases "f64_key x" "f64_key y" rule: linorder_cases) auto

lemma signed_order:
  fixes kx ky :: int and mx my :: real
  assumes "0 \<le> kx" "0 \<le> ky" "0 \<le> mx" "0 \<le> my" "mx < my \<longleftrightarrow> kx < ky" "my < mx \<longleftrightarrow> ky < kx"
    "mx = 0 \<longleftrightarrow> kx = 0" "my = 0 \<longleftrightarrow> ky = 0"
  shows "(if sx then - kx else kx) < (if sy then - ky else ky)
    \<longleftrightarrow> (if sx then - mx else mx) < (if sy then - my else my)"
proof -
  have "- kx < ky \<longleftrightarrow> kx \<noteq> 0 \<or> ky \<noteq> 0" "- mx < my \<longleftrightarrow> mx \<noteq> 0 \<or> my \<noteq> 0"
    "\<not> kx < - ky" "\<not> mx < - my"
    using assms(1-4) by linarith+
  then show ?thesis using assms(5-8) by (cases sx; cases sy; simp)
qed

lemma skey_less_iff: "f64_skey x < f64_skey y \<longleftrightarrow> valof x < valof y"
  unfolding f64_skey_def valof_def
  by (rule signed_order) (simp_all add: f64_mag_less_key f64_mag_0_iff f64_key_0_iff)

lemma skey_le_iff: "f64_skey x \<le> f64_skey y \<longleftrightarrow> valof x \<le> valof y"
  using skey_less_iff [of y x] by (simp only: not_less [symmetric])

lemma less_iff_valof: "is_finite x \<Longrightarrow> is_finite y \<Longrightarrow> x < y \<longleftrightarrow> valof x < valof y"
  by (simp add: less_float64_def f64_lt_def skey_less_iff)

lemma le_iff_valof: "is_finite x \<Longrightarrow> is_finite y \<Longrightarrow> x \<le> y \<longleftrightarrow> valof x \<le> valof y"
  by (simp add: less_eq_float64_def f64_le_def skey_le_iff)

lemma feq_iff_valof: "is_finite x \<Longrightarrow> is_finite y \<Longrightarrow> feq x y \<longleftrightarrow> valof x = valof y"
  unfolding feq_def using skey_le_iff [of x y] skey_le_iff [of y x] by auto

text \<open>A finite float that is not a zero is determined by its value.\<close>

lemma valof_inject:
  assumes "valof x = valof y" "valof x \<noteq> 0"
  shows "x = y"
proof -
  have m: "f64_mag x = f64_mag y" using assms(1) abs_valof [of x] abs_valof [of y] by simp
  then have "fexp x = fexp y" "ffrac x = ffrac y"
    by (simp_all add: f64_mag_eq_key f64_key_inject)
  moreover have "fsign x = fsign y"
    using assms m f64_mag_nonneg [of x] f64_mag_nonneg [of y] unfolding valof_def
    by (cases "fsign x"; cases "fsign y"; simp; linarith?)
  ultimately show ?thesis by (cases x; cases y) simp
qed

lemma valof_inject_pos: "valof x = valof y \<Longrightarrow> 0 < valof x \<Longrightarrow> x = y"
  by (rule valof_inject) auto

lemma is_zero_cases: "is_zero x \<Longrightarrow> x = Float64 (fsign x) 0 0"
  by (cases x) (simp add: is_zero_def)

subsection \<open>Exact cases\<close>

lemma valof_limit [simp]: "is_finite x \<Longrightarrow> \<bar>valof x\<bar> < f64_limit"
  by (simp add: abs_valof f64_mag_less)

lemma valof_0 [simp, valof_simps]: "valof 0 = 0"
  by (simp add: zero_float64_def)

lemma is_finite_0 [simp]: "is_finite 0"
  by (simp add: zero_float64_def)

lemma is_finite_1 [simp]: "is_finite 1"
  by (simp add: one_float64_def is_finite_def)

lemma valof_1 [simp, valof_simps]: "valof 1 = 1"
  by (simp add: one_float64_def valof_def f64_mag_def f64_mant_def f64_expo_def power_int_minus)

lemma f64_limit_pos [simp]: "0 < f64_limit"
  by (simp add: f64_limit_def)

text \<open>An operation whose exact result is itself a float is exact.\<close>

lemma add_exact:
  assumes "is_finite x" "is_finite y" "is_finite z" "valof x + valof y = valof z"
  shows "is_finite (x + y)" "valof (x + y) = valof z"
  using add_finite [OF assms(1,2)] assms(3,4) by simp_all

lemma sub_exact:
  assumes "is_finite x" "is_finite y" "is_finite z" "valof x - valof y = valof z"
  shows "is_finite (x - y)" "valof (x - y) = valof z"
  using sub_finite [OF assms(1,2)] assms(3,4) by simp_all

lemma mul_exact:
  assumes "is_finite x" "is_finite y" "is_finite z" "valof x * valof y = valof z"
  shows "is_finite (x * y)" "valof (x * y) = valof z"
  using mul_finite [OF assms(1,2)] assms(3,4) by simp_all

lemma div_exact:
  assumes "is_finite x" "is_finite y" "is_finite z" "valof y \<noteq> 0" "valof x / valof y = valof z"
  shows "is_finite (x / y)" "valof (x / y) = valof z"
  using div_finite [OF assms(1,2,4)] assms(3,5) by simp_all

lemma mul_1_right: "is_finite x \<Longrightarrow> x * 1 = x"
proof (cases "is_zero x")
  case True
  assume fin: "is_finite x"
  have "Float64 s 0 0 * 1 = Float64 s 0 0" for s
    by (simp add: times_float64_def f64_mul_def one_float64_def f64_class_defs f64_mant_def f64_round_def)
  then show ?thesis using is_zero_cases [OF True] by metis
next
  case False
  assume fin: "is_finite x"
  show ?thesis
    using mul_exact [OF fin is_finite_1 fin] False fin
    by (intro valof_inject) (auto simp: valof_0_iff)
qed

lemma mul_0_right: "is_finite x \<Longrightarrow> \<not> fsign x \<Longrightarrow> x * 0 = 0"
  by (simp add: times_float64_def f64_mul_def zero_float64_def f64_round_def is_nan_def is_inf_def
      f64_mant_def is_finite_def is_zero_def)

lemma sub_0_right: "is_finite x \<Longrightarrow> valof x \<noteq> 0 \<Longrightarrow> x - 0 = x"
  using sub_exact [of x 0 x] by (intro valof_inject) auto

lemma sub_self: "is_finite x \<Longrightarrow> x - x = 0"
proof -
  assume fin: "is_finite x"
  have "f64_signed_mant x * ipow2 0 + f64_signed_mant (f64_neg x) * ipow2 0 = 0"
    by (simp add: f64_signed_mant_def f64_neg_def f64_mant_def ipow2_def)
  moreover have "f64_expo (f64_neg x) = f64_expo x" "fsign (f64_neg x) = (\<not> fsign x)"
    by (simp_all add: f64_expo_def f64_neg_def)
  moreover have "is_zero (f64_neg x) = is_zero x" by (simp add: is_zero_def f64_neg_def)
  ultimately show ?thesis
    using fin by (simp add: minus_float64_def f64_add_def Let_def zero_float64_def)
qed

lemma div_self: "is_finite x \<Longrightarrow> valof x \<noteq> 0 \<Longrightarrow> x / x = 1"
  using div_exact [of x x 1] by (intro valof_inject) auto

lemma div_0_left: "is_finite x \<Longrightarrow> 0 < valof x \<Longrightarrow> 0 / x = 0"
proof -
  assume fin: "is_finite x" and pos: "0 < valof x"
  then have "\<not> fsign x" by (auto simp: valof_def not_less split: if_splits)
  moreover have "\<not> is_zero x" using pos valof_0_iff [of x] by auto
  moreover have "\<not> is_nan (Float64 False 0 0)" "\<not> is_inf (Float64 False 0 0)"
    "f64_mant (Float64 False 0 0) = 0"
    by (simp_all add: f64_class_defs f64_mant_def)
  ultimately show ?thesis using fin
    by (simp add: divide_float64_def f64_div_def zero_float64_def f64_round_def)
qed

lemma add_0_left: "is_finite x \<Longrightarrow> valof x \<noteq> 0 \<Longrightarrow> 0 + x = x"
  using add_exact [of 0 x x] by (intro valof_inject) auto

lemma add_0_right: "is_finite x \<Longrightarrow> valof x \<noteq> 0 \<Longrightarrow> x + 0 = x"
  using add_exact [of x 0 x] by (intro valof_inject) auto

lemma fsign_pos: "0 < valof x \<Longrightarrow> \<not> fsign x"
  using f64_mag_nonneg [of x] by (auto simp: valof_def)

subsection \<open>Bounds carried through the operations\<close>

text \<open>Rounding is monotone, so a bound by representable numbers survives each operation.\<close>

lemma add_bounds:
  assumes "is_finite x" "is_finite y" "is_finite a" "is_finite b"
    "valof a \<le> valof x + valof y" "valof x + valof y \<le> valof b"
  shows "is_finite (x + y)" "valof a \<le> valof (x + y)" "valof (x + y) \<le> valof b"
proof -
  have r: "valof a \<le> rnd (valof x + valof y)" "rnd (valof x + valof y) \<le> valof b"
    using assms by (auto intro: rnd_ge_representable rnd_le_representable)
  then have "\<bar>rnd (valof x + valof y)\<bar> < f64_limit"
    using valof_limit [OF assms(3)] valof_limit [OF assms(4)] by linarith
  then show "is_finite (x + y)" "valof a \<le> valof (x + y)" "valof (x + y) \<le> valof b"
    using add_finite [OF assms(1,2)] r by auto
qed

lemma sub_bounds:
  assumes "is_finite x" "is_finite y" "is_finite a" "is_finite b"
    "valof a \<le> valof x - valof y" "valof x - valof y \<le> valof b"
  shows "is_finite (x - y)" "valof a \<le> valof (x - y)" "valof (x - y) \<le> valof b"
  using add_bounds [of x "- y" a b] assms by (simp_all add: minus_eq_plus valof_uminus)

lemma mul_bounds:
  assumes "is_finite x" "is_finite y" "is_finite a" "is_finite b"
    "valof a \<le> valof x * valof y" "valof x * valof y \<le> valof b"
  shows "is_finite (x * y)" "valof a \<le> valof (x * y)" "valof (x * y) \<le> valof b"
proof -
  have r: "valof a \<le> rnd (valof x * valof y)" "rnd (valof x * valof y) \<le> valof b"
    using assms by (auto intro: rnd_ge_representable rnd_le_representable)
  then have "\<bar>rnd (valof x * valof y)\<bar> < f64_limit"
    using valof_limit [OF assms(3)] valof_limit [OF assms(4)] by linarith
  then show "is_finite (x * y)" "valof a \<le> valof (x * y)" "valof (x * y) \<le> valof b"
    using mul_finite [OF assms(1,2)] r by auto
qed

lemma div_bounds:
  assumes "is_finite x" "is_finite y" "valof y \<noteq> 0" "is_finite a" "is_finite b"
    "valof a \<le> valof x / valof y" "valof x / valof y \<le> valof b"
  shows "is_finite (x / y)" "valof a \<le> valof (x / y)" "valof (x / y) \<le> valof b"
proof -
  have r: "valof a \<le> rnd (valof x / valof y)" "rnd (valof x / valof y) \<le> valof b"
    using assms by (auto intro: rnd_ge_representable rnd_le_representable)
  then have "\<bar>rnd (valof x / valof y)\<bar> < f64_limit"
    using valof_limit [OF assms(4)] valof_limit [OF assms(5)] by linarith
  then show "is_finite (x / y)" "valof a \<le> valof (x / y)" "valof (x / y) \<le> valof b"
    using div_finite [OF assms(1-3)] r by auto
qed

subsection \<open>Commutativity and sums far from overflow\<close>

lemma mul_commute: "x * y = y * x" for x y :: float64
proof -
  have "(fsign x \<noteq> fsign y) = (fsign y \<noteq> fsign x)" by auto
  then show ?thesis unfolding times_float64_def f64_mul_def
    by (simp only: mult.commute [of "f64_mant x"] add.commute [of "f64_expo x"]) auto
qed

lemma mul_1_left: "is_finite x \<Longrightarrow> 1 * x = x"
  by (simp add: mul_commute [of 1] mul_1_right)

lemma mul_0_left: "is_finite x \<Longrightarrow> \<not> fsign x \<Longrightarrow> 0 * x = 0"
  by (simp add: mul_commute [of 0] mul_0_right)

text \<open>\<open>3 * 2 ^ 1022\<close> is representable and below the limit, so what it bounds does not overflow.\<close>

lemma rnd_limit:
  assumes "\<bar>v\<bar> \<le> 3 * 2 powi 1022"
  shows "\<bar>rnd v\<bar> < f64_limit"
proof -
  have r: "representable (3 * 2 powi 1022)"
    unfolding representable_def by (rule exI [of _ 3], rule exI [of _ 1022]) simp
  have "rnd \<bar>v\<bar> \<le> 3 * 2 powi 1022" using assms r by (rule rnd_le_representable)
  also have "\<dots> < 2 powi (1022 + 2)" unfolding pow2_add by simp
  also have "\<dots> = f64_limit" unfolding f64_limit_def by (simp only: arith_simps)
  finally show ?thesis by (simp only: rnd_abs)
qed

lemma half_limit: "f64_limit = 2 * 2 powi 1023"
proof -
  have "(1024::int) = 1 + 1023" by simp
  then show ?thesis unfolding f64_limit_def by (simp only: pow2_add) simp
qed

end
