(* ===== verification/Bits.thy ===== *)
theory Bits
  imports Prelude
begin

unbundle bit_operations_syntax

text \<open>
  The routines of package \<open>math/bits\<close> that the argument reduction of \<open>math\<close> uses, on 64-bit words as the Go code
  has them: full multiplication by 32-bit halves, addition with carry, bit length by table.
\<close>

definition mask32 :: "64 word" where "mask32 = 0xFFFFFFFF"

definition Mul64 :: "64 word \<Rightarrow> 64 word \<Rightarrow> 64 word \<times> 64 word" where
  "Mul64 x y =
     (let x0 = x AND mask32;
          x1 = drop_bit 32 x;
          y0 = y AND mask32;
          y1 = drop_bit 32 y;
          w0 = x0 * y0;
          t = x1 * y0 + drop_bit 32 w0;
          w1 = t AND mask32;
          w2 = drop_bit 32 t;
          w1 = w1 + x0 * y1;
          hi = x1 * y1 + w2 + drop_bit 32 w1;
          lo = x * y
      in (hi, lo))"

definition Add64 :: "64 word \<Rightarrow> 64 word \<Rightarrow> 64 word \<Rightarrow> 64 word \<times> 64 word" where
  "Add64 x y carry =
     (let sum = x + y + carry
      in (sum, drop_bit 63 ((x AND y) OR ((x OR y) AND NOT sum))))"

text \<open>The table \<open>len8tab\<close>: the bit length of each byte.\<close>

definition len8tab :: "nat list" where
  "len8tab = [0] @ replicate 1 1 @ replicate 2 2 @ replicate 4 3 @ replicate 8 4 @ replicate 16 5
     @ replicate 32 6 @ replicate 64 7 @ replicate 128 8"

text \<open>One of the three tests of \<open>Len64\<close>, on the shifted word and the count.\<close>

definition len_step :: "nat \<Rightarrow> 64 word \<times> nat \<Rightarrow> 64 word \<times> nat" where
  "len_step k p = (if 2 ^ k \<le> fst p then (drop_bit k (fst p), snd p + k) else p)"

definition Len64 :: "64 word \<Rightarrow> nat" where
  "Len64 x =
     (let p = len_step 8 (len_step 16 (len_step 32 (x, 0)))
      in snd p + len8tab ! unat (fst p))"

definition LeadingZeros64 :: "64 word \<Rightarrow> nat" where
  "LeadingZeros64 x = 64 - Len64 x"

subsection \<open>Multiplication\<close>

lemma uint_mask32: "uint (x AND mask32) = uint x mod 2 ^ 32"
proof -
  have "x AND mask32 = take_bit 32 x" by (simp add: take_bit_eq_mask mask32_def mask_eq_exp_minus_1)
  then show ?thesis by (metis take_bit_eq_mod unsigned_take_bit_eq)
qed

lemma uint_drop: "uint (drop_bit n x) = uint x div 2 ^ n" for x :: "64 word"
proof -
  have "take_bit LENGTH(64) (uint x) = uint x" using uint_lt2p [of x] by (intro take_bit_int_eq_self) auto
  then show ?thesis unfolding unsigned_drop_bit_eq by (simp only: drop_bit_eq_div)
qed

lemma uint64 [simp]: "0 \<le> uint (x :: 64 word)" "uint (x :: 64 word) < 2 ^ 64"
  using uint_lt2p [of x] by simp_all

lemma uint_mult_small: "uint a < 2 ^ 32 \<Longrightarrow> uint b < 2 ^ 32 \<Longrightarrow> uint (a * b) = uint a * uint b" for a b :: "64 word"
  using mult_strict_mono' [of "uint a" "2 ^ 32" "uint b" "2 ^ 32"] uint_mult_lem [of a b] by simp

lemma uint_add_small: "uint a + uint b < 2 ^ 64 \<Longrightarrow> uint (a + b) = uint a + uint b" for a b :: "64 word"
  using uint_add_lem [of a b] by simp

lemma div_less_int: "0 < k \<Longrightarrow> x < n * k \<Longrightarrow> x div k < n" for x n k :: int
proof -
  assume k: "0 < k" and "x < n * k"
  moreover have "x div k * k \<le> x" using k by (simp add: minus_mod_eq_div_mult [symmetric])
  ultimately have "x div k * k < n * k" by linarith
  then show ?thesis using k by simp
qed

text \<open>The schoolbook product of two numbers of two digits.\<close>

lemma mul_halves:
  fixes x0 x1 y0 y1 B :: int
  assumes "0 < B" "0 \<le> x0" "x0 < B" "0 \<le> x1" "x1 < B" "0 \<le> y0" "y0 < B" "0 \<le> y1" "y1 < B"
  defines "t \<equiv> x1 * y0 + x0 * y0 div B"
  defines "w \<equiv> t mod B + x0 * y1"
  shows "(x1 * B + x0) * (y1 * B + y0) div (B * B) = x1 * y1 + t div B + w div B"
    "t < B * B" "w < B * B" "x1 * y1 + t div B + w div B < B * B" "x0 * y0 < B * B" "x1 * y1 + t div B < B * B"
proof -
  have q: "a * b \<le> (B - 1) * (B - 1)" if "0 \<le> a" "a < B" "0 \<le> b" "b < B" for a b
    using that by (intro mult_mono) auto
  have BB: "(B - 1) * (B - 1) = B * B - 2 * B + 1" by (simp add: algebra_simps)
  show x0y0: "x0 * y0 < B * B" using q [of x0 y0] assms BB by simp
  have "x0 * y0 div B < B" using x0y0 assms(1) by (intro div_less_int)
  then have d: "x0 * y0 div B \<le> B - 1" by simp
  have "0 \<le> x0 * y0 div B" using assms by (simp add: pos_imp_zdiv_nonneg_iff)
  then have t0: "0 \<le> t" using assms by (simp add: t_def)
  have "x1 * y0 \<le> B * B - 2 * B + 1" using q [of x1 y0] assms(4-7) BB by simp
  then show t: "t < B * B" using d assms(1) unfolding t_def by linarith
  have m: "0 \<le> t mod B" "t mod B < B" using assms(1) by simp_all
  have "x0 * y1 \<le> B * B - 2 * B + 1" using q [of x0 y1] assms(2,3,8,9) BB by simp
  then show w: "w < B * B" using m assms(1) unfolding w_def by linarith
  have w0: "0 \<le> w" using m assms by (simp add: w_def)
  define b where "b = x0 * y0 mod B"
  define f where "f = w mod B"
  have e: "(x1 * B + x0) * (y1 * B + y0) = (x1 * y1 + t div B + w div B) * (B * B) + (f * B + b)"
  proof -
    have "x0 * y0 = x0 * y0 div B * B + b" "t = t div B * B + t mod B" "w = w div B * B + f"
      by (simp_all add: b_def f_def)
    then have "(x1 * B + x0) * (y1 * B + y0) = x1 * y1 * (B * B) + (x0 * y1 + t) * B + b"
      unfolding t_def by (simp add: algebra_simps)
    also have "(x0 * y1 + t) * B = (w + t div B * B) * B"
      using \<open>t = t div B * B + t mod B\<close> unfolding w_def by (simp add: algebra_simps)
    also have "\<dots> = (w div B * B + f + t div B * B) * B" using \<open>w = w div B * B + f\<close> by simp
    finally show ?thesis by (simp add: algebra_simps)
  qed
  have fb: "0 \<le> f * B + b" "f * B + b < B * B"
  proof -
    have "0 \<le> f" "f \<le> B - 1" "0 \<le> b" "b < B" using assms(1) by (auto simp: f_def b_def)
    then have "f * B \<le> (B - 1) * B" using assms(1) by (intro mult_right_mono) auto
    then show "0 \<le> f * B + b" "f * B + b < B * B" using \<open>0 \<le> f\<close> \<open>0 \<le> b\<close> \<open>b < B\<close> assms(1) by (auto simp: algebra_simps)
  qed
  then show r: "(x1 * B + x0) * (y1 * B + y0) div (B * B) = x1 * y1 + t div B + w div B"
    unfolding e using assms(1) by simp
  have "(x1 * B + x0) * (y1 * B + y0) < (B * B) * (B * B)"
  proof (rule mult_strict_mono')
    have h: "a * B + c < B * B" if "a < B" "c < B" for a c
      using mult_right_mono [of a "B - 1" B] that assms(1) by (simp add: algebra_simps)
    show "x1 * B + x0 < B * B" "y1 * B + y0 < B * B" using h assms by auto
  qed (use assms in auto)
  then show s: "x1 * y1 + t div B + w div B < B * B"
    unfolding r [symmetric] using assms(1) by (intro div_less_int) auto
  have "0 \<le> w div B" using w0 assms(1) by (simp add: pos_imp_zdiv_nonneg_iff)
  then show "x1 * y1 + t div B < B * B" using s by simp
qed

lemma Mul64_eq:
  "uint (fst (Mul64 x y)) = uint x * uint y div 2 ^ 64" "uint (snd (Mul64 x y)) = uint x * uint y mod 2 ^ 64"
proof -
  let ?B = "2 ^ 32 :: int"
  let ?x0 = "uint x mod ?B" and ?x1 = "uint x div ?B" and ?y0 = "uint y mod ?B" and ?y1 = "uint y div ?B"
  have hi: "uint z div ?B < ?B" for z :: "64 word" using uint64(2) [of z] by (intro div_less_int) simp_all
  have b: "0 < ?B" "0 \<le> ?x0" "?x0 < ?B" "0 \<le> ?x1" "?x1 < ?B" "0 \<le> ?y0" "?y0 < ?B" "0 \<le> ?y1" "?y1 < ?B"
    using hi by (simp_all add: pos_imp_zdiv_nonneg_iff)
  have BB: "?B * ?B = 2 ^ 64" by simp
  note m = mul_halves [OF b, unfolded BB]
  define w0 where "w0 = (x AND mask32) * (y AND mask32)"
  define t where "t = drop_bit 32 x * (y AND mask32) + drop_bit 32 w0"
  define w1 where "w1 = (t AND mask32) + (x AND mask32) * drop_bit 32 y"
  have u: "uint (a AND mask32) < 2 ^ 32" "uint (drop_bit 32 a) < 2 ^ 32" for a :: "64 word"
    using hi by (simp_all add: uint_mask32 uint_drop)
  note p = uint_mult_small [OF u(1) u(1), of x y] uint_mult_small [OF u(2) u(1), of x y]
    uint_mult_small [OF u(1) u(2), of x y] uint_mult_small [OF u(2) u(2), of x y]
  have w0: "uint w0 = ?x0 * ?y0" unfolding w0_def p(1) uint_mask32 ..
  have e: "uint (drop_bit 32 x * (y AND mask32)) + uint (drop_bit 32 w0) = ?x1 * ?y0 + ?x0 * ?y0 div ?B"
    unfolding p uint_drop uint_mask32 w0 ..
  have t: "uint t = ?x1 * ?y0 + ?x0 * ?y0 div ?B"
    unfolding t_def e [symmetric] using m(2) by (intro uint_add_small) (simp only: e)
  have e: "uint (t AND mask32) + uint ((x AND mask32) * drop_bit 32 y) = uint t mod ?B + ?x0 * ?y1"
    unfolding p uint_drop uint_mask32 ..
  have w1: "uint w1 = uint t mod ?B + ?x0 * ?y1"
    unfolding w1_def e [symmetric] using m(3) by (intro uint_add_small) (simp only: e t)
  have e: "uint (drop_bit 32 x * drop_bit 32 y) + uint (drop_bit 32 t) = ?x1 * ?y1 + uint t div ?B"
    unfolding p uint_drop ..
  have s: "uint (drop_bit 32 x * drop_bit 32 y + drop_bit 32 t) = ?x1 * ?y1 + uint t div ?B"
    unfolding e [symmetric] using m(6) by (intro uint_add_small) (simp only: e t)
  have e: "uint (drop_bit 32 x * drop_bit 32 y + drop_bit 32 t) + uint (drop_bit 32 w1)
      = ?x1 * ?y1 + uint t div ?B + uint w1 div ?B"
    unfolding s uint_drop ..
  have "uint (drop_bit 32 x * drop_bit 32 y + drop_bit 32 t + drop_bit 32 w1) = ?x1 * ?y1 + uint t div ?B + uint w1 div ?B"
    unfolding e [symmetric] using m(4) by (intro uint_add_small) (simp only: e t w1)
  moreover have "fst (Mul64 x y) = drop_bit 32 x * drop_bit 32 y + drop_bit 32 t + drop_bit 32 w1"
    by (simp add: Mul64_def Let_def w0_def t_def w1_def)
  moreover have "uint x = ?x1 * ?B + ?x0" "uint y = ?y1 * ?B + ?y0" by simp_all
  ultimately show "uint (fst (Mul64 x y)) = uint x * uint y div 2 ^ 64"
    using m(1) by (simp only: w1 t)
  show "uint (snd (Mul64 x y)) = uint x * uint y mod 2 ^ 64"
    by (simp add: Mul64_def Let_def uint_word_ariths)
qed

text \<open>
  \<open>Mul64\<close>, which works with 32-bit halves on wrapping 64-bit words, returns the two halves of the exact
  128-bit product.
\<close>

theorem Mul64_correct:
  "uint (fst (Mul64 x y)) * 2 ^ 64 + uint (snd (Mul64 x y)) = uint x * uint y"
  unfolding Mul64_eq by simp

subsection \<open>Addition with carry\<close>

lemma carry_bit:
  "bit ((x AND y) OR ((x OR y) AND NOT s)) n \<longleftrightarrow> bit x n \<and> bit y n \<or> (bit x n \<or> bit y n) \<and> \<not> bit s n" if "n < 64"
  for x y s :: "64 word"
  using that by (auto simp: bit_simps)

lemma bit63: "bit x 63 \<longleftrightarrow> 2 ^ 63 \<le> uint x" for x :: "64 word"
proof -
  have "bit x 63 \<longleftrightarrow> odd (uint x div 2 ^ 63)" 
    unfolding bit_iff_odd [symmetric] by (simp add: bit_uint_iff)
  moreover have "uint x div 2 ^ 63 < 2" by (rule div_less_int) (use uint64(2) [of x] in simp_all)
  moreover have "0 \<le> uint x div 2 ^ 63" by (simp add: pos_imp_zdiv_nonneg_iff)
  moreover have "q = 0 \<or> q = 1" if "q < 2" "0 \<le> q" for q :: int using that by linarith
  ultimately have "bit x 63 \<longleftrightarrow> uint x div 2 ^ 63 = 1" by fastforce
  also have "\<dots> \<longleftrightarrow> 2 ^ 63 \<le> uint x" using uint64(2) [of x] by auto
  finally show ?thesis .
qed

lemma drop63: "drop_bit 63 x = (if bit x 63 then 1 else 0)" for x :: "64 word"
proof -
  have "uint (drop_bit 63 x) = uint x div 2 ^ 63" by (rule uint_drop)
  moreover have "uint x div 2 ^ 63 = (if bit x 63 then 1 else 0)"
    unfolding bit63 using uint64(2) [of x] by auto
  ultimately show ?thesis by (auto simp: word_uint_eq_iff)
qed

lemma carry_int:
  fixes x y c s :: int
  assumes "0 \<le> x" "x < 2 ^ 64" "0 \<le> y" "y < 2 ^ 64" "0 \<le> c" "c \<le> 1"
    "s = (if x + y + c < 2 ^ 64 then x + y + c else x + y + c - 2 ^ 64)"
  shows "(2 ^ 63 \<le> x \<and> 2 ^ 63 \<le> y \<or> (2 ^ 63 \<le> x \<or> 2 ^ 63 \<le> y) \<and> \<not> 2 ^ 63 \<le> s) \<longleftrightarrow> 2 ^ 64 \<le> x + y + c"
  using assms by auto

lemma Add64_exact:
  assumes "uint carry \<le> 1"
  shows "uint (snd (Add64 x y carry)) * 2 ^ 64 + uint (fst (Add64 x y carry)) = uint x + uint y + uint carry"
proof -
  define s where "s = x + y + carry"
  let ?t = "uint x + uint y + uint carry"
  have "uint s = ?t mod 2 ^ 64" by (simp add: s_def uint_word_ariths mod_simps)
  then have s: "uint s = (if ?t < 2 ^ 64 then ?t else ?t - 2 ^ 64)"
  proof (cases "?t < 2 ^ 64")
    case True
    then show ?thesis using \<open>uint s = ?t mod 2 ^ 64\<close> by (simp add: mod_pos_pos_trivial)
  next
    case False
    have "?t mod 2 ^ 64 = (?t - 2 ^ 64) mod 2 ^ 64" by (simp only: minus_mod_self2)
    also have "\<dots> = ?t - 2 ^ 64"
      using False uint64(2) [of x] uint64(2) [of y] assms by (intro mod_pos_pos_trivial) linarith+
    finally show ?thesis using \<open>uint s = ?t mod 2 ^ 64\<close> False by simp
  qed
  have k: "bit ((x AND y) OR ((x OR y) AND NOT s)) 63
      \<longleftrightarrow> 2 ^ 63 \<le> uint x \<and> 2 ^ 63 \<le> uint y \<or> (2 ^ 63 \<le> uint x \<or> 2 ^ 63 \<le> uint y) \<and> \<not> 2 ^ 63 \<le> uint s"
    unfolding bit63 [symmetric] by (rule carry_bit) simp
  have c: "uint (snd (Add64 x y carry)) = (if 2 ^ 64 \<le> ?t then 1 else 0)"
    unfolding Add64_def Let_def snd_conv drop63 s_def [symmetric] k
    using carry_int [OF uint64 uint64 uint64(1) assms s] by auto
  have "fst (Add64 x y carry) = s" by (simp add: Add64_def s_def Let_def)
  then show ?thesis using s c by (auto split: if_splits)
qed

text \<open>
  \<open>Add64\<close> with a carry of 0 or 1 returns the exact sum: its carry bit, computed from the sign bits only, is the
  overflow.
\<close>

theorem Add64_correct:
  assumes "uint carry \<le> 1"
  shows "uint (snd (Add64 x y carry)) * 2 ^ 64 + uint (fst (Add64 x y carry)) = uint x + uint y + uint carry
    \<and> uint (snd (Add64 x y carry)) \<le> 1"
proof
  show e: "uint (snd (Add64 x y carry)) * 2 ^ 64 + uint (fst (Add64 x y carry)) = uint x + uint y + uint carry"
    by (rule Add64_exact [OF assms])
  show "uint (snd (Add64 x y carry)) \<le> 1" by (simp add: Add64_def Let_def drop63)
qed

theorem Add64_correct_witness:
  "uint (1 :: 64 word) \<le> 1 \<and> uint (snd (Add64 (2 ^ 64 - 1) 0 1)) * 2 ^ 64 + uint (fst (Add64 (2 ^ 64 - 1) 0 1)) = 2 ^ 64"
  using Add64_correct [of 1 "2 ^ 64 - 1" 0] by simp

subsection \<open>Bit length\<close>

lemma len8tab_bitlen: "n < 256 \<Longrightarrow> int (len8tab ! n) = bitlen (int n)"
proof -
  have "\<forall>n \<in> set [0..<256]. int (len8tab ! n) = bitlen (int n)" by code_simp
  then show "n < 256 \<Longrightarrow> int (len8tab ! n) = bitlen (int n)" by simp
qed

lemma bitlen_shift: "2 ^ n \<le> x \<Longrightarrow> bitlen x = bitlen (x div 2 ^ n) + int n"
proof (induction n)
  case 0
  then show ?case by simp
next
  case (Suc n)
  have "(0::int) < 2 ^ n" by simp
  then have le: "2 ^ n \<le> x" using Suc.prems unfolding power_Suc by linarith
  have "(2::int) ^ Suc n div 2 ^ n \<le> x div 2 ^ n" using Suc.prems by (rule zdiv_mono1) simp
  then have "0 < x div 2 ^ n" by simp
  then have "bitlen (x div 2 ^ n) = bitlen (x div 2 ^ n div 2) + 1" by (subst compute_bitlen) simp
  also have "x div 2 ^ n div 2 = x div 2 ^ Suc n" by (simp add: zdiv_zmult2_eq [symmetric] mult.commute)
  finally show ?case using Suc.IH [OF le] by simp
qed

lemma len_step_bitlen:
  assumes "n < 64" "uint (fst p) < 2 ^ (n + n)"
  shows "bitlen (uint (fst (len_step n p))) + int (snd (len_step n p)) = bitlen (uint (fst p)) + int (snd p)"
    "uint (fst (len_step n p)) < 2 ^ n"
proof -
  have "(0 :: 64 word) < 2 ^ n" using assms(1) by (simp add: word_gt_0)
  then have "uint (2 ^ n :: 64 word) = 2 ^ n" by (rule uint_2p)
  then have le: "2 ^ n \<le> fst p \<longleftrightarrow> 2 ^ n \<le> uint (fst p)" by (simp add: word_le_def)
  have "uint (fst p) div 2 ^ n < 2 ^ n" using assms(2) by (intro div_less_int) (simp_all add: power_add)
  then show "bitlen (uint (fst (len_step n p))) + int (snd (len_step n p)) = bitlen (uint (fst p)) + int (snd p)"
    "uint (fst (len_step n p)) < 2 ^ n"
    using bitlen_shift [of n "uint (fst p)"] by (auto simp: len_step_def le uint_drop)
qed

text \<open>
  \<open>Len64\<close>, a binary search over the word followed by a table lookup, is the bit length of the number.
\<close>

theorem Len64_correct: "int (Len64 x) = bitlen (uint x)"
proof -
  define a where "a = len_step 32 (x, 0)"
  define b where "b = len_step 16 a"
  define c where "c = len_step 8 b"
  have n: "(16::nat) < 64" "(8::nat) < 64" "(2::int) ^ 8 = 256" by simp_all
  have a: "bitlen (uint (fst a)) + int (snd a) = bitlen (uint x)" "uint (fst a) < 2 ^ (16 + 16)"
    using len_step_bitlen [of 32 "(x, 0)"] uint64(2) [of x] by (simp_all add: a_def)
  have b: "bitlen (uint (fst b)) + int (snd b) = bitlen (uint x)" "uint (fst b) < 2 ^ (8 + 8)"
    using len_step_bitlen [OF n(1) a(2)] a(1) unfolding b_def by (simp_all only: arith_simps)
  have c: "bitlen (uint (fst c)) + int (snd c) = bitlen (uint x)" "uint (fst c) < 256"
    using len_step_bitlen [OF n(2) b(2)] b(1) unfolding c_def by (simp_all only: n)
  have "unat (fst c) < 256" using c(2) uint_nat [of "fst c"] by linarith
  then have "int (len8tab ! unat (fst c)) = bitlen (uint (fst c))" unfolding uint_nat by (rule len8tab_bitlen)
  moreover have "Len64 x = snd c + len8tab ! unat (fst c)" by (simp add: Len64_def a_def b_def c_def Let_def)
  ultimately show ?thesis using c(1) by simp
qed

end
