(* ===== verification/Go_Math.thy ===== *)
theory Go_Math
  imports Float64_Real Bits
begin

unbundle bit_operations_syntax

text \<open>
  The parts of Go's package \<open>math\<close> the program calls: \<open>IsNaN\<close>, \<open>IsInf\<close>, \<open>Abs\<close>, \<open>Max\<close>, \<open>Sin\<close>
  and \<open>Cos\<close>, with the range reductions and coefficient tables of the last two. The definitions
  follow the portable Go bodies; the assembly stub of \<open>Max\<close> on some platforms computes the same
  function. A product followed by a sum is two rounded operations, as on amd64.

  Constant expressions such as \<open>4 / Pi\<close> are exact in Go until they are converted, so they are
  written as one rational constant. The lemmas \<open>*_bits\<close> give the encodings of the constants; they
  are the code equations, and for the tables they agree with the hexadecimal comments in the source.
\<close>

subsection \<open>Constants\<close>

definition Pi_num :: int where
  "Pi_num = 314159265358979323846264338327950288419716939937510582097494459"

definition Pi_den :: int where
  "Pi_den = 10 ^ 62"

definition math_Pi :: float64 where "math_Pi = f64_const Pi_num Pi_den"

definition four_over_Pi :: float64 where "four_over_Pi = f64_const (4 * Pi_den) Pi_num"

definition half_f :: float64 where "half_f = f64_const 1 2"

definition MaxFloat64 :: float64 where "MaxFloat64 = Float64 False 2046 0xFFFFFFFFFFFFF"

lemma math_Pi_bits [code]: "math_Pi = Float64 False 1024 0x921fb54442d18"
  by code_simp

lemma four_over_Pi_bits [code]: "four_over_Pi = Float64 False 1023 0x45f306dc9c883"
  by code_simp

lemma half_f_bits [code]: "half_f = Float64 False 1022 0"
  by code_simp

subsection \<open>Classification, absolute value, maximum\<close>

definition math_NaN :: float64 where
  "math_NaN = Float64 False 2047 0x8000000000001"

definition math_Inf :: "int \<Rightarrow> float64" where
  "math_Inf sign = (if sign \<ge> 0 then f64_inf False else f64_inf True)"

definition math_IsNaN :: "float64 \<Rightarrow> bool" where
  "math_IsNaN f \<longleftrightarrow> \<not> feq f f"

definition math_IsInf :: "float64 \<Rightarrow> int \<Rightarrow> bool" where
  "math_IsInf f sign \<longleftrightarrow> sign \<ge> 0 \<and> MaxFloat64 < f \<or> sign \<le> 0 \<and> f < - MaxFloat64"

definition math_Signbit :: "float64 \<Rightarrow> bool" where
  "math_Signbit x \<longleftrightarrow> fsign x"

definition math_Abs :: "float64 \<Rightarrow> float64" where
  "math_Abs x = Float64 False (fexp x) (ffrac x)"

definition math_Max :: "float64 \<Rightarrow> float64 \<Rightarrow> float64" where
  "math_Max x y =
     (if math_IsInf x 1 \<or> math_IsInf y 1 then math_Inf 1
      else if math_IsNaN x \<or> math_IsNaN y then math_NaN
      else if feq x 0 \<and> feq x y then (if math_Signbit x then y else x)
      else if y < x then x
      else y)"

subsection \<open>Encodings and integer conversion\<close>

definition Float64bits :: "float64 \<Rightarrow> 64 word" where
  "Float64bits x = of_int ((if fsign x then 2 ^ 63 else 0) + uint (fexp x) * 2 ^ 52 + uint (ffrac x))"

definition Float64frombits :: "64 word \<Rightarrow> float64" where
  "Float64frombits b =
     Float64 (bit b 63) (of_int (uint b div 2 ^ 52 mod 2 ^ 11)) (of_int (uint b mod 2 ^ 52))"

text \<open>Go's conversion \<open>uint64(x)\<close>, which drops the fraction; the program only uses it on
  values below \<open>2 ^ 30\<close>.\<close>

definition f64_to_uint64 :: "float64 \<Rightarrow> 64 word" where
  "f64_to_uint64 x =
     (let m = (if 0 \<le> f64_expo x then f64_mant x * ipow2 (f64_expo x)
               else f64_mant x div ipow2 (- f64_expo x))
      in of_int (if fsign x then - m else m))"

lemmas math_pattern_code [code] =
  math_Abs_def [of "Float64 s e f" for s e f]
  math_Max_def [of "Float64 s e f" "Float64 s' e' f'" for s e f s' e' f']
  math_Signbit_def [of "Float64 s e f" for s e f]
  Float64bits_def [of "Float64 s e f" for s e f]
  f64_to_uint64_def [of "Float64 s e f" for s e f]

subsection \<open>Payne-Hanek reduction\<close>

definition mPi4 :: "64 word list" where
  "mPi4 =
     [0x0000000000000001,
      0x45f306dc9c882a53,
      0xf84eafa3ea69bb81,
      0xb6c52b3278872083,
      0xfca2c757bd778ac3,
      0x6e48dc74849ba5c0,
      0x0c925dd413a32439,
      0xfc3bd63962534e7d,
      0xd1046bea5d768909,
      0xd338e04d68befc82,
      0x7323ac7306a673e9,
      0x3908bf177bf25076,
      0x3ff12fffbc0b301f,
      0xde5e2316b414da3e,
      0xda6cfd9e4f96136e,
      0x9e8c7ecd3cbfd45a,
      0xea4f758fd7cbe2f6,
      0x7a0e73ef14a525d4,
      0xd7f6bf623f1aba10,
      0xac06608df8f6d757]"

text \<open>Shifts by 64 or more give 0, as in Go.\<close>

definition trigReduce :: "float64 \<Rightarrow> 64 word \<times> float64" where
  "trigReduce x =
     (let PI4 = f64_const Pi_num (4 * Pi_den) in
      if x < PI4 then (0, x)
      else
        let ix0 = Float64bits x;
            expn = sint (drop_bit 52 ix0 AND 0x7FF) - 1023 - 52;
            ix = (ix0 AND NOT (push_bit 52 0x7FF)) OR push_bit 52 1;
            digit = nat ((expn + 61) div 64);
            bitshift = nat ((expn + 61) mod 64);
            z0 = push_bit bitshift (mPi4 ! digit) OR drop_bit (64 - bitshift) (mPi4 ! (digit + 1));
            z1 = push_bit bitshift (mPi4 ! (digit + 1)) OR drop_bit (64 - bitshift) (mPi4 ! (digit + 2));
            z2 = push_bit bitshift (mPi4 ! (digit + 2)) OR drop_bit (64 - bitshift) (mPi4 ! (digit + 3));
            z2hi = fst (Mul64 z2 ix);
            (z1hi, z1lo) = Mul64 z1 ix;
            z0lo = z0 * ix;
            (lo, c) = Add64 z1lo z2hi 0;
            hi = fst (Add64 z0lo z1hi c);
            j = drop_bit 61 hi;
            hi = push_bit 3 hi OR drop_bit 61 lo;
            lz = LeadingZeros64 hi;
            e = of_nat (1023 - (lz + 1)) :: 64 word;
            hi = push_bit (lz + 1) hi OR drop_bit (64 - (lz + 1)) lo;
            hi = drop_bit (64 - 52) hi;
            hi = hi OR push_bit 52 e;
            z = Float64frombits hi;
            (j, z) = (if j AND 1 = 1 then ((j + 1) AND 7, z - 1) else (j, z))
        in (j, z * PI4))"

subsection \<open>Sine and cosine\<close>

definition sin_coef :: "float64 list" where
  "sin_coef =
     [f64_const 158962301576546568060 (10 ^ 30),
      f64_const (-250507477628578072866) (10 ^ 28),
      f64_const 275573136213857245213 (10 ^ 26),
      f64_const (-198412698295895385996) (10 ^ 24),
      f64_const 833333333332211858878 (10 ^ 23),
      f64_const (-166666666666666307295) (10 ^ 21)]"

definition cos_coef :: "float64 list" where
  "cos_coef =
     [f64_const (-113585365213876817300) (10 ^ 31),
      f64_const 208757008419747316778 (10 ^ 29),
      f64_const (-275573141792967388112) (10 ^ 27),
      f64_const 248015872888517045348 (10 ^ 25),
      f64_const (-138888888888730564116) (10 ^ 23),
      f64_const 416666666666665929218 (10 ^ 22)]"

definition PI4A :: float64 where "PI4A = f64_const 785398125648498535156 (10 ^ 21)"

definition PI4B :: float64 where "PI4B = f64_const 377489470793079817668 (10 ^ 28)"

definition PI4C :: float64 where "PI4C = f64_const 269515142907905952645 (10 ^ 35)"

definition reduceThreshold :: float64 where "reduceThreshold = f64 (2 ^ 29)"

lemma sin_coef_bits [code]:
  "sin_coef =
     [Float64 False 990 1645956555709645,
      Float64 True 997 3067524315422557,
      Float64 False 1004 2003187082807457,
      Float64 True 1010 2816536905506563,
      Float64 False 1016 300239975151568,
      Float64 True 1020 1501199875790152]"
  by code_simp

lemma cos_coef_bits [code]:
  "cos_coef =
     [Float64 True 986 2526993946385051,
      Float64 False 994 543835122712325,
      Float64 True 1001 701829846158278,
      Float64 False 1007 2816536906056949,
      Float64 True 1013 1901519842660241,
      Float64 False 1018 1501199875790155]"
  by code_simp

lemma PI4A_bits [code]: "PI4A = Float64 False 1022 0x921fb40000000"
  by code_simp

lemma PI4B_bits [code]: "PI4B = Float64 False 998 0x4442d00000000"
  by code_simp

lemma PI4C_bits [code]: "PI4C = Float64 False 974 0x8469898cc5170"
  by code_simp

lemma reduceThreshold_bits [code]: "reduceThreshold = Float64 False 1052 0"
  by code_simp

text \<open>The two polynomials, as both functions write them out.\<close>

definition sin_poly :: "float64 \<Rightarrow> float64 \<Rightarrow> float64" where
  "sin_poly z zz = z + z * zz * ((((((sin_coef ! 0 * zz) + sin_coef ! 1) * zz + sin_coef ! 2) * zz
       + sin_coef ! 3) * zz + sin_coef ! 4) * zz + sin_coef ! 5)"

definition cos_poly :: "float64 \<Rightarrow> float64" where
  "cos_poly zz = 1 - half_f * zz + zz * zz * ((((((cos_coef ! 0 * zz) + cos_coef ! 1) * zz + cos_coef ! 2) * zz
       + cos_coef ! 3) * zz + cos_coef ! 4) * zz + cos_coef ! 5)"

text \<open>The octant and the reduced argument for \<open>x \<ge> 0\<close>.\<close>

definition trig_octant :: "float64 \<Rightarrow> 64 word \<times> float64" where
  "trig_octant x =
     (if reduceThreshold \<le> x then trigReduce x
      else
        let j = f64_to_uint64 (x * four_over_Pi);
            y = f64 (uint j);
            (j, y) = (if j AND 1 = 1 then (j + 1, y + 1) else (j, y));
            j = j AND 7
        in (j, ((x - y * PI4A) - y * PI4B) - y * PI4C))"

definition math_Cos :: "float64 \<Rightarrow> float64" where
  "math_Cos x =
     (if math_IsNaN x \<or> math_IsInf x 0 then math_NaN
      else
        let (j, z) = trig_octant (math_Abs x);
            (j, sign) = (if j > 3 then (j - 4, True) else (j, False));
            sign = (if j > 1 then \<not> sign else sign);
            zz = z * z;
            y = (if j = 1 \<or> j = 2 then sin_poly z zz else cos_poly zz)
        in if sign then - y else y)"

definition math_Sin :: "float64 \<Rightarrow> float64" where
  "math_Sin x =
     (if feq x 0 \<or> math_IsNaN x then x
      else if math_IsInf x 0 then math_NaN
      else
        let (x, sign) = (if x < 0 then (- x, True) else (x, False));
            (j, z) = trig_octant x;
            (j, sign) = (if j > 3 then (j - 4, \<not> sign) else (j, sign));
            zz = z * z;
            y = (if j = 1 \<or> j = 2 then cos_poly zz else sin_poly z zz)
        in if sign then - y else y)"

lemmas trig_pattern_code [code] =
  sin_poly_def [of "Float64 s e f" "Float64 s' e' f'" for s e f s' e' f']
  cos_poly_def [of "Float64 s e f" for s e f]
  trigReduce_def [of "Float64 s e f" for s e f]
  trig_octant_def [of "Float64 s e f" for s e f]
  math_Cos_def [of "Float64 s e f" for s e f]
  math_Sin_def [of "Float64 s e f" for s e f]

subsection \<open>Facts about the classifiers\<close>

lemma math_IsNaN_iff [simp]: "math_IsNaN x \<longleftrightarrow> is_nan x"
  by (simp add: math_IsNaN_def feq_def)

lemma is_inf_key: "\<not> is_nan x \<Longrightarrow> is_inf x \<longleftrightarrow> 2047 * 2 ^ 52 - 1 < f64_key x"
proof -
  assume nn: "\<not> is_nan x"
  have e: "fexp x = 2047 \<longleftrightarrow> uint (fexp x) = 2047"
    using is_finite_uint [of x] by (auto simp: is_finite_def)
  show ?thesis
  proof (cases "fexp x = 2047")
    case True
    with nn have "is_inf x" by (auto simp: f64_class_defs)
    with True e show ?thesis using uint_ge_0 [of "ffrac x"] by (simp add: f64_key_def; linarith)
  next
    case False
    then have "uint (fexp x) \<le> 2046" using uint11 [of "fexp x"] e by linarith
    then have "f64_key x \<le> 2047 * 2 ^ 52 - 1"
      using uint52 [of "ffrac x"] unfolding f64_key_def by (simp; linarith)
    with False show ?thesis by (simp add: is_inf_def)
  qed
qed

lemma MaxFloat64_skey: "f64_skey MaxFloat64 = 2047 * 2 ^ 52 - 1"
  "f64_skey (- MaxFloat64) = - (2047 * 2 ^ 52 - 1)" "\<not> is_nan MaxFloat64" "\<not> is_nan (- MaxFloat64)"
  by code_simp+

lemma math_IsInf_iff [simp]: "math_IsInf x 0 \<longleftrightarrow> is_inf x"
proof (cases "is_nan x")
  case True
  then show ?thesis
    by (auto simp: math_IsInf_def less_float64_def f64_lt_def f64_class_defs)
next
  case False
  then have "math_IsInf x 0 \<longleftrightarrow> 2047 * 2 ^ 52 - 1 < f64_skey x \<or> f64_skey x < - (2047 * 2 ^ 52 - 1)"
    by (simp add: math_IsInf_def less_float64_def f64_lt_def MaxFloat64_skey)
  also have "\<dots> \<longleftrightarrow> 2047 * 2 ^ 52 - 1 < f64_key x"
  proof -
    have "(M < (if s then - k else k) \<or> (if s then - k else k) < - M) \<longleftrightarrow> M < k"
      if "0 \<le> k" "0 \<le> M" for k M :: int and s using that by auto
    then show ?thesis unfolding f64_skey_def by simp
  qed
  finally show ?thesis using is_inf_key [OF False] by simp
qed

lemma math_IsInf_pos: "math_IsInf x 1 \<Longrightarrow> is_inf x"
proof -
  assume "math_IsInf x 1"
  then have "math_IsInf x 0" by (simp add: math_IsInf_def)
  then show ?thesis by simp
qed

lemma is_finite_Abs [simp]: "is_finite (math_Abs x) = is_finite x"
  by (simp add: math_Abs_def is_finite_def)

lemma valof_Abs [simp, valof_simps]: "valof (math_Abs x) = \<bar>valof x\<bar>"
  by (simp add: abs_valof math_Abs_def valof_def f64_mag_def f64_mant_def f64_expo_def)

lemma Abs_0 [simp]: "math_Abs 0 = 0"
  by (simp add: math_Abs_def zero_float64_def)

lemma math_Max_finite:
  assumes "is_finite x" "is_finite y"
  shows "is_finite (math_Max x y)" "valof (math_Max x y) = max (valof x) (valof y)"
proof -
  have ni: "\<not> math_IsInf x 1" "\<not> math_IsInf y 1" using assms math_IsInf_pos [of x] math_IsInf_pos [of y] by auto
  show "is_finite (math_Max x y)" "valof (math_Max x y) = max (valof x) (valof y)"
    using assms ni by (auto simp: math_Max_def less_iff_valof feq_iff_valof)
qed

subsection \<open>Positive numbers\<close>

definition pos_finite :: "float64 \<Rightarrow> bool" where
  "pos_finite x \<longleftrightarrow> is_finite x \<and> 0 < valof x"

lemma pos_finiteD: "pos_finite x \<Longrightarrow> is_finite x" "pos_finite x \<Longrightarrow> 0 < valof x"
  "pos_finite x \<Longrightarrow> valof x \<noteq> 0" "pos_finite x \<Longrightarrow> \<not> fsign x"
  by (auto simp: pos_finite_def fsign_pos)

end
