(* ===== verification/Errors.thy ===== *)
theory Errors
  imports Float64
begin

text \<open>
  The errors of the Go code as values: one constructor per \<open>errors.New\<close> or \<open>fmt.Errorf\<close> of the
  program, with the parameters the message carries. An error made with \<open>%w\<close> holds the error it
  wraps. The Chinese message texts are not modelled; the constructor stands for the text.
  \<open>Index_Panic\<close> is the run-time panic of an index out of range and \<open>Json_Panic\<close> the panic of the JSON decoder on
  data that its scanner did not check; neither is an error value in Go.
\<close>

datatype angle_name = Rise_Angle | Return_Angle | Outer_Dwell | Inner_Dwell

datatype record_kind = Recipe_Kind | Cycle_Kind

datatype io_op = Write_Op | Rename_Op | Mkdir_Op

datatype go_error =
    ErrUnknownLaw
  | H_Not_Positive
  | Beta_Not_Positive
  | Beta_Full_Turn float64
  | Omega_Not_Positive
  | Too_Many_Points
  | Rise_Law_Invalid go_error
  | Return_Law_Invalid go_error
  | Angle_Not_Positive angle_name
  | Angle_Full_Turn angle_name
  | Angle_Negative angle_name
  | Angle_Sum float64
  | Theta_Out_Of_Range
  | Unknown_Segment string
  | Index_Panic
  | Name_Blank_Record record_kind
  | Name_Blank
  | Name_Bad_Chars
  | Name_Illegal
  | ErrNotFound
  | Not_Found record_kind string go_error
  | ErrNotExist
  | Os_Error
  | Bad_Pattern
  | Json_Invalid_Char char string
  | Json_Unexpected_End
  | Json_Type_Mismatch string
  | Json_Unknown_Field string
  | Json_Unsupported_Value float64
  | Json_Panic
  | Io_EOF
  | Io_UnexpectedEOF
  | Parse_Syntax
  | Parse_Range
  | Parse_Bad_Base
  | Parse_Bad_Bit_Size
  | Json_Parse string go_error
  | Io_Failed io_op string go_error
  | Recipe_With_Params
  | Params_Missing

text \<open>\<open>errors.Unwrap\<close> and \<open>errors.Is\<close>: the chain of wrapped errors is searched for the target.\<close>

fun errors_Unwrap :: "go_error \<Rightarrow> go_error option" where
  "errors_Unwrap (Rise_Law_Invalid e) = Some e"
| "errors_Unwrap (Return_Law_Invalid e) = Some e"
| "errors_Unwrap (Not_Found k n e) = Some e"
| "errors_Unwrap (Json_Parse f e) = Some e"
| "errors_Unwrap (Io_Failed p f e) = Some e"
| "errors_Unwrap _ = None"

fun errors_Is :: "go_error \<Rightarrow> go_error \<Rightarrow> bool" where
  "errors_Is (Rise_Law_Invalid e) t = (Rise_Law_Invalid e = t \<or> errors_Is e t)"
| "errors_Is (Return_Law_Invalid e) t = (Return_Law_Invalid e = t \<or> errors_Is e t)"
| "errors_Is (Not_Found k n e) t = (Not_Found k n e = t \<or> errors_Is e t)"
| "errors_Is (Json_Parse f e) t = (Json_Parse f e = t \<or> errors_Is e t)"
| "errors_Is (Io_Failed p f e) t = (Io_Failed p f e = t \<or> errors_Is e t)"
| "errors_Is e t = (e = t)"

lemma errors_Is_unfold:
  "errors_Is e t \<longleftrightarrow> e = t \<or> (\<exists>e'. errors_Unwrap e = Some e' \<and> errors_Is e' t)"
  by (cases e) auto

end
