(* ===== verification/Law.thy ===== *)
theory Law
  imports Go_Math Errors
begin

text \<open>
  Package \<open>law\<close> (\<open>internal/law/law.go\<close>): the three dimensionless motion laws, the displacement
  and its first three derivatives at a dimensionless time, with one-sided evaluation at the
  switch point of the parabolic law, and the closed-form peaks.
\<close>

definition Cosine :: string where "Cosine = ''cosine''"

definition Cycloid :: string where "Cycloid = ''cycloid''"

definition Parabolic :: string where "Parabolic = ''parabolic''"

lemmas law_names = Cosine_def Cycloid_def Parabolic_def

definition Known :: "string \<Rightarrow> bool" where
  "Known t \<longleftrightarrow> t = Cosine \<or> t = Cycloid \<or> t = Parabolic"

record law_values =
  val_Y :: float64
  val_Y1 :: float64
  val_Y2 :: float64
  val_Y3 :: float64

record law_peaks =
  peak_V1 :: float64
  peak_V2 :: float64
  peak_V3 :: float64

subsection \<open>Constant expressions\<close>

definition Pi_half :: float64 where "Pi_half = f64_const Pi_num (2 * Pi_den)"

definition Pi2_half :: float64 where
  "Pi2_half = f64_const (Pi_num * Pi_num) (2 * Pi_den * Pi_den)"

definition Pi3_half :: float64 where
  "Pi3_half = f64_const (Pi_num * Pi_num * Pi_num) (2 * Pi_den * Pi_den * Pi_den)"

definition two_Pi :: float64 where "two_Pi = f64_const (2 * Pi_num) Pi_den"

definition four_Pi2 :: float64 where
  "four_Pi2 = f64_const (4 * Pi_num * Pi_num) (Pi_den * Pi_den)"

lemma Pi_half_bits [code]: "Pi_half = Float64 False 1023 0x921fb54442d18"
  by code_simp

lemma Pi2_half_bits [code]: "Pi2_half = Float64 False 1025 0x3bd3cc9be45de"
  by code_simp

lemma Pi3_half_bits [code]: "Pi3_half = Float64 False 1026 0xf019b59389d7c"
  by code_simp

lemma two_Pi_bits [code]: "two_Pi = Float64 False 1025 0x921fb54442d18"
  by code_simp

lemma four_Pi2_bits [code]: "four_Pi2 = Float64 False 1028 0x3bd3cc9be45de"
  by code_simp

subsection \<open>Evaluation\<close>

definition evalParabolic :: "float64 \<Rightarrow> float64 \<Rightarrow> law_values" where
  "evalParabolic T side =
     (if T < half_f \<or> (feq T half_f \<and> side < 0) then
        \<lparr>val_Y = f64 2 * T * T, val_Y1 = f64 4 * T, val_Y2 = f64 4, val_Y3 = 0\<rparr>
      else if half_f < T \<or> (feq T half_f \<and> 0 < side) then
        let d = 1 - T
        in \<lparr>val_Y = 1 - f64 2 * d * d, val_Y1 = f64 4 * d, val_Y2 = f64 (-4), val_Y3 = 0\<rparr>
      else \<lparr>val_Y = half_f, val_Y1 = f64 2, val_Y2 = f64 4, val_Y3 = 0\<rparr>)"

definition evalCosine :: "float64 \<Rightarrow> law_values" where
  "evalCosine T =
     (let p = math_Pi * T
      in \<lparr>val_Y = (1 - math_Cos p) / f64 2,
          val_Y1 = Pi_half * math_Sin p,
          val_Y2 = Pi2_half * math_Cos p,
          val_Y3 = (- Pi3_half) * math_Sin p\<rparr>)"

definition evalCycloid :: "float64 \<Rightarrow> law_values" where
  "evalCycloid T =
     (let q = two_Pi * T
      in \<lparr>val_Y = T - math_Sin q / two_Pi,
          val_Y1 = 1 - math_Cos q,
          val_Y2 = two_Pi * math_Sin q,
          val_Y3 = four_Pi2 * math_Cos q\<rparr>)"

definition clampT :: "float64 \<Rightarrow> float64" where
  "clampT T = (if T < 0 then 0 else if 1 < T then 1 else T)"

definition EvalSide :: "string \<Rightarrow> float64 \<Rightarrow> float64 \<Rightarrow> (go_error, law_values) result" where
  "EvalSide tp T0 side =
     (let T = clampT T0 in
      if tp = Cosine then Inr (evalCosine T)
      else if tp = Cycloid then Inr (evalCycloid T)
      else if tp = Parabolic then Inr (evalParabolic T side)
      else Inl ErrUnknownLaw)"

definition Eval :: "string \<Rightarrow> float64 \<Rightarrow> (go_error, law_values) result" where
  "Eval tp T = EvalSide tp T 0"

definition ClosedPeaks :: "string \<Rightarrow> (go_error, law_peaks) result" where
  "ClosedPeaks tp =
     (if tp = Cosine then Inr \<lparr>peak_V1 = Pi_half, peak_V2 = Pi2_half, peak_V3 = Pi3_half\<rparr>
      else if tp = Cycloid then Inr \<lparr>peak_V1 = f64 2, peak_V2 = two_Pi, peak_V3 = four_Pi2\<rparr>
      else if tp = Parabolic then Inr \<lparr>peak_V1 = f64 2, peak_V2 = f64 4, peak_V3 = 0\<rparr>
      else Inl ErrUnknownLaw)"

lemmas law_pattern_code [code] =
  evalParabolic_def [of "Float64 s e f" for s e f]
  evalCosine_def [of "Float64 s e f" for s e f]
  evalCycloid_def [of "Float64 s e f" for s e f]
  clampT_def [of "Float64 s e f" for s e f]

subsection \<open>Totality\<close>

lemma Known_cases [consumes 1, case_names cosine cycloid parabolic]:
  assumes "Known tp"
  obtains "tp = Cosine" | "tp = Cycloid" | "tp = Parabolic"
  using assms by (auto simp: Known_def)

text \<open>The values of a law, without the error: what \<open>EvalSide\<close> returns for a known name.\<close>

definition law_at :: "string \<Rightarrow> float64 \<Rightarrow> float64 \<Rightarrow> law_values" where
  "law_at tp T side =
     (if tp = Cosine then evalCosine (clampT T)
      else if tp = Cycloid then evalCycloid (clampT T)
      else evalParabolic (clampT T) side)"

lemma EvalSide_known [simp]: "Known tp \<Longrightarrow> EvalSide tp T side = Inr (law_at tp T side)"
  by (auto simp: EvalSide_def law_at_def Known_def Let_def)

lemma EvalSide_unknown [simp]: "\<not> Known tp \<Longrightarrow> EvalSide tp T side = Inl ErrUnknownLaw"
  by (auto simp: EvalSide_def Known_def Let_def)

lemma ClosedPeaks_known: "Known tp \<Longrightarrow> \<exists>p. ClosedPeaks tp = Inr p"
  by (auto simp: ClosedPeaks_def Known_def)

subsection \<open>The ends of a stroke\<close>

lemma evalCosine_0: "evalCosine 0 = \<lparr>val_Y = 0, val_Y1 = 0, val_Y2 = Pi2_half, val_Y3 = - 0\<rparr>"
  by code_simp

lemma evalCycloid_0: "evalCycloid 0 = \<lparr>val_Y = 0, val_Y1 = 0, val_Y2 = 0, val_Y3 = four_Pi2\<rparr>"
  by code_simp

lemma evalCosine_1_Y: "val_Y (evalCosine 1) = 1"
  by code_simp

lemma evalCycloid_1_Y: "val_Y (evalCycloid 1) = 1"
  by code_simp

lemma evalParabolic_0: "evalParabolic 0 side = \<lparr>val_Y = 0, val_Y1 = 0, val_Y2 = f64 4, val_Y3 = 0\<rparr>"
proof -
  have "(0::float64) < half_f" by code_simp
  moreover have "f64 2 * 0 * 0 = 0" "f64 4 * 0 = 0" by code_simp+
  ultimately show ?thesis by (simp add: evalParabolic_def)
qed

lemma evalParabolic_1: "evalParabolic 1 side = \<lparr>val_Y = 1, val_Y1 = 0, val_Y2 = f64 (-4), val_Y3 = 0\<rparr>"
proof -
  have "\<not> (1::float64) < half_f" "\<not> feq 1 half_f" "half_f < 1" by code_simp+
  moreover have "1 - f64 2 * (1 - 1) * (1 - 1) = 1" "f64 4 * (1 - 1) = 0" by code_simp+
  ultimately show ?thesis by (simp add: evalParabolic_def Let_def)
qed

lemma clampT_0: "T < 0 \<Longrightarrow> clampT T = 0"
  by (simp add: clampT_def)

lemma clampT_1: "1 < T \<Longrightarrow> clampT T = 1"
proof -
  assume "1 < T"
  then have "\<not> T < 0"
    by (auto simp: less_float64_def f64_lt_def skey_less_iff)
  with \<open>1 < T\<close> show ?thesis by (simp add: clampT_def)
qed

lemma law_at_clamp [simp]: "law_at tp (clampT T) side = law_at tp T side"
proof -
  have "clampT (clampT T) = clampT T"
    by (auto simp: clampT_def less_float64_def f64_lt_def skey_less_iff)
  then show ?thesis by (simp add: law_at_def)
qed

lemma law_at_0_Y:
  assumes "Known tp"
  shows "val_Y (law_at tp 0 side) = 0" "val_Y1 (law_at tp 0 side) = 0"
proof -
  have c: "clampT 0 = 0" by code_simp
  show "val_Y (law_at tp 0 side) = 0" "val_Y1 (law_at tp 0 side) = 0"
    using assms
    by (cases rule: Known_cases;
        simp add: law_at_def c evalCosine_0 evalCycloid_0 evalParabolic_0 law_names)+
qed

lemma law_at_1_Y:
  assumes "Known tp"
  shows "val_Y (law_at tp 1 side) = 1"
proof -
  have c: "clampT 1 = 1" by code_simp
  show ?thesis
    using assms
    by (cases rule: Known_cases;
        simp add: law_at_def c evalCosine_1_Y evalCycloid_1_Y evalParabolic_1 law_names)
qed

end
