(* ===== verification/Law_Spec.thy ===== *)
theory Law_Spec
  imports Law
begin

text \<open>
  The laws over the reals: the closed forms the doc comments of \<open>law.go\<close> state, the proof that
  each is the derivative of the one before, and the bounds behind the closed-form peaks. The
  floating-point parabolic law is shown to stay in the range of its closed form and within
  \<open>2 ^ -52\<close> of it.
\<close>

subsection \<open>Closed forms\<close>

definition cosine_y :: "real \<Rightarrow> real" where "cosine_y t = (1 - cos (pi * t)) / 2"
definition cosine_y1 :: "real \<Rightarrow> real" where "cosine_y1 t = pi / 2 * sin (pi * t)"
definition cosine_y2 :: "real \<Rightarrow> real" where "cosine_y2 t = pi\<^sup>2 / 2 * cos (pi * t)"
definition cosine_y3 :: "real \<Rightarrow> real" where "cosine_y3 t = - (pi ^ 3 / 2) * sin (pi * t)"

definition cycloid_y :: "real \<Rightarrow> real" where "cycloid_y t = t - sin (2 * pi * t) / (2 * pi)"
definition cycloid_y1 :: "real \<Rightarrow> real" where "cycloid_y1 t = 1 - cos (2 * pi * t)"
definition cycloid_y2 :: "real \<Rightarrow> real" where "cycloid_y2 t = 2 * pi * sin (2 * pi * t)"
definition cycloid_y3 :: "real \<Rightarrow> real" where "cycloid_y3 t = 4 * pi\<^sup>2 * cos (2 * pi * t)"

definition parabolic_y :: "real \<Rightarrow> real" where
  "parabolic_y t = (if t \<le> 1/2 then 2 * t\<^sup>2 else 1 - 2 * (1 - t)\<^sup>2)"
definition parabolic_y1 :: "real \<Rightarrow> real" where
  "parabolic_y1 t = (if t \<le> 1/2 then 4 * t else 4 * (1 - t))"
definition parabolic_y2 :: "real \<Rightarrow> real" where
  "parabolic_y2 t = (if t \<le> 1/2 then 4 else - 4)"

lemma cosine_derivs:
  "(cosine_y has_real_derivative cosine_y1 t) (at t)"
  "(cosine_y1 has_real_derivative cosine_y2 t) (at t)"
  "(cosine_y2 has_real_derivative cosine_y3 t) (at t)"
  unfolding cosine_y_def cosine_y1_def cosine_y2_def cosine_y3_def
  by (auto intro!: derivative_eq_intros simp: power2_eq_square power3_eq_cube)

lemma cycloid_derivs:
  "(cycloid_y has_real_derivative cycloid_y1 t) (at t)"
  "(cycloid_y1 has_real_derivative cycloid_y2 t) (at t)"
  "(cycloid_y2 has_real_derivative cycloid_y3 t) (at t)"
  unfolding cycloid_y_def cycloid_y1_def cycloid_y2_def cycloid_y3_def
  by (auto intro!: derivative_eq_intros simp: power2_eq_square)

lemma DERIV_transfer:
  assumes "(f has_real_derivative D) (at t)" "open U" "t \<in> U" "\<And>x. x \<in> U \<Longrightarrow> f x = g x"
  shows "(g has_real_derivative D) (at t)"
  using assms has_field_derivative_transform_within_open by blast

lemma parabolic_y1_deriv:
  assumes "t \<noteq> 1/2"
  shows "(parabolic_y1 has_real_derivative parabolic_y2 t) (at t)"
proof (cases "t < 1/2")
  case True
  have "((\<lambda>x. 4 * x) has_real_derivative 4) (at t)" by (auto intro!: derivative_eq_intros)
  then have "(parabolic_y1 has_real_derivative 4) (at t)"
    by (rule DERIV_transfer [where U = "{..<1/2}"]) (use True in \<open>auto simp: parabolic_y1_def\<close>)
  then show ?thesis using True by (simp add: parabolic_y2_def)
next
  case False
  have "((\<lambda>x. 4 * (1 - x)) has_real_derivative - 4) (at t)" by (auto intro!: derivative_eq_intros)
  then have "(parabolic_y1 has_real_derivative - 4) (at t)"
    by (rule DERIV_transfer [where U = "{1/2<..}"]) (use False assms in \<open>auto simp: parabolic_y1_def\<close>)
  then show ?thesis using False assms by (simp add: parabolic_y2_def)
qed

lemma parabolic_y_deriv: "(parabolic_y has_real_derivative parabolic_y1 t) (at t)"
proof -
  have lo: "((\<lambda>x. 2 * x\<^sup>2) has_real_derivative 4 * t) (at t within S)" for S
    by (auto intro!: derivative_eq_intros)
  have hi: "((\<lambda>x. 1 - 2 * (1 - x)\<^sup>2) has_real_derivative 4 * (1 - t)) (at t within S)" for S
    by (auto intro!: derivative_eq_intros)
  consider "t < 1/2" | "t = 1/2" | "1/2 < t" by linarith
  then show ?thesis
  proof cases
    case 1
    have "(parabolic_y has_real_derivative 4 * t) (at t)"
      by (rule DERIV_transfer [OF lo, where U = "{..<1/2}"]) (use 1 in \<open>auto simp: parabolic_y_def\<close>)
    then show ?thesis using 1 by (simp add: parabolic_y1_def)
  next
    case 2
    have q: "(parabolic_y (1/2 + h) - parabolic_y (1/2)) / h - 2 = (if h \<le> 0 then 2 * h else - 2 * h)"
      if "h \<noteq> 0" for h :: real
      using that by (auto simp: parabolic_y_def power2_eq_square field_simps)
    have "(\<lambda>h. (parabolic_y (1/2 + h) - parabolic_y (1/2)) / h) \<midarrow>0\<rightarrow> 2"
    proof (rule LIM_I)
      fix r :: real
      assume "0 < r"
      then show "\<exists>s>0. \<forall>h. h \<noteq> 0 \<and> norm (h - 0) < s \<longrightarrow>
          norm ((parabolic_y (1/2 + h) - parabolic_y (1/2)) / h - 2) < r"
        by (intro exI [of _ "r / 2"]) (auto simp: q)
    qed
    then show ?thesis unfolding 2 DERIV_def by (simp add: parabolic_y1_def)
  next
    case 3
    have "(parabolic_y has_real_derivative 4 * (1 - t)) (at t)"
      by (rule DERIV_transfer [OF hi, where U = "{1/2<..}"]) (use 3 in \<open>auto simp: parabolic_y_def\<close>)
    then show ?thesis using 3 by (simp add: parabolic_y1_def)
  qed
qed

subsection \<open>The floating-point parabolic law\<close>

lemma small_ints: "is_finite (f64 2)" "valof (f64 2) = 2" "is_finite (f64 4)" "valof (f64 4) = 4"
  "is_finite (f64 (-4))" "valof (f64 (-4)) = -4"
  using f64_exact [of 2] f64_exact [of 4] f64_exact [of "-4"] by simp_all

lemma half_f_value [simp]: "is_finite half_f" "valof half_f = 1/2"
  by (simp_all add: half_f_bits is_finite_def valof_def f64_mag_def f64_mant_def f64_expo_def power_int_minus)

lemma representable_double: "representable x \<Longrightarrow> representable (2 * x)"
  unfolding representable_def
proof (elim exE conjE)
  fix m e
  assume "x = of_int m * 2 powi e" "\<bar>m\<bar> \<le> 2 ^ 53" "-1074 \<le> e"
  then show "\<exists>m e. 2 * x = of_int m * 2 powi e \<and> \<bar>m\<bar> \<le> 2 ^ 53 \<and> -1074 \<le> e"
    by (intro exI [of _ m] exI [of _ "e + 1"]) (simp add: pow2_add)
qed

text \<open>Subtraction from 1 is exact on the upper half of the unit interval.\<close>

lemma sub_from_1_exact:
  assumes "is_finite T" "1/2 \<le> valof T" "valof T \<le> 1"
  shows "is_finite (1 - T)" "valof (1 - T) = 1 - valof T"
proof -
  have s: "\<not> fsign T" using assms(2) by (intro fsign_pos) simp
  then have v: "valof T = of_int (f64_mant T) * 2 powi f64_expo T" by (simp add: valof_def f64_mag_def)
  have e: "-53 \<le> f64_expo T"
  proof (rule ccontr)
    assume "\<not> -53 \<le> f64_expo T"
    then have "(2::real) powi f64_expo T \<le> 2 powi (-54)" by (simp only: pow2_le_iff)
    moreover have "real_of_int (f64_mant T) < of_int (2 ^ 53)"
      using f64_mant_less [of T] by (simp only: of_int_less_iff)
    ultimately have "valof T < of_int (2 ^ 53) * 2 powi (-54)"
      unfolding v by (intro mult_less_le_imp_less) auto
    then show False using assms(2) by (simp add: power_int_minus)
  qed
  define m where "m = 2 ^ 53 - f64_mant T * 2 ^ nat (f64_expo T + 53)"
  have k: "(2::real) ^ nat (f64_expo T + 53) = 2 powi f64_expo T * 2 ^ 53"
    using e pow2_nat [of "f64_expo T + 53"] by (simp add: pow2_add)
  have eq: "1 - valof T = of_int m * 2 powi (-53)"
    by (simp add: m_def v k power_int_minus field_simps)
  have pos: "0 \<le> m"
  proof -
    have "0 \<le> real_of_int m * 2 powi (-53)" using assms(3) eq by simp
    then show ?thesis by (simp add: zero_le_mult_iff)
  qed
  have "m \<le> 2 ^ 53" by (simp add: m_def)
  then have r: "representable (1 - valof T)"
    unfolding representable_def eq using pos by (intro exI [of _ m] exI [of _ "-53"]) simp
  have "\<bar>1 - valof T\<bar> \<le> 1" using assms by simp
  then have lim: "\<bar>rnd (1 - valof T)\<bar> < f64_limit"
    using r valof_limit [OF is_finite_1] by simp
  show "is_finite (1 - T)" "valof (1 - T) = 1 - valof T"
    using sub_finite [of 1 T] assms(1) lim r by simp_all
qed

lemma double_exact:
  assumes "is_finite x" "\<bar>valof x\<bar> \<le> 1"
  shows "is_finite (f64 2 * x)" "valof (f64 2 * x) = 2 * valof x"
proof -
  have r: "rnd (valof (f64 2) * valof x) = 2 * valof x"
    by (simp add: small_ints representable_double)
  have "\<bar>2 * valof x\<bar> \<le> \<bar>valof (f64 2)\<bar>" using assms(2) by (simp add: small_ints abs_mult)
  then have lim: "\<bar>rnd (valof (f64 2) * valof x)\<bar> < f64_limit"
    using valof_limit [OF small_ints(1)] unfolding r by linarith
  show "is_finite (f64 2 * x)" "valof (f64 2 * x) = 2 * valof x"
    using mul_finite [OF small_ints(1) assms(1) lim] r by simp_all
qed

text \<open>\<open>2 * x * x\<close> for \<open>x\<close> in the lower half: in range, and rounded once.\<close>

lemma parabola_half:
  assumes "is_finite x" "0 \<le> valof x" "valof x \<le> 1/2"
  shows "is_finite (f64 2 * x * x)" "0 \<le> valof (f64 2 * x * x)" "valof (f64 2 * x * x) \<le> 1/2"
    "\<bar>valof (f64 2 * x * x) - 2 * (valof x)\<^sup>2\<bar> \<le> 2 powi (-54)"
proof -
  have d: "is_finite (f64 2 * x)" "valof (f64 2 * x) = 2 * valof x"
    using double_exact [of x] assms by auto
  have sq: "0 \<le> 2 * valof x * valof x" "2 * valof x * valof x \<le> 1/2"
    using assms mult_mono [of "valof x" "1/2" "valof x" "1/2"] by auto
  then show "is_finite (f64 2 * x * x)" "0 \<le> valof (f64 2 * x * x)" "valof (f64 2 * x * x) \<le> 1/2"
    using mul_bounds [of "f64 2 * x" x 0 half_f] d assms(1) by auto
  have "\<bar>rnd (2 * valof x * valof x)\<bar> < f64_limit"
  proof (rule rnd_limit)
    have "(1::real) \<le> 2 powi 1022" using pow2_le_iff [of 0 1022] by (simp only: power_int_0_right)
    then show "\<bar>2 * valof x * valof x\<bar> \<le> 3 * 2 powi 1022" using sq by linarith
  qed
  then have v: "valof (f64 2 * x * x) = rnd (2 * valof x * valof x)"
    using mul_finite(2) [of "f64 2 * x" x] d assms(1) by simp
  have "\<bar>2 * valof x * valof x\<bar> < 2 powi (-53 + 53)" using sq by simp
  then have "\<bar>rnd (2 * valof x * valof x) - 2 * valof x * valof x\<bar> \<le> 2 powi (-53) / 2"
    by (rule rnd_error_abs) simp
  also have "(2::real) powi (-53) / 2 = 2 powi (-54)" by (simp add: power_int_minus)
  finally show "\<bar>valof (f64 2 * x * x) - 2 * (valof x)\<^sup>2\<bar> \<le> 2 powi (-54)"
    unfolding v by (simp add: power2_eq_square mult.assoc)
qed

lemma not_feq_less: "is_finite x \<Longrightarrow> is_finite y \<Longrightarrow> x < y \<Longrightarrow> \<not> y < x \<and> \<not> feq x y"
  by (simp add: less_iff_valof feq_iff_valof)

lemma evalParabolic_low:
  assumes "is_finite T" "valof T < 1/2"
  shows "evalParabolic T side =
    \<lparr>val_Y = f64 2 * T * T, val_Y1 = f64 4 * T, val_Y2 = f64 4, val_Y3 = 0\<rparr>"
  using assms by (simp add: evalParabolic_def less_iff_valof)

lemma evalParabolic_high:
  assumes "is_finite T" "1/2 < valof T"
  shows "evalParabolic T side =
    \<lparr>val_Y = 1 - f64 2 * (1 - T) * (1 - T), val_Y1 = f64 4 * (1 - T), val_Y2 = f64 (-4), val_Y3 = 0\<rparr>"
  using assms by (simp add: evalParabolic_def less_iff_valof feq_iff_valof Let_def)

text \<open>The upper half: \<open>1 - 2 * d * d\<close> with \<open>d = 1 - T\<close> exact.\<close>

lemma parabola_high:
  assumes "is_finite T" "1/2 \<le> valof T" "valof T \<le> 1"
  defines "Y \<equiv> 1 - f64 2 * (1 - T) * (1 - T)"
  shows "is_finite Y" "1/2 \<le> valof Y" "valof Y \<le> 1"
    "\<bar>valof Y - (1 - 2 * (1 - valof T)\<^sup>2)\<bar> \<le> 2 powi (-52)"
proof -
  note d = sub_from_1_exact [OF assms(1-3)]
  have d2: "0 \<le> valof (1 - T)" "valof (1 - T) \<le> 1/2" using d assms by auto
  define p where "p = f64 2 * (1 - T) * (1 - T)"
  note p = parabola_half [OF d(1) d2, folded p_def]
  have Y: "Y = 1 - p" by (simp add: Y_def p_def)
  show "is_finite Y" "1/2 \<le> valof Y" "valof Y \<le> 1"
    unfolding Y using sub_bounds [of 1 p half_f 1] p by auto
  have "\<bar>1 - valof p\<bar> \<le> 1" using p by linarith
  moreover have "(1::real) \<le> 2 powi 1022" using pow2_le_iff [of 0 1022] by (simp only: power_int_0_right)
  ultimately have "\<bar>rnd (1 - valof p)\<bar> < f64_limit" by (intro rnd_limit) linarith
  then have v: "valof Y = rnd (1 - valof p)" unfolding Y using sub_finite(2) [of 1 p] p by simp
  have "\<bar>rnd (1 - valof p) - (1 - valof p)\<bar> \<le> 2 powi (-52) / 2"
    using \<open>\<bar>1 - valof p\<bar> \<le> 1\<close> by (intro rnd_error_abs) simp_all
  moreover have "(2::real) powi (-52) / 2 + 2 powi (-54) \<le> 2 powi (-52)" by (simp add: power_int_minus)
  ultimately show "\<bar>valof Y - (1 - 2 * (1 - valof T)\<^sup>2)\<bar> \<le> 2 powi (-52)"
    using p(4) unfolding v d(2) by linarith
qed

text \<open>Four times a number in the lower half is exact.\<close>

lemma quadruple:
  assumes "is_finite x" "0 \<le> valof x" "valof x \<le> 1/2"
  shows "is_finite (f64 4 * x)" "valof (f64 4 * x) = 4 * valof x"
proof -
  have "representable (2 * (2 * valof x))" by (intro representable_double) simp
  then have r: "rnd (valof (f64 4) * valof x) = 4 * valof x" by (simp add: small_ints)
  have "\<bar>4 * valof x\<bar> \<le> \<bar>valof (f64 2)\<bar>" using assms by (simp add: small_ints)
  then have lim: "\<bar>rnd (valof (f64 4) * valof x)\<bar> < f64_limit"
    using valof_limit [OF small_ints(1)] unfolding r by linarith
  show "is_finite (f64 4 * x)" "valof (f64 4 * x) = 4 * valof x"
    using mul_finite [OF small_ints(3) assms(1) lim] r by simp_all
qed

lemma evalParabolic_mid:
  assumes "is_finite T" "valof T = 1/2"
  shows "val_Y (evalParabolic T side) = half_f" "val_Y1 (evalParabolic T side) = f64 2"
    "val_Y2 (evalParabolic T side) = (if 0 < side then f64 (-4) else f64 4)"
    "val_Y3 (evalParabolic T side) = 0"
proof -
  have T: "T = half_f" using assms by (intro valof_inject_pos) auto
  have y: "f64 2 * half_f * half_f = half_f" "1 - f64 2 * (1 - half_f) * (1 - half_f) = half_f"
    "f64 4 * half_f = f64 2" "f64 4 * (1 - half_f) = f64 2"
    by code_simp+
  have "\<not> half_f < half_f" "feq half_f half_f" by code_simp+
  moreover have "side < 0 \<Longrightarrow> \<not> 0 < side"
    by (auto simp: less_float64_def f64_lt_def skey_less_iff)
  ultimately show "val_Y (evalParabolic T side) = half_f" "val_Y1 (evalParabolic T side) = f64 2"
    "val_Y2 (evalParabolic T side) = (if 0 < side then f64 (-4) else f64 4)"
    "val_Y3 (evalParabolic T side) = 0"
    unfolding T by (auto simp: evalParabolic_def Let_def y)
qed

lemma clampT_id: "is_finite T \<Longrightarrow> 0 \<le> valof T \<Longrightarrow> valof T \<le> 1 \<Longrightarrow> clampT T = T"
  by (simp add: clampT_def less_iff_valof)

lemma law_at_Parabolic:
  "is_finite T \<Longrightarrow> 0 \<le> valof T \<Longrightarrow> valof T \<le> 1 \<Longrightarrow> law_at Parabolic T side = evalParabolic T side"
  by (simp add: law_at_def clampT_id law_names)

lemma parabolic_values:
  assumes "is_finite T" "0 \<le> valof T" "valof T \<le> 1" and w_def: "w = evalParabolic T side"
  shows "is_finite (val_Y w)" "0 \<le> valof (val_Y w)" "valof (val_Y w) \<le> 1"
    "\<bar>valof (val_Y w) - parabolic_y (valof T)\<bar> \<le> 2 powi (-52)"
    "is_finite (val_Y1 w)" "valof (val_Y1 w) = parabolic_y1 (valof T)"
    "valof T \<noteq> 1/2 \<Longrightarrow> valof (val_Y2 w) = parabolic_y2 (valof T)"
proof -
  have tiny: "(2::real) powi (-54) \<le> 2 powi (-52)" by (simp only: pow2_le_iff)
  consider "valof T < 1/2" | "valof T = 1/2" | "1/2 < valof T" by linarith
  then have "is_finite (val_Y w) \<and> 0 \<le> valof (val_Y w) \<and> valof (val_Y w) \<le> 1
    \<and> \<bar>valof (val_Y w) - parabolic_y (valof T)\<bar> \<le> 2 powi (-52)
    \<and> is_finite (val_Y1 w) \<and> valof (val_Y1 w) = parabolic_y1 (valof T)
    \<and> (valof T \<noteq> 1/2 \<longrightarrow> valof (val_Y2 w) = parabolic_y2 (valof T))"
  proof cases
    case 1
    with assms(1,2) show ?thesis
      using parabola_half [OF assms(1,2)] quadruple [OF assms(1,2)] tiny
      by (simp add: w_def evalParabolic_low parabolic_y_def parabolic_y1_def parabolic_y2_def small_ints)
  next
    case 2
    show ?thesis
      using evalParabolic_mid [OF assms(1) 2, of side] unfolding 2
      by (simp add: w_def parabolic_y_def parabolic_y1_def small_ints power2_eq_square)
  next
    case 3
    then have le: "1/2 \<le> valof T" by simp
    note d = sub_from_1_exact [OF assms(1) le assms(3)]
    show ?thesis
      using parabola_high [OF assms(1) le assms(3)] quadruple [OF d(1)] d(2) 3 assms(1,3)
      by (simp add: w_def evalParabolic_high parabolic_y_def parabolic_y1_def parabolic_y2_def small_ints)
  qed
  then show "is_finite (val_Y w)" "0 \<le> valof (val_Y w)" "valof (val_Y w) \<le> 1"
    "\<bar>valof (val_Y w) - parabolic_y (valof T)\<bar> \<le> 2 powi (-52)"
    "is_finite (val_Y1 w)" "valof (val_Y1 w) = parabolic_y1 (valof T)"
    "valof T \<noteq> 1/2 \<Longrightarrow> valof (val_Y2 w) = parabolic_y2 (valof T)" by auto
qed

subsection \<open>Properties of the laws\<close>

text \<open>
  Claim C34. Every supported law starts at displacement 0 with velocity 0 and ends at displacement
  exactly 1, in floating point, whatever side is asked for; a dimensionless time outside the
  unit interval gives the value at the nearer end.
\<close>

theorem law_endpoints:
  assumes "Known tp"
  shows "\<exists>w0 w1. EvalSide tp 0 side = Inr w0 \<and> EvalSide tp 1 side = Inr w1
    \<and> val_Y w0 = 0 \<and> val_Y1 w0 = 0 \<and> val_Y w1 = 1
    \<and> (\<forall>T. T < 0 \<longrightarrow> EvalSide tp T side = Inr w0) \<and> (\<forall>T. 1 < T \<longrightarrow> EvalSide tp T side = Inr w1)"
proof -
  have "law_at tp T side = law_at tp 0 side" if "T < 0" for T
    using law_at_clamp [of tp T side] clampT_0 [OF that] by simp
  moreover have "law_at tp T side = law_at tp 1 side" if "1 < T" for T
    using law_at_clamp [of tp T side] clampT_1 [OF that] by simp
  ultimately show ?thesis
    using assms law_at_0_Y [OF assms] law_at_1_Y [OF assms] by simp
qed

theorem law_endpoints_witness:
  "Known ''cycloid'' \<and> (\<exists>w0 w1. EvalSide ''cycloid'' 0 0 = Inr w0 \<and> EvalSide ''cycloid'' 1 0 = Inr w1
    \<and> val_Y w0 = 0 \<and> val_Y1 w0 = 0 \<and> val_Y w1 = 1)"
proof -
  have "Known ''cycloid''" by (simp add: Known_def law_names)
  then show ?thesis using law_endpoints [of "''cycloid''" 0] by blast
qed

text \<open>
  Claim C17. The parabolic law in floating point: for a time in the unit interval the
  displacement stays in the unit interval and is within \<open>2 ^ -52\<close> of the closed form, the
  velocity is exactly the derivative of the closed form, and away from the midpoint the
  acceleration is exactly the second derivative.
\<close>

theorem parabolic_correct:
  assumes "is_finite T" "0 \<le> valof T" "valof T \<le> 1"
  shows "\<exists>w. EvalSide Parabolic T side = Inr w
    \<and> 0 \<le> valof (val_Y w) \<and> valof (val_Y w) \<le> 1
    \<and> \<bar>valof (val_Y w) - parabolic_y (valof T)\<bar> \<le> 2 powi (-52)
    \<and> (parabolic_y has_real_derivative valof (val_Y1 w)) (at (valof T))
    \<and> (valof T \<noteq> 1/2 \<longrightarrow> (parabolic_y1 has_real_derivative valof (val_Y2 w)) (at (valof T)))"
proof -
  have "Known Parabolic" by (simp add: Known_def)
  then have e: "EvalSide Parabolic T side = Inr (evalParabolic T side)"
    using law_at_Parabolic [OF assms] by simp
  note v = parabolic_values [OF assms refl, of side]
  show ?thesis
    unfolding e using v parabolic_y_deriv [of "valof T"] parabolic_y1_deriv [of "valof T"] by auto
qed

theorem parabolic_correct_witness:
  "is_finite (f64_const 1 4) \<and> 0 \<le> valof (f64_const 1 4) \<and> valof (f64_const 1 4) \<le> 1
   \<and> (\<exists>w. EvalSide Parabolic (f64_const 1 4) 0 = Inr w
        \<and> \<bar>valof (val_Y w) - parabolic_y (valof (f64_const 1 4))\<bar> \<le> 2 powi (-52))"
proof -
  have c: "f64_const 1 4 = Float64 False 1021 0" by code_simp
  have v: "is_finite (f64_const 1 4)" "valof (f64_const 1 4) = 1/4"
    by (simp_all add: c is_finite_def valof_def f64_mag_def f64_mant_def f64_expo_def power_int_minus)
  have h: "0 \<le> valof (f64_const 1 4)" "valof (f64_const 1 4) \<le> 1" by (simp_all add: v)
  show ?thesis using parabolic_correct [OF v(1) h, of 0] v(1) h by blast
qed

end
