(* ===== verification/Kinematics.thy ===== *)
theory Kinematics
  imports Law_Spec
begin

text \<open>
  Package \<open>kinematics\<close> (\<open>internal/kinematics/kinematics.go\<close>): restoring the dimensions of a law
  (stroke \<open>h\<close>, angle \<open>\<beta>\<close>, speed \<open>\<omega>\<close>), sampling one point or a whole rise curve, the closed-form
  peaks, and the continuity check of one seam. A Go \<open>int\<close> is an \<open>int\<close> here: every integer
  the package handles is bounded by \<open>MaxPoints\<close> before it is used in arithmetic.
\<close>

definition FullTurn :: float64 where "FullTurn = f64 360"

definition DefaultPoints :: int where "DefaultPoints = 361"

definition MinPoints :: int where "MinPoints = 2"

definition MaxPoints :: int where "MaxPoints = 200001"

lemma FullTurn_bits [code]: "FullTurn = Float64 False 1031 0x6800000000000"
  by code_simp

record spec =
  spec_Type :: string
  spec_H :: float64
  spec_Beta :: float64
  spec_Omega :: float64

text \<open>The condition \<open>math.IsNaN(x) || math.IsInf(x, 0) || x <= 0\<close> of the validators.\<close>

definition bad_positive :: "float64 \<Rightarrow> bool" where
  "bad_positive x \<longleftrightarrow> math_IsNaN x \<or> math_IsInf x 0 \<or> x \<le> 0"

definition Spec_Validate :: "spec \<Rightarrow> (go_error, unit) result" where
  "Spec_Validate s =
     (if \<not> Known (spec_Type s) then Inl ErrUnknownLaw
      else if bad_positive (spec_H s) then Inl H_Not_Positive
      else if bad_positive (spec_Beta s) then Inl Beta_Not_Positive
      else if FullTurn \<le> spec_Beta s then Inl (Beta_Full_Turn (spec_Beta s))
      else if bad_positive (spec_Omega s) then Inl Omega_Not_Positive
      else Inr ())"

record motion =
  m_Theta :: float64
  m_Time :: float64
  m_S :: float64
  m_V :: float64
  m_A :: float64
  m_J :: float64

record scales =
  sc_v :: float64
  sc_a :: float64
  sc_j :: float64

definition factor :: "spec \<Rightarrow> scales" where
  "factor s =
     (let o' = spec_Omega s / spec_Beta s
      in \<lparr>sc_v = spec_H s * o', sc_a = spec_H s * o' * o', sc_j = spec_H s * o' * o' * o'\<rparr>)"

definition restore :: "law_values \<Rightarrow> scales \<Rightarrow> spec \<Rightarrow> float64 \<Rightarrow> float64 \<Rightarrow> bool \<Rightarrow> motion" where
  "restore w f s theta t returning =
     (let m = \<lparr>m_Theta = theta, m_Time = t, m_S = spec_H s * val_Y w, m_V = sc_v f * val_Y1 w,
               m_A = sc_a f * val_Y2 w, m_J = sc_j f * val_Y3 w\<rparr>
      in if returning then
           m\<lparr>m_S := spec_H s - m_S m, m_V := - m_V m, m_A := - m_A m, m_J := - m_J m\<rparr>
         else m)"

definition SampleSide ::
  "spec \<Rightarrow> float64 \<Rightarrow> float64 \<Rightarrow> float64 \<Rightarrow> bool \<Rightarrow> float64 \<Rightarrow> (go_error, motion) result" where
  "SampleSide s theta0 theta t returning side =
     result_bind (Spec_Validate s) (\<lambda>_.
       let T = (theta - theta0) / spec_Beta s in
       result_bind (EvalSide (spec_Type s) T side) (\<lambda>w.
         Inr (restore w (factor s) s theta t returning)))"

definition Sample ::
  "spec \<Rightarrow> float64 \<Rightarrow> float64 \<Rightarrow> float64 \<Rightarrow> bool \<Rightarrow> (go_error, motion) result" where
  "Sample s theta0 theta t returning =
     result_bind (Spec_Validate s) (\<lambda>_.
       let T = (theta - theta0) / spec_Beta s in
       result_bind (Eval (spec_Type s) T) (\<lambda>w.
         Inr (restore w (factor s) s theta t returning)))"

record peaks =
  VMax :: float64
  AMax :: float64
  JMax :: float64

definition Spec_ClosedPeaks :: "spec \<Rightarrow> (go_error, peaks) result" where
  "Spec_ClosedPeaks s =
     result_bind (Spec_Validate s) (\<lambda>_.
       result_bind (ClosedPeaks (spec_Type s)) (\<lambda>p.
         let f = factor s in
         Inr \<lparr>VMax = sc_v f * peak_V1 p, AMax = sc_a f * peak_V2 p, JMax = sc_j f * peak_V3 p\<rparr>))"

definition curve_point :: "spec \<Rightarrow> int \<Rightarrow> int \<Rightarrow> (go_error, motion) result" where
  "curve_point s points i =
     (let T = f64 i / f64 (points - 1) in
      result_bind (Eval (spec_Type s) T) (\<lambda>w.
        let theta = T * spec_Beta s in
        Inr (restore w (factor s) s theta (T * spec_Beta s / spec_Omega s) False)))"

definition Curve :: "spec \<Rightarrow> int \<Rightarrow> (go_error, motion list \<times> peaks) result" where
  "Curve s points0 =
     result_bind (Spec_Validate s) (\<lambda>_.
       let points = (if points0 < MinPoints then MinPoints else points0) in
       if MaxPoints < points then Inl Too_Many_Points
       else
         result_bind (result_map (\<lambda>i. curve_point s points (int i)) [0..<nat points]) (\<lambda>out.
           result_bind (Spec_ClosedPeaks s) (\<lambda>p. Inr (out, p))))"

subsection \<open>Seams\<close>

record seam =
  sm_Theta :: float64
  sm_Kind :: string
  sm_Left :: motion
  sm_Right :: motion
  SCont :: bool
  VCont :: bool
  ACont :: bool
  JCont :: bool
  SJump :: bool

definition seamRelTol :: float64 where "seamRelTol = f64_const 1 (10 ^ 9)"

definition seamAbsFloor :: float64 where "seamAbsFloor = f64_const 1 (10 ^ 12)"

definition approxEqual :: "float64 \<Rightarrow> float64 \<Rightarrow> float64 \<Rightarrow> bool" where
  "approxEqual x y scale =
     (let tol = seamAbsFloor + seamRelTol * scale in math_Abs (x - y) \<le> tol)"

definition Join :: "float64 \<Rightarrow> string \<Rightarrow> motion \<Rightarrow> motion \<Rightarrow> seam" where
  "Join theta kind left right =
     (let sScale = math_Max (math_Abs (m_S left)) (math_Abs (m_S right));
          vScale = math_Max (math_Abs (m_V left)) (math_Abs (m_V right));
          aScale = math_Max (math_Abs (m_A left)) (math_Abs (m_A right));
          jScale = math_Max (math_Abs (m_J left)) (math_Abs (m_J right));
          sc = approxEqual (m_S left) (m_S right) sScale
      in \<lparr>sm_Theta = theta, sm_Kind = kind, sm_Left = left, sm_Right = right,
          SCont = sc,
          VCont = approxEqual (m_V left) (m_V right) vScale,
          ACont = approxEqual (m_A left) (m_A right) aScale,
          JCont = approxEqual (m_J left) (m_J right) jScale,
          SJump = \<not> sc\<rparr>)"

text \<open>The nil slice of the smooth laws is the empty list.\<close>

definition InternalSeams :: "spec \<Rightarrow> float64 \<Rightarrow> (go_error, seam list) result" where
  "InternalSeams s theta0 =
     result_bind (Spec_Validate s) (\<lambda>_.
       if spec_Type s \<noteq> Parabolic then Inr []
       else
         let tMid = half_f * spec_Beta s / spec_Omega s;
             theta = theta0 + spec_Beta s / f64 2 in
         result_bind (SampleSide s theta0 theta tMid False (f64 (-1))) (\<lambda>left.
         result_bind (SampleSide s theta0 theta tMid False (f64 1)) (\<lambda>right.
           Inr [Join theta ''switch'' left right])))"

lemma seamRelTol_bits [code]: "seamRelTol = Float64 False 993 0x12e0be826d695"
  by code_simp

lemma seamAbsFloor_bits [code]: "seamAbsFloor = Float64 False 983 0x19799812dea11"
  by code_simp

lemmas kinematics_pattern_code [code] =
  approxEqual_def [of "Float64 s e f" "Float64 s' e' f'" "Float64 s'' e'' f''"
    for s e f s' e' f' s'' e'' f'']
  bad_positive_def [of "Float64 s e f" for s e f]

subsection \<open>Validation\<close>

lemma bad_positive_iff [simp]: "bad_positive x \<longleftrightarrow> \<not> pos_finite x"
  using f64_classes [of x] by (auto simp: bad_positive_def pos_finite_def le_iff_valof)

lemma FullTurn_value [simp]: "is_finite FullTurn" "valof FullTurn = 360"
  using f64_exact [of 360] by (simp_all add: FullTurn_def)

definition spec_valid :: "spec \<Rightarrow> bool" where
  "spec_valid s \<longleftrightarrow> Known (spec_Type s) \<and> pos_finite (spec_H s) \<and> pos_finite (spec_Beta s)
     \<and> valof (spec_Beta s) < 360 \<and> pos_finite (spec_Omega s)"

lemma Spec_Validate_ok: "Spec_Validate s = Inr () \<longleftrightarrow> spec_valid s"
  by (auto simp: Spec_Validate_def spec_valid_def le_iff_valof pos_finite_def)

lemma Spec_Validate_valid [simp]: "spec_valid s \<Longrightarrow> Spec_Validate s = Inr ()"
  by (simp add: Spec_Validate_ok)

lemma Spec_Validate_invalid: "\<not> spec_valid s \<Longrightarrow> \<exists>e. Spec_Validate s = Inl e"
  using Spec_Validate_ok [of s] by (cases "Spec_Validate s") auto

subsection \<open>Sampling succeeds exactly on valid parameters\<close>

lemma SampleSide_valid:
  "spec_valid s \<Longrightarrow> SampleSide s theta0 theta t r side
     = Inr (restore (law_at (spec_Type s) ((theta - theta0) / spec_Beta s) side) (factor s) s theta t r)"
  by (simp add: SampleSide_def spec_valid_def Let_def)

lemma Sample_valid:
  "spec_valid s \<Longrightarrow> Sample s theta0 theta t r
     = Inr (restore (law_at (spec_Type s) ((theta - theta0) / spec_Beta s) 0) (factor s) s theta t r)"
  by (simp add: Sample_def Eval_def spec_valid_def Let_def)

lemma Sample_eq_SampleSide: "Sample s theta0 theta t r = SampleSide s theta0 theta t r 0"
  by (simp add: Sample_def SampleSide_def Eval_def)

lemma restore_fields [simp]:
  "m_Theta (restore w f s theta t r) = theta"
  "m_Time (restore w f s theta t r) = t"
  by (simp_all add: restore_def Let_def)

lemma restore_rise [simp]:
  "m_S (restore w f s theta t False) = spec_H s * val_Y w"
  "m_V (restore w f s theta t False) = sc_v f * val_Y1 w"
  "m_A (restore w f s theta t False) = sc_a f * val_Y2 w"
  "m_J (restore w f s theta t False) = sc_j f * val_Y3 w"
  by (simp_all add: restore_def Let_def)

lemma restore_return [simp]:
  "m_S (restore w f s theta t True) = spec_H s - spec_H s * val_Y w"
  "m_V (restore w f s theta t True) = - (sc_v f * val_Y1 w)"
  "m_A (restore w f s theta t True) = - (sc_a f * val_Y2 w)"
  "m_J (restore w f s theta t True) = - (sc_j f * val_Y3 w)"
  by (simp_all add: restore_def Let_def)

subsection \<open>The rise curve\<close>

definition grid_T :: "int \<Rightarrow> int \<Rightarrow> float64" where
  "grid_T points i = f64 i / f64 (points - 1)"

definition curve_motion :: "spec \<Rightarrow> int \<Rightarrow> int \<Rightarrow> motion" where
  "curve_motion s points i =
     (let T = grid_T points i
      in restore (law_at (spec_Type s) T 0) (factor s) s (T * spec_Beta s) (T * spec_Beta s / spec_Omega s) False)"

lemma curve_point_valid:
  "spec_valid s \<Longrightarrow> curve_point s points i = Inr (curve_motion s points i)"
  by (simp add: curve_point_def curve_motion_def grid_T_def Eval_def spec_valid_def Let_def)

lemma ClosedPeaks_valid:
  assumes "spec_valid s"
  shows "\<exists>p. Spec_ClosedPeaks s = Inr p"
  using assms ClosedPeaks_known [of "spec_Type s"]
  by (auto simp: Spec_ClosedPeaks_def spec_valid_def Let_def Spec_Validate_valid)

lemma Curve_valid:
  assumes "spec_valid s" "points \<le> MaxPoints"
  shows "\<exists>p. Spec_ClosedPeaks s = Inr p
    \<and> Curve s points = Inr (map (\<lambda>i. curve_motion s (max MinPoints points) (int i)) [0..<nat (max MinPoints points)], p)"
proof -
  obtain p where p: "Spec_ClosedPeaks s = Inr p" using ClosedPeaks_valid [OF assms(1)] by blast
  have m: "(if points < MinPoints then MinPoints else points) = max MinPoints points"
    by (simp add: max_def)
  have "\<not> MaxPoints < max MinPoints points" using assms(2) by (simp add: MinPoints_def MaxPoints_def)
  moreover have "result_map (\<lambda>i. curve_point s (max MinPoints points) (int i)) [0..<nat (max MinPoints points)]
      = Inr (map (\<lambda>i. curve_motion s (max MinPoints points) (int i)) [0..<nat (max MinPoints points)])"
    by (rule result_map_Inr) (simp add: curve_point_valid assms(1))
  ultimately show ?thesis using p assms(1) by (simp add: Curve_def m Let_def)
qed

text \<open>The dimensionless grid: it starts at 0, ends at 1, never decreases.\<close>

lemma grid_int:
  assumes "0 \<le> i" "i \<le> MaxPoints"
  shows "is_finite (f64 i)" "valof (f64 i) = of_int i"
  using f64_exact [of i] assms by (simp_all add: MaxPoints_def)

lemma grid_T_value:
  assumes "2 \<le> n" "n \<le> MaxPoints" "0 \<le> i" "i \<le> n - 1"
  shows "is_finite (grid_T n i)" "valof (grid_T n i) = rnd (of_int i / of_int (n - 1))"
    "0 \<le> valof (grid_T n i)" "valof (grid_T n i) \<le> 1"
proof -
  have f: "is_finite (f64 i)" "valof (f64 i) = of_int i" "is_finite (f64 (n - 1))"
    "valof (f64 (n - 1)) = of_int (n - 1)"
    using grid_int [of i] grid_int [of "n - 1"] assms by auto
  have q: "0 \<le> real_of_int i / of_int (n - 1)" "real_of_int i / of_int (n - 1) \<le> 1"
    using assms by (auto simp: divide_le_eq)
  show "is_finite (grid_T n i)" "0 \<le> valof (grid_T n i)" "valof (grid_T n i) \<le> 1"
    unfolding grid_T_def using div_bounds [of "f64 i" "f64 (n - 1)" 0 1] f q assms by auto
  have "rnd (of_int i / of_int (n - 1)) \<le> 1" "0 \<le> rnd (of_int i / of_int (n - 1))"
    using q rnd_le_representable [of _ 1] rnd_nonneg representable_valof [of 1] by auto
  then have "\<bar>rnd (of_int i / of_int (n - 1))\<bar> < f64_limit" using valof_limit [OF is_finite_1] by simp
  then show "valof (grid_T n i) = rnd (of_int i / of_int (n - 1))"
    unfolding grid_T_def using div_finite(2) [of "f64 i" "f64 (n - 1)"] f assms by simp
qed

lemma grid_T_mono:
  assumes "2 \<le> n" "n \<le> MaxPoints" "0 \<le> i" "i \<le> j" "j \<le> n - 1"
  shows "valof (grid_T n i) \<le> valof (grid_T n j)"
  using assms grid_T_value(2) [of n i] grid_T_value(2) [of n j]
  by (simp add: rnd_mono divide_right_mono)

lemma f64_0: "f64 0 = 0"
  by code_simp

lemma grid_T_first: "2 \<le> n \<Longrightarrow> n \<le> MaxPoints \<Longrightarrow> grid_T n 0 = 0"
  unfolding grid_T_def f64_0 using grid_int [of "n - 1"] by (intro div_0_left) auto

lemma grid_T_last: "2 \<le> n \<Longrightarrow> n \<le> MaxPoints \<Longrightarrow> grid_T n (n - 1) = 1"
  unfolding grid_T_def using grid_int [of "n - 1"] by (intro div_self) auto

lemma grid_scale:
  assumes "2 \<le> n" "n \<le> MaxPoints" "0 \<le> i" "i \<le> n - 1" "pos_finite b"
  shows "is_finite (grid_T n i * b)" "0 \<le> valof (grid_T n i * b)" "valof (grid_T n i * b) \<le> valof b"
    "valof (grid_T n i * b) = rnd (valof (grid_T n i) * valof b)"
proof -
  note T = grid_T_value [OF assms(1-4)] and b = pos_finiteD [OF assms(5)]
  have q: "0 \<le> valof (grid_T n i) * valof b" "valof (grid_T n i) * valof b \<le> valof b"
    using T(3,4) b mult_right_mono [of "valof (grid_T n i)" 1 "valof b"] by auto
  show bnd: "is_finite (grid_T n i * b)" "0 \<le> valof (grid_T n i * b)" "valof (grid_T n i * b) \<le> valof b"
    using mul_bounds [of "grid_T n i" b 0 b] T b q by auto
  have "0 \<le> rnd (valof (grid_T n i) * valof b)" "rnd (valof (grid_T n i) * valof b) \<le> valof b"
    using q rnd_nonneg rnd_le_representable by auto
  then have "\<bar>rnd (valof (grid_T n i) * valof b)\<bar> < f64_limit" using valof_limit [OF b(1)] by linarith
  then show "valof (grid_T n i * b) = rnd (valof (grid_T n i) * valof b)"
    using mul_finite(2) [of "grid_T n i" b] T b by simp
qed

subsection \<open>The continuity test\<close>

lemma seam_tolerances:
  "is_finite seamRelTol" "is_finite seamAbsFloor" "0 < valof seamRelTol" "0 < valof seamAbsFloor"
  "valof seamRelTol \<le> 2 powi (-29)" "valof seamAbsFloor \<le> 2 powi (-39)"
  by (simp_all add: seamRelTol_bits seamAbsFloor_bits is_finite_def valof_def f64_mag_def
      f64_mant_def f64_expo_def power_int_minus)

text \<open>The tolerance is finite and not negative, and small against the scale it is taken from.\<close>

lemma tolerance_value:
  assumes "is_finite scale" "0 \<le> valof scale"
  defines "tol \<equiv> seamAbsFloor + seamRelTol * scale"
  shows "is_finite tol" "0 \<le> valof tol"
    "valof tol \<le> rnd (2 powi (-39) + rnd (2 powi (-29) * valof scale))"
proof -
  let ?r = "valof seamRelTol * valof scale" and ?b = "2 powi (-29) * valof scale"
  have r: "0 \<le> ?r" "?r \<le> ?b"
    using seam_tolerances(3) mult_right_mono [OF seam_tolerances(5) assms(2)] assms(2) by simp_all
  have b: "?b \<le> 2 powi 1022"
  proof -
    have "valof scale \<le> 2 * 2 powi 1023" using valof_limit [OF assms(1)] half_limit by linarith
    then have "?b \<le> 2 powi (-29) * (2 * 2 powi 1023)" by (intro mult_left_mono) auto
    also have "\<dots> = 2 powi (-28 + 1023)" unfolding pow2_add by (simp add: power_int_minus)
    also have "\<dots> \<le> 2 powi 1022" by (subst pow2_le_iff) simp
    finally show ?thesis .
  qed
  have rr: "0 \<le> rnd ?r" "rnd ?r \<le> rnd ?b" using r rnd_nonneg rnd_mono by auto
  have rb: "rnd ?b \<le> 2 powi 1022" by (rule rnd_le_representable [OF b representable_pow2]) simp
  have l1: "\<bar>rnd ?r\<bar> < f64_limit" by (rule rnd_limit) (use r b in linarith)
  note m = mul_finite [OF seam_tolerances(1) assms(1) l1]
  have one: "(1::real) \<le> 2 powi 1022" using pow2_le_iff [of 0 1022] by (simp only: power_int_0_right)
  have a: "(2::real) powi (-39) \<le> 1" by (simp add: power_int_minus)
  have s: "0 \<le> valof seamAbsFloor + rnd ?r" "valof seamAbsFloor + rnd ?r \<le> 2 powi (-39) + rnd ?b"
    using seam_tolerances rr by linarith+
  have l2: "\<bar>rnd (valof seamAbsFloor + valof (seamRelTol * scale))\<bar> < f64_limit"
    unfolding m(2) by (rule rnd_limit) (use s rb one a in linarith)
  note t = add_finite [OF seam_tolerances(2) m(1) l2]
  show "is_finite tol" unfolding tol_def by (rule t)
  show "0 \<le> valof tol" unfolding tol_def t(2) m(2) using s by (intro rnd_nonneg)
  show "valof tol \<le> rnd (2 powi (-39) + rnd ?b)" unfolding tol_def t(2) m(2) using s by (intro rnd_mono)
qed

lemma approxEqual_refl:
  assumes "is_finite x" "is_finite scale" "0 \<le> valof scale"
  shows "approxEqual x x scale"
  using tolerance_value [OF assms(2,3)] assms(1)
  by (simp add: approxEqual_def sub_self le_iff_valof)

lemma Abs_scale:
  assumes "is_finite x" "is_finite y"
  shows "is_finite (math_Max (math_Abs x) (math_Abs y))"
    "valof (math_Max (math_Abs x) (math_Abs y)) = max \<bar>valof x\<bar> \<bar>valof y\<bar>"
  using math_Max_finite [of "math_Abs x" "math_Abs y"] assms by simp_all

lemma Join_cont:
  "m_S l = m_S r \<Longrightarrow> is_finite (m_S l) \<Longrightarrow> SCont (Join theta k l r)"
  "m_V l = m_V r \<Longrightarrow> is_finite (m_V l) \<Longrightarrow> VCont (Join theta k l r)"
  "m_A l = m_A r \<Longrightarrow> is_finite (m_A l) \<Longrightarrow> ACont (Join theta k l r)"
  "m_J l = m_J r \<Longrightarrow> is_finite (m_J l) \<Longrightarrow> JCont (Join theta k l r)"
  using Abs_scale by (auto simp: Join_def Let_def intro!: approxEqual_refl)

lemma Join_fields [simp]:
  "sm_Theta (Join theta k l r) = theta" "sm_Kind (Join theta k l r) = k"
  "sm_Left (Join theta k l r) = l" "sm_Right (Join theta k l r) = r"
  "SJump (Join theta k l r) \<longleftrightarrow> \<not> SCont (Join theta k l r)"
  by (simp_all add: Join_def Let_def)

text \<open>Two opposite values that are not tiny are told apart.\<close>

lemma approxEqual_opposite:
  assumes "is_finite x" "is_finite y" "valof y = - valof x" "2 powi (-38) \<le> valof x" "valof x \<le> 2 powi 1022"
  shows "\<not> approxEqual x y (math_Max (math_Abs x) (math_Abs y))"
proof -
  let ?s = "math_Max (math_Abs x) (math_Abs y)"
  let ?v = "valof x"
  have pos: "0 < ?v" using assms(4) by (rule less_le_trans [rotated]) simp
  have s: "is_finite ?s" "valof ?s = ?v" using Abs_scale [OF assms(1,2)] assms(3) pos by auto
  note t = tolerance_value [OF s(1)]
  have "2 powi (-29) * ?v \<le> ?v / 2" using pos by (simp add: power_int_minus)
  moreover have "representable ?v" by simp
  ultimately have "rnd (2 powi (-29) * ?v) \<le> ?v"
    using pos by (intro rnd_le_representable) auto
  moreover have "2 * (2::real) powi (-39) \<le> ?v"
    using assms(4) by (rule order_trans [rotated]) (simp add: power_int_minus)
  ultimately have "2 powi (-39) + rnd (2 powi (-29) * ?v) \<le> 3/2 * ?v" by linarith
  then have "rnd (2 powi (-39) + rnd (2 powi (-29) * ?v)) \<le> rnd (3/2 * ?v)" by (rule rnd_mono)
  also have "rnd (3/2 * ?v) < 2 * ?v"
  proof -
    have "(2::real) powi (-1022) \<le> 2 powi (-38)" by (simp only: pow2_le_iff)
    then have "\<bar>rnd (3/2 * ?v) - 3/2 * ?v\<bar> \<le> \<bar>3/2 * ?v\<bar> * 2 powi (-53)"
      using assms(4) pos by (intro rnd_error_rel) linarith
    also have "\<dots> < ?v / 2" using pos by (simp add: power_int_minus abs_mult)
    finally show ?thesis using abs_ge_self [of "rnd (3/2 * ?v) - 3/2 * ?v"] by linarith
  qed
  finally have tol: "valof (seamAbsFloor + seamRelTol * ?s) < 2 * ?v" using t(3) s(2) pos by simp
  have r: "rnd (valof x - valof y) = 2 * ?v" using representable_double [of ?v] assms(3) by simp
  have "\<bar>rnd (valof x - valof y)\<bar> < f64_limit" by (rule rnd_limit) (use assms(3,5) pos in simp)
  then have "is_finite (x - y)" "valof (x - y) = 2 * ?v"
    using sub_finite [OF assms(1,2)] r by simp_all
  then show ?thesis using tol t s pos by (simp add: approxEqual_def Let_def le_iff_valof)
qed

subsection \<open>The switch point of the parabolic law\<close>

text \<open>Halving is exact on numbers that are not subnormal.\<close>

lemma halve_exact:
  assumes "is_finite x" "2 powi (-1021) \<le> valof x"
  shows "is_finite (x / f64 2)" "valof (x / f64 2) = valof x / 2"
proof -
  have pos: "0 < valof x" using assms(2) by (rule less_le_trans [rotated]) simp
  have v: "valof x = of_int (f64_mant x) * 2 powi f64_expo x"
    using fsign_pos [OF pos] by (simp add: valof_def f64_mag_def)
  have e: "-1073 \<le> f64_expo x"
  proof (rule ccontr)
    assume "\<not> -1073 \<le> f64_expo x"
    with f64_expo_ge [of x] have e: "f64_expo x = -1074" by simp
    have "real_of_int (f64_mant x) < of_int (2 ^ 53)"
      using f64_mant_less [of x] by (simp only: of_int_less_iff)
    then have "valof x < of_int (2 ^ 53) * 2 powi (-1074)"
      unfolding v e by (intro mult_strict_right_mono) auto
    also have "of_int (2 ^ 53) * 2 powi (-1074) = (2::real) powi (53 + -1074)"
      unfolding pow2_add by simp
    also have "\<dots> = 2 powi (-1021)" by (simp only: arith_simps)
    finally show False using assms(2) by simp
  qed
  have "valof x / 2 = of_int (f64_mant x) * 2 powi (f64_expo x - 1)"
    unfolding v by (simp add: pow2_diff)
  then have r: "representable (valof x / 2)"
    unfolding representable_def using e f64_mant_less [of x]
    by (intro exI [of _ "f64_mant x"] exI [of _ "f64_expo x - 1"]) auto
  have lim: "\<bar>rnd (valof x / valof (f64 2))\<bar> < f64_limit"
    using r pos valof_limit [OF assms(1)] by (simp add: small_ints)
  show "is_finite (x / f64 2)" "valof (x / f64 2) = valof x / 2"
    using div_finite [OF assms(1) small_ints(1) _ lim] r by (simp_all add: small_ints)
qed

lemma switch_T:
  assumes "is_finite b" "2 powi (-1021) \<le> valof b"
  shows "((0 + b / f64 2) - 0) / b = half_f"
proof -
  have pos: "0 < valof b" using assms(2) by (rule less_le_trans [rotated]) simp
  note h = halve_exact [OF assms]
  have "0 + b / f64 2 = b / f64 2" using h pos by (intro add_0_left) auto
  moreover have "b / f64 2 - 0 = b / f64 2" using h pos by (intro sub_0_right) auto
  moreover have "b / f64 2 / b = half_f"
    using div_exact [of "b / f64 2" b half_f] h assms pos by (intro valof_inject_pos) auto
  ultimately show ?thesis by simp
qed

lemma law_at_half:
  "val_Y (law_at Parabolic half_f side) = half_f" "val_Y1 (law_at Parabolic half_f side) = f64 2"
  "val_Y2 (law_at Parabolic half_f side) = (if 0 < side then f64 (-4) else f64 4)"
  using evalParabolic_mid [of half_f side] by (simp_all add: law_at_Parabolic)

lemma side_signs: "0 < f64 1" "\<not> 0 < f64 (-1)"
  by code_simp+

lemma quadruple_signed:
  assumes "is_finite a" "2 powi (-40) \<le> valof a" "valof a \<le> 2 powi 1020"
  shows "is_finite (a * f64 4)" "is_finite (a * f64 (-4))"
    "valof (a * f64 (-4)) = - valof (a * f64 4)"
    "2 powi (-38) \<le> valof (a * f64 4)" "valof (a * f64 4) \<le> 2 powi 1022"
proof -
  have eq: "valof a * valof (f64 (-4)) = - (valof a * valof (f64 4))" by (simp add: small_ints)
  have b: "2 powi (-38) \<le> valof a * valof (f64 4)" "valof a * valof (f64 4) \<le> 2 powi 1022"
  proof -
    have "(2::real) powi (-40 + 2) = 2 powi (-40) * 4" "(2::real) powi (1020 + 2) = 2 powi 1020 * 4"
      unfolding pow2_add by simp_all
    then show "2 powi (-38) \<le> valof a * valof (f64 4)" "valof a * valof (f64 4) \<le> 2 powi 1022"
      using assms(2,3) by (simp_all add: small_ints)
  qed
  have pos: "0 < valof a" using assms(2) by (rule less_le_trans [rotated]) simp
  then have lim: "\<bar>rnd (valof a * valof (f64 4))\<bar> < f64_limit"
    by (intro rnd_limit) (use b(2) in \<open>simp add: small_ints\<close>)
  then have lim': "\<bar>rnd (valof a * valof (f64 (-4)))\<bar> < f64_limit" unfolding eq by simp
  note m = mul_finite [OF assms(1) small_ints(3) lim] and m' = mul_finite [OF assms(1) small_ints(5) lim']
  show "is_finite (a * f64 4)" "is_finite (a * f64 (-4))" using m m' by auto
  show "valof (a * f64 (-4)) = - valof (a * f64 4)" unfolding m(2) m'(2) eq by simp
  show "2 powi (-38) \<le> valof (a * f64 4)"
    unfolding m(2) using b(1) by (rule rnd_ge_representable) (rule representable_pow2, simp)
  show "valof (a * f64 4) \<le> 2 powi 1022"
    unfolding m(2) using b(2) by (rule rnd_le_representable) (rule representable_pow2, simp)
qed

lemma half_stroke_finite: "is_finite h \<Longrightarrow> is_finite (h * half_f)"
proof -
  assume h: "is_finite h"
  have "\<bar>valof h * valof half_f\<bar> \<le> 3 * 2 powi 1022"
  proof -
    have "\<bar>valof h\<bar> < 2 * (2 * 2 powi 1022)"
    proof -
      have "(2::real) powi (1022 + 1) = 2 powi 1022 * 2" unfolding pow2_add by simp
      then show ?thesis using valof_limit [OF h] half_limit by simp
    qed
    then show ?thesis by (simp add: abs_mult)
  qed
  then have "\<bar>rnd (valof h * valof half_f)\<bar> < f64_limit" by (rule rnd_limit)
  then show ?thesis using mul_finite(1) [OF h half_f_value(1)] by simp
qed

lemma opposite_not_ACont:
  assumes "is_finite (m_A l)" "is_finite (m_A r)" "valof (m_A r) = - valof (m_A l)"
    "2 powi (-38) \<le> valof (m_A l)" "valof (m_A l) \<le> 2 powi 1022"
  shows "\<not> ACont (Join theta k l r)"
  using approxEqual_opposite [OF assms] by (simp add: Join_def Let_def)

lemma curve_motion_first:
  assumes "spec_valid s" "2 \<le> n" "n \<le> MaxPoints"
  shows "m_Theta (curve_motion s n 0) = 0" "m_S (curve_motion s n 0) = 0"
  using assms grid_T_first [of n] law_at_0_Y(1) [of "spec_Type s" 0] fsign_pos
  by (auto simp: curve_motion_def spec_valid_def pos_finite_def Let_def intro!: mul_0_left mul_0_right)

lemma curve_motion_last:
  assumes "spec_valid s" "2 \<le> n" "n \<le> MaxPoints"
  shows "m_Theta (curve_motion s n (n - 1)) = spec_Beta s"
    "m_Time (curve_motion s n (n - 1)) = spec_Beta s / spec_Omega s"
    "m_S (curve_motion s n (n - 1)) = spec_H s"
  using assms grid_T_last [of n] law_at_1_Y [of "spec_Type s" 0]
  by (auto simp: curve_motion_def spec_valid_def pos_finite_def Let_def mul_1_left mul_1_right)

lemma curve_motion_mono:
  assumes "spec_valid s" "2 \<le> n" "n \<le> MaxPoints" "0 \<le> i" "i \<le> j" "j \<le> n - 1"
  shows "m_Theta (curve_motion s n i) \<le> m_Theta (curve_motion s n j)"
proof -
  have b: "pos_finite (spec_Beta s)" using assms(1) by (simp add: spec_valid_def)
  note i = grid_scale [OF assms(2,3) _ _ b, of i] and j = grid_scale [OF assms(2,3) _ _ b, of j]
  have "valof (grid_T n i) * valof (spec_Beta s) \<le> valof (grid_T n j) * valof (spec_Beta s)"
    using grid_T_mono [OF assms(2-6)] pos_finiteD [OF b] by (intro mult_right_mono) auto
  then show ?thesis
    using i(1,4) j(1,4) assms(4-6) by (simp add: curve_motion_def Let_def le_iff_valof rnd_mono)
qed

subsection \<open>Properties of the kinematics\<close>

text \<open>
  Claim C33. \<open>Validate\<close> accepts a motion specification exactly when the law is one of the three known ones,
  the stroke, the angle and the speed are finite and positive, and the angle is below a full
  turn; an unknown law is always reported as the sentinel \<open>ErrUnknownLaw\<close> first.
\<close>

theorem Spec_Validate_iff:
  "(Spec_Validate s = Inr () \<longleftrightarrow> spec_Type s \<in> {''cosine'', ''cycloid'', ''parabolic''}
      \<and> is_finite (spec_H s) \<and> 0 < valof (spec_H s)
      \<and> is_finite (spec_Beta s) \<and> 0 < valof (spec_Beta s) \<and> valof (spec_Beta s) < 360
      \<and> is_finite (spec_Omega s) \<and> 0 < valof (spec_Omega s))
   \<and> (Spec_Validate s = Inl ErrUnknownLaw \<longleftrightarrow> spec_Type s \<notin> {''cosine'', ''cycloid'', ''parabolic''})"
proof
  show "Spec_Validate s = Inr () \<longleftrightarrow> spec_Type s \<in> {''cosine'', ''cycloid'', ''parabolic''}
      \<and> is_finite (spec_H s) \<and> 0 < valof (spec_H s)
      \<and> is_finite (spec_Beta s) \<and> 0 < valof (spec_Beta s) \<and> valof (spec_Beta s) < 360
      \<and> is_finite (spec_Omega s) \<and> 0 < valof (spec_Omega s)"
    unfolding Spec_Validate_ok by (auto simp: spec_valid_def pos_finite_def Known_def law_names)
  show "Spec_Validate s = Inl ErrUnknownLaw \<longleftrightarrow> spec_Type s \<notin> {''cosine'', ''cycloid'', ''parabolic''}"
    by (auto simp: Spec_Validate_def Known_def law_names)
qed

text \<open>
  Claim C18. \<open>Curve\<close> succeeds exactly on a valid specification with at most \<open>MaxPoints\<close> grid points;
  it then returns \<open>max 2 points\<close> points, the first at angle 0 with displacement 0, the last at angle
  exactly \<open>\<beta>\<close> and displacement exactly \<open>h\<close>, the angles never decreasing in between.
\<close>

theorem Curve_correct:
  "case Curve s points of
     Inl e \<Rightarrow> Spec_Validate s = Inl e \<or> Spec_Validate s = Inr () \<and> e = Too_Many_Points \<and> 200001 < points
   | Inr (ms, p) \<Rightarrow> Spec_Validate s = Inr () \<and> points \<le> 200001 \<and> Spec_ClosedPeaks s = Inr p
       \<and> length ms = nat (max 2 points)
       \<and> m_Theta (ms ! 0) = 0 \<and> m_S (ms ! 0) = 0
       \<and> m_Theta (last ms) = spec_Beta s \<and> m_S (last ms) = spec_H s
       \<and> sorted_wrt (\<lambda>a b. m_Theta a \<le> m_Theta b) ms"
proof (cases "spec_valid s")
  case False
  then obtain e where "Spec_Validate s = Inl e" using Spec_Validate_invalid by blast
  then show ?thesis by (simp add: Curve_def)
next
  case valid: True
  show ?thesis
  proof (cases "points \<le> MaxPoints")
    case False
    then show ?thesis using valid by (simp add: Curve_def Let_def MaxPoints_def MinPoints_def)
  next
    case True
    define n where "n = max MinPoints points"
    define ms where "ms = map (\<lambda>i. curve_motion s n (int i)) [0..<nat n]"
    have n: "2 \<le> n" "n \<le> MaxPoints" "n = max 2 points"
      using True by (simp_all add: n_def MinPoints_def MaxPoints_def)
    obtain p where p: "Spec_ClosedPeaks s = Inr p" "Curve s points = Inr (ms, p)"
      using Curve_valid [OF valid True] unfolding n_def ms_def by blast
    have l: "length ms = nat n" by (simp add: ms_def)
    have nth: "ms ! i = curve_motion s n (int i)" if "i < nat n" for i using that by (simp add: ms_def)
    have "last ms = ms ! (nat n - 1)" using l n(1) by (subst last_conv_nth) auto
    then have last: "last ms = curve_motion s n (n - 1)" using n(1) by (simp add: nth)
    have "sorted_wrt (\<lambda>a b. m_Theta a \<le> m_Theta b) ms"
      unfolding sorted_wrt_iff_nth_less using l nth curve_motion_mono [OF valid n(1,2)] by auto
    then show ?thesis
      using p l last nth [of 0] n valid True curve_motion_first [OF valid n(1,2)]
        curve_motion_last [OF valid n(1,2)]
      by (simp add: MaxPoints_def)
  qed
qed

text \<open>
  Claim C32. \<open>InternalSeams\<close> of a valid rise that starts at angle 0, whose double velocity scale is finite, whose acceleration scale is from \<open>2^-40\<close> to \<open>2^1020\<close> and whose
  angle is at least \<open>2^-1021\<close>: a smooth law has no internal seam; the parabolic law has exactly one, at half the angle, where displacement and velocity are
  continuous and the jump of the acceleration is detected. (For a smaller acceleration scale the absolute tolerance of the comparison hides the jump.)
\<close>

theorem InternalSeams_rise:
  assumes "Spec_Validate s = Inr ()"
    "is_finite (sc_v (factor s) * f64 2)" "is_finite (sc_a (factor s))"
    "2 powi (-40) \<le> valof (sc_a (factor s))" "valof (sc_a (factor s)) \<le> 2 powi 1020"
    "2 powi (-1021) \<le> valof (spec_Beta s)"
  shows "\<exists>js. InternalSeams s 0 = Inr js
    \<and> (if spec_Type s = Parabolic
       then \<exists>j. js = [j] \<and> valof (sm_Theta j) = valof (spec_Beta s) / 2
              \<and> SCont j \<and> VCont j \<and> \<not> ACont j \<and> \<not> SJump j
       else js = [])"
proof (cases "spec_Type s = Parabolic")
  case False
  then show ?thesis using assms(1) by (simp add: InternalSeams_def)
next
  case par: True
  have valid: "spec_valid s" using assms(1) by (simp add: Spec_Validate_ok)
  then have b: "is_finite (spec_Beta s)" and h: "is_finite (spec_H s)"
    by (simp_all add: spec_valid_def pos_finite_def)
  have T: "((0 + spec_Beta s / f64 2) - 0) / spec_Beta s = half_f" by (rule switch_T [OF b assms(6)])
  note hb = halve_exact [OF b assms(6)]
  have "0 < valof (spec_Beta s)" using valid by (simp add: spec_valid_def pos_finite_def)
  then have th: "0 + spec_Beta s / f64 2 = spec_Beta s / f64 2" using hb by (intro add_0_left) auto
  note q = quadruple_signed [OF assms(3-5)]
  define tm where "tm = half_f * spec_Beta s / spec_Omega s"
  define m where "m side = restore (law_at Parabolic half_f side) (factor s) s (spec_Beta s / f64 2) tm False" for side
  have S: "m_S (m x) = m_S (m y)" "m_V (m x) = m_V (m y)" "is_finite (m_S (m x))" "is_finite (m_V (m x))" for x y
    using half_stroke_finite [OF h] assms(2) by (simp_all add: m_def law_at_half)
  have A: "\<not> ACont (Join theta k (m (f64 (-1))) (m (f64 1)))" for theta k
    by (rule opposite_not_ACont) (use q in \<open>simp_all add: m_def law_at_half side_signs\<close>)
  have "InternalSeams s 0 = Inr [Join (spec_Beta s / f64 2) ''switch'' (m (f64 (-1))) (m (f64 1))]"
    using valid par T by (simp add: InternalSeams_def SampleSide_valid th m_def tm_def Let_def)
  then show ?thesis using par hb A S Join_cont(1,2) by auto
qed

theorem InternalSeams_rise_witness:
  "\<exists>j. InternalSeams \<lparr>spec_Type = ''parabolic'', spec_H = f64 16, spec_Beta = f64 64, spec_Omega = f64 64\<rparr> 0 = Inr [j]
     \<and> SCont j \<and> VCont j \<and> \<not> ACont j"
proof -
  let ?s = "\<lparr>spec_Type = ''parabolic'', spec_H = f64 16, spec_Beta = f64 64, spec_Omega = f64 64\<rparr>"
  have v: "Spec_Validate ?s = Inr ()" by code_simp
  have f: "factor ?s = \<lparr>sc_v = f64 16, sc_a = f64 16, sc_j = f64 16\<rparr>" by code_simp
  have x: "is_finite (f64 16 * f64 2)" by code_simp
  have e: "is_finite (f64 16)" "valof (f64 16) = 16" "valof (f64 64) = 64"
    using f64_exact [of 16] f64_exact [of 64] by simp_all
  have p: "(2::real) powi (-40) \<le> 2 powi 4" "(2::real) powi 4 \<le> 2 powi 1020" "(2::real) powi (-1021) \<le> 2 powi 6"
    by (simp_all only: pow2_le_iff)
  have n: "(2::real) powi 4 = 16" "(2::real) powi 6 = 64" by simp_all
  have "\<exists>js. InternalSeams ?s 0 = Inr js \<and> (if spec_Type ?s = Parabolic
       then \<exists>j. js = [j] \<and> valof (sm_Theta j) = valof (spec_Beta ?s) / 2
              \<and> SCont j \<and> VCont j \<and> \<not> ACont j \<and> \<not> SJump j else js = [])"
    by (rule InternalSeams_rise [of ?s]) (use v x e p n in \<open>simp_all only: f scales.select_convs spec.select_convs\<close>)
  then show ?thesis by (auto simp: law_names)
qed

end
