(* ===== verification/Cycle.thy ===== *)
theory Cycle
  imports Kinematics
begin

text \<open>
  Package \<open>cycle\<close> (\<open>internal/cycle/cycle.go\<close>): a full turn made of rise, outer dwell, return and inner
  dwell. The theory holds the configuration and its validation, the assembly of the segments,
  the point and grid evaluation and the continuity check of all joints.

  An index into \<open>b.All\<close> that is out of range is the value \<open>Index_Panic\<close>; the segments that \<open>Build\<close>
  returns never lead to it.
\<close>

record config =
  RiseLaw :: string
  ReturnLaw :: string
  cfg_H :: float64
  RiseAngle :: float64
  OuterDwell :: float64
  ReturnAngle :: float64
  InnerDwell :: float64
  cfg_Omega :: float64

record segment =
  seg_Kind :: string
  seg_Law :: string
  seg_Start :: float64
  seg_End :: float64
  seg_Beta :: float64
  seg_Spec :: spec

record segments =
  seg_All :: "segment list"
  TotalAngle :: float64

subsection \<open>Validation\<close>

definition checkMotionAngle :: "angle_name \<Rightarrow> float64 \<Rightarrow> (go_error, unit) result" where
  "checkMotionAngle name b =
     (if math_IsNaN b \<or> math_IsInf b 0 \<or> b \<le> 0 then Inl (Angle_Not_Positive name)
      else if FullTurn \<le> b then Inl (Angle_Full_Turn name)
      else Inr ())"

definition checkDwellAngle :: "angle_name \<Rightarrow> float64 \<Rightarrow> (go_error, unit) result" where
  "checkDwellAngle name b =
     (if math_IsNaN b \<or> math_IsInf b 0 \<or> b < 0 then Inl (Angle_Negative name)
      else if FullTurn \<le> b then Inl (Angle_Full_Turn name)
      else Inr ())"

text \<open>The constant \<open>1e-9\<close> of the sum check.\<close>

definition sumTol :: float64 where "sumTol = f64_const 1 (10 ^ 9)"

definition angle_total :: "config \<Rightarrow> float64" where
  "angle_total c = RiseAngle c + OuterDwell c + ReturnAngle c + InnerDwell c"

definition Config_Validate :: "config \<Rightarrow> (go_error, unit) result" where
  "Config_Validate c =
     (if \<not> Known (RiseLaw c) then Inl (Rise_Law_Invalid ErrUnknownLaw)
      else if \<not> Known (ReturnLaw c) then Inl (Return_Law_Invalid ErrUnknownLaw)
      else if bad_positive (cfg_H c) then Inl H_Not_Positive
      else if bad_positive (cfg_Omega c) then Inl Omega_Not_Positive
      else
        result_bind (checkMotionAngle Rise_Angle (RiseAngle c)) (\<lambda>_.
        result_bind (checkMotionAngle Return_Angle (ReturnAngle c)) (\<lambda>_.
        result_bind (checkDwellAngle Outer_Dwell (OuterDwell c)) (\<lambda>_.
        result_bind (checkDwellAngle Inner_Dwell (InnerDwell c)) (\<lambda>_.
          let total = angle_total c in
          if sumTol < math_Abs (total - FullTurn) then Inl (Angle_Sum total)
          else Inr ())))))"

subsection \<open>Assembly\<close>

text \<open>The closure \<open>push\<close> works on the slice \<open>segs\<close> and the running angle \<open>pos\<close>.\<close>

definition push ::
  "config \<Rightarrow> string \<Rightarrow> string \<Rightarrow> float64 \<Rightarrow> segment list \<times> float64 \<Rightarrow> segment list \<times> float64" where
  "push c kind tp beta st =
     (case st of (segs, pos) \<Rightarrow>
        if beta \<le> 0 then (segs, pos)
        else
          let s = \<lparr>spec_Type = tp, spec_H = cfg_H c, spec_Beta = beta, spec_Omega = cfg_Omega c\<rparr>
          in (segs @ [\<lparr>seg_Kind = kind, seg_Law = tp, seg_Start = pos, seg_End = pos + beta,
                       seg_Beta = beta, seg_Spec = s\<rparr>], pos + beta))"

definition Build :: "config \<Rightarrow> (go_error, segments) result" where
  "Build c =
     result_bind (Config_Validate c) (\<lambda>_.
       let st = push c ''rise'' (RiseLaw c) (RiseAngle c) ([], 0);
           st = push c ''outer_dwell'' '''' (OuterDwell c) st;
           st = push c ''return'' (ReturnLaw c) (ReturnAngle c) st;
           st = push c ''inner_dwell'' '''' (InnerDwell c) st
       in Inr \<lparr>seg_All = fst st, TotalAngle = snd st\<rparr>)"

subsection \<open>Evaluation at one angle\<close>

definition isDwell :: "string \<Rightarrow> bool" where
  "isDwell kind \<longleftrightarrow> kind = ''outer_dwell'' \<or> kind = ''inner_dwell''"

definition index_at :: "'a list \<Rightarrow> int \<Rightarrow> (go_error, 'a) result" where
  "index_at xs i = (if 0 \<le> i \<and> i < int (length xs) then Inr (xs ! nat i) else Inl Index_Panic)"

definition locate :: "segments \<Rightarrow> float64 \<Rightarrow> (go_error, segment) result" where
  "locate b theta =
     (let last_seg = index_at (seg_All b) (int (length (seg_All b)) - 1) in
      if FullTurn \<le> theta then last_seg
      else case find (\<lambda>sg. isDwell (seg_Kind sg) \<and> seg_Start sg \<le> theta \<and> theta \<le> seg_End sg) (seg_All b) of
        Some sg \<Rightarrow> Inr sg
      | None \<Rightarrow>
          (case find (\<lambda>sg. seg_Start sg \<le> theta \<and> theta < seg_End sg) (seg_All b) of
             Some sg \<Rightarrow> Inr sg
           | None \<Rightarrow> last_seg))"

definition dwellMotion :: "float64 \<Rightarrow> float64 \<Rightarrow> float64 \<Rightarrow> motion" where
  "dwellMotion level theta t =
     \<lparr>m_Theta = theta, m_Time = t, m_S = level, m_V = 0, m_A = 0, m_J = 0\<rparr>"

text \<open>The constant expression \<open>kinematics.FullTurn+1e-9\<close>.\<close>

definition thetaMax :: float64 where "thetaMax = f64_const 360000000001 (10 ^ 9)"

definition Point :: "segments \<Rightarrow> float64 \<Rightarrow> (go_error, motion) result" where
  "Point b theta0 =
     (if theta0 < 0 \<or> thetaMax < theta0 then Inl Theta_Out_Of_Range
      else
        let theta = (if FullTurn < theta0 then FullTurn else theta0) in
        result_bind (index_at (seg_All b) 0) (\<lambda>first.
          let omega = spec_Omega (seg_Spec first) in
          result_bind (locate b theta) (\<lambda>sg.
            if seg_Kind sg = ''outer_dwell'' then
              Inr (dwellMotion (spec_H (seg_Spec sg)) theta (theta / omega))
            else if seg_Kind sg = ''inner_dwell'' then Inr (dwellMotion 0 theta (theta / omega))
            else if seg_Kind sg = ''rise'' then
              Sample (seg_Spec sg) (seg_Start sg) theta (seg_Start sg / omega) False
            else if seg_Kind sg = ''return'' then
              Sample (seg_Spec sg) (seg_Start sg) theta (seg_Start sg / omega) True
            else Inl (Unknown_Segment (seg_Kind sg)))))"

subsection \<open>The grid\<close>

record curve_sample =
  cs_Segment :: string
  cs_Motion :: motion

definition cycle_theta :: "int \<Rightarrow> int \<Rightarrow> float64" where
  "cycle_theta points i = FullTurn * f64 i / f64 (points - 1)"

definition cycle_sample :: "segments \<Rightarrow> int \<Rightarrow> int \<Rightarrow> (go_error, curve_sample) result" where
  "cycle_sample b points i =
     (let theta = cycle_theta points i in
      result_bind (Point b theta) (\<lambda>m.
      result_bind (locate b theta) (\<lambda>sg.
        Inr \<lparr>cs_Segment = seg_Kind sg, cs_Motion = m\<rparr>)))"

definition Segments_Curve :: "segments \<Rightarrow> int \<Rightarrow> (go_error, curve_sample list) result" where
  "Segments_Curve b points0 =
     (let points = (if points0 < MinPoints then MinPoints else points0) in
      if MaxPoints < points then Inl Too_Many_Points
      else result_map (\<lambda>i. cycle_sample b points (int i)) [0..<nat points])"

subsection \<open>The joints\<close>

record joint =
  LeftSegment :: string
  RightSegment :: string
  joint_Seam :: seam

definition sideMotion :: "segments \<Rightarrow> segment \<Rightarrow> float64 \<Rightarrow> float64 \<Rightarrow> (go_error, motion) result" where
  "sideMotion b sg theta side =
     result_bind (index_at (seg_All b) 0) (\<lambda>first.
       let omega = spec_Omega (seg_Spec first);
           tLocal = seg_Start sg / omega in
       if seg_Kind sg = ''outer_dwell'' then
         Inr (dwellMotion (spec_H (seg_Spec sg)) theta (theta / omega))
       else if seg_Kind sg = ''inner_dwell'' then Inr (dwellMotion 0 theta (theta / omega))
       else if seg_Kind sg = ''rise'' then
         SampleSide (seg_Spec sg) (seg_Start sg) theta tLocal False side
       else if seg_Kind sg = ''return'' then
         SampleSide (seg_Spec sg) (seg_Start sg) theta tLocal True side
       else Inl (Unknown_Segment (seg_Kind sg)))"

definition boundary_joint :: "segments \<Rightarrow> segment \<times> segment \<Rightarrow> (go_error, joint) result" where
  "boundary_joint b lr =
     (case lr of (left, right) \<Rightarrow>
        result_bind (sideMotion b left (seg_End left) (f64 1)) (\<lambda>lv.
        result_bind (sideMotion b right (seg_Start right) (f64 (-1))) (\<lambda>rv.
          Inr \<lparr>LeftSegment = seg_Kind left, RightSegment = seg_Kind right,
               joint_Seam = Join (seg_End left) ''boundary'' lv rv\<rparr>)))"

definition switch_joint :: "segments \<Rightarrow> segment \<Rightarrow> (go_error, joint) result" where
  "switch_joint b sg =
     (let returning = (seg_Kind sg = ''return'') in
      result_bind (index_at (seg_All b) 0) (\<lambda>first.
        let omega = spec_Omega (seg_Spec first);
            theta = seg_Start sg + seg_Beta sg / f64 2;
            tm = seg_Start sg / omega in
        result_bind (SampleSide (seg_Spec sg) (seg_Start sg) theta tm returning (f64 (-1))) (\<lambda>lv.
        result_bind (SampleSide (seg_Spec sg) (seg_Start sg) theta tm returning (f64 1)) (\<lambda>rv.
          Inr \<lparr>LeftSegment = seg_Kind sg, RightSegment = seg_Kind sg,
               joint_Seam = Join theta ''switch'' lv rv\<rparr>))))"

definition cyclic_joint :: "segments \<Rightarrow> (go_error, joint) result" where
  "cyclic_joint b =
     result_bind (index_at (seg_All b) (int (length (seg_All b)) - 1)) (\<lambda>last_sg.
     result_bind (index_at (seg_All b) 0) (\<lambda>first.
     result_bind (sideMotion b last_sg FullTurn (f64 1)) (\<lambda>lv.
     result_bind (sideMotion b first 0 (f64 (-1))) (\<lambda>rv.
       Inr \<lparr>LeftSegment = seg_Kind last_sg, RightSegment = seg_Kind first,
            joint_Seam = Join FullTurn ''cyclic'' lv rv\<rparr>))))"

definition Discontinuities :: "segments \<Rightarrow> (go_error, joint list) result" where
  "Discontinuities b =
     result_bind (result_map (boundary_joint b) (zip (seg_All b) (tl (seg_All b)))) (\<lambda>boundary.
     result_bind (result_map (switch_joint b) (filter (\<lambda>sg. seg_Law sg = Parabolic) (seg_All b))) (\<lambda>switch.
     result_bind (cyclic_joint b) (\<lambda>cyclic.
       Inr (boundary @ switch @ [cyclic]))))"

definition HasDisplacementJump :: "joint list \<Rightarrow> bool" where
  "HasDisplacementJump joints \<longleftrightarrow> (\<exists>j \<in> set joints. SJump (joint_Seam j))"

lemma sumTol_bits [code]: "sumTol = Float64 False 993 0x12e0be826d695"
  by code_simp

lemma thetaMax_bits [code]: "thetaMax = Float64 False 1031 0x68000000044b8"
  by code_simp

lemmas cycle_pattern_code [code] =
  checkMotionAngle_def [of n "Float64 s e f" for n s e f]
  checkDwellAngle_def [of n "Float64 s e f" for n s e f]

end
