(* ===== verification/Cycle_Findings.thy ===== *)
theory Cycle_Findings
  imports Cycle
begin

text \<open>
  Cycles on which the continuity report is not what the documentation promises, evaluated in the
  model: the conditions of the positive theorems on joints cannot be dropped.
\<close>

definition joint_flags :: "config \<Rightarrow> (go_error, bool \<times> (string \<times> bool \<times> bool \<times> bool) list) result" where
  "joint_flags c = result_bind (Build c) (\<lambda>b. result_bind (Discontinuities b) (\<lambda>js.
     Inr (HasDisplacementJump js,
          map (\<lambda>j. let s = joint_Seam j in (sm_Kind s, SCont s, VCont s, ACont s)) js)))"

text \<open>
  A cycle that \<open>Validate\<close> accepts and that is reported to have a displacement jump: the sum of
  the angles is off by half a nano-degree, which the tolerance of the sum allows, and the return of
  that width is evaluated at 360 degrees, that is at its very start.
\<close>

lemma legal_cycle_with_jump:
  "joint_flags \<lparr>RiseLaw = ''cycloid'', ReturnLaw = ''cycloid'', cfg_H = f64 10, RiseAngle = f64 180,
      OuterDwell = f64 180, ReturnAngle = f64_const 5 (10 ^ 10), InnerDwell = 0, cfg_Omega = f64 1\<rparr>
   = Inr (True, [(''boundary'', True, True, True), (''boundary'', True, True, True), (''cyclic'', False, True, True)])"
  by code_simp

text \<open>
  A parabolic return whose change of sign of the acceleration is reported as continuous: the middle
  of the segment, reached by adding and subtracting its start, is not at time 0.5 in floating point.
\<close>

lemma missed_parabolic_switch:
  "joint_flags \<lparr>RiseLaw = ''cycloid'', ReturnLaw = ''parabolic'', cfg_H = f64 10, RiseAngle = f64 60,
      OuterDwell = f64_const 445 10, ReturnAngle = f64_const 483 10, InnerDwell = f64_const 2072 10, cfg_Omega = f64 60\<rparr>
   = Inr (False, [(''boundary'', True, True, True), (''boundary'', True, True, False), (''boundary'', True, True, False),
       (''switch'', True, True, True), (''cyclic'', True, True, True)])"
  by code_simp

text \<open>
  A cycloid rise into a dwell whose acceleration is reported as discontinuous: \<open>sin\<close> of the rounded
  \<open>2\<pi>\<close> is not 0, and at this speed the residue exceeds the absolute tolerance.
\<close>

lemma cycloid_reported_discontinuous:
  "joint_flags \<lparr>RiseLaw = ''cycloid'', ReturnLaw = ''cycloid'', cfg_H = f64 10, RiseAngle = f64 60,
      OuterDwell = f64 120, ReturnAngle = f64 60, InnerDwell = f64 120, cfg_Omega = f64 3600\<rparr>
   = Inr (False, [(''boundary'', True, True, False), (''boundary'', True, True, True), (''boundary'', True, True, False),
       (''cyclic'', True, True, True)])"
  by code_simp

text \<open>
  The time of a point: on a rise it is the time at which the segment starts, not \<open>\<theta>/\<omega>\<close>. Half way
  through a rise of 60 degrees at 60 degrees per second the time is reported as 0 instead of 0.5.
\<close>

lemma time_of_motion_segment:
  "result_bind (Build \<lparr>RiseLaw = ''parabolic'', ReturnLaw = ''parabolic'', cfg_H = f64 10, RiseAngle = f64 60,
      OuterDwell = f64 120, ReturnAngle = f64 60, InnerDwell = f64 120, cfg_Omega = f64 60\<rparr>)
     (\<lambda>b. result_bind (Point b (f64 30)) (\<lambda>m. Inr (m_Theta m, m_Time m))) = Inr (f64 30, 0)
   \<and> f64 30 / f64 60 = half_f"
  by code_simp

end
