(* ===== verification/Utf8.thy ===== *)
theory Utf8
  imports Prelude
begin

unbundle bit_operations_syntax

text \<open>
  Package \<open>unicode/utf8\<close> as far as the program reaches it: decoding the first and the last rune of a
  string, encoding a rune, and the loop \<open>for i, r := range s\<close>. A Go string is a sequence of bytes, here a
  \<open>string\<close> whose characters are the bytes; a rune is a natural number.
\<close>

definition byte :: "char \<Rightarrow> nat" where "byte c = of_char c"

definition RuneError :: nat where "RuneError = 0xFFFD"

definition RuneSelf :: nat where "RuneSelf = 0x80"

definition MaxRune :: nat where "MaxRune = 0x10FFFF"

definition surrogateMin :: nat where "surrogateMin = 0xD800"

definition surrogateMax :: nat where "surrogateMax = 0xDFFF"

definition tx :: nat where "tx = 0x80"

definition t2 :: nat where "t2 = 0xC0"

definition t3 :: nat where "t3 = 0xE0"

definition t4 :: nat where "t4 = 0xF0"

definition maskx :: nat where "maskx = 0x3F"

definition mask2 :: nat where "mask2 = 0x1F"

definition mask3 :: nat where "mask3 = 0x0F"

definition mask4 :: nat where "mask4 = 0x07"

definition rune1Max :: nat where "rune1Max = 0x7F"

definition rune2Max :: nat where "rune2Max = 0x7FF"

definition rune3Max :: nat where "rune3Max = 0xFFFF"

definition locb :: nat where "locb = 0x80"

definition hicb :: nat where "hicb = 0xBF"

definition utf8_xx :: nat where "utf8_xx = 0xF1"

definition utf8_as :: nat where "utf8_as = 0xF0"

lemmas utf8_consts = RuneError_def RuneSelf_def MaxRune_def surrogateMin_def surrogateMax_def tx_def t2_def
  t3_def t4_def maskx_def mask2_def mask3_def mask4_def rune1Max_def rune2Max_def rune3Max_def locb_def hicb_def
  utf8_xx_def utf8_as_def

text \<open>The table \<open>first\<close>, row by row of equal entries.\<close>

definition first_tab :: "nat list" where
  "first_tab = replicate 128 utf8_as @ replicate 66 utf8_xx @ replicate 30 0x02 @ [0x13] @ replicate 12 0x03
     @ [0x23] @ replicate 2 0x03 @ [0x34] @ replicate 3 0x04 @ [0x44] @ replicate 11 utf8_xx"

definition acceptRanges :: "(nat \<times> nat) list" where
  "acceptRanges = [(locb, hicb), (0xA0, hicb), (locb, 0x9F), (0x90, hicb), (locb, 0x8F)]"

definition DecodeRuneInString :: "string \<Rightarrow> nat \<times> nat" where
  "DecodeRuneInString s =
     (let n = length s in
      if n < 1 then (RuneError, 0)
      else
        let s0 = byte (s ! 0); x = first_tab ! s0 in
        if utf8_as \<le> x then ((if x = utf8_xx then RuneError else s0), 1)
        else
          let sz = x AND 7; (lo, hi) = acceptRanges ! drop_bit 4 x in
          if n < sz then (RuneError, 1)
          else
            let s1 = byte (s ! 1) in
            if s1 < lo \<or> hi < s1 then (RuneError, 1)
            else if sz \<le> 2 then (push_bit 6 (s0 AND mask2) OR (s1 AND maskx), 2)
            else
              let s2 = byte (s ! 2) in
              if s2 < locb \<or> hicb < s2 then (RuneError, 1)
              else if sz \<le> 3 then
                (push_bit 12 (s0 AND mask3) OR push_bit 6 (s1 AND maskx) OR (s2 AND maskx), 3)
              else
                let s3 = byte (s ! 3) in
                if s3 < locb \<or> hicb < s3 then (RuneError, 1)
                else (push_bit 18 (s0 AND mask4) OR push_bit 12 (s1 AND maskx)
                        OR push_bit 6 (s2 AND maskx) OR (s3 AND maskx), 4))"

definition RuneStart :: "char \<Rightarrow> bool" where
  "RuneStart b \<longleftrightarrow> byte b AND 0xC0 \<noteq> 0x80"

text \<open>The loop of \<open>DecodeLastRuneInString\<close> that moves \<open>start\<close> back to the beginning of a rune, at most to the limit.\<close>

function rune_back :: "string \<Rightarrow> int \<Rightarrow> int \<Rightarrow> int" where
  "rune_back s limit start =
     (if start < limit then start
      else if RuneStart (s ! nat start) then start
      else rune_back s limit (start - 1))"
  by auto
termination
  by (relation "measure (\<lambda>(s, limit, start). nat (start - limit + 1))") auto

declare rune_back.simps [simp del]

definition DecodeLastRuneInString :: "string \<Rightarrow> nat \<times> nat" where
  "DecodeLastRuneInString s =
     (let e = length s in
      if e = 0 then (RuneError, 0)
      else
        let r = byte (s ! (e - 1)) in
        if r < RuneSelf then (r, 1)
        else
          let limit = (if int e - 4 < 0 then 0 else int e - 4);
              start = rune_back s limit (int e - 2);
              start = (if start < 0 then 0 else start);
              (r, size) = DecodeRuneInString (drop (nat start) s)
          in if start + int size \<noteq> int e then (RuneError, 1) else (r, size))"

definition AppendRune :: "string \<Rightarrow> nat \<Rightarrow> string" where
  "AppendRune p r =
     (if r \<le> rune1Max then p @ [char_of r]
      else if r \<le> rune2Max then p @ [char_of (t2 OR drop_bit 6 r), char_of (tx OR (r AND maskx))]
      else
        let bad = (MaxRune < r \<or> surrogateMin \<le> r \<and> r \<le> surrogateMax); r' = (if bad then RuneError else r) in
        if bad \<or> r \<le> rune3Max then
          p @ [char_of (t3 OR drop_bit 12 r'), char_of (tx OR (drop_bit 6 r' AND maskx)), char_of (tx OR (r' AND maskx))]
        else
          p @ [char_of (t4 OR drop_bit 18 r), char_of (tx OR (drop_bit 12 r AND maskx)),
               char_of (tx OR (drop_bit 6 r AND maskx)), char_of (tx OR (r AND maskx))])"

definition RuneLen :: "nat \<Rightarrow> int" where
  "RuneLen r =
     (if r \<le> rune1Max then 1
      else if r \<le> rune2Max then 2
      else if surrogateMin \<le> r \<and> r \<le> surrogateMax then -1
      else if r \<le> rune3Max then 3
      else if r \<le> MaxRune then 4
      else -1)"

subsection \<open>Arithmetic of the bit operations\<close>

lemma byte_less [simp]: "byte c < 256"
  by (simp add: byte_def)

lemma byte_char_of [simp]: "n < 256 \<Longrightarrow> byte (char_of n) = n"
  by (simp add: byte_def)

lemma or_shift: "b < 2 ^ n \<Longrightarrow> push_bit n a OR b = a * 2 ^ n + b" for a b :: nat
proof -
  assume b: "b < 2 ^ n"
  have "push_bit n a + b = push_bit n a OR b"
  proof (rule disjunctive_add)
    fix m
    show "\<not> bit (push_bit n a) m \<or> \<not> bit b m"
    proof (cases "n \<le> m")
      case True
      then have "b < 2 ^ m" using b by (meson le_less_trans not_le one_le_numeral power_increasing_iff less_le_trans power_increasing)
      then show ?thesis by (simp add: bit_iff_odd)
    next
      case False
      then show ?thesis by (simp add: bit_push_bit_iff)
    qed
  qed
  then show ?thesis by (simp add: push_bit_eq_mult)
qed

lemma and_masks [simp]:
  "n AND maskx = n mod 64" "n AND mask2 = n mod 32" "n AND mask3 = n mod 16" "n AND mask4 = n mod 8" "n AND 7 = n mod 8"
  using take_bit_eq_mask [of 6 n] take_bit_eq_mask [of 5 n] take_bit_eq_mask [of 4 n] take_bit_eq_mask [of 3 n]
  by (simp_all add: utf8_consts take_bit_eq_mod mask_eq_exp_minus_1)

lemma or_tags:
  "x < 64 \<Longrightarrow> tx OR x = 0x80 + x" "x < 32 \<Longrightarrow> t2 OR x = 0xC0 + x"
  "x < 16 \<Longrightarrow> t3 OR x = 0xE0 + x" "x < 8 \<Longrightarrow> t4 OR x = 0xF0 + x"
  using or_shift [of x 6 2] or_shift [of x 5 6] or_shift [of x 4 14] or_shift [of x 3 30]
  by (simp_all add: utf8_consts push_bit_eq_mult)

lemma rune_sums:
  fixes a b c d :: nat
  shows "push_bit 6 (a mod 32) OR (b mod 64) = (a mod 32) * 64 + b mod 64"
  "push_bit 12 (a mod 16) OR push_bit 6 (b mod 64) OR (c mod 64) = (a mod 16) * 4096 + (b mod 64) * 64 + c mod 64"
  "push_bit 18 (a mod 8) OR push_bit 12 (b mod 64) OR push_bit 6 (c mod 64) OR (d mod 64)
     = (a mod 8) * 262144 + (b mod 64) * 4096 + (c mod 64) * 64 + d mod 64"
proof -
  have l: "(c mod 64) * 64 + d mod 64 < 4096" "(b mod 64) * 4096 + x < 262144" if "x < 4096" for b c d x :: nat
    using that mod_less_divisor [of 64 b] mod_less_divisor [of 64 c] mod_less_divisor [of 64 d] by linarith+
  show "push_bit 6 (a mod 32) OR (b mod 64) = (a mod 32) * 64 + b mod 64"
    by (subst or_shift) simp_all
  have i: "push_bit 6 (b mod 64) OR (c mod 64) = (b mod 64) * 64 + c mod 64" for b c :: nat
    by (subst or_shift) simp_all
  show two: "push_bit 12 (a mod 16) OR push_bit 6 (b mod 64) OR (c mod 64) = (a mod 16) * 4096 + (b mod 64) * 64 + c mod 64"
    using l(1) [of 0 b c] by (simp add: or.assoc i) (subst or_shift; simp)
  have j: "push_bit 12 (b mod 64) OR push_bit 6 (c mod 64) OR (d mod 64) = (b mod 64) * 4096 + ((c mod 64) * 64 + d mod 64)"
    using l(1) [of 0 c d] by (simp add: or.assoc i) (subst or_shift; simp)
  show "push_bit 18 (a mod 8) OR push_bit 12 (b mod 64) OR push_bit 6 (c mod 64) OR (d mod 64)
     = (a mod 8) * 262144 + (b mod 64) * 4096 + (c mod 64) * 64 + d mod 64"
    using l(2) [OF l(1) [of 0 c d], of b] j by (simp add: or.assoc) (subst or_shift; simp)
qed

subsection \<open>Encoding and decoding\<close>

text \<open>The first byte classified by arithmetic, in place of the table.\<close>

lemma first_tab_nth:
  assumes "b < 256"
  shows "first_tab ! b =
    (if b < 0x80 then utf8_as else if b < 0xC2 then utf8_xx else if b < 0xE0 then 0x02 else if b < 0xE1 then 0x13
     else if b < 0xED then 0x03 else if b < 0xEE then 0x23 else if b < 0xF0 then 0x03 else if b < 0xF1 then 0x34
     else if b < 0xF4 then 0x04 else if b < 0xF5 then 0x44 else utf8_xx)"
proof -
  have "b < 0x80 \<or> 0x80 \<le> b \<and> b < 0xC2 \<or> 0xC2 \<le> b \<and> b < 0xE0 \<or> b = 0xE0 \<or> 0xE1 \<le> b \<and> b < 0xED \<or> b = 0xED
      \<or> 0xEE \<le> b \<and> b < 0xF0 \<or> b = 0xF0 \<or> 0xF1 \<le> b \<and> b < 0xF4 \<or> b = 0xF4 \<or> 0xF5 \<le> b"
    by linarith
  then show ?thesis using assms by (elim disjE conjE) (simp_all add: first_tab_def nth_append less_diff_conv2)
qed

definition valid_rune :: "nat \<Rightarrow> bool" where
  "valid_rune r \<longleftrightarrow> r \<le> MaxRune \<and> \<not> (surrogateMin \<le> r \<and> r \<le> surrogateMax)"

lemma AppendRune_arith:
  assumes "valid_rune r"
  shows "AppendRune p r = p @ map char_of
    (if r < 0x80 then [r] else if r < 0x800 then [0xC0 + r div 64, 0x80 + r mod 64]
     else if r < 0x10000 then [0xE0 + r div 4096, 0x80 + r div 64 mod 64, 0x80 + r mod 64]
     else [0xF0 + r div 262144, 0x80 + r div 4096 mod 64, 0x80 + r div 64 mod 64, 0x80 + r mod 64])"
proof -
  have b: "r < 0x800 \<Longrightarrow> r div 64 < 32" "r < 0x10000 \<Longrightarrow> r div 4096 < 16" "r \<le> 0x10FFFF \<Longrightarrow> r div 262144 < 8"
    by linarith+
  show ?thesis
    using assms b unfolding AppendRune_def valid_rune_def MaxRune_def surrogateMin_def surrogateMax_def rune1Max_def
      rune2Max_def rune3Max_def
    by (auto simp: or_tags drop_bit_eq_div Let_def)
qed

text \<open>The decoder on a string whose first bytes are known.\<close>

lemma Decode_ascii: "b < 0x80 \<Longrightarrow> DecodeRuneInString (char_of b # s) = (b, 1)"
  by (simp add: DecodeRuneInString_def first_tab_nth Let_def utf8_as_def utf8_xx_def)

lemma Decode_two:
  assumes "0xC2 \<le> b" "b < 0xE0" "0x80 \<le> c" "c < 0xC0"
  shows "DecodeRuneInString (char_of b # char_of c # s) = ((b mod 32) * 64 + c mod 64, 2)"
  using assms by (simp add: DecodeRuneInString_def first_tab_nth rune_sums acceptRanges_def Let_def
      utf8_as_def utf8_xx_def locb_def hicb_def)

lemma Decode_three_gen:
  assumes "b < 256" "first_tab ! b = x" "x mod 8 = 3" "x < 0xF0" "acceptRanges ! (x div 16) = (lo, hi)"
    "lo \<le> c" "c \<le> hi" "c < 256" "0x80 \<le> d" "d < 0xC0"
  shows "DecodeRuneInString (char_of b # char_of c # char_of d # s) = ((b mod 16) * 4096 + (c mod 64) * 64 + d mod 64, 3)"
  using assms by (simp add: DecodeRuneInString_def rune_sums Let_def utf8_as_def locb_def hicb_def drop_bit_eq_div nth_Cons')

lemma Decode_three:
  assumes "0xE0 \<le> b" "b < 0xF0" "0x80 \<le> c" "c < 0xC0" "0x80 \<le> d" "d < 0xC0"
    "b = 0xE0 \<Longrightarrow> 0xA0 \<le> c" "b = 0xED \<Longrightarrow> c < 0xA0"
  shows "DecodeRuneInString (char_of b # char_of c # char_of d # s) = ((b mod 16) * 4096 + (c mod 64) * 64 + d mod 64, 3)"
proof -
  consider "b = 0xE0" | "b = 0xED" | "b \<noteq> 0xE0" "b \<noteq> 0xED" by blast
  then show ?thesis
  proof cases
    case 1
    then show ?thesis
      by (intro Decode_three_gen [where x = "0x13" and lo = "0xA0" and hi = "0xBF"])
        (use assms in \<open>simp_all add: first_tab_nth acceptRanges_def hicb_def\<close>)
  next
    case 2
    then show ?thesis
      by (intro Decode_three_gen [where x = "0x23" and lo = "0x80" and hi = "0x9F"])
        (use assms in \<open>simp_all add: first_tab_nth acceptRanges_def locb_def\<close>)
  next
    case 3
    then show ?thesis
      by (intro Decode_three_gen [where x = "0x03" and lo = "0x80" and hi = "0xBF"])
        (use assms in \<open>simp_all add: first_tab_nth acceptRanges_def locb_def hicb_def\<close>)
  qed
qed

lemma Decode_four_gen:
  assumes "b < 256" "first_tab ! b = x" "x mod 8 = 4" "x < 0xF0" "acceptRanges ! (x div 16) = (lo, hi)"
    "lo \<le> c" "c \<le> hi" "c < 256" "0x80 \<le> d" "d < 0xC0" "0x80 \<le> e" "e < 0xC0"
  shows "DecodeRuneInString (char_of b # char_of c # char_of d # char_of e # s)
    = ((b mod 8) * 262144 + (c mod 64) * 4096 + (d mod 64) * 64 + e mod 64, 4)"
  using assms by (simp add: DecodeRuneInString_def rune_sums Let_def utf8_as_def locb_def hicb_def drop_bit_eq_div nth_Cons')

lemma Decode_four:
  assumes "0xF0 \<le> b" "b < 0xF5" "0x80 \<le> c" "c < 0xC0" "0x80 \<le> d" "d < 0xC0" "0x80 \<le> e" "e < 0xC0"
    "b = 0xF0 \<Longrightarrow> 0x90 \<le> c" "b = 0xF4 \<Longrightarrow> c < 0x90"
  shows "DecodeRuneInString (char_of b # char_of c # char_of d # char_of e # s)
    = ((b mod 8) * 262144 + (c mod 64) * 4096 + (d mod 64) * 64 + e mod 64, 4)"
proof -
  consider "b = 0xF0" | "b = 0xF4" | "b \<noteq> 0xF0" "b \<noteq> 0xF4" by blast
  then show ?thesis
  proof cases
    case 1
    then show ?thesis
      by (intro Decode_four_gen [where x = "0x34" and lo = "0x90" and hi = "0xBF"])
        (use assms in \<open>simp_all add: first_tab_nth acceptRanges_def hicb_def\<close>)
  next
    case 2
    then show ?thesis
      by (intro Decode_four_gen [where x = "0x44" and lo = "0x80" and hi = "0x8F"])
        (use assms in \<open>simp_all add: first_tab_nth acceptRanges_def locb_def\<close>)
  next
    case 3
    then show ?thesis
      by (intro Decode_four_gen [where x = "0x04" and lo = "0x80" and hi = "0xBF"])
        (use assms in \<open>simp_all add: first_tab_nth acceptRanges_def locb_def hicb_def\<close>)
  qed
qed

text \<open>Tags and digits: what the tag bits of the bytes hide is the digit itself.\<close>

lemma tag_mods:
  "q < 32 \<Longrightarrow> (0xC0 + q) mod 32 = q" "q < 16 \<Longrightarrow> (0xE0 + q) mod 16 = q" "q < 8 \<Longrightarrow> (0xF0 + q) mod 8 = q"
  "m < 64 \<Longrightarrow> (0x80 + m) mod 64 = m" for q m :: nat
  using mod_mult_self1 [of q 6 32] mod_mult_self1 [of q 14 16] mod_mult_self1 [of q 30 8] mod_mult_self1 [of m 2 64]
  by (simp_all add: add.commute)

lemma digits64:
  fixes r :: nat
  obtains m q where "r = 64 * q + m" "m < 64" "r div 64 = q" "r mod 64 = m"
  by (metis mod_less_divisor mult_div_mod_eq zero_less_numeral)

lemma decode_encode:
  assumes "valid_rune r"
  shows "DecodeRuneInString (AppendRune [] r @ s) = (r, length (AppendRune [] r))"
proof -
  have v: "r \<le> 0x10FFFF" "\<not> (0xD800 \<le> r \<and> r \<le> 0xDFFF)" using assms by (simp_all add: valid_rune_def utf8_consts)
  obtain m q where r: "r = 64 * q + m" "m < 64" "r div 64 = q" "r mod 64 = m" by (rule digits64)
  obtain m' q' where q: "q = 64 * q' + m'" "m' < 64" "q div 64 = q'" "q mod 64 = m'" by (rule digits64)
  obtain m'' q'' where q': "q' = 64 * q'' + m''" "m'' < 64" "q' div 64 = q''" "q' mod 64 = m''" by (rule digits64)
  have d: "r div 4096 = q'" "r div 262144 = q''"
    using div_mult2_eq [of r 64 64] div_mult2_eq [of r 4096 64] r(3) q(3) q'(3) by simp_all
  note digits = r(3,4) q(4) q'(4) d
  consider "r < 0x80" | "0x80 \<le> r" "r < 0x800" | "0x800 \<le> r" "r < 0x10000" | "0x10000 \<le> r" by linarith
  then show ?thesis
  proof cases
    case 1
    then show ?thesis by (simp add: AppendRune_arith [OF assms] Decode_ascii)
  next
    case 2
    then have b: "2 \<le> q" "q < 32" using r(1,2) by linarith+
    have "DecodeRuneInString (char_of (0xC0 + q) # char_of (0x80 + m) # s) = (q * 64 + m, 2)"
      using Decode_two [of "0xC0 + q" "0x80 + m" s] b r(2) by (simp add: tag_mods)
    moreover have "q * 64 + m = r" using r(1) by simp
    ultimately show ?thesis using 2 by (simp add: AppendRune_arith [OF assms] digits)
  next
    case 3
    then have b: "q' < 16" "q' = 0 \<Longrightarrow> 32 \<le> m'" "q' = 13 \<Longrightarrow> m' < 32" using r(1,2) q(1,2) v(2) by linarith+
    have "DecodeRuneInString (char_of (0xE0 + q') # char_of (0x80 + m') # char_of (0x80 + m) # s) = (q' * 4096 + m' * 64 + m, 3)"
      using Decode_three [of "0xE0 + q'" "0x80 + m'" "0x80 + m" s] b r(2) q(2) by (simp add: tag_mods)
    moreover have "q' * 4096 + m' * 64 + m = r" using r(1) q(1) by simp
    ultimately show ?thesis using 3 by (simp add: AppendRune_arith [OF assms] digits)
  next
    case 4
    then have b: "q'' < 5" "q'' = 0 \<Longrightarrow> 16 \<le> m''" "q'' = 4 \<Longrightarrow> m'' < 16" using r(1,2) q(1,2) q'(1,2) v(1) by linarith+
    have "DecodeRuneInString (char_of (0xF0 + q'') # char_of (0x80 + m'') # char_of (0x80 + m') # char_of (0x80 + m) # s)
        = (q'' * 262144 + m'' * 4096 + m' * 64 + m, 4)"
      using Decode_four [of "0xF0 + q''" "0x80 + m''" "0x80 + m'" "0x80 + m" s] b r(2) q(2) q'(2) by (simp add: tag_mods)
    moreover have "q'' * 262144 + m'' * 4096 + m' * 64 + m = r" using r(1) q(1) q'(1) by simp
    ultimately show ?thesis using 4 by (simp add: AppendRune_arith [OF assms] digits)
  qed
qed

subsection \<open>Ranging over a string\<close>

lemma Decode_size:
  "s \<noteq> [] \<Longrightarrow> 1 \<le> snd (DecodeRuneInString s)"
  by (auto simp: DecodeRuneInString_def Let_def split: prod.splits if_splits)

lemma first_tab_multi:
  assumes "b < 256" "\<not> utf8_as \<le> first_tab ! b"
  shows "0xC2 \<le> b" "first_tab ! b \<in> {0x02, 0x13, 0x03, 0x23, 0x34, 0x04, 0x44}"
  using assms by (auto simp: first_tab_nth utf8_as_def utf8_xx_def split: if_splits)

lemma first_tab_single:
  assumes "b < 256" "utf8_as \<le> first_tab ! b"
  shows "first_tab ! b = (if b < 0x80 then utf8_as else utf8_xx)"
  using assms by (simp add: first_tab_nth utf8_as_def split: if_splits)

lemma first_tab_accept:
  assumes "x \<in> {0x02, 0x13, 0x03, 0x23, 0x34, 0x04, 0x44}"
  shows "0x80 \<le> fst (acceptRanges ! drop_bit 4 x)" "x mod 8 = 2 \<or> x mod 8 = 3 \<or> x mod 8 = 4"
  using assms by (auto simp: acceptRanges_def locb_def drop_bit_eq_div)

text \<open>What the decoder can return: an ASCII byte, an error of width 1, or a sequence of bytes above the ASCII range.\<close>

lemma Decode_cases:
  assumes "s \<noteq> []" "DecodeRuneInString s = (r, n)"
  shows "byte (s ! 0) < 0x80 \<and> r = byte (s ! 0) \<and> n = 1
    \<or> 0x80 \<le> byte (s ! 0) \<and> r = RuneError \<and> n = 1
    \<or> 2 \<le> n \<and> n \<le> length s \<and> (\<forall>i<n. 0x80 \<le> byte (s ! i))"
proof (cases "utf8_as \<le> first_tab ! byte (s ! 0)")
  case True
  have "utf8_as \<noteq> utf8_xx" by (simp add: utf8_consts)
  then show ?thesis
    using assms True first_tab_single [OF byte_less True] by (auto simp: DecodeRuneInString_def Let_def split: if_splits)
next
  case False
  let ?x = "first_tab ! byte (s ! 0)"
  note m = first_tab_multi [OF byte_less False]
  note a = first_tab_accept [OF m(2)]
  obtain lo hi where lh: "acceptRanges ! drop_bit 4 ?x = (lo, hi)" by fastforce
  have lo: "0x80 \<le> lo" using a(1) lh by simp
  have all: "(\<forall>i<2. P i) \<longleftrightarrow> P 0 \<and> P 1" "(\<forall>i<3. P i) \<longleftrightarrow> P 0 \<and> P 1 \<and> P 2"
    "(\<forall>i<4. P i) \<longleftrightarrow> P 0 \<and> P 1 \<and> P 2 \<and> P 3" for P :: "nat \<Rightarrow> bool"
    by (auto simp: less_Suc_eq numeral_eq_Suc)
  show ?thesis
    using assms False m(1) a(2) lo lh
    by (auto simp: DecodeRuneInString_def Let_def locb_def all split: if_splits)
qed

lemma rune_back_le: "rune_back s k start \<le> start"
proof (induction s k start rule: rune_back.induct)
  case (1 s k start)
  then show ?case by (subst rune_back.simps) force
qed

lemma DecodeLast_size:
  assumes "s \<noteq> []"
  shows "1 \<le> snd (DecodeLastRuneInString s)"
proof -
  define k where "k = (if int (length s) - 4 < 0 then 0 else int (length s) - 4)"
  define a where "a = rune_back s k (int (length s) - 2)"
  define b where "b = (if a < 0 then 0 else a)"
  have "nat b < length s" using rune_back_le [of s k "int (length s) - 2"] assms by (auto simp: a_def b_def)
  then have "1 \<le> snd (DecodeRuneInString (drop (nat b) s))" by (intro Decode_size) simp
  moreover have "snd (DecodeLastRuneInString s) = 1 \<or> snd (DecodeLastRuneInString s) = snd (DecodeRuneInString (drop (nat b) s))"
    using assms unfolding DecodeLastRuneInString_def Let_def k_def [symmetric] a_def [symmetric] b_def [symmetric]
    by (auto split: prod.splits)
  ultimately show ?thesis by auto
qed

text \<open>The runes of a string with the positions they start at, as \<open>for i, r := range s\<close> delivers them.\<close>

function range_from :: "nat \<Rightarrow> string \<Rightarrow> (nat \<times> nat) list" where
  "range_from i s =
     (if s = [] then []
      else let (r, size) = DecodeRuneInString s in (i, r) # range_from (i + size) (drop size s))"
  by auto
termination
proof (relation "measure (\<lambda>(i, s). length s)", goal_cases)
  case (2 i s p r size)
  then have "1 \<le> size" using Decode_size [of s] by (metis snd_conv)
  then show ?case using 2 by (cases s) auto
qed simp

declare range_from.simps [simp del]

definition range_string :: "string \<Rightarrow> (nat \<times> nat) list" where
  "range_string s = range_from 0 s"

text \<open>
  Decoding inverts encoding: for every Unicode scalar value the bytes that \<open>AppendRune\<close> writes are decoded to
  the same rune and to their own number, whatever follows them.
\<close>

theorem utf8_roundtrip:
  assumes "valid_rune r"
  shows "DecodeRuneInString (AppendRune [] r @ s) = (r, length (AppendRune [] r))
    \<and> RuneLen r = int (length (AppendRune [] r))"
proof
  show "DecodeRuneInString (AppendRune [] r @ s) = (r, length (AppendRune [] r))" by (rule decode_encode [OF assms])
  show "RuneLen r = int (length (AppendRune [] r))"
    using assms by (auto simp: AppendRune_arith RuneLen_def valid_rune_def utf8_consts)
qed

theorem utf8_roundtrip_witness:
  "valid_rune 0x4E00 \<and> DecodeRuneInString (AppendRune [] 0x4E00) = (0x4E00, 3)"
proof -
  have v: "valid_rune 0x4E00" by (simp add: valid_rune_def utf8_consts)
  show ?thesis using utf8_roundtrip [OF v, of "[]"] v by (simp add: RuneLen_def utf8_consts)
qed

end
