(* ===== verification/Names.thy ===== *)
theory Names
  imports Utf8 Errors
begin

text \<open>
  Names of stored records: \<open>strings.TrimSpace\<close> with \<open>unicode.IsSpace\<close>, the regular expression \<open>nameRe\<close> and
  \<open>checkName\<close> of \<open>internal/store/store.go\<close>. The expression is anchored at both ends, so it matches when every
  rune of the name is in its class and there is at least one; an invalid byte counts as the rune
  \<open>RuneError\<close>, which is not in the class.
\<close>

subsection \<open>Spaces\<close>

definition asciiSpace :: "char \<Rightarrow> bool" where
  "asciiSpace c \<longleftrightarrow> byte c \<in> {9, 10, 11, 12, 13, 32}"

definition White_Space_R16 :: "(nat \<times> nat \<times> nat) list" where
  "White_Space_R16 = [(0x0009, 0x000d, 1), (0x0020, 0x0085, 101), (0x00a0, 0x1680, 5600), (0x2000, 0x200a, 1),
     (0x2028, 0x2029, 1), (0x202f, 0x205f, 48), (0x3000, 0x3000, 1)]"

fun is16 :: "(nat \<times> nat \<times> nat) list \<Rightarrow> nat \<Rightarrow> bool" where
  "is16 [] r = False"
| "is16 ((lo, hi, stride) # ranges) r =
     (if r < lo then False
      else if r \<le> hi then stride = 1 \<or> (r - lo) mod stride = 0
      else is16 ranges r)"

definition IsSpace :: "nat \<Rightarrow> bool" where
  "IsSpace r =
     (if r \<le> 0xFF then r \<in> {9, 10, 11, 12, 13, 32, 0x85, 0xA0}
      else if r \<le> fst (snd (last White_Space_R16)) then is16 (drop 2 White_Space_R16) r
      else False)"

text \<open>\<open>indexFunc\<close> and \<open>lastIndexFunc\<close> return -1 when no rune has the wanted truth value.\<close>

definition indexFunc :: "string \<Rightarrow> (nat \<Rightarrow> bool) \<Rightarrow> bool \<Rightarrow> int" where
  "indexFunc s f truth =
     (case find (\<lambda>(i, r). f r = truth) (range_string s) of Some (i, r) \<Rightarrow> int i | None \<Rightarrow> -1)"

function lastIndexFunc :: "string \<Rightarrow> (nat \<Rightarrow> bool) \<Rightarrow> bool \<Rightarrow> int" where
  "lastIndexFunc s f truth =
     (if s = [] then -1
      else
        let (r, size) = DecodeLastRuneInString s; i = length s - size in
        if f r = truth then int i else lastIndexFunc (take i s) f truth)"
  by auto
termination
proof (relation "measure (\<lambda>(s, f, truth). length s)", goal_cases)
  case (2 s f truth p r size i)
  then have "1 \<le> size" using DecodeLast_size [of s] by (metis snd_conv)
  then show ?case using 2 by (cases s) auto
qed simp

declare lastIndexFunc.simps [simp del]

definition TrimLeftFunc :: "string \<Rightarrow> (nat \<Rightarrow> bool) \<Rightarrow> string" where
  "TrimLeftFunc s f = (let i = indexFunc s f False in if i = -1 then [] else drop (nat i) s)"

definition TrimRightFunc :: "string \<Rightarrow> (nat \<Rightarrow> bool) \<Rightarrow> string" where
  "TrimRightFunc s f =
     (let i = lastIndexFunc s f False;
          i = (if 0 \<le> i \<and> RuneSelf \<le> byte (s ! nat i) then i + int (snd (DecodeRuneInString (drop (nat i) s))) else i + 1)
      in take (nat i) s)"

definition TrimFunc :: "string \<Rightarrow> (nat \<Rightarrow> bool) \<Rightarrow> string" where
  "TrimFunc s f = TrimRightFunc (TrimLeftFunc s f) f"

text \<open>The two scanning loops of \<open>TrimSpace\<close> stop at the first byte that is not an ASCII space.\<close>

definition TrimSpace :: "string \<Rightarrow> string" where
  "TrimSpace s =
     (let rest = dropWhile asciiSpace s in
      if rest \<noteq> [] \<and> RuneSelf \<le> byte (hd rest) then TrimFunc rest IsSpace
      else
        let front = rev (dropWhile asciiSpace (rev rest)) in
        if front \<noteq> [] \<and> RuneSelf \<le> byte (last front) then TrimRightFunc front IsSpace
        else front)"

subsection \<open>Names\<close>

definition name_rune :: "nat \<Rightarrow> bool" where
  "name_rune r \<longleftrightarrow> 0x41 \<le> r \<and> r \<le> 0x5A \<or> 0x61 \<le> r \<and> r \<le> 0x7A \<or> 0x30 \<le> r \<and> r \<le> 0x39
     \<or> r = 0x5F \<or> r = 0x2E \<or> r = 0x2D \<or> 0x4E00 \<le> r \<and> r \<le> 0x9FFF"

definition nameRe_MatchString :: "string \<Rightarrow> bool" where
  "nameRe_MatchString s \<longleftrightarrow> s \<noteq> [] \<and> list_all (\<lambda>(i, r). name_rune r) (range_string s)"

definition checkName :: "string \<Rightarrow> (go_error, unit) result" where
  "checkName name =
     (if TrimSpace name = '''' then Inl Name_Blank
      else if \<not> nameRe_MatchString name then Inl Name_Bad_Chars
      else if name = ''.'' \<or> name = ''..'' then Inl Name_Illegal
      else Inr ())"

subsection \<open>The bytes of a name\<close>

text \<open>A byte that a name may hold: above the ASCII range, or a letter, digit, underscore, dot or hyphen.\<close>

definition name_byte :: "char \<Rightarrow> bool" where
  "name_byte c \<longleftrightarrow> 0x80 \<le> byte c \<or> name_rune (byte c)"

lemma not_name_RuneError: "\<not> name_rune RuneError"
  by (simp add: name_rune_def RuneError_def)

lemma range_from_name_bytes:
  "list_all (\<lambda>(i, r). name_rune r) (range_from i s) \<Longrightarrow> list_all name_byte s"
proof (induction i s rule: range_from.induct)
  case (1 i s)
  show ?case
  proof (cases "s = []")
    case True
    then show ?thesis by simp
  next
    case False
    obtain r n where d: "DecodeRuneInString s = (r, n)" by fastforce
    have e: "range_from i s = (i, r) # range_from (i + n) (drop n s)"
      using False d by (subst range_from.simps) simp
    have rest: "list_all name_byte (drop n s)" and r: "name_rune r"
      using 1 False d e by auto
    have front: "name_byte (s ! k)" if "k < n" for k
      using Decode_cases [OF False d] r that not_name_RuneError by (auto simp: name_byte_def)
    have "list_all name_byte (take n s)" using front by (auto simp: list_all_iff in_set_conv_nth)
    then show ?thesis using rest list_all_append [of name_byte "take n s" "drop n s"] by simp
  qed
qed

lemma name_bytes: "nameRe_MatchString s \<Longrightarrow> list_all name_byte s"
  unfolding nameRe_MatchString_def range_string_def using range_from_name_bytes by blast

subsection \<open>What \<open>checkName\<close> accepts\<close>

text \<open>The decoder looks at no more than the bytes that the first one announces.\<close>

lemma Decode_prefix:
  assumes "s \<noteq> []" "utf8_as \<le> first_tab ! byte (s ! 0) \<or> first_tab ! byte (s ! 0) mod 8 \<le> length s"
  shows "DecodeRuneInString (s @ t) = DecodeRuneInString s"
proof -
  define x where "x = first_tab ! byte (s ! 0)"
  have l: "0 < length s" and z: "(s @ t) ! 0 = s ! 0" using assms(1) by (auto simp: nth_append)
  show ?thesis
  proof (cases "utf8_as \<le> x")
    case True
    then show ?thesis using l z unfolding x_def DecodeRuneInString_def Let_def by auto
  next
    case False
    then have n: "x mod 8 \<le> length s" using assms(2) by (simp add: x_def)
    have nth: "i < x mod 8 \<Longrightarrow> (s @ t) ! i = s ! i" for i using n by (simp add: nth_append)
    have c: "x mod 8 = 2 \<or> x mod 8 = 3 \<or> x mod 8 = 4"
      using first_tab_multi(2) [of "byte (s ! 0)"] False first_tab_accept(2) [of x] by (simp add: x_def byte_def)
    obtain lo hi where a: "acceptRanges ! drop_bit 4 x = (lo, hi)" by fastforce
    show ?thesis
      using False n l c unfolding DecodeRuneInString_def Let_def z x_def [symmetric] a prod.case
      by (elim disjE) (simp_all add: nth split del: if_split cong: if_cong)
  qed
qed

lemma Decode_append:
  assumes "s \<noteq> []" "DecodeRuneInString s = (r, n)" "r \<noteq> RuneError"
  shows "DecodeRuneInString (s @ t) = (r, n)"
proof -
  define x where "x = first_tab ! byte (s ! 0)"
  have "utf8_as \<le> x \<or> x mod 8 \<le> length s"
    using assms unfolding x_def DecodeRuneInString_def Let_def
    by (auto simp: not_less split: if_splits prod.splits)
  then show ?thesis using Decode_prefix [OF assms(1), of t] assms(2) by (simp add: x_def)
qed

lemma DecodeLast_cases:
  assumes "s \<noteq> []" "DecodeLastRuneInString s = (r, n)" "r \<noteq> RuneError"
  obtains k where "k < length s" "DecodeRuneInString (drop k s) = (r, n)" "k + n = length s"
proof (cases "byte (last s) < RuneSelf")
  case True
  then have "r = byte (last s)" "n = 1" using assms by (auto simp: DecodeLastRuneInString_def last_conv_nth Let_def)
  then show ?thesis using that [of "length s - 1"] Decode_ascii [of r "[]"] True assms(1)
    by (simp add: drop_Suc last_conv_nth Cons_nth_drop_Suc [symmetric] byte_def RuneSelf_def)
next
  case False
  define k where "k = rune_back s (if int (length s) - 4 < 0 then 0 else int (length s) - 4) (int (length s) - 2)"
  define b where "b = (if k < 0 then 0 else k)"
  have b: "nat b < length s" "0 \<le> b"
    using rune_back_le [of s "if int (length s) - 4 < 0 then 0 else int (length s) - 4" "int (length s) - 2"] assms(1)
    unfolding b_def k_def [symmetric] by (auto simp: zless_nat_conj nat_less_iff simp flip: length_greater_0_conv)
  obtain r' n' where d: "DecodeRuneInString (drop (nat b) s) = (r', n')" by fastforce
  have e: "length s \<noteq> 0" "\<not> byte (s ! (length s - 1)) < RuneSelf"
    using assms(1) False by (auto simp: last_conv_nth)
  have "DecodeLastRuneInString s = (if b + int n' \<noteq> int (length s) then (RuneError, 1) else (r', n'))"
    using d e unfolding DecodeLastRuneInString_def Let_def k_def [symmetric] b_def [symmetric] by simp
  then have "b + int n' = int (length s)" "r' = r" "n' = n" using assms(2,3) by (auto split: if_splits)
  then show ?thesis using that [of "nat b"] d b by simp
qed

lemma not_IsSpace_name: "name_rune r \<Longrightarrow> \<not> IsSpace r"
  by (auto simp: name_rune_def IsSpace_def White_Space_R16_def)

lemma lastIndexFunc_name:
  assumes "s \<noteq> []" "lastIndexFunc s IsSpace False = -1"
  shows "IsSpace (fst (DecodeRuneInString s))"
  using assms
proof (induction s "IsSpace" False rule: lastIndexFunc.induct)
  case (1 s)
  obtain r n where d: "DecodeLastRuneInString s = (r, n)" by fastforce
  have e: "IsSpace r" "lastIndexFunc (take (length s - n) s) IsSpace False = -1"
    using 1(3) d 1(2) by (auto simp: lastIndexFunc.simps [of s] Let_def split: if_splits)
  have r: "r \<noteq> RuneError" using e(1) by (auto simp: IsSpace_def White_Space_R16_def RuneError_def)
  obtain k where k: "k < length s" "DecodeRuneInString (drop k s) = (r, n)" "k + n = length s"
    using DecodeLast_cases [OF 1(2) d r] .
  show ?case
  proof (cases "k = 0")
    case True
    then show ?thesis using k e by simp
  next
    case False
    let ?p = "take k s"
    have t: "length s - n = k" "?p \<noteq> []" using k False 1(2) by auto
    have ih: "IsSpace (fst (DecodeRuneInString ?p))"
      using 1(1) [OF 1(2) d [symmetric] refl] e t by auto
    obtain r' m where d': "DecodeRuneInString ?p = (r', m)" by fastforce
    have "r' \<noteq> RuneError" using ih d' by (auto simp: IsSpace_def White_Space_R16_def RuneError_def)
    then show ?thesis using Decode_append [OF t(2) d', of "drop k s"] ih d' by simp
  qed
qed

lemma lastIndexFunc_ge: "-1 \<le> lastIndexFunc s f truth"
  by (induction s f truth rule: lastIndexFunc.induct) (simp add: lastIndexFunc.simps Let_def split: prod.splits)

lemma TrimRightFunc_name:
  assumes "s \<noteq> []" "name_rune (fst (DecodeRuneInString s))"
  shows "TrimRightFunc s IsSpace \<noteq> []"
proof -
  define i where "i = lastIndexFunc s IsSpace False"
  have "i \<noteq> -1" using lastIndexFunc_name [OF assms(1)] not_IsSpace_name [OF assms(2)] by (auto simp: i_def)
  then have "0 \<le> i" using lastIndexFunc_ge [of s IsSpace False] by (simp add: i_def)
  moreover have "i = 0 \<Longrightarrow> 1 \<le> snd (DecodeRuneInString (drop (nat i) s))" using Decode_size [OF assms(1)] by simp
  ultimately show ?thesis using assms(1)
    unfolding TrimRightFunc_def i_def [symmetric] Let_def by (cases "i = 0") auto
qed

lemma range_string_front:
  assumes "s \<noteq> []" "list_all (\<lambda>(i, r). name_rune r) (range_string s)"
  shows "name_rune (fst (DecodeRuneInString s))"
  using assms unfolding range_string_def by (simp add: range_from.simps [of 0 s] split: prod.splits)

lemma indexFunc_front:
  assumes "s \<noteq> []" "\<not> IsSpace (fst (DecodeRuneInString s))"
  shows "indexFunc s IsSpace False = 0"
  using assms unfolding indexFunc_def range_string_def
  by (auto simp: range_from.simps [of 0 s] split: prod.splits)

lemma TrimSpace_name:
  assumes "nameRe_MatchString s"
  shows "TrimSpace s \<noteq> []"
proof -
  have ne: "s \<noteq> []" and r: "name_rune (fst (DecodeRuneInString s))"
    using assms range_string_front [of s] by (auto simp: nameRe_MatchString_def)
  have sp: "\<not> asciiSpace c" if "c \<in> set s" for c
    using name_bytes [OF assms] that by (auto simp: list_all_iff name_byte_def asciiSpace_def name_rune_def)
  have d: "dropWhile asciiSpace s = s" "dropWhile asciiSpace (rev s) = rev s"
    using sp ne by (auto simp: dropWhile_eq_self_iff last_rev hd_rev)
  have "TrimFunc s IsSpace \<noteq> []"
    using TrimRightFunc_name [OF ne r] indexFunc_front [OF ne not_IsSpace_name [OF r]]
    by (simp add: TrimFunc_def TrimLeftFunc_def)
  then show ?thesis using TrimRightFunc_name [OF ne r] ne by (simp add: TrimSpace_def d Let_def)
qed

lemma range_from_ascii:
  "list_all (\<lambda>c. byte c < 0x80) s \<Longrightarrow> map snd (range_from i s) = map byte s"
proof (induction s arbitrary: i)
  case Nil
  then show ?case by (simp add: range_from.simps)
next
  case (Cons c s)
  have "DecodeRuneInString (c # s) = (byte c, 1)" using Decode_ascii [of "byte c" s] Cons by (simp add: byte_def)
  then show ?case using Cons by (simp add: range_from.simps [of i "c # s"])
qed

lemma range_string_ascii:
  assumes "list_all (\<lambda>c. byte c < 0x80) s"
  shows "(\<forall>(i, r) \<in> set (range_string s). P r) \<longleftrightarrow> list_all (\<lambda>c. P (byte c)) s"
proof -
  have "(\<forall>(i, r) \<in> set (range_string s). P r) \<longleftrightarrow> list_all P (map snd (range_string s))"
    by (auto simp: list_all_iff)
  then show ?thesis using range_from_ascii [OF assms, of 0] by (simp add: range_string_def list_all_iff)
qed

text \<open>
  Claim C35. \<open>checkName\<close> accepts exactly the non-empty strings of letters, digits, underscores, dots, hyphens
  and Chinese characters other than a single or double dot (the test for blank names is subsumed by
  the expression). No byte of an accepted name is a path separator, a NUL, a
  metacharacter of file patterns or a quotation mark, so a name never leaves its directory and
  needs no escaping.
\<close>

theorem checkName_accepts:
  "(checkName name = Inr () \<longleftrightarrow>
      name \<noteq> [] \<and> (\<forall>(i, r) \<in> set (range_string name). name_rune r) \<and> name \<notin> {''.'', ''..''})
   \<and> (checkName name = Inr () \<longrightarrow>
      set name \<inter> ({CHR ''/'', CHR ''*'', CHR ''?'', CHR ''['', CHR '']'', CHR 0x5C, CHR 0x22} \<union> {c. byte c < 0x20}) = {})"
proof (intro conjI impI)
  show "checkName name = Inr () \<longleftrightarrow>
      name \<noteq> [] \<and> (\<forall>(i, r) \<in> set (range_string name). name_rune r) \<and> name \<notin> {''.'', ''..''}"
    using TrimSpace_name [of name] by (auto simp: checkName_def nameRe_MatchString_def list_all_iff)
next
  assume "checkName name = Inr ()"
  then have "list_all name_byte name" using name_bytes by (auto simp: checkName_def split: if_splits)
  then show "set name \<inter> ({CHR ''/'', CHR ''*'', CHR ''?'', CHR ''['', CHR '']'', CHR 0x5C, CHR 0x22} \<union> {c. byte c < 0x20}) = {}"
    by (auto simp: list_all_iff name_byte_def name_rune_def byte_def)
qed

theorem checkName_accepts_witness:
  "checkName ''cycloid-lift'' = Inr ()
   \<and> set ''cycloid-lift'' \<inter> ({CHR ''/'', CHR ''*'', CHR ''?'', CHR ''['', CHR '']'', CHR 0x5C, CHR 0x22} \<union> {c. byte c < 0x20}) = {}"
proof -
  have "\<forall>(i, r) \<in> set (range_string ''cycloid-lift''). name_rune r"
  proof -
    have "list_all (\<lambda>c. byte c < 0x80) ''cycloid-lift''" "list_all (\<lambda>c. name_rune (byte c)) ''cycloid-lift''"
      by code_simp+
    then show ?thesis using range_string_ascii [of "''cycloid-lift''" name_rune] by blast
  qed
  moreover have "''cycloid-lift'' \<noteq> []" "''cycloid-lift'' \<notin> {''.'', ''..''}" by simp_all
  ultimately have c: "checkName ''cycloid-lift'' = Inr ()"
    by (intro checkName_accepts [THEN conjunct1, THEN iffD2] conjI)
  show ?thesis by (intro conjI c checkName_accepts [THEN conjunct2, THEN mp])
qed

end
