(* ===== verification/Filepath.thy ===== *)
theory Filepath
  imports Names
begin

text \<open>
  Paths of package \<open>path/filepath\<close> on Unix: \<open>Clean\<close>, \<open>Join\<close>, \<open>Split\<close> and \<open>Base\<close> of \<open>path.go\<close>. The volume name is always
  empty there and \<open>FromSlash\<close> is the identity. The lazy buffer of \<open>Clean\<close> is the string of the bytes written so far.
\<close>

subsection \<open>The code\<close>

definition IsPathSeparator :: "char \<Rightarrow> bool" where
  "IsPathSeparator c \<longleftrightarrow> c = CHR ''/''"

text \<open>Backtracking over the last element: the new write index.\<close>

fun back_to :: "nat \<Rightarrow> string \<Rightarrow> nat \<Rightarrow> nat" where
  "back_to dotdot out w = (if dotdot < w \<and> \<not> IsPathSeparator (out ! w) then back_to dotdot out (w - 1) else w)"

declare back_to.simps [simp del]

function clean_loop :: "bool \<Rightarrow> string \<Rightarrow> nat \<Rightarrow> string \<Rightarrow> string" where
  "clean_loop rooted out dotdot [] = out"
| "clean_loop rooted out dotdot (c # cs) =
     (if IsPathSeparator c then clean_loop rooted out dotdot cs
      else if c = CHR ''.'' \<and> (cs = [] \<or> IsPathSeparator (hd cs)) then clean_loop rooted out dotdot cs
      else if c = CHR ''.'' \<and> hd cs = CHR ''.'' \<and> (tl cs = [] \<or> IsPathSeparator (hd (tl cs))) then
        (if dotdot < length out then clean_loop rooted (take (back_to dotdot out (length out - 1)) out) dotdot (tl cs)
         else if \<not> rooted then
           (let out = out @ (if 0 < length out then ''/'' else '''') @ ''..'' in clean_loop rooted out (length out) (tl cs))
         else clean_loop rooted out dotdot (tl cs))
      else
        let out = (if rooted \<and> length out \<noteq> 1 \<or> \<not> rooted \<and> length out \<noteq> 0 then out @ ''/'' else out) in
        clean_loop rooted (out @ takeWhile (\<lambda>c. \<not> IsPathSeparator c) (c # cs)) dotdot
          (dropWhile (\<lambda>c. \<not> IsPathSeparator c) (c # cs)))"
  by pat_completeness auto
termination
proof (relation "measure (\<lambda>(rooted, out, dotdot, path). length path)", goal_cases)
  case (7 rooted out dotdot c cs x)
  then show ?case using length_dropWhile_le [of "\<lambda>c. \<not> IsPathSeparator c" cs] by simp
qed auto

declare clean_loop.simps [simp del]

definition Clean :: "string \<Rightarrow> string" where
  "Clean path =
     (if path = '''' then ''.''
      else
        let rooted = IsPathSeparator (hd path);
            out = (if rooted then clean_loop rooted ''/'' 1 (tl path) else clean_loop rooted '''' 0 path) in
        if out = '''' then ''.'' else out)"

fun path_join :: "string list \<Rightarrow> string" where
  "path_join [] = ''''"
| "path_join [e] = e"
| "path_join (e # es) = e @ ''/'' @ path_join es"

definition filepath_Join :: "string list \<Rightarrow> string" where
  "filepath_Join elem =
     (case dropWhile (\<lambda>e. e = '''') elem of [] \<Rightarrow> '''' | es \<Rightarrow> Clean (path_join es))"

definition filepath_Split :: "string \<Rightarrow> string \<times> string" where
  "filepath_Split path =
     (let file = rev (takeWhile (\<lambda>c. \<not> IsPathSeparator c) (rev path)) in (take (length path - length file) path, file))"

definition filepath_Base :: "string \<Rightarrow> string" where
  "filepath_Base path =
     (if path = '''' then ''.''
      else
        let path = rev (dropWhile IsPathSeparator (rev path));
            path = rev (takeWhile (\<lambda>c. \<not> IsPathSeparator c) (rev path)) in
        if path = '''' then ''/'' else path)"

subsection \<open>The rules of \<open>Clean\<close> on the elements of a path\<close>

function path_elems :: "string \<Rightarrow> string list" where
  "path_elems [] = []"
| "path_elems (c # cs) =
     (if IsPathSeparator c then path_elems cs
      else takeWhile (\<lambda>c. \<not> IsPathSeparator c) (c # cs) # path_elems (dropWhile (\<lambda>c. \<not> IsPathSeparator c) (c # cs)))"
  by pat_completeness auto
termination
proof (relation "measure length", goal_cases)
  case (3 c cs)
  then show ?case using length_dropWhile_le [of "\<lambda>c. \<not> IsPathSeparator c" cs] by simp
qed auto

declare path_elems.simps(2) [simp del]

definition clean_elem :: "bool \<Rightarrow> string list \<Rightarrow> string \<Rightarrow> string list" where
  "clean_elem rooted st e =
     (if e = ''.'' then st
      else if e = ''..'' then
        (if st \<noteq> [] \<and> last st \<noteq> ''..'' then butlast st else if rooted then st else st @ [''..''])
      else st @ [e])"

definition path_render :: "bool \<Rightarrow> string list \<Rightarrow> string" where
  "path_render rooted st = (if rooted then ''/'' else '''') @ path_join st"

definition clean_spec :: "string \<Rightarrow> string" where
  "clean_spec path =
     (let rooted = (path \<noteq> [] \<and> hd path = CHR ''/'');
          st = foldl (clean_elem rooted) [] (path_elems path) in
      if \<not> rooted \<and> st = [] then ''.'' else path_render rooted st)"

subsection \<open>The loop follows the rules\<close>

definition real_elem :: "string \<Rightarrow> bool" where
  "real_elem e \<longleftrightarrow> e \<noteq> [] \<and> CHR ''/'' \<notin> set e"

lemma path_join_snoc: "path_join (es @ [e]) = path_join es @ (if es = [] then '''' else ''/'') @ e"
  by (induction es rule: path_join.induct) auto

lemma path_render_snoc: "path_render r (es @ [e]) = path_render r es @ (if es = [] then '''' else ''/'') @ e"
  by (simp add: path_render_def path_join_snoc)

lemma path_join_empty: "list_all real_elem es \<Longrightarrow> path_join es = [] \<longleftrightarrow> es = []"
  by (cases es rule: path_join.cases) (auto simp: real_elem_def)

lemma back_to_stop:
  assumes "m \<le> w" "dotdot \<le> m" "m = dotdot \<or> out ! m = CHR ''/''" "\<And>i. m < i \<Longrightarrow> i \<le> w \<Longrightarrow> out ! i \<noteq> CHR ''/''"
  shows "back_to dotdot out w = m"
  using assms
proof (induction w)
  case (Suc w)
  then show ?case
    by (cases "m = Suc w") (auto simp: back_to.simps [of _ _ "Suc w"] IsPathSeparator_def)
qed (simp add: back_to.simps)

text \<open>The buffer is the rendering of a stack: a number of leading \<open>..\<close> elements, none in a rooted path, then real ones.\<close>

definition clean_inv :: "bool \<Rightarrow> nat \<Rightarrow> string list \<Rightarrow> string \<Rightarrow> nat \<Rightarrow> bool" where
  "clean_inv rooted k ns out dotdot \<longleftrightarrow> out = path_render rooted (replicate k ''..'' @ ns)
     \<and> dotdot = length (path_render rooted (replicate k ''..'')) \<and> (rooted \<longrightarrow> k = 0) \<and> list_all (\<lambda>e. real_elem e \<and> e \<noteq> ''..'') ns"

lemma stack_real: "list_all (\<lambda>e. real_elem e \<and> e \<noteq> ''..'') ns \<Longrightarrow> list_all real_elem (replicate k ''..'' @ ns)"
proof -
  have "real_elem ''..''" by (simp add: real_elem_def)
  then show "list_all (\<lambda>e. real_elem e \<and> e \<noteq> ''..'') ns \<Longrightarrow> ?thesis" by (auto simp: list_all_iff)
qed

lemma path_render_length: "list_all real_elem es \<Longrightarrow> length (path_render r es) = (if r then 1 else 0) \<longleftrightarrow> es = []"
  using path_join_empty by (auto simp: path_render_def)

lemma path_render_mono: "length (path_render r es) \<le> length (path_render r (es @ es'))"
proof (induction es' rule: rev_induct)
  case (snoc e es')
  then show ?case using path_render_snoc [of r "es @ es'" e] by simp
qed simp

lemma backtrack:
  assumes inv: "clean_inv rooted k (ns @ [e]) out dotdot"
  shows "dotdot < length out" "take (back_to dotdot out (length out - 1)) out = path_render rooted (replicate k ''..'' @ ns)"
proof -
  define pre where "pre = replicate k ''..'' @ ns"
  have e: "e \<noteq> []" "CHR ''/'' \<notin> set e" using inv by (auto simp: clean_inv_def real_elem_def)
  have out: "out = path_render rooted pre @ (if pre = [] then '''' else ''/'') @ e"
    using inv path_render_snoc [of rooted pre e] by (simp add: clean_inv_def pre_def)
  define m where "m = length (path_render rooted pre)"
  have dm: "dotdot \<le> m" using inv path_render_mono [of rooted "replicate k ''..''" ns] by (simp add: clean_inv_def m_def pre_def)
  then show "dotdot < length out" using e(1) by (cases e) (auto simp: out m_def)
  have at: "m = dotdot \<or> out ! m = CHR ''/''"
  proof (cases "pre = []")
    case True
    then show ?thesis using inv by (simp add: clean_inv_def pre_def m_def)
  qed (simp add: out m_def)
  have no: "out ! i \<noteq> CHR ''/''" if i: "m < i" "i \<le> length out - 1" for i
  proof -
    have "i < length out" using i(1,2) by simp
    then have "out ! i \<in> set e" using i(1) by (auto simp: out m_def nth_append)
    then show ?thesis using e(2) by metis
  qed
  have "m \<le> length out - 1" using e(1) by (cases e) (auto simp: out m_def)
  then have "back_to dotdot out (length out - 1) = m" using back_to_stop [OF _ dm at] no by blast
  then show "take (back_to dotdot out (length out - 1)) out = path_render rooted (replicate k ''..'' @ ns)"
    by (simp add: out m_def pre_def)
qed

lemma takeWhile_sep: "cs = [] \<or> IsPathSeparator (hd cs) \<Longrightarrow> takeWhile (\<lambda>c. \<not> IsPathSeparator c) cs = []"
  "cs = [] \<or> IsPathSeparator (hd cs) \<Longrightarrow> dropWhile (\<lambda>c. \<not> IsPathSeparator c) cs = cs"
  by (cases cs; simp)+

lemma stack_last: "list_all (\<lambda>e. real_elem e \<and> e \<noteq> ''..'') ns \<Longrightarrow>
  replicate k ''..'' @ ns \<noteq> [] \<and> last (replicate k ''..'' @ ns) \<noteq> ''..'' \<longleftrightarrow> ns \<noteq> []"
  by (cases ns rule: rev_cases; cases "k = 0") (auto simp: last_replicate)

lemma take_elem:
  assumes "\<not> IsPathSeparator c" "e = takeWhile (\<lambda>c. \<not> IsPathSeparator c) (c # cs)"
  shows "real_elem e" "e = ''.'' \<longleftrightarrow> c = CHR ''.'' \<and> (cs = [] \<or> IsPathSeparator (hd cs))"
    "e = ''..'' \<longleftrightarrow> c = CHR ''.'' \<and> cs \<noteq> [] \<and> hd cs = CHR ''.'' \<and> (tl cs = [] \<or> IsPathSeparator (hd (tl cs)))"
proof -
  show "real_elem e" using assms by (auto simp: real_elem_def IsPathSeparator_def dest: set_takeWhileD)
  show "e = ''.'' \<longleftrightarrow> c = CHR ''.'' \<and> (cs = [] \<or> IsPathSeparator (hd cs))"
    using assms by (cases cs) auto
  show "e = ''..'' \<longleftrightarrow> c = CHR ''.'' \<and> cs \<noteq> [] \<and> hd cs = CHR ''.'' \<and> (tl cs = [] \<or> IsPathSeparator (hd (tl cs)))"
  proof (cases cs)
    case (Cons d ds)
    then show ?thesis using assms by (cases ds) (auto simp: IsPathSeparator_def)
  qed (use assms in auto)
qed

lemma clean_dotdot:
  assumes "clean_inv rooted k ns out dotdot" "ns = []"
  shows "clean_inv rooted (if rooted then k else k + 1) ns (if rooted then out else out @ (if 0 < length out then ''/'' else '''') @ ''..'')
    (if rooted then dotdot else length (out @ (if 0 < length out then ''/'' else '''') @ ''..''))"
proof -
  have l: "path_render False (replicate k ''..'') = [] \<longleftrightarrow> k = 0"
    using path_join_empty [of "replicate k ''..''"] by (simp add: path_render_def real_elem_def list_all_iff)
  have r: "replicate k ''..'' @ [''..''] = replicate (k + 1) ''..''" by (simp add: replicate_append_same)
  show ?thesis using assms l path_render_snoc [of False "replicate k ''..''" "''..''"] unfolding r by (auto simp: clean_inv_def)
qed

lemma clean_loop_spec:
  assumes "clean_inv rooted k ns out dotdot"
  shows "clean_loop rooted out dotdot path = path_render rooted (foldl (clean_elem rooted) (replicate k ''..'' @ ns) (path_elems path))"
  using assms
proof (induction path arbitrary: k ns out dotdot rule: length_induct)
  case (1 path)
  note inv = 1(2)
  have real: "list_all (\<lambda>e. real_elem e \<and> e \<noteq> ''..'') ns" using inv by (simp add: clean_inv_def)
  show ?case
  proof (cases path)
    case Nil
    then show ?thesis using inv by (simp add: clean_loop.simps clean_inv_def)
  next
    case (Cons c cs)
    note IH = 1(1) [rule_format, unfolded Cons]
    show ?thesis
    proof (cases "IsPathSeparator c")
      case True
      then show ?thesis using IH [of cs] inv by (simp add: Cons clean_loop.simps path_elems.simps)
    next
      case False
      define e where "e = takeWhile (\<lambda>c. \<not> IsPathSeparator c) (c # cs)"
      define rest where "rest = dropWhile (\<lambda>c. \<not> IsPathSeparator c) (c # cs)"
      note el = take_elem [OF False e_def]
      have pe: "path_elems path = e # path_elems rest" using False by (simp add: Cons path_elems.simps e_def rest_def)
      have less: "length rest < length (c # cs)" using False length_dropWhile_le [of "\<lambda>c. \<not> IsPathSeparator c" cs] by (simp add: rest_def)
      consider (dot) "e = ''.''" | (dotdot) "e = ''..''" | (real) "e \<noteq> ''.''" "e \<noteq> ''..''" by blast
      then show ?thesis
      proof cases
        case dot
        then have "rest = cs" "c = CHR ''.'' \<and> (cs = [] \<or> IsPathSeparator (hd cs))"
          using el(2) False takeWhile_sep(2) by (auto simp: rest_def)
        then show ?thesis using IH [OF less inv] False dot pe
          by (simp add: Cons clean_loop.simps clean_elem_def [of _ _ "''.''"])
      next
        case dotdot
        then have c: "c = CHR ''.''" "cs \<noteq> []" "hd cs = CHR ''.''" "tl cs = [] \<or> IsPathSeparator (hd (tl cs))" using el(3) by auto
        then have rest: "rest = tl cs" using takeWhile_sep(2) [OF c(4)] False by (cases cs) (auto simp: rest_def IsPathSeparator_def)
        have nd: "\<not> (c = CHR ''.'' \<and> (cs = [] \<or> IsPathSeparator (hd cs)))"
          and dd: "c = CHR ''.'' \<and> hd cs = CHR ''.'' \<and> (tl cs = [] \<or> IsPathSeparator (hd (tl cs)))"
          using c by (auto simp: IsPathSeparator_def)
        have step: "clean_loop rooted out dotdot path =
          (if dotdot < length out then clean_loop rooted (take (back_to dotdot out (length out - 1)) out) dotdot rest
           else if \<not> rooted then (let out = out @ (if 0 < length out then ''/'' else '''') @ ''..'' in clean_loop rooted out (length out) rest)
           else clean_loop rooted out dotdot rest)"
          unfolding Cons rest clean_loop.simps(2) [of rooted out dotdot c cs] if_not_P [OF False] if_not_P [OF nd] if_P [OF dd] ..
        show ?thesis
        proof (cases ns rule: rev_cases)
          case Nil
          have "\<not> dotdot < length out" using inv Nil by (simp add: clean_inv_def)
          moreover have "clean_elem rooted (replicate k ''..'') ''..'' = replicate (if rooted then k else k + 1) ''..''"
            by (cases "k = 0") (auto simp: clean_elem_def last_replicate replicate_append_same)
          ultimately show ?thesis
            using step IH [OF less clean_dotdot [OF inv Nil]] by (cases rooted) (auto simp: pe \<open>e = ''..''\<close> Nil Let_def)
        next
          case (snoc ns' x)
          have inv': "clean_inv rooted k ns' (take (back_to dotdot out (length out - 1)) out) dotdot"
            using backtrack(2) [OF inv [unfolded snoc]] inv snoc by (simp add: clean_inv_def)
          have "clean_elem rooted (replicate k ''..'' @ ns) ''..'' = replicate k ''..'' @ ns'"
            using stack_last [OF real, of k] snoc by (simp add: clean_elem_def butlast_append)
          then show ?thesis using step backtrack(1) [OF inv [unfolded snoc]] IH [OF less inv'] by (simp add: pe \<open>e = ''..''\<close>)
        qed
      next
        case real
        define out' where "out' = (if rooted \<and> length out \<noteq> 1 \<or> \<not> rooted \<and> length out \<noteq> 0 then out @ ''/'' else out) @ e"
        have nd: "\<not> (c = CHR ''.'' \<and> (cs = [] \<or> IsPathSeparator (hd cs)))" using el(2) real(1) by simp
        have ndd: "\<not> (c = CHR ''.'' \<and> hd cs = CHR ''.'' \<and> (tl cs = [] \<or> IsPathSeparator (hd (tl cs))))"
          using el(3) real(2) nd by auto
        have step: "clean_loop rooted out dotdot path = clean_loop rooted out' dotdot rest"
          unfolding Cons by (subst clean_loop.simps(2)) (simp only: False nd ndd if_False Let_def out'_def e_def rest_def)
        have "out' = out @ (if replicate k ''..'' @ ns = [] then '''' else ''/'') @ e"
          using path_render_length [OF stack_real [OF \<open>list_all _ ns\<close>], of rooted k] inv
          by (cases rooted) (auto simp: out'_def clean_inv_def simp del: append_is_Nil_conv replicate_empty)
        then have "clean_inv rooted k (ns @ [e]) out' dotdot"
          using inv real el(1) path_render_snoc [of rooted "replicate k ''..'' @ ns" e] by (simp add: clean_inv_def)
        from IH [OF less this] show ?thesis using step real by (simp add: pe clean_elem_def [of _ _ e])
      qed
    qed
  qed
qed

lemma path_elems_real: "list_all real_elem (path_elems p)"
proof (induction p rule: path_elems.induct)
  case (2 c cs)
  then show ?case using take_elem(1) [of c _ cs] by (simp add: path_elems.simps(2) [of c cs])
qed simp

definition stack_elem :: "string \<Rightarrow> bool" where
  "stack_elem e \<longleftrightarrow> real_elem e \<and> e \<noteq> ''.''"

lemma clean_elem_stack: "real_elem e \<Longrightarrow> list_all stack_elem st \<Longrightarrow> list_all stack_elem (clean_elem r st e)"
  by (auto simp: clean_elem_def stack_elem_def real_elem_def list_all_iff dest: in_set_butlastD)

lemma clean_elems_stack: "list_all real_elem es \<Longrightarrow> list_all stack_elem st \<Longrightarrow> list_all stack_elem (foldl (clean_elem r) st es)"
  by (induction es arbitrary: st) (simp_all add: clean_elem_stack)

lemmas clean_stack = clean_elems_stack [OF path_elems_real, of "[]", simplified]

lemma path_render_special:
  assumes "list_all stack_elem st" "st \<noteq> []"
  shows "path_render r st \<noteq> []" "path_render r st \<noteq> ''.''" "path_render r st \<noteq> ''/''"
proof -
  obtain e es where st: "st = e # es" using assms(2) by (cases st) auto
  obtain c cs where e: "e = c # cs" using assms(1) by (cases e) (auto simp: st stack_elem_def real_elem_def)
  have "path_render r st = (if r then ''/'' else '''') @ e @ (if es = [] then '''' else ''/'' @ path_join es)"
    by (cases es) (auto simp: path_render_def st)
  then show "path_render r st \<noteq> []" "path_render r st \<noteq> ''.''" "path_render r st \<noteq> ''/''"
    using assms(1) by (auto simp: st e stack_elem_def real_elem_def append_eq_Cons_conv split: if_splits)
qed

lemma Clean_spec: "Clean path = clean_spec path"
proof (cases path)
  case Nil
  then show ?thesis by (simp add: Clean_def clean_spec_def)
next
  case (Cons c cs)
  have e: "path_elems path = path_elems cs" if "c = CHR ''/''" using that by (simp add: Cons path_elems.simps IsPathSeparator_def)
  have i: "clean_inv True 0 [] ''/'' 1" "clean_inv False 0 [] '''' 0" by (simp_all add: clean_inv_def path_render_def)
  show ?thesis
  proof (cases "c = CHR ''/''")
    case True
    then show ?thesis using clean_loop_spec [OF i(1)] e
      by (simp add: Clean_def clean_spec_def Cons IsPathSeparator_def path_render_def Let_def)
  next
    case False
    define st where "st = foldl (clean_elem False) [] (path_elems path)"
    have z: "path_render False st = [] \<longleftrightarrow> st = []"
      using path_render_special(1) [OF clean_stack [of False path], of False] by (auto simp: st_def path_render_def)
    have "clean_loop False '''' 0 path = path_render False st" using clean_loop_spec [OF i(2), of path] by (simp add: st_def)
    then have "Clean path = (if path_render False st = [] then ''.'' else path_render False st)"
      using False by (simp add: Clean_def Cons IsPathSeparator_def)
    moreover have "clean_spec path = (if st = [] then ''.'' else path_render False st)"
      using False by (simp add: clean_spec_def Cons Let_def st_def)
    ultimately show ?thesis using z by simp
  qed
qed

subsection \<open>A file in a directory\<close>

lemma path_elems_append:
  "path_elems (xs @ CHR ''/'' # ys) = path_elems xs @ path_elems ys"
proof (induction xs rule: path_elems.induct)
  case 1
  then show ?case by (simp add: path_elems.simps(2) IsPathSeparator_def)
next
  case (2 c cs)
  show ?case
  proof (cases "IsPathSeparator c")
    case True
    then show ?thesis using 2 by (simp add: path_elems.simps(2))
  next
    case False
    have s: "IsPathSeparator (CHR ''/'')" by (simp add: IsPathSeparator_def)
    have "takeWhile (\<lambda>c. \<not> IsPathSeparator c) (xs @ CHR ''/'' # ys) = takeWhile (\<lambda>c. \<not> IsPathSeparator c) xs"
      "dropWhile (\<lambda>c. \<not> IsPathSeparator c) (xs @ CHR ''/'' # ys) = dropWhile (\<lambda>c. \<not> IsPathSeparator c) xs @ CHR ''/'' # ys" for xs
      using s by (induction xs) auto
    then show ?thesis using 2 False by (simp add: path_elems.simps(2))
  qed
qed

definition file_name :: "string \<Rightarrow> bool" where
  "file_name f \<longleftrightarrow> f \<noteq> [] \<and> CHR ''/'' \<notin> set f \<and> f \<noteq> ''.'' \<and> f \<noteq> ''..''"

lemma path_elems_single: "real_elem e \<Longrightarrow> path_elems e = [e]"
proof -
  assume e: "real_elem e"
  then obtain c cs where c: "e = c # cs" by (cases e) (auto simp: real_elem_def)
  have a: "\<forall>x \<in> set (c # cs). \<not> IsPathSeparator x" using e by (auto simp: c real_elem_def IsPathSeparator_def)
  then have "takeWhile (\<lambda>c. \<not> IsPathSeparator c) (c # cs) = c # cs" "dropWhile (\<lambda>c. \<not> IsPathSeparator c) (c # cs) = []"
    by (simp_all only: takeWhile_eq_all_conv dropWhile_eq_Nil_conv simp_thms)
  then show ?thesis using a by (simp only: c path_elems.simps list.set_intros if_False simp_thms)
qed

lemma path_elems_file: "file_name f \<Longrightarrow> path_elems f = [f]"
  by (simp add: path_elems_single file_name_def real_elem_def)

text \<open>The directory part of a joined path.\<close>

definition dir_part :: "string \<Rightarrow> string" where
  "dir_part dir =
     (if dir = '''' \<or> Clean dir = ''.'' then '''' else if Clean dir = ''/'' then ''/'' else Clean dir @ ''/'')"

lemma Join_file:
  assumes f: "file_name f"
  shows "filepath_Join [dir, f] = dir_part dir @ f"
proof (cases "dir = ''''")
  case True
  have "Clean f = f"
    using f path_elems_file [OF f] by (cases f) (auto simp: Clean_spec clean_spec_def clean_elem_def path_render_def file_name_def)
  then show ?thesis using True f by (simp add: filepath_Join_def dir_part_def file_name_def)
next
  case False
  define r where "r = (hd dir = CHR ''/'')"
  define st where "st = foldl (clean_elem r) [] (path_elems dir)"
  have j: "filepath_Join [dir, f] = Clean (dir @ CHR ''/'' # f)" using False by (simp add: filepath_Join_def)
  have "foldl (clean_elem r) [] (path_elems (dir @ CHR ''/'' # f)) = st @ [f]"
    using f by (simp add: path_elems_append path_elems_file st_def clean_elem_def [of _ _ f] file_name_def)
  then have c: "filepath_Join [dir, f] = path_render r (st @ [f])"
    unfolding j Clean_spec clean_spec_def Let_def using False by (simp add: r_def)
  have d: "Clean dir = (if \<not> r \<and> st = [] then ''.'' else path_render r st)"
    unfolding Clean_spec clean_spec_def Let_def st_def using False by (simp only: r_def not_False_eq_True simp_thms)
  show ?thesis
  proof (cases "st = []")
    case True
    then show ?thesis using c d False by (simp add: dir_part_def path_render_def)
  next
    case n: False
    have "Clean dir \<noteq> ''.'' \<and> Clean dir \<noteq> ''/''"
      using d n path_render_special [OF clean_stack [of r dir, folded st_def] n, of r] by auto
    then show ?thesis using c d n False by (simp add: dir_part_def path_render_snoc)
  qed
qed

subsection \<open>\<open>Clean\<close> changes nothing the second time\<close>

definition normal_stack :: "bool \<Rightarrow> string list \<Rightarrow> bool" where
  "normal_stack r st \<longleftrightarrow> (\<forall>n. foldl (clean_elem r) [] (take n st) = take n st)"

lemma normal_stack_snoc:
  assumes "normal_stack r st" "clean_elem r st e = st @ [e]"
  shows "normal_stack r (st @ [e])"
  unfolding normal_stack_def
proof
  fix n
  show "foldl (clean_elem r) [] (take n (st @ [e])) = take n (st @ [e])"
  proof (cases "n \<le> length st")
    case True
    then show ?thesis using assms(1) by (simp add: normal_stack_def)
  next
    case False
    moreover have "foldl (clean_elem r) [] st = st" using assms(1) [unfolded normal_stack_def, rule_format, of "length st"] by simp
    ultimately show ?thesis using assms(2) by simp
  qed
qed

lemma normal_stack_butlast: "normal_stack r st \<Longrightarrow> normal_stack r (butlast st)"
  by (simp add: normal_stack_def butlast_conv_take)

lemma clean_elem_cases: "clean_elem r st e \<in> {st, butlast st, st @ [e]}"
  by (auto simp: clean_elem_def)

lemma clean_elem_normal: "normal_stack r st \<Longrightarrow> normal_stack r (clean_elem r st e)"
  using clean_elem_cases [of r st e] normal_stack_butlast [of r st] normal_stack_snoc [of r st e] by auto

lemma clean_elems_normal: "normal_stack r st \<Longrightarrow> normal_stack r (foldl (clean_elem r) st es)"
  by (induction es arbitrary: st) (simp_all add: clean_elem_normal)

lemma path_elems_join: "list_all real_elem st \<Longrightarrow> path_elems (path_join st) = st"
  by (induction st rule: path_join.induct) (simp_all add: path_elems_single path_elems_append)

lemma Clean_idem: "Clean (Clean path) = Clean path"
proof -
  define r where "r = (path \<noteq> [] \<and> hd path = CHR ''/'')"
  define st where "st = foldl (clean_elem r) [] (path_elems path)"
  have stack: "list_all stack_elem st" by (simp add: st_def clean_stack)
  then have real: "list_all real_elem st" by (auto simp: list_all_iff stack_elem_def)
  have c: "Clean path = (if \<not> r \<and> st = [] then ''.'' else path_render r st)"
    unfolding Clean_spec clean_spec_def Let_def st_def r_def ..
  show ?thesis
  proof (cases "\<not> r \<and> st = []")
    case True
    then show ?thesis unfolding c by (simp add: Clean_spec clean_spec_def path_elems_single real_elem_def clean_elem_def)
  next
    case False
    define q where "q = path_render r st"
    have q: "q \<noteq> []" "hd q = CHR ''/'' \<longleftrightarrow> r"
    proof -
      show "q \<noteq> []" using False path_render_special(1) [OF stack] by (cases "st = []") (auto simp: q_def path_render_def)
      show "hd q = CHR ''/'' \<longleftrightarrow> r"
      proof (cases r)
        case False
        obtain e es where e: "st = e # es" using False \<open>\<not> (\<not> r \<and> st = [])\<close> by (cases st) auto
        obtain a as where "e = a # as" using real e by (cases e) (auto simp: real_elem_def)
        then show ?thesis using False real e by (cases es) (auto simp: q_def path_render_def real_elem_def)
      qed (simp add: q_def path_render_def)
    qed
    have "path_elems q = st"
      using path_elems_join [OF real] by (cases r) (simp_all add: q_def path_render_def path_elems.simps IsPathSeparator_def)
    moreover have "normal_stack r st" unfolding st_def by (rule clean_elems_normal) (simp add: normal_stack_def)
    then have "foldl (clean_elem r) [] st = st" unfolding normal_stack_def by (metis order_refl take_all)
    ultimately have "Clean q = q"
      unfolding Clean_spec clean_spec_def Let_def using q False by (auto simp: q_def)
    then show ?thesis using c False by (simp add: q_def)
  qed
qed

lemma Clean_nonempty: "Clean path \<noteq> []"
  by (auto simp: Clean_def Let_def)

lemma dir_part_Clean: "dir_part (Clean dir) = dir_part dir"
proof -
  have "Clean '''' = ''.''" by (simp add: Clean_def)
  then show ?thesis using Clean_idem [of dir] Clean_nonempty [of dir] by (auto simp: dir_part_def)
qed

text \<open>
  Claim C40. \<open>Clean\<close>, which rewrites the path byte by byte in a buffer and backs up over the last element at every \<open>..\<close>, computes the normal form of the
  path: its elements pushed on a stack, empty ones and \<open>.\<close> dropped, \<open>..\<close> popping the element before it where there is one. The result is never
  empty and cleaning it again changes nothing.
\<close>

theorem Clean_correct: "Clean path = clean_spec path \<and> Clean (Clean path) = Clean path \<and> Clean path \<noteq> []"
  using Clean_spec Clean_idem Clean_nonempty by blast

end
