(* ===== verification/Url_Query.thy ===== *)
theory Url_Query
  imports Utf8 Prelude
begin

text \<open>
  Escaping and query strings of \<open>net/url\<close> (\<open>url.go\<close>): \<open>shouldEscape\<close>, \<open>escape\<close>, \<open>unescape\<close>, the two forms of the path of a URL, and the parsing
  of a query string into its values. A query map holds the slice of values of each key; a key without values and a missing key are the same
  empty slice, which is all that \<open>Get\<close> looks at.
\<close>

unbundle bit_operations_syntax

datatype url_encoding = encodePath | encodePathSegment | encodeHost | encodeZone | encodeUserPassword | encodeQueryComponent | encodeFragment

datatype url_error = EscapeError string | InvalidHostError string | Semicolon_Separator

definition upperhex :: string where "upperhex = ''0123456789ABCDEF''"

definition ishex :: "char \<Rightarrow> bool" where
  "ishex c \<longleftrightarrow>
     (let b = byte c in
      if 0x30 \<le> b \<and> b \<le> 0x39 then True
      else if 0x61 \<le> b \<and> b \<le> 0x66 then True
      else if 0x41 \<le> b \<and> b \<le> 0x46 then True
      else False)"

definition unhex :: "char \<Rightarrow> nat" where
  "unhex c =
     (let b = byte c in
      if 0x30 \<le> b \<and> b \<le> 0x39 then b - 0x30
      else if 0x61 \<le> b \<and> b \<le> 0x66 then b - 0x61 + 10
      else if 0x41 \<le> b \<and> b \<le> 0x46 then b - 0x41 + 10
      else 0)"

subsection \<open>Which bytes are escaped\<close>

definition url_alnum :: "char \<Rightarrow> bool" where
  "url_alnum c \<longleftrightarrow> (let b = byte c in 0x61 \<le> b \<and> b \<le> 0x7A \<or> 0x41 \<le> b \<and> b \<le> 0x5A \<or> 0x30 \<le> b \<and> b \<le> 0x39)"

definition shouldEscape :: "char \<Rightarrow> url_encoding \<Rightarrow> bool" where
  "shouldEscape c mode =
     (if url_alnum c then False
      else if (mode = encodeHost \<or> mode = encodeZone) \<and> c \<in> set ''!$&()*+,;=:[]<>'' \<union> {CHR 0x27, CHR 0x22} then False
      else if c \<in> set ''-_.~'' then False
      else if c \<in> set ''$&+,/:;=?@'' \<and> mode = encodePath then c = CHR ''?''
      else if c \<in> set ''$&+,/:;=?@'' \<and> mode = encodePathSegment then c \<in> set ''/;,?''
      else if c \<in> set ''$&+,/:;=?@'' \<and> mode = encodeUserPassword then c \<in> set ''@/?:''
      else if c \<in> set ''$&+,/:;=?@'' \<and> mode = encodeQueryComponent then True
      else if c \<in> set ''$&+,/:;=?@'' \<and> mode = encodeFragment then False
      else if mode = encodeFragment \<and> c \<in> set ''!()*'' then False
      else True)"

subsection \<open>Unescaping\<close>

text \<open>The value of an escape from its two digits.\<close>

definition hex_byte :: "char \<Rightarrow> char \<Rightarrow> char" where
  "hex_byte a b = char_of (push_bit 4 (unhex a) OR unhex b)"

text \<open>The first loop of \<open>unescape\<close>: it counts the escapes, checks them and looks for plus signs.\<close>

fun unescape_check :: "url_encoding \<Rightarrow> nat \<Rightarrow> bool \<Rightarrow> string \<Rightarrow> (url_error, nat \<times> bool) result" where
  "unescape_check mode n hasPlus [] = Inr (n, hasPlus)"
| "unescape_check mode n hasPlus (c # s) =
     (if c = CHR ''%'' then
        (case s of
           a # b # rest \<Rightarrow>
             if \<not> ishex a \<or> \<not> ishex b then Inl (EscapeError (take 3 (c # s)))
             else if mode = encodeHost \<and> unhex a < 8 \<and> [c, a, b] \<noteq> ''%25'' then Inl (EscapeError [c, a, b])
             else if mode = encodeZone \<and> [c, a, b] \<noteq> ''%25'' \<and> hex_byte a b \<noteq> CHR '' '' \<and> shouldEscape (hex_byte a b) encodeHost
               then Inl (EscapeError [c, a, b])
             else unescape_check mode (n + 1) hasPlus rest
         | _ \<Rightarrow> Inl (EscapeError (take 3 (c # s))))
      else if c = CHR ''+'' then unescape_check mode n (mode = encodeQueryComponent) s
      else if (mode = encodeHost \<or> mode = encodeZone) \<and> byte c < 0x80 \<and> shouldEscape c mode then Inl (InvalidHostError [c])
      else unescape_check mode n hasPlus s)"

text \<open>The second loop builds the result.\<close>

fun unescape_build :: "url_encoding \<Rightarrow> string \<Rightarrow> string" where
  "unescape_build mode [] = []"
| "unescape_build mode (c # s) =
     (if c = CHR ''%'' then
        (case s of a # b # rest \<Rightarrow> hex_byte a b # unescape_build mode rest | _ \<Rightarrow> [])
      else if c = CHR ''+'' then (if mode = encodeQueryComponent then CHR '' '' else CHR ''+'') # unescape_build mode s
      else c # unescape_build mode s)"

definition unescape :: "string \<Rightarrow> url_encoding \<Rightarrow> (url_error, string) result" where
  "unescape s mode =
     result_bind (unescape_check mode 0 False s) (\<lambda>(n, hasPlus).
       if n = 0 \<and> \<not> hasPlus then Inr s else Inr (unescape_build mode s))"

definition QueryUnescape :: "string \<Rightarrow> (url_error, string) result" where
  "QueryUnescape s = unescape s encodeQueryComponent"

definition PathUnescape :: "string \<Rightarrow> (url_error, string) result" where
  "PathUnescape s = unescape s encodePathSegment"

subsection \<open>Escaping\<close>

definition escape_space :: "char \<Rightarrow> char" where
  "escape_space c = (if c = CHR '' '' then CHR ''+'' else c)"

fun escape_build :: "url_encoding \<Rightarrow> string \<Rightarrow> string" where
  "escape_build mode [] = []"
| "escape_build mode (c # s) =
     (if c = CHR '' '' \<and> mode = encodeQueryComponent then CHR ''+'' # escape_build mode s
      else if shouldEscape c mode then
        [CHR ''%'', upperhex ! drop_bit 4 (byte c), upperhex ! (byte c AND 15)] @ escape_build mode s
      else c # escape_build mode s)"

definition escape :: "string \<Rightarrow> url_encoding \<Rightarrow> string" where
  "escape s mode =
     (let esc = filter (\<lambda>c. shouldEscape c mode) s;
          spaceCount = length (filter (\<lambda>c. c = CHR '' '' \<and> mode = encodeQueryComponent) esc);
          hexCount = length (filter (\<lambda>c. \<not> (c = CHR '' '' \<and> mode = encodeQueryComponent)) esc) in
      if spaceCount = 0 \<and> hexCount = 0 then s
      else if hexCount = 0 then map escape_space s
      else escape_build mode s)"

definition QueryEscape :: "string \<Rightarrow> string" where
  "QueryEscape s = escape s encodeQueryComponent"

subsection \<open>The path of a URL\<close>

record url =
  url_Host :: string
  url_Path :: string
  url_RawPath :: string
  url_RawQuery :: string

definition setPath :: "url \<Rightarrow> string \<Rightarrow> (url_error, url) result" where
  "setPath u p =
     result_bind (unescape p encodePath) (\<lambda>path.
       if p = escape path encodePath then Inr (u\<lparr>url_Path := path, url_RawPath := ''''\<rparr>)
       else Inr (u\<lparr>url_Path := path, url_RawPath := p\<rparr>))"

definition validEncoded :: "string \<Rightarrow> url_encoding \<Rightarrow> bool" where
  "validEncoded s mode =
     list_all (\<lambda>c. c \<in> set ''!$&()*+,;=:@'' \<union> {CHR 0x27} \<or> c \<in> set ''[]'' \<or> c = CHR ''%'' \<or> \<not> shouldEscape c mode) s"

definition EscapedPath :: "url \<Rightarrow> string" where
  "EscapedPath u =
     (if url_RawPath u \<noteq> '''' \<and> validEncoded (url_RawPath u) encodePath
         \<and> unescape (url_RawPath u) encodePath = Inr (url_Path u) then url_RawPath u
      else if url_Path u = ''*'' then ''*''
      else escape (url_Path u) encodePath)"

subsection \<open>Query strings\<close>

type_synonym url_values = "string \<Rightarrow> string list"

definition Values_Get :: "url_values \<Rightarrow> string \<Rightarrow> string" where
  "Values_Get v key = (let vs = v key in if vs = [] then '''' else vs ! 0)"

text \<open>\<open>strings.Cut\<close> with a separator of one byte.\<close>

definition Cut :: "string \<Rightarrow> char \<Rightarrow> string \<times> string \<times> bool" where
  "Cut s sep =
     (let i = length (takeWhile (\<lambda>c. c \<noteq> sep) s) in
      if i < length s then (take i s, drop (i + 1) s, True) else (s, '''', False))"

lemma Cut_after: "s \<noteq> [] \<Longrightarrow> length (fst (snd (Cut s sep))) < length s"
  by (simp add: Cut_def Let_def)

text \<open>The loop of \<open>parseQuery\<close>; it goes on after an error and keeps the first one, except that a semicolon replaces it.\<close>

function parseQuery :: "url_values \<Rightarrow> url_error option \<Rightarrow> string \<Rightarrow> url_values \<times> url_error option" where
  "parseQuery m err query =
     (if query = '''' then (m, err)
      else
        let (key, query', _) = Cut query (CHR ''&'') in
        if CHR '';'' \<in> set key then parseQuery m (Some Semicolon_Separator) query'
        else if key = '''' then parseQuery m err query'
        else
          let (key, val, _) = Cut key (CHR ''='') in
          case QueryUnescape key of
            Inl err1 \<Rightarrow> parseQuery m (if err = None then Some err1 else err) query'
          | Inr key \<Rightarrow>
              (case QueryUnescape val of
                 Inl err1 \<Rightarrow> parseQuery m (if err = None then Some err1 else err) query'
               | Inr val \<Rightarrow> parseQuery (m(key := m key @ [val])) err query'))"
  by pat_completeness auto
termination
  by (relation "measure (\<lambda>(m, err, query). length query)") (auto dest!: arg_cong [of _ _ "\<lambda>x. length (fst (snd x))"] simp: Cut_def Let_def split: if_splits)

declare parseQuery.simps [simp del]

definition ParseQuery :: "string \<Rightarrow> url_values \<times> url_error option" where
  "ParseQuery query = parseQuery (\<lambda>_. []) None query"

text \<open>\<open>URL.Query\<close> drops the error.\<close>

definition URL_Query :: "url \<Rightarrow> url_values" where
  "URL_Query u = fst (ParseQuery (url_RawQuery u))"

subsection \<open>Escapes\<close>

lemma upperhex_digits: "k < 16 \<Longrightarrow> ishex (upperhex ! k) \<and> unhex (upperhex ! k) = k"
proof -
  have "list_all (\<lambda>k. ishex (upperhex ! k) \<and> unhex (upperhex ! k) = k) [0..<16]" by code_simp
  then show "k < 16 \<Longrightarrow> ishex (upperhex ! k) \<and> unhex (upperhex ! k) = k" by (auto simp: list_all_iff)
qed

lemma nibbles: "drop_bit 4 (byte c) < 16" "byte c AND 15 < 16" "push_bit 4 (drop_bit 4 (byte c)) OR (byte c AND 15) = byte c"
proof -
  have m: "byte c AND 15 = byte c mod 16" using take_bit_eq_mask [of 4 "byte c"] by (simp add: mask_eq_exp_minus_1 take_bit_eq_mod)
  show "drop_bit 4 (byte c) < 16" using byte_less [of c] by (simp add: drop_bit_eq_div del: byte_less)
  show "byte c AND 15 < 16" by (simp add: m)
  show "push_bit 4 (drop_bit 4 (byte c)) OR (byte c AND 15) = byte c"
    using or_shift [of "byte c AND 15" 4 "drop_bit 4 (byte c)"] by (simp add: m drop_bit_eq_div)
qed

lemma char_of_byte [simp]: "char_of (byte c) = c"
  by (simp add: byte_def)

lemma hex_byte_upperhex: "hex_byte (upperhex ! drop_bit 4 (byte c)) (upperhex ! (byte c AND 15)) = c"
  using upperhex_digits [OF nibbles(1)] upperhex_digits [OF nibbles(2)] by (simp add: hex_byte_def nibbles(3))

lemma shouldEscape_percent [simp]: "shouldEscape (CHR ''%'') mode"
  by (simp add: shouldEscape_def url_alnum_def byte_def Let_def)

lemma shouldEscape_space [simp]: "shouldEscape (CHR '' '') mode"
  by (simp add: shouldEscape_def url_alnum_def byte_def Let_def)

lemma shouldEscape_query: "c \<in> set ''&=+;'' \<Longrightarrow> shouldEscape c encodeQueryComponent"
proof -
  have "list_all (\<lambda>c. shouldEscape c encodeQueryComponent) ''&=+;''" by code_simp
  then show "c \<in> set ''&=+;'' \<Longrightarrow> shouldEscape c encodeQueryComponent" by (auto simp: list_all_iff)
qed

text \<open>The shortcuts of \<open>escape\<close> and \<open>unescape\<close> agree with their loops.\<close>

lemma escape_build_plain: "list_all (\<lambda>c. \<not> shouldEscape c mode) s \<Longrightarrow> escape_build mode s = s"
  by (induction s) auto

lemma escape_build_spaces:
  "list_all (\<lambda>c. c = CHR '' '' \<or> \<not> shouldEscape c encodeQueryComponent) s \<Longrightarrow>
     escape_build encodeQueryComponent s = map escape_space s"
  by (induction s) (auto simp: escape_space_def)

lemma escape_loop: "escape s mode = escape_build mode s"
proof -
  define spaces where "spaces = length (filter (\<lambda>c. c = CHR '' '' \<and> mode = encodeQueryComponent) (filter (\<lambda>c. shouldEscape c mode) s))"
  define hexes where "hexes = length (filter (\<lambda>c. \<not> (c = CHR '' '' \<and> mode = encodeQueryComponent)) (filter (\<lambda>c. shouldEscape c mode) s))"
  have e: "escape s mode = (if spaces = 0 \<and> hexes = 0 then s else if hexes = 0 then map escape_space s else escape_build mode s)"
    by (simp only: escape_def Let_def spaces_def hexes_def)
  have h: "hexes = 0 \<Longrightarrow> list_all (\<lambda>c. c = CHR '' '' \<and> mode = encodeQueryComponent \<or> \<not> shouldEscape c mode) s"
    by (auto simp: hexes_def filter_empty_conv list_all_iff)
  have sp: "spaces = 0 \<Longrightarrow> list_all (\<lambda>c. \<not> (c = CHR '' '' \<and> mode = encodeQueryComponent) \<or> \<not> shouldEscape c mode) s"
    by (auto simp: spaces_def filter_empty_conv list_all_iff)
  show ?thesis
  proof (cases "hexes = 0")
    case True
    show ?thesis
    proof (cases "mode = encodeQueryComponent \<and> spaces \<noteq> 0")
      case q: True
      then have "list_all (\<lambda>c. c = CHR '' '' \<or> \<not> shouldEscape c encodeQueryComponent) s" using h [OF True] by (simp add: list_all_iff)
      then show ?thesis using e True q escape_build_spaces by simp
    next
      case False
      moreover have "mode \<noteq> encodeQueryComponent \<Longrightarrow> spaces = 0" by (simp add: spaces_def)
      ultimately have z: "spaces = 0" by blast
      then have "list_all (\<lambda>c. \<not> shouldEscape c mode) s" using h [OF True] sp [OF z] unfolding list_all_iff by blast
      then show ?thesis using e True z escape_build_plain by simp
    qed
  qed (simp add: e)
qed

lemma unescape_check_counts:
  "unescape_check mode n p s = Inr (n', p') \<Longrightarrow>
     n \<le> n' \<and> (n' = n \<longrightarrow> CHR ''%'' \<notin> set s) \<and> (mode = encodeQueryComponent \<longrightarrow> (p \<longrightarrow> p') \<and> (\<not> p' \<longrightarrow> CHR ''+'' \<notin> set s))"
proof (induction mode n p s rule: unescape_check.induct)
  case (2 mode n p c s)
  show ?case
  proof (cases "c = CHR ''%''")
    case True
    then obtain a b rest where s: "s = a # b # rest" and h: "ishex a" "ishex b"
      using "2.prems" by (auto split: list.splits if_splits)
    have r: "unescape_check mode (n + 1) p rest = Inr (n', p')" using "2.prems" True s by (simp split: if_splits)
    have "\<not> ishex (CHR ''+'')" by code_simp
    then have "a \<noteq> CHR ''+''" "b \<noteq> CHR ''+''" using h by auto
    moreover have "n + 1 \<le> n' \<and> (mode = encodeQueryComponent \<longrightarrow> (p \<longrightarrow> p') \<and> (\<not> p' \<longrightarrow> CHR ''+'' \<notin> set rest))"
      using "2.IH"(1) [OF True s refl _ _ _ r] "2.prems" True s h by (simp split: if_splits)
    ultimately show ?thesis using True s by auto
  next
    case False
    show ?thesis
    proof (cases "c = CHR ''+''")
      case True
      then show ?thesis using "2.IH"(2) [OF False True] "2.prems" by simp
    next
      case plus: False
      then have r: "unescape_check mode n p s = Inr (n', p')"
        and h: "\<not> ((mode = encodeHost \<or> mode = encodeZone) \<and> byte c < 0x80 \<and> shouldEscape c mode)"
        using "2.prems" False by (simp_all split: if_splits)
      show ?thesis using "2.IH"(3) [OF False plus h r] False plus by simp
    qed
  qed
qed simp

lemma unescape_build_same:
  "CHR ''%'' \<notin> set s \<Longrightarrow> mode = encodeQueryComponent \<longrightarrow> CHR ''+'' \<notin> set s \<Longrightarrow> unescape_build mode s = s"
  by (induction s) auto

lemma unescape_loop: "unescape s mode = result_bind (unescape_check mode 0 False s) (\<lambda>_. Inr (unescape_build mode s))"
proof (cases "unescape_check mode 0 False s")
  case (Inr np)
  obtain n p where np: "np = (n, p)" by fastforce
  show ?thesis
    using Inr np unescape_check_counts [of mode 0 False s n p] unescape_build_same [of s mode] by (auto simp: unescape_def)
qed (simp add: unescape_def)

lemma unescape_check_escape:
  assumes "mode \<noteq> encodeHost" "mode \<noteq> encodeZone"
  shows "\<exists>n' p'. unescape_check mode n p (escape_build mode s) = Inr (n', p')"
proof (induction s arbitrary: n p)
  case (Cons c s)
  have "c \<noteq> CHR ''%''" if "\<not> shouldEscape c mode" using that shouldEscape_percent [of mode] by metis
  then show ?case
    using Cons assms upperhex_digits [OF nibbles(1) [of c]] upperhex_digits [OF nibbles(2) [of c]] by auto
qed simp

lemma unescape_build_escape: "unescape_build mode (escape_build mode s) = s"
proof (induction s)
  case (Cons c s)
  have "shouldEscape (CHR ''+'') encodeQueryComponent" using shouldEscape_query by simp
  then show ?case using Cons shouldEscape_percent [of mode] by (auto simp: hex_byte_upperhex)
qed simp

lemma unescape_escape:
  assumes "mode \<noteq> encodeHost" "mode \<noteq> encodeZone"
  shows "unescape (escape s mode) mode = Inr s"
  using unescape_check_escape [OF assms, of 0 False s] by (auto simp: escape_loop unescape_loop unescape_build_escape)

text \<open>What escaping a query component leaves out.\<close>

definition query_special :: "char \<Rightarrow> bool" where
  "query_special c \<longleftrightarrow> c = CHR ''&'' \<or> c = CHR ''='' \<or> c = CHR '';''"

lemma QueryEscape_chars: "list_all (\<lambda>c. \<not> query_special c) (QueryEscape s)"
proof -
  have u: "\<not> query_special (upperhex ! k)" if "k < 16" for k
  proof -
    have "list_all (\<lambda>k. \<not> query_special (upperhex ! k)) [0..<16]" by code_simp
    then show ?thesis using that by (auto simp: list_all_iff)
  qed
  have s: "\<not> query_special d" if "\<not> shouldEscape d encodeQueryComponent" for d
    using that shouldEscape_query [of d] by (auto simp: query_special_def)
  have "\<not> query_special (CHR ''%'')" "\<not> query_special (CHR ''+'')" by (simp_all add: query_special_def)
  then have "list_all (\<lambda>c. \<not> query_special c) (escape_build encodeQueryComponent s)"
    using u [OF nibbles(1)] u [OF nibbles(2)] s by (induction s) simp_all
  then show ?thesis by (simp add: QueryEscape_def escape_loop)
qed

text \<open>A request path that starts with a slash and is properly encoded is what \<open>EscapedPath\<close> gives back.\<close>

lemma EscapedPath_setPath:
  assumes "setPath u p = Inr u'" "validEncoded p encodePath" "p = CHR ''/'' # p'"
  shows "EscapedPath u' = p" "unescape p encodePath = Inr (url_Path u')" "url_RawQuery u' = url_RawQuery u"
proof -
  obtain path where path: "unescape p encodePath = Inr path"
    and u': "u' = (if p = escape path encodePath then u\<lparr>url_Path := path, url_RawPath := ''''\<rparr> else u\<lparr>url_Path := path, url_RawPath := p\<rparr>)"
    using assms(1) by (auto simp: setPath_def result_bind_eq_Inr split: if_splits)
  have "path \<noteq> ''*''" using path assms(3) by (auto simp: unescape_loop result_bind_eq_Inr)
  then show "EscapedPath u' = p" using path u' assms(2,3) by (auto simp: EscapedPath_def)
  show "unescape p encodePath = Inr (url_Path u')" "url_RawQuery u' = url_RawQuery u" using path u' by auto
qed

subsection \<open>What a query string means\<close>

text \<open>
  The reference: the pieces between the ampersands, each a key and a value separated by the first equals sign; pieces that are empty, hold a
  semicolon or a bad escape count for nothing.
\<close>

function query_pieces :: "string \<Rightarrow> string list" where
  "query_pieces q = (if q = [] then [] else takeWhile (\<lambda>c. c \<noteq> CHR ''&'') q # query_pieces (tl (dropWhile (\<lambda>c. c \<noteq> CHR ''&'') q)))"
  by pat_completeness auto
termination
proof (relation "measure length", goal_cases)
  case (2 q)
  have "length (dropWhile (\<lambda>c. c \<noteq> CHR ''&'') q) \<le> length q" by (rule length_dropWhile_le)
  then show ?case using 2 by (cases q) (auto simp: less_Suc_eq_le)
qed simp

declare query_pieces.simps [simp del]

definition query_pair :: "string \<Rightarrow> (string \<times> string) option" where
  "query_pair piece =
     (if CHR '';'' \<in> set piece \<or> piece = [] then None
      else case (QueryUnescape (takeWhile (\<lambda>c. c \<noteq> CHR ''='') piece), QueryUnescape (tl (dropWhile (\<lambda>c. c \<noteq> CHR ''='') piece))) of
        (Inr k, Inr v) \<Rightarrow> Some (k, v) | _ \<Rightarrow> None)"

definition query_pairs :: "string \<Rightarrow> (string \<times> string) list" where
  "query_pairs q = List.map_filter query_pair (query_pieces q)"

lemma Cut_while: "Cut s sep = (takeWhile (\<lambda>c. c \<noteq> sep) s, tl (dropWhile (\<lambda>c. c \<noteq> sep) s), sep \<in> set s)"
proof (induction s)
  case (Cons c s)
  then show ?case by (auto simp: Cut_def Let_def split: if_splits)
qed (simp add: Cut_def)

lemma map_filter_Cons: "List.map_filter f (x # xs) = (case f x of None \<Rightarrow> List.map_filter f xs | Some y \<Rightarrow> y # List.map_filter f xs)"
  by (simp add: List.map_filter_def split: option.splits)

lemma query_pairs_rec:
  "q \<noteq> [] \<Longrightarrow> query_pairs q =
     (case query_pair (takeWhile (\<lambda>c. c \<noteq> CHR ''&'') q) of
        None \<Rightarrow> query_pairs (tl (dropWhile (\<lambda>c. c \<noteq> CHR ''&'') q))
      | Some p \<Rightarrow> p # query_pairs (tl (dropWhile (\<lambda>c. c \<noteq> CHR ''&'') q)))"
  by (simp add: query_pairs_def query_pieces.simps [of q] map_filter_Cons split: option.split)

lemma query_pairs_Nil [simp]: "query_pairs [] = []"
  by (simp add: query_pairs_def query_pieces.simps)

lemma parseQuery_pairs:
  "fst (parseQuery m err q) = (\<lambda>k. m k @ map snd (filter (\<lambda>p. fst p = k) (query_pairs q)))"
proof (induction "length q" arbitrary: m err q rule: less_induct)
  case less
  show ?case
  proof (cases "q = []")
    case False
    define key where "key = takeWhile (\<lambda>c. c \<noteq> CHR ''&'') q"
    define q' where "q' = tl (dropWhile (\<lambda>c. c \<noteq> CHR ''&'') q)"
    have "length q' < length q" using Cut_after [OF False, of "CHR ''&''"] by (simp add: Cut_while q'_def)
    then have ih: "fst (parseQuery m err q') = (\<lambda>k. m k @ map snd (filter (\<lambda>p. fst p = k) (query_pairs q')))" for m err
      using less by blast
    have r: "query_pairs q = (case query_pair key of None \<Rightarrow> query_pairs q' | Some p \<Rightarrow> p # query_pairs q')"
      unfolding key_def q'_def by (rule query_pairs_rec [OF False])
    show ?thesis
      unfolding parseQuery.simps [of m err q] r
      using False by (auto simp: Cut_while key_def [symmetric] q'_def [symmetric] ih query_pair_def Let_def fun_eq_iff split: sum.splits)
  qed (simp add: parseQuery.simps)
qed

lemma Values_Get_pairs:
  "Values_Get (URL_Query u) k = (case map_of (query_pairs (url_RawQuery u)) k of None \<Rightarrow> '''' | Some v \<Rightarrow> v)"
proof -
  have "map_of ps k = (case filter (\<lambda>p. fst p = k) ps of [] \<Rightarrow> None | p # _ \<Rightarrow> Some (snd p))" for ps :: "(string \<times> string) list"
    by (induction ps) auto
  then show ?thesis
    by (simp add: Values_Get_def URL_Query_def ParseQuery_def parseQuery_pairs Let_def split: list.splits)
qed

text \<open>The text of a query for given keys and values.\<close>

definition query_item :: "string \<times> string \<Rightarrow> string" where
  "query_item p = QueryEscape (fst p) @ ''='' @ QueryEscape (snd p)"

fun query_text :: "(string \<times> string) list \<Rightarrow> string" where
  "query_text [] = []"
| "query_text [p] = query_item p"
| "query_text (p # ps) = query_item p @ ''&'' @ query_text ps"

lemma takeWhile_stop: "list_all P xs \<Longrightarrow> \<not> P y \<Longrightarrow> takeWhile P (xs @ y # ys) = xs \<and> dropWhile P (xs @ y # ys) = y # ys"
  by (induction xs) auto

lemma query_item_chars: "list_all (\<lambda>c. c \<noteq> CHR ''&'') (query_item p)" "CHR '';'' \<notin> set (query_item p)" "query_item p \<noteq> []"
  using QueryEscape_chars [of "fst p"] QueryEscape_chars [of "snd p"] by (auto simp: query_item_def list_all_iff query_special_def)

lemma query_pair_item: "query_pair (query_item p) = Some p"
proof -
  have "list_all (\<lambda>c. c \<noteq> CHR ''='') (QueryEscape (fst p))"
    using QueryEscape_chars [of "fst p"] by (auto simp: list_all_iff query_special_def)
  from takeWhile_stop [OF this, of "CHR ''=''" "QueryEscape (snd p)"]
  show ?thesis using query_item_chars(2,3) [of p] unescape_escape [of encodeQueryComponent]
    by (simp add: query_pair_def query_item_def QueryUnescape_def QueryEscape_def)
qed

lemma query_pairs_text: "query_pairs (query_text ps) = ps"
proof (induction ps rule: query_text.induct)
  case (2 p)
  have t: "takeWhile (\<lambda>c. c \<noteq> CHR ''&'') (query_item p) = query_item p" "dropWhile (\<lambda>c. c \<noteq> CHR ''&'') (query_item p) = []"
    using query_item_chars(1) [of p] by (auto simp: list_all_iff)
  show ?case unfolding query_text.simps query_pairs_rec [OF query_item_chars(3)] t query_pair_item by simp
next
  case (3 p q ps)
  show ?case using takeWhile_stop [OF query_item_chars(1) [of p], of "CHR ''&''" "query_text (q # ps)"] 3
    by (simp add: query_pairs_rec query_pair_item)
qed simp

text \<open>
  Claim C36. Reading a query string. \<open>Get\<close> returns the value of the first piece with the key, pieces that are malformed being skipped; and escaping is
  the exact inverse of parsing: for any list of keys and values, arbitrary bytes included, the escaped query text is parsed into these keys and
  values, so \<open>Get\<close> returns the first value of the key in the list and the empty string for a key that is not there.
\<close>

theorem query_roundtrip:
  "Values_Get (URL_Query u) k = (case map_of (query_pairs (url_RawQuery u)) k of None \<Rightarrow> '''' | Some v \<Rightarrow> v)
   \<and> Values_Get (URL_Query (u\<lparr>url_RawQuery := query_text ps\<rparr>)) k = (case map_of ps k of None \<Rightarrow> '''' | Some v \<Rightarrow> v)"
  by (simp add: Values_Get_pairs query_pairs_text)

text \<open>
  Claim C38. \<open>unescape\<close> inverts \<open>escape\<close> on every byte string, in every part of a URL other than the host; and the path of a request that is properly
  encoded and starts with a slash is what \<open>EscapedPath\<close> gives back after \<open>setPath\<close> has stored it.
\<close>

theorem escape_roundtrip:
  "(mode \<noteq> encodeHost \<and> mode \<noteq> encodeZone \<longrightarrow> unescape (escape s mode) mode = Inr s)
   \<and> (setPath u (CHR ''/'' # p) = Inr u' \<and> validEncoded (CHR ''/'' # p) encodePath \<longrightarrow> EscapedPath u' = CHR ''/'' # p)"
  using unescape_escape EscapedPath_setPath by blast

theorem escape_roundtrip_witness: "unescape ''a+b%26'' encodeQueryComponent = Inr ''a b&''"
proof -
  have "escape ''a b&'' encodeQueryComponent = ''a+b%26''" by code_simp
  then show ?thesis using escape_roundtrip [of encodeQueryComponent "''a b&''"] by simp
qed

end
