(* ===== verification/Http_Pattern.thy ===== *)
theory Http_Pattern
  imports Names Filepath Url_Query
begin

text \<open>
  Patterns of \<open>net/http\<close> (\<open>pattern.go\<close>, with \<open>cleanPath\<close> and \<open>stripHostPort\<close> of \<open>server.go\<close>): their syntax and the relation that decides which of two
  patterns takes precedence. The letters and digits above Latin-1, which are tables of package \<open>unicode\<close>, are a parameter; they only
  matter for the names of wildcards. The texts of errors are left out; a pattern always has a segment, so \<open>lastSegment\<close> does not panic.
\<close>

record unicode_tables =
  uni_Letter :: "nat \<Rightarrow> bool"
  uni_Digit :: "nat \<Rightarrow> bool"

record path_segment =
  ps_s :: string
  ps_wild :: bool
  ps_multi :: bool

record pattern =
  pat_str :: string
  pat_method :: string
  pat_host :: string
  pat_segments :: "path_segment list"

definition lastSegment :: "pattern \<Rightarrow> path_segment" where
  "lastSegment p = last (pat_segments p)"

datatype pattern_error =
    Empty_Pattern | Invalid_Method string | Missing_Slash | Host_Brace | Unclean_Path | Bad_Wildcard_Start | Bad_Wildcard_End
  | Dollar_Not_At_End | Multi_Not_At_End | Empty_Wildcard | Bad_Wildcard_Name string | Duplicate_Wildcard string

subsection \<open>Methods, names and paths\<close>

definition IsTokenRune :: "nat \<Rightarrow> bool" where
  "IsTokenRune r \<longleftrightarrow> r < 127 \<and> (r \<in> byte ` set ''!#$%&*+-.^_|~'' \<or> r = 0x27 \<or> r = 0x60
     \<or> 0x30 \<le> r \<and> r \<le> 0x39 \<or> 0x41 \<le> r \<and> r \<le> 0x5A \<or> 0x61 \<le> r \<and> r \<le> 0x7A)"

definition isNotToken :: "nat \<Rightarrow> bool" where
  "isNotToken r \<longleftrightarrow> \<not> IsTokenRune r"

definition validMethod :: "string \<Rightarrow> bool" where
  "validMethod m \<longleftrightarrow> 0 < length m \<and> indexFunc m isNotToken True = -1"

definition IsLetter :: "unicode_tables \<Rightarrow> nat \<Rightarrow> bool" where
  "IsLetter tb r =
     (if r \<le> 0xFF then
        0x41 \<le> r \<and> r \<le> 0x5A \<or> 0x61 \<le> r \<and> r \<le> 0x7A \<or> r \<in> {0xAA, 0xB5, 0xBA} \<or> 0xC0 \<le> r \<and> r \<noteq> 0xD7 \<and> r \<noteq> 0xF7
      else uni_Letter tb r)"

definition IsDigit :: "unicode_tables \<Rightarrow> nat \<Rightarrow> bool" where
  "IsDigit tb r = (if r \<le> 0xFF then 0x30 \<le> r \<and> r \<le> 0x39 else uni_Digit tb r)"

definition isValidWildcardName :: "unicode_tables \<Rightarrow> string \<Rightarrow> bool" where
  "isValidWildcardName tb s =
     (if s = '''' then False
      else list_all (\<lambda>(i, c). IsLetter tb c \<or> c = 0x5F \<or> i \<noteq> 0 \<and> IsDigit tb c) (range_string s))"

definition pathUnescape :: "string \<Rightarrow> string" where
  "pathUnescape path = (case PathUnescape path of Inl _ \<Rightarrow> path | Inr u \<Rightarrow> u)"

text \<open>\<open>path.Clean\<close> has the body of \<open>filepath.Clean\<close> on Unix.\<close>

definition cleanPath :: "string \<Rightarrow> string" where
  "cleanPath p =
     (if p = '''' then ''/''
      else
        let p = (if p ! 0 \<noteq> CHR ''/'' then ''/'' @ p else p);
            np = Clean p in
        if last p = CHR ''/'' \<and> np \<noteq> ''/'' then
          (if length p = length np + 1 \<and> take (length np) p = np then p else np @ ''/'')
        else np)"

text \<open>\<open>net.SplitHostPort\<close>, whose port and error text are not used.\<close>

definition SplitHostPort :: "string \<Rightarrow> string option" where
  "SplitHostPort hostport =
     (if CHR '':'' \<notin> set hostport then None
      else
        let i = length hostport - 1 - length (takeWhile (\<lambda>c. c \<noteq> CHR '':'') (rev hostport)) in
        if hostport ! 0 = CHR ''['' then
          (if CHR '']'' \<notin> set hostport then None
           else
             let e = length (takeWhile (\<lambda>c. c \<noteq> CHR '']'') hostport) in
             if e + 1 \<noteq> i then None
             else if CHR ''['' \<in> set (drop 1 hostport) then None
             else if CHR '']'' \<in> set (drop (e + 1) hostport) then None
             else Some (drop 1 (take e hostport)))
        else
          let host = take i hostport in
          if CHR '':'' \<in> set host then None
          else if CHR ''['' \<in> set hostport then None
          else if CHR '']'' \<in> set hostport then None
          else Some host)"

definition stripHostPort :: "string \<Rightarrow> string" where
  "stripHostPort h =
     (if CHR '':'' \<notin> set h then h else case SplitHostPort h of None \<Rightarrow> h | Some host \<Rightarrow> host)"

subsection \<open>Parsing a pattern\<close>

text \<open>\<open>strings.CutSuffix\<close> for the dots of a multi wildcard.\<close>

definition cut_dots :: "string \<Rightarrow> string \<times> bool" where
  "cut_dots s = (let n = length s - 3 in if 3 \<le> length s \<and> drop n s = ''...'' then (take n s, True) else (s, False))"

text \<open>The loop of \<open>parsePattern\<close> over the path; \<open>rest\<close> is empty or begins with a slash.\<close>

function parse_segments :: "unicode_tables \<Rightarrow> string set \<Rightarrow> path_segment list \<Rightarrow> string \<Rightarrow> (pattern_error, path_segment list) result" where
  "parse_segments tb seenNames segs rest =
     (if rest = '''' then Inr segs
      else
        let rest = tl rest in
        if rest = '''' then Inr (segs @ [\<lparr>ps_s = '''', ps_wild = True, ps_multi = True\<rparr>])
        else
          let i = length (takeWhile (\<lambda>c. c \<noteq> CHR ''/'') rest); seg = take i rest; rest = drop i rest in
          if CHR ''{'' \<notin> set seg then
            parse_segments tb seenNames (segs @ [\<lparr>ps_s = pathUnescape seg, ps_wild = False, ps_multi = False\<rparr>]) rest
          else if hd seg \<noteq> CHR ''{'' then Inl Bad_Wildcard_Start
          else if last seg \<noteq> CHR ''}'' then Inl Bad_Wildcard_End
          else
            let name = butlast (tl seg) in
            if name = ''$'' then
              (if rest \<noteq> '''' then Inl Dollar_Not_At_End
               else Inr (segs @ [\<lparr>ps_s = ''/'', ps_wild = False, ps_multi = False\<rparr>]))
            else
              let (name, multi) = cut_dots name in
              if multi \<and> rest \<noteq> '''' then Inl Multi_Not_At_End
              else if name = '''' then Inl Empty_Wildcard
              else if \<not> isValidWildcardName tb name then Inl (Bad_Wildcard_Name name)
              else if name \<in> seenNames then Inl (Duplicate_Wildcard name)
              else parse_segments tb (insert name seenNames) (segs @ [\<lparr>ps_s = name, ps_wild = True, ps_multi = multi\<rparr>]) rest)"
  by pat_completeness auto
termination
  by (relation "measure (\<lambda>(tb, seenNames, segs, rest). length rest)") (auto simp: Suc_le_eq [symmetric] neq_Nil_conv)

declare parse_segments.simps [simp del]

definition parsePattern :: "unicode_tables \<Rightarrow> string \<Rightarrow> (pattern_error, pattern) result" where
  "parsePattern tb s =
     (if s = '''' then Inl Empty_Pattern
      else
        let (method, rest, found) = Cut s (CHR '' '');
            (method, rest) = (if \<not> found then ('''', method) else (method, rest)) in
        if method \<noteq> '''' \<and> \<not> validMethod method then Inl (Invalid_Method method)
        else if CHR ''/'' \<notin> set rest then Inl Missing_Slash
        else
          let i = length (takeWhile (\<lambda>c. c \<noteq> CHR ''/'') rest); host = take i rest; rest = drop i rest in
          if CHR ''{'' \<in> set host then Inl Host_Brace
          else if method \<noteq> '''' \<and> method \<noteq> ''CONNECT'' \<and> rest \<noteq> cleanPath rest then Inl Unclean_Path
          else
            result_bind (parse_segments tb {} [] rest) (\<lambda>segs.
              Inr \<lparr>pat_str = s, pat_method = method, pat_host = host, pat_segments = segs\<rparr>))"

subsection \<open>Relations between patterns\<close>

datatype relationship = Equivalent | MoreGeneral | MoreSpecific | Disjoint | Overlaps

definition inverseRelationship :: "relationship \<Rightarrow> relationship" where
  "inverseRelationship r = (case r of MoreSpecific \<Rightarrow> MoreGeneral | MoreGeneral \<Rightarrow> MoreSpecific | _ \<Rightarrow> r)"

definition combineRelationships :: "relationship \<Rightarrow> relationship \<Rightarrow> relationship" where
  "combineRelationships r1 r2 =
     (case r1 of
        Equivalent \<Rightarrow> r2
      | Disjoint \<Rightarrow> Disjoint
      | Overlaps \<Rightarrow> if r2 = Disjoint then Disjoint else Overlaps
      | _ \<Rightarrow> if r2 = Equivalent then r1 else if r2 = inverseRelationship r1 then Overlaps else r2)"

definition compareMethods :: "pattern \<Rightarrow> pattern \<Rightarrow> relationship" where
  "compareMethods p1 p2 =
     (if pat_method p1 = pat_method p2 then Equivalent
      else if pat_method p1 = '''' then MoreGeneral
      else if pat_method p2 = '''' then MoreSpecific
      else if pat_method p1 = ''GET'' \<and> pat_method p2 = ''HEAD'' then MoreGeneral
      else if pat_method p2 = ''GET'' \<and> pat_method p1 = ''HEAD'' then MoreSpecific
      else Disjoint)"

definition compareSegments :: "path_segment \<Rightarrow> path_segment \<Rightarrow> relationship" where
  "compareSegments s1 s2 =
     (if ps_multi s1 \<and> ps_multi s2 then Equivalent
      else if ps_multi s1 then MoreGeneral
      else if ps_multi s2 then MoreSpecific
      else if ps_wild s1 \<and> ps_wild s2 then Equivalent
      else if ps_wild s1 then (if ps_s s2 = ''/'' then Disjoint else MoreGeneral)
      else if ps_wild s2 then (if ps_s s1 = ''/'' then Disjoint else MoreSpecific)
      else if ps_s s1 = ps_s s2 then Equivalent
      else Disjoint)"

text \<open>The loop over corresponding segments; \<open>None\<close> is its early return of \<open>disjoint\<close>.\<close>

fun compare_loop :: "relationship \<Rightarrow> path_segment list \<Rightarrow> path_segment list \<Rightarrow> (relationship \<times> path_segment list \<times> path_segment list) option" where
  "compare_loop rel (s1 # segs1) (s2 # segs2) =
     (let rel = combineRelationships rel (compareSegments s1 s2) in
      if rel = Disjoint then None else compare_loop rel segs1 segs2)"
| "compare_loop rel segs1 segs2 = Some (rel, segs1, segs2)"

definition comparePaths :: "pattern \<Rightarrow> pattern \<Rightarrow> relationship" where
  "comparePaths p1 p2 =
     (if length (pat_segments p1) \<noteq> length (pat_segments p2) \<and> \<not> ps_multi (lastSegment p1) \<and> \<not> ps_multi (lastSegment p2)
      then Disjoint
      else
        case compare_loop Equivalent (pat_segments p1) (pat_segments p2) of
          None \<Rightarrow> Disjoint
        | Some (rel, segs1, segs2) \<Rightarrow>
            if segs1 = [] \<and> segs2 = [] then rel
            else if length segs1 < length segs2 \<and> ps_multi (lastSegment p1) then combineRelationships rel MoreGeneral
            else if length segs2 < length segs1 \<and> ps_multi (lastSegment p2) then combineRelationships rel MoreSpecific
            else Disjoint)"

definition comparePathsAndMethods :: "pattern \<Rightarrow> pattern \<Rightarrow> relationship" where
  "comparePathsAndMethods p1 p2 =
     (let mrel = compareMethods p1 p2 in
      if mrel = Disjoint then Disjoint else combineRelationships mrel (comparePaths p1 p2))"

definition conflictsWith :: "pattern \<Rightarrow> pattern \<Rightarrow> bool" where
  "conflictsWith p1 p2 =
     (if pat_host p1 \<noteq> pat_host p2 then False
      else
        let rel = comparePathsAndMethods p1 p2 in
        rel = Equivalent \<or> rel = Overlaps)"

end
