(* ===== verification/Http_Precedence.thy ===== *)
theory Http_Precedence
  imports Http_Pattern
begin

text \<open>
  What patterns mean and that \<open>net/http\<close> compares them rightly. A request path is the list of its segments, a trailing slash counting as the last one;
  a pattern denotes the set of methods and paths it matches, and the syntactic comparison of two patterns computes how their sets
  are related.
\<close>

subsection \<open>The requests of a pattern\<close>

definition legal_parts :: "string list \<Rightarrow> bool" where
  "legal_parts ps \<longleftrightarrow> ps \<noteq> [] \<and> '''' \<notin> set ps \<and> ''/'' \<notin> set (butlast ps)"

definition part_set :: "path_segment \<Rightarrow> string set" where
  "part_set sg = (if ps_wild sg then {p. p \<noteq> '''' \<and> p \<noteq> ''/''} else {ps_s sg})"

fun segs_match :: "path_segment list \<Rightarrow> string list \<Rightarrow> bool" where
  "segs_match [] ps \<longleftrightarrow> ps = []"
| "segs_match (sg # segs) ps \<longleftrightarrow>
     (if ps_multi sg then legal_parts ps
      else case ps of [] \<Rightarrow> False | p # ps \<Rightarrow> p \<in> part_set sg \<and> segs_match segs ps)"

definition path_set :: "path_segment list \<Rightarrow> string list set" where
  "path_set segs = {ps. segs_match segs ps}"

definition method_set :: "string \<Rightarrow> string set" where
  "method_set m = (if m = '''' then UNIV else if m = ''GET'' then {''GET'', ''HEAD''} else {m})"

definition request_set :: "pattern \<Rightarrow> (string \<times> string list) set" where
  "request_set p = method_set (pat_method p) \<times> path_set (pat_segments p)"

text \<open>Well-formed segments: a multi wildcard and the slash of a trailing \<open>{$}\<close> come last, and no literal is empty.\<close>

fun wf_segs :: "path_segment list \<Rightarrow> bool" where
  "wf_segs [] \<longleftrightarrow> False"
| "wf_segs (sg # segs) \<longleftrightarrow>
     (ps_wild sg \<or> ps_s sg \<noteq> '''') \<and> (ps_multi sg \<longrightarrow> ps_wild sg)
     \<and> (segs = [] \<or> \<not> ps_multi sg \<and> (ps_wild sg \<or> ps_s sg \<noteq> ''/'') \<and> wf_segs segs)"

definition wf_pattern :: "pattern \<Rightarrow> bool" where
  "wf_pattern p \<longleftrightarrow> wf_segs (pat_segments p)"

subsection \<open>How two sets are related\<close>

definition relate :: "'a set \<Rightarrow> 'a set \<Rightarrow> relationship" where
  "relate A B =
     (if A \<subseteq> B \<and> B \<subseteq> A then Equivalent else if B \<subseteq> A then MoreGeneral else if A \<subseteq> B then MoreSpecific
      else if A \<inter> B = {} then Disjoint else Overlaps)"

lemma relate_product:
  assumes "A1 \<noteq> {}" "A2 \<noteq> {}" "B1 \<noteq> {}" "B2 \<noteq> {}"
  shows "relate (A1 \<times> A2) (B1 \<times> B2) = combineRelationships (relate A1 B1) (relate A2 B2)"
proof -
  have s: "A1 \<times> A2 \<subseteq> B1 \<times> B2 \<longleftrightarrow> A1 \<subseteq> B1 \<and> A2 \<subseteq> B2" "B1 \<times> B2 \<subseteq> A1 \<times> A2 \<longleftrightarrow> B1 \<subseteq> A1 \<and> B2 \<subseteq> A2"
    using assms by (auto simp: times_subset_iff)
  have d: "(A1 \<times> A2) \<inter> (B1 \<times> B2) = {} \<longleftrightarrow> A1 \<inter> B1 = {} \<or> A2 \<inter> B2 = {}" by auto
  have n: "A1 \<subseteq> B1 \<Longrightarrow> A1 \<inter> B1 \<noteq> {}" "B1 \<subseteq> A1 \<Longrightarrow> A1 \<inter> B1 \<noteq> {}" "A2 \<subseteq> B2 \<Longrightarrow> A2 \<inter> B2 \<noteq> {}" "B2 \<subseteq> A2 \<Longrightarrow> A2 \<inter> B2 \<noteq> {}"
    using assms by auto
  show ?thesis
    unfolding relate_def s d combineRelationships_def inverseRelationship_def using n by (auto split: if_splits)
qed

lemma relate_image: "inj f \<Longrightarrow> relate (f ` A) (f ` B) = relate A B"
  by (simp add: relate_def inj_image_subset_iff image_Int [symmetric])

lemma relate_refl [simp]: "relate A A = Equivalent"
  by (simp add: relate_def)

lemma combine_simps [simp]:
  "combineRelationships Equivalent r = r" "combineRelationships r Equivalent = r"
  "combineRelationships Disjoint r = Disjoint" "combineRelationships r Disjoint = Disjoint"
  by (cases r; simp add: combineRelationships_def inverseRelationship_def)+

lemma combine_assoc:
  "combineRelationships (combineRelationships a b) c = combineRelationships a (combineRelationships b c)"
  by (cases a; cases b; cases c; simp add: combineRelationships_def inverseRelationship_def)

lemma combine_same [simp]: "combineRelationships r r = r"
  by (cases r; simp add: combineRelationships_def inverseRelationship_def)

subsection \<open>Segments and paths\<close>

lemma path_set_Nil: "path_set [] = {[]}"
  by (auto simp: path_set_def)

lemma path_set_Cons: "\<not> ps_multi sg \<Longrightarrow> path_set (sg # segs) = (\<lambda>(p, ps). p # ps) ` (part_set sg \<times> path_set segs)"
proof (rule set_eqI)
  fix xs
  assume "\<not> ps_multi sg"
  then show "xs \<in> path_set (sg # segs) \<longleftrightarrow> xs \<in> (\<lambda>(p, ps). p # ps) ` (part_set sg \<times> path_set segs)"
    by (cases xs) (auto simp: path_set_def)
qed

lemma path_set_multi: "ps_multi sg \<Longrightarrow> path_set (sg # segs) = {ps. legal_parts ps}"
  by (simp add: path_set_def)

lemma part_set_nonempty: "part_set sg \<noteq> {}"
proof -
  have "''x'' \<in> {p :: string. p \<noteq> '''' \<and> p \<noteq> ''/''}" by simp
  then show ?thesis unfolding part_set_def by auto
qed

lemma legal_single: "p \<noteq> '''' \<Longrightarrow> legal_parts [p]"
  by (simp add: legal_parts_def)

lemma path_set_nonempty: "wf_segs segs \<or> segs = [] \<Longrightarrow> path_set segs \<noteq> {}"
proof (induction segs)
  case (Cons sg segs)
  show ?case
  proof (cases "ps_multi sg")
    case True
    then show ?thesis using legal_single [of "''x''"] by (auto simp: path_set_multi)
  next
    case False
    then show ?thesis using Cons part_set_nonempty [of sg] by (auto simp: path_set_Cons)
  qed
qed (simp add: path_set_Nil)

lemma path_set_legal: "wf_segs segs \<Longrightarrow> ps \<in> path_set segs \<Longrightarrow> legal_parts ps"
proof (induction segs arbitrary: ps)
  case (Cons sg segs)
  show ?case
  proof (cases "ps_multi sg")
    case True
    then show ?thesis using Cons.prems by (simp add: path_set_multi)
  next
    case False
    then obtain p qs where ps: "ps = p # qs" "p \<in> part_set sg" "qs \<in> path_set segs" using Cons.prems by (auto simp: path_set_Cons)
    have p: "p \<noteq> ''''" using ps(2) Cons.prems(1) by (auto simp: part_set_def split: if_splits)
    show ?thesis
    proof (cases "segs = []")
      case True
      then show ?thesis using ps p by (simp add: path_set_Nil legal_parts_def)
    next
      case ne: False
      then have "legal_parts qs" "p \<noteq> ''/''" using Cons ps by (auto simp: part_set_def split: if_splits)
      then show ?thesis using ps(1) p by (simp add: legal_parts_def)
    qed
  qed
qed simp

lemma path_set_length: "wf_segs segs \<Longrightarrow> \<not> ps_multi (last segs) \<Longrightarrow> ps \<in> path_set segs \<Longrightarrow> length ps = length segs"
proof (induction segs arbitrary: ps)
  case (Cons sg segs)
  then have "\<not> ps_multi sg" by (cases segs) auto
  then obtain p qs where "ps = p # qs" "qs \<in> path_set segs" using Cons.prems(3) by (auto simp: path_set_Cons)
  then show ?case using Cons by (cases "segs = []") (auto simp: path_set_Nil)
qed simp

lemma relate_multi:
  assumes wf: "wf_segs (sg # segs)" and "\<not> ps_multi sg"
  shows "relate {ps. legal_parts ps} (path_set (sg # segs)) = MoreGeneral" "relate (path_set (sg # segs)) {ps. legal_parts ps} = MoreSpecific"
proof -
  have "\<exists>p. p \<noteq> '''' \<and> p \<notin> part_set sg"
  proof (cases "ps_wild sg")
    case True
    then show ?thesis by (intro exI [of _ "''/''"]) (simp add: part_set_def)
  next
    case False
    then show ?thesis by (intro exI [of _ "CHR ''x'' # ps_s sg"]) (simp add: part_set_def)
  qed
  then obtain p where p: "p \<noteq> ''''" "p \<notin> part_set sg" by blast
  have "[p] \<notin> path_set (sg # segs)" using p(2) assms(2) by (auto simp: path_set_Cons)
  then have "\<not> {ps. legal_parts ps} \<subseteq> path_set (sg # segs)" using legal_single [OF p(1)] by auto
  moreover have "path_set (sg # segs) \<subseteq> {ps. legal_parts ps}" using path_set_legal [OF wf] by auto
  ultimately show "relate {ps. legal_parts ps} (path_set (sg # segs)) = MoreGeneral" "relate (path_set (sg # segs)) {ps. legal_parts ps} = MoreSpecific"
    by (simp_all add: relate_def)
qed

lemma compareSegments_relate:
  assumes "\<not> ps_multi s1" "\<not> ps_multi s2" "ps_wild s1 \<or> ps_s s1 \<noteq> ''''" "ps_wild s2 \<or> ps_s s2 \<noteq> ''''"
  shows "compareSegments s1 s2 = relate (part_set s1) (part_set s2)"
proof -
  have w: "\<not> {p :: string. p \<noteq> '''' \<and> p \<noteq> ''/''} \<subseteq> {x}" for x
  proof
    assume "{p :: string. p \<noteq> '''' \<and> p \<noteq> ''/''} \<subseteq> {x}"
    moreover have "''a'' \<in> {p :: string. p \<noteq> '''' \<and> p \<noteq> ''/''}" "''b'' \<in> {p :: string. p \<noteq> '''' \<and> p \<noteq> ''/''}" by simp_all
    ultimately have "''a'' = x" "''b'' = x" by blast+
    then have "''a'' = ''b''" by simp
    then show False by simp
  qed
  show ?thesis using assms w by (auto simp: compareSegments_def relate_def part_set_def)
qed

lemma inj_Cons_pair: "inj (\<lambda>(p, ps). p # ps)"
  by (auto simp: inj_def)

definition finish :: "bool \<Rightarrow> bool \<Rightarrow> (relationship \<times> path_segment list \<times> path_segment list) option \<Rightarrow> relationship" where
  "finish m1 m2 x =
     (case x of
        None \<Rightarrow> Disjoint
      | Some (rel, segs1, segs2) \<Rightarrow>
          if segs1 = [] \<and> segs2 = [] then rel
          else if length segs1 < length segs2 \<and> m1 then combineRelationships rel MoreGeneral
          else if length segs2 < length segs1 \<and> m2 then combineRelationships rel MoreSpecific
          else Disjoint)"

lemma compare_loop_relate:
  assumes "wf_segs segs1" "wf_segs segs2"
  shows "finish (ps_multi (last segs1)) (ps_multi (last segs2)) (compare_loop rel segs1 segs2)
    = combineRelationships rel (relate (path_set segs1) (path_set segs2))"
  using assms
proof (induction rel segs1 segs2 rule: compare_loop.induct)
  case (1 rel s1 segs1 s2 segs2)
  let ?r = "compareSegments s1 s2"
  consider (both) "ps_multi s1" "ps_multi s2" | (left) "ps_multi s1" "\<not> ps_multi s2" | (right) "\<not> ps_multi s1" "ps_multi s2"
    | (none) "\<not> ps_multi s1" "\<not> ps_multi s2" by blast
  then show ?case
  proof cases
    case both
    then have "segs1 = []" "segs2 = []" using "1.prems" by auto
    then show ?thesis using both by (simp add: path_set_multi compareSegments_def finish_def)
  next
    case left
    then have s: "segs1 = []" using "1.prems" by auto
    have "compare_loop r [] segs2 = Some (r, [], segs2)" for r by (cases segs2) auto
    moreover have "combineRelationships rel MoreGeneral = Disjoint \<longleftrightarrow> rel = Disjoint"
      by (cases rel; simp add: combineRelationships_def inverseRelationship_def)
    ultimately show ?thesis
      using left s relate_multi(1) [OF "1.prems"(2) left(2)] by (simp add: path_set_multi compareSegments_def finish_def combine_assoc)
  next
    case right
    then have s: "segs2 = []" using "1.prems" by auto
    have "compare_loop r segs1 [] = Some (r, segs1, [])" for r by (cases segs1) auto
    moreover have "combineRelationships rel MoreSpecific = Disjoint \<longleftrightarrow> rel = Disjoint"
      by (cases rel; simp add: combineRelationships_def inverseRelationship_def)
    ultimately show ?thesis
      using right s relate_multi(2) [OF "1.prems"(1) right(1)] by (simp add: path_set_multi compareSegments_def finish_def combine_assoc)
  next
    case none
    have r: "?r = relate (part_set s1) (part_set s2)" using none "1.prems" by (intro compareSegments_relate) auto
    have ne: "path_set segs1 \<noteq> {}" "path_set segs2 \<noteq> {}" using "1.prems" by (auto intro!: path_set_nonempty)
    have p: "relate (path_set (s1 # segs1)) (path_set (s2 # segs2)) = combineRelationships ?r (relate (path_set segs1) (path_set segs2))"
      using none ne part_set_nonempty
      by (simp add: path_set_Cons relate_image [OF inj_Cons_pair] relate_product r)
    define rel' where "rel' = combineRelationships rel ?r"
    have goal: "combineRelationships rel (relate (path_set (s1 # segs1)) (path_set (s2 # segs2)))
        = combineRelationships rel' (relate (path_set segs1) (path_set segs2))"
      by (simp add: p rel'_def combine_assoc)
    have nil: "relate {[]} (path_set (s # segs)) = Disjoint" "relate (path_set (s # segs)) {[]} = Disjoint" if "wf_segs (s # segs)" for s segs
      using path_set_legal [OF that] path_set_nonempty [of "s # segs"] that by (auto simp: relate_def legal_parts_def)
    show ?thesis
    proof (cases "rel' = Disjoint")
      case True
      then show ?thesis by (simp add: goal rel'_def [symmetric] Let_def) (simp add: finish_def)
    next
      case False
      have step: "compare_loop rel (s1 # segs1) (s2 # segs2) = compare_loop rel' segs1 segs2"
        using False by (simp add: rel'_def [symmetric] Let_def)
      show ?thesis
      proof (cases "segs1 = [] \<or> segs2 = []")
        case True
        then show ?thesis
          unfolding goal step using none nil "1.prems"
          by (cases segs1; cases segs2) (auto simp: finish_def path_set_Nil)
      next
        case ne: False
        then have "wf_segs segs1" "wf_segs segs2" using "1.prems" by auto
        then show ?thesis
          unfolding goal step using "1.IH" [OF rel'_def] False ne by simp
      qed
    qed
  qed
qed simp_all

lemma comparePaths_relate:
  assumes "wf_pattern p1" "wf_pattern p2"
  shows "comparePaths p1 p2 = relate (path_set (pat_segments p1)) (path_set (pat_segments p2))"
proof (cases "length (pat_segments p1) \<noteq> length (pat_segments p2) \<and> \<not> ps_multi (lastSegment p1) \<and> \<not> ps_multi (lastSegment p2)")
  case True
  have "ps \<notin> path_set (pat_segments p2)" if "ps \<in> path_set (pat_segments p1)" for ps
    using path_set_length [of "pat_segments p1" ps] path_set_length [of "pat_segments p2" ps] that assms True
    by (auto simp: wf_pattern_def lastSegment_def)
  then have "path_set (pat_segments p1) \<inter> path_set (pat_segments p2) = {}" by blast
  moreover have "path_set (pat_segments p1) \<noteq> {}" "path_set (pat_segments p2) \<noteq> {}"
    using assms by (simp_all add: wf_pattern_def path_set_nonempty)
  ultimately have "relate (path_set (pat_segments p1)) (path_set (pat_segments p2)) = Disjoint" by (auto simp: relate_def)
  then show ?thesis using True by (simp add: comparePaths_def)
next
  case False
  have "comparePaths p1 p2 = finish (ps_multi (lastSegment p1)) (ps_multi (lastSegment p2)) (compare_loop Equivalent (pat_segments p1) (pat_segments p2))"
    unfolding comparePaths_def if_not_P [OF False] finish_def ..
  then show ?thesis using compare_loop_relate [of "pat_segments p1" "pat_segments p2" Equivalent] assms
    by (simp add: wf_pattern_def lastSegment_def)
qed

lemma compareMethods_relate: "compareMethods p1 p2 = relate (method_set (pat_method p1)) (method_set (pat_method p2))"
proof -
  have "\<not> UNIV \<subseteq> {x, y :: string}" for x y
  proof -
    have "infinite (UNIV :: string set)" by (rule infinite_UNIV_listI)
    then show ?thesis using finite_subset by auto
  qed
  then have "\<not> UNIV \<subseteq> method_set m" if "m \<noteq> ''''" for m
    using that by (simp add: method_set_def) (metis insert_absorb2)
  then show ?thesis
    by (auto simp: compareMethods_def relate_def) (auto simp: method_set_def split: if_splits)
qed

lemma method_set_nonempty: "method_set m \<noteq> {}"
  by (simp add: method_set_def)

lemma comparePathsAndMethods_relate:
  assumes "wf_pattern p1" "wf_pattern p2"
  shows "comparePathsAndMethods p1 p2 = relate (request_set p1) (request_set p2)"
proof -
  have "path_set (pat_segments p1) \<noteq> {}" "path_set (pat_segments p2) \<noteq> {}"
    using assms by (simp_all add: wf_pattern_def path_set_nonempty)
  then have "relate (request_set p1) (request_set p2) = combineRelationships (compareMethods p1 p2) (comparePaths p1 p2)"
    using method_set_nonempty by (simp add: request_set_def relate_product compareMethods_relate comparePaths_relate [OF assms])
  then show ?thesis by (simp add: comparePathsAndMethods_def Let_def)
qed

lemma conflictsWith_iff:
  assumes "wf_pattern p1" "wf_pattern p2"
  shows "conflictsWith p1 p2 \<longleftrightarrow>
    pat_host p1 = pat_host p2 \<and> request_set p1 \<inter> request_set p2 \<noteq> {}
    \<and> \<not> request_set p1 \<subset> request_set p2 \<and> \<not> request_set p2 \<subset> request_set p1"
proof -
  have "request_set p1 \<noteq> {}" using assms(1) method_set_nonempty by (simp add: request_set_def wf_pattern_def path_set_nonempty)
  then show ?thesis
    unfolding conflictsWith_def Let_def comparePathsAndMethods_relate [OF assms] relate_def by auto
qed

text \<open>
  Claim C31. Two patterns of the same host conflict exactly when some method and path belongs to both while neither of the two sets of
  requests is a proper part of the other, which is what the documentation of \<open>ServeMux\<close> says of the syntactic comparison.
\<close>

theorem conflictsWith_exact:
  assumes "wf_pattern p1" "wf_pattern p2"
  shows "conflictsWith p1 p2 \<longleftrightarrow>
    pat_host p1 = pat_host p2 \<and> request_set p1 \<inter> request_set p2 \<noteq> {}
    \<and> \<not> request_set p1 \<subset> request_set p2 \<and> \<not> request_set p2 \<subset> request_set p1"
  by (rule conflictsWith_iff [OF assms])

text \<open>The example of the documentation: \<open>GET /\<close> and \<open>/index.html\<close>.\<close>

definition slash_pattern :: pattern where
  "slash_pattern = \<lparr>pat_str = ''GET /'', pat_method = ''GET'', pat_host = '''', pat_segments = [\<lparr>ps_s = '''', ps_wild = True, ps_multi = True\<rparr>]\<rparr>"

definition index_pattern :: pattern where
  "index_pattern = \<lparr>pat_str = ''/index.html'', pat_method = '''', pat_host = '''', pat_segments = [\<lparr>ps_s = ''index.html'', ps_wild = False, ps_multi = False\<rparr>]\<rparr>"

lemma doc_patterns: "parsePattern tb ''GET /'' = Inr slash_pattern" "parsePattern tb ''/index.html'' = Inr index_pattern"
  by code_simp+

theorem conflictsWith_exact_witness:
  "\<not> request_set slash_pattern \<subset> request_set index_pattern \<and> \<not> request_set index_pattern \<subset> request_set slash_pattern
   \<and> request_set slash_pattern \<inter> request_set index_pattern \<noteq> {}"
proof -
  have w: "wf_pattern slash_pattern" "wf_pattern index_pattern" by code_simp+
  have "conflictsWith slash_pattern index_pattern" by code_simp
  then show ?thesis using conflictsWith_exact [OF w] by blast
qed

end
