(* ===== verification/Http_Routing.thy ===== *)
theory Http_Routing
  imports Http_Precedence "HOL-Library.AList"
begin

text \<open>
  The decision tree of \<open>ServeMux\<close> (\<open>net/http\<close>: \<open>routing_tree.go\<close>, \<open>mapping.go\<close>): adding patterns and matching a path. The tree is characterised by the leaf it
  holds under each list of keys, and the backtracking search by the list of keys a path can follow, in the order the code tries them.
  A child found while adding is updated in place; a panic of \<open>addSegments\<close> or \<open>matchPath\<close> is a value of the model.
\<close>

datatype 'h routingNode = Node (nd_leaf: "(pattern \<times> 'h) option") (nd_children: "(string \<times> 'h routingNode) list") (nd_empty: "'h routingNode option")

definition emptyNode :: "'h routingNode" where
  "emptyNode = Node None [] None"

definition findChild :: "string \<Rightarrow> 'h routingNode \<Rightarrow> 'h routingNode option" where
  "findChild key n = (if key = '''' then nd_empty n else map_of (nd_children n) key)"

text \<open>\<open>addChild\<close>, followed by the change \<open>f\<close> its caller makes to the child it returns.\<close>

definition addChild :: "string \<Rightarrow> ('h routingNode \<Rightarrow> 'h routingNode option) \<Rightarrow> 'h routingNode \<Rightarrow> 'h routingNode option" where
  "addChild key f n =
     (case f (case findChild key n of None \<Rightarrow> emptyNode | Some c \<Rightarrow> c) of
        None \<Rightarrow> None
      | Some c \<Rightarrow>
          Some (if key = '''' then Node (nd_leaf n) (nd_children n) (Some c)
                else Node (nd_leaf n) (AList.update key c (nd_children n)) (nd_empty n)))"

definition set_leaf :: "pattern \<Rightarrow> 'h \<Rightarrow> 'h routingNode \<Rightarrow> 'h routingNode option" where
  "set_leaf p h n = (if nd_leaf n \<noteq> None then None else Some (Node (Some (p, h)) (nd_children n) (nd_empty n)))"

fun addSegments :: "path_segment list \<Rightarrow> pattern \<Rightarrow> 'h \<Rightarrow> 'h routingNode \<Rightarrow> 'h routingNode option" where
  "addSegments [] p h n = set_leaf p h n"
| "addSegments (seg # segs) p h n =
     (if ps_multi seg then (if segs \<noteq> [] then None else addChild ''*'' (set_leaf p h) n)
      else if ps_wild seg then addChild '''' (addSegments segs p h) n
      else addChild (ps_s seg) (addSegments segs p h) n)"

definition addPattern :: "pattern \<Rightarrow> 'h \<Rightarrow> 'h routingNode \<Rightarrow> 'h routingNode option" where
  "addPattern p h rt = addChild (pat_host p) (addChild (pat_method p) (addSegments (pat_segments p) p h)) rt"

subsection \<open>Matching\<close>

datatype 'h match_result = No_Match | Matched pattern 'h "string list" | Match_Panic

definition firstSegment :: "string \<Rightarrow> string \<times> string" where
  "firstSegment path =
     (if path = ''/'' then (''/'', '''')
      else
        let path = tl path; i = length (takeWhile (\<lambda>c. c \<noteq> CHR ''/'') path) in
        (pathUnescape (take i path), drop i path))"

lemma firstSegment_length: "path \<noteq> '''' \<Longrightarrow> firstSegment path = (seg, rest) \<Longrightarrow> length rest < length path"
  by (cases path) (auto simp: firstSegment_def Let_def split: if_splits)

text \<open>\<open>or_else r s\<close> is the test \<open>n != nil\<close> of the code before its next attempt.\<close>

definition or_else :: "'h match_result \<Rightarrow> 'h match_result \<Rightarrow> 'h match_result" where
  "or_else r s = (case r of No_Match \<Rightarrow> s | _ \<Rightarrow> r)"

definition match_multi :: "'h routingNode \<Rightarrow> string \<Rightarrow> string list \<Rightarrow> 'h match_result" where
  "match_multi n path ms =
     (case findChild ''*'' n of
        None \<Rightarrow> No_Match
      | Some c \<Rightarrow>
          (case nd_leaf c of
             None \<Rightarrow> Match_Panic
           | Some (p, h) \<Rightarrow> Matched p h (if ps_s (lastSegment p) \<noteq> '''' then ms @ [pathUnescape (tl path)] else ms)))"

function (sequential) matchPath :: "'h routingNode option \<Rightarrow> string \<Rightarrow> string list \<Rightarrow> 'h match_result" where
  "matchPath None path ms = No_Match"
| "matchPath (Some n) path ms =
     (if path = '''' then (case nd_leaf n of None \<Rightarrow> No_Match | Some (p, h) \<Rightarrow> Matched p h ms)
      else
        or_else (matchPath (findChild (fst (firstSegment path)) n) (snd (firstSegment path)) ms)
          (or_else (if fst (firstSegment path) \<noteq> ''/'' then matchPath (nd_empty n) (snd (firstSegment path)) (ms @ [fst (firstSegment path)]) else No_Match)
            (match_multi n path ms)))"
  by pat_completeness auto
termination
  by (relation "measure (\<lambda>(n, path, ms). length path)") (auto intro: firstSegment_length simp: prod_eq_iff)

definition matchMethodAndPath :: "'h routingNode option \<Rightarrow> string \<Rightarrow> string \<Rightarrow> 'h match_result" where
  "matchMethodAndPath n method path =
     (case n of
        None \<Rightarrow> No_Match
      | Some n \<Rightarrow>
          or_else (matchPath (findChild method n) path [])
            (or_else (if method = ''HEAD'' then matchPath (findChild ''GET'' n) path [] else No_Match)
              (matchPath (nd_empty n) path [])))"

definition match :: "'h routingNode \<Rightarrow> string \<Rightarrow> string \<Rightarrow> string \<Rightarrow> 'h match_result" where
  "match rt host method path =
     or_else (if host \<noteq> '''' then matchMethodAndPath (findChild host rt) method path else No_Match)
       (matchMethodAndPath (nd_empty rt) method path)"

text \<open>\<open>matchingMethodsPath\<close>: the methods it adds to the set; \<open>None\<close> is a panic of \<open>matchPath\<close>.\<close>

fun matching_keys :: "(string \<times> 'h routingNode) list \<Rightarrow> string \<Rightarrow> string set option" where
  "matching_keys [] path = Some {}"
| "matching_keys ((method, c) # cs) path =
     (case matchPath (Some c) path [] of
        Match_Panic \<Rightarrow> None
      | r \<Rightarrow> map_option (\<lambda>S. if r = No_Match then S else insert method S) (matching_keys cs path))"

definition matchingMethodsPath :: "'h routingNode option \<Rightarrow> string \<Rightarrow> string set option" where
  "matchingMethodsPath n path = (case n of None \<Rightarrow> Some {} | Some n \<Rightarrow> matching_keys (nd_children n) path)"

definition tree_matchingMethods :: "'h routingNode \<Rightarrow> string \<Rightarrow> string \<Rightarrow> string set \<Rightarrow> string set option" where
  "tree_matchingMethods rt host path methodSet =
     (case (if host \<noteq> '''' then matchingMethodsPath (findChild host rt) path else Some {}) of
        None \<Rightarrow> None
      | Some A \<Rightarrow>
          (case matchingMethodsPath (nd_empty rt) path of
             None \<Rightarrow> None
           | Some B \<Rightarrow> Some (let S = methodSet \<union> A \<union> B in if ''GET'' \<in> S then insert ''HEAD'' S else S)))"

end
