(* ===== verification/Http_Tree.thy ===== *)
theory Http_Tree
  imports Http_Routing "HOL-Library.Sublist"
begin

text \<open>
  The tree as a map from key lists to leaves, as in a nested environment: what adding a pattern does to it, and the search of a path as the first hit
  among the key lists the path can follow.
\<close>

subsection \<open>Nodes and leaves\<close>

definition child :: "string \<Rightarrow> 'h routingNode \<Rightarrow> 'h routingNode" where
  "child key n = (case findChild key n of None \<Rightarrow> emptyNode | Some c \<Rightarrow> c)"

fun node_at :: "'h routingNode option \<Rightarrow> string list \<Rightarrow> 'h routingNode option" where
  "node_at n [] = n"
| "node_at n (k # ks) = (case n of None \<Rightarrow> None | Some n \<Rightarrow> node_at (findChild k n) ks)"

definition leaf_at :: "'h routingNode option \<Rightarrow> string list \<Rightarrow> (pattern \<times> 'h) option" where
  "leaf_at n ks = (case node_at n ks of None \<Rightarrow> None | Some c \<Rightarrow> nd_leaf c)"

lemma node_at_None [simp]: "node_at None ks = (None :: 'h routingNode option)"
  by (cases ks) auto

lemma node_at_append: "node_at n (ks @ ks') = node_at (node_at n ks) ks'"
  by (induction n ks rule: node_at.induct) (auto split: option.splits)

lemma findChild_empty [simp]: "findChild k emptyNode = None" "nd_leaf emptyNode = None"
  by (auto simp: findChild_def emptyNode_def)

lemma leaf_at_simps [simp]:
  "leaf_at None ks = None" "leaf_at (Some n) [] = nd_leaf n" "leaf_at (Some n) (k # ks) = leaf_at (findChild k n) ks"
  by (simp_all add: leaf_at_def)

lemma leaf_at_child: "leaf_at (Some (child k n)) ks = leaf_at (findChild k n) ks"
  by (cases "findChild k n"; cases ks) (simp_all add: child_def)

lemma node_at_child: "node_at (Some (child k n)) ks \<noteq> None \<longleftrightarrow> node_at (findChild k n) ks \<noteq> None \<or> ks = []"
  by (cases "findChild k n"; cases ks) (simp_all add: child_def)

lemma addChild_Some:
  assumes "addChild k f n = Some n'"
  obtains c where "f (child k n) = Some c" "\<And>k'. findChild k' n' = (if k' = k then Some c else findChild k' n)" "nd_leaf n' = nd_leaf n"
proof -
  obtain c where c: "f (child k n) = Some c" using assms by (auto simp: addChild_def child_def split: option.splits)
  with assms have n': "n' = (if k = '''' then Node (nd_leaf n) (nd_children n) (Some c)
      else Node (nd_leaf n) (AList.update k c (nd_children n)) (nd_empty n))"
    by (auto simp: addChild_def child_def [symmetric])
  have "findChild k' n' = (if k' = k then Some c else findChild k' n)" "nd_leaf n' = nd_leaf n" for k'
    unfolding n' by (auto simp: findChild_def update_conv')
  then show ?thesis using c that by blast
qed

lemma addChild_None: "addChild k f n = None \<longleftrightarrow> f (child k n) = None"
  by (auto simp: addChild_def child_def [symmetric] split: option.splits)

subsection \<open>Adding a pattern\<close>

definition seg_key :: "path_segment \<Rightarrow> string" where
  "seg_key sg = (if ps_multi sg then ''*'' else if ps_wild sg then '''' else ps_s sg)"

text \<open>\<open>extends n ks x n'\<close>: \<open>n'\<close> is \<open>n\<close> with the leaf \<open>x\<close> at the free place \<open>ks\<close>, and the nodes on the way to it.\<close>

definition extends :: "'h routingNode \<Rightarrow> string list \<Rightarrow> pattern \<times> 'h \<Rightarrow> 'h routingNode \<Rightarrow> bool" where
  "extends n ks x n' \<longleftrightarrow>
     (\<forall>ks'. leaf_at (Some n') ks' = (if ks' = ks then Some x else leaf_at (Some n) ks'))
     \<and> (\<forall>ks'. node_at (Some n') ks' \<noteq> None \<longleftrightarrow> node_at (Some n) ks' \<noteq> None \<or> prefix ks' ks)"

definition adds_at :: "('h routingNode \<Rightarrow> 'h routingNode option) \<Rightarrow> string list \<Rightarrow> pattern \<times> 'h \<Rightarrow> bool" where
  "adds_at f ks x \<longleftrightarrow> (\<forall>n. case f n of None \<Rightarrow> leaf_at (Some n) ks \<noteq> None | Some n' \<Rightarrow> leaf_at (Some n) ks = None \<and> extends n ks x n')"

lemma adds_set: "adds_at (set_leaf p h) [] (p, h)"
proof -
  have "extends n [] (p, h) (Node (Some (p, h)) (nd_children n) (nd_empty n))" for n :: "'a routingNode"
  proof -
    have "leaf_at (Some (Node (Some (p, h)) (nd_children n) (nd_empty n))) ks = (if ks = [] then Some (p, h) else leaf_at (Some n) ks)" for ks
      by (cases ks) (simp_all add: findChild_def)
    moreover have "node_at (Some (Node (Some (p, h)) (nd_children n) (nd_empty n))) ks \<noteq> None \<longleftrightarrow> node_at (Some n) ks \<noteq> None" for ks
      by (cases ks) (simp_all add: findChild_def)
    ultimately show ?thesis by (auto simp: extends_def)
  qed
  then have "case set_leaf p h n of None \<Rightarrow> leaf_at (Some n) [] \<noteq> None | Some n' \<Rightarrow> leaf_at (Some n) [] = None \<and> extends n [] (p, h) n'" for n
    by (cases "nd_leaf n") (simp_all add: set_leaf_def)
  then show ?thesis by (simp add: adds_at_def)
qed

lemma adds_child:
  assumes f: "adds_at f ks x"
  shows "adds_at (addChild k f) (k # ks) x"
  unfolding adds_at_def
proof
  fix n
  show "case addChild k f n of None \<Rightarrow> leaf_at (Some n) (k # ks) \<noteq> None
    | Some n' \<Rightarrow> leaf_at (Some n) (k # ks) = None \<and> extends n (k # ks) x n'"
  proof (cases "addChild k f n")
    case None
    then have "leaf_at (Some (child k n)) ks \<noteq> None" using f by (auto simp: addChild_None adds_at_def dest: spec [of _ "child k n"])
    then show ?thesis using None by (simp add: leaf_at_child)
  next
    case (Some n')
    then obtain c where c: "f (child k n) = Some c" and fc: "\<And>k'. findChild k' n' = (if k' = k then Some c else findChild k' n)"
      and l: "nd_leaf n' = nd_leaf n" by (rule addChild_Some) blast
    have free: "leaf_at (Some (child k n)) ks = None" and ext: "extends (child k n) ks x c"
      using f c by (auto simp: adds_at_def dest: spec [of _ "child k n"])
    have "leaf_at (Some n') ks' = (if ks' = k # ks then Some x else leaf_at (Some n) ks')" for ks'
      using ext by (cases ks') (auto simp: l fc extends_def leaf_at_child)
    moreover have "node_at (Some n') ks' \<noteq> None \<longleftrightarrow> node_at (Some n) ks' \<noteq> None \<or> prefix ks' (k # ks)" for ks'
    proof (cases ks')
      case (Cons k' ks'')
      then show ?thesis
      proof (cases "k' = k")
        case True
        have "node_at (Some c) ks'' \<noteq> None \<longleftrightarrow> node_at (findChild k n) ks'' \<noteq> None \<or> prefix ks'' ks"
          using ext node_at_child [of k n ks''] by (auto simp: extends_def)
        then show ?thesis using Cons True by (simp add: fc)
      qed (simp add: fc)
    qed simp
    ultimately show ?thesis using Some free by (simp add: extends_def leaf_at_child)
  qed
qed

fun multi_last :: "path_segment list \<Rightarrow> bool" where
  "multi_last [] \<longleftrightarrow> True"
| "multi_last (sg # segs) \<longleftrightarrow> (ps_multi sg \<longrightarrow> segs = []) \<and> multi_last segs"

lemma wf_multi_last: "wf_segs segs \<Longrightarrow> multi_last segs"
  by (induction segs) auto

lemma adds_segments: "multi_last segs \<Longrightarrow> adds_at (addSegments segs p h) (map seg_key segs) (p, h)"
proof (induction segs)
  case (Cons sg segs)
  then have "adds_at (addChild (seg_key sg) (addSegments segs p h)) (seg_key sg # map seg_key segs) (p, h)"
    by (intro adds_child) simp
  moreover have "addSegments (sg # segs) p h n = addChild (seg_key sg) (addSegments segs p h) n" for n
    using Cons.prems by (auto simp: seg_key_def addChild_def)
  ultimately show ?case by (simp add: adds_at_def)
qed (use adds_set in \<open>simp add: adds_at_def\<close>)

definition route :: "pattern \<Rightarrow> string list" where
  "route p = pat_host p # pat_method p # map seg_key (pat_segments p)"

lemma adds_pattern: "wf_pattern p \<Longrightarrow> adds_at (addPattern p h) (route p) (p, h)"
proof -
  assume "wf_pattern p"
  then have "adds_at (addChild (pat_host p) (addChild (pat_method p) (addSegments (pat_segments p) p h))) (route p) (p, h)"
    unfolding route_def by (intro adds_child adds_segments wf_multi_last) (simp add: wf_pattern_def)
  then show ?thesis by (simp add: adds_at_def addPattern_def)
qed

text \<open>\<open>tree_of R n\<close>: the tree holds the patterns of \<open>R\<close> and nothing else.\<close>

definition tree_of :: "(pattern \<times> 'h) set \<Rightarrow> 'h routingNode \<Rightarrow> bool" where
  "tree_of R n \<longleftrightarrow>
     (\<forall>ks x. leaf_at (Some n) ks = Some x \<longleftrightarrow> x \<in> R \<and> route (fst x) = ks)
     \<and> (\<forall>ks. node_at (Some n) ks \<noteq> None \<longleftrightarrow> ks = [] \<or> (\<exists>x\<in>R. prefix ks (route (fst x))))"

lemma tree_of_empty: "tree_of {} emptyNode"
proof -
  have "leaf_at (Some (emptyNode :: 'a routingNode)) ks \<noteq> Some x" "node_at (Some (emptyNode :: 'a routingNode)) ks \<noteq> None \<longleftrightarrow> ks = []" for ks x
    by (cases ks; simp)+
  then show ?thesis by (simp add: tree_of_def)
qed

lemma tree_of_leaf: "tree_of R n \<Longrightarrow> leaf_at (Some n) ks = Some x \<longleftrightarrow> x \<in> R \<and> route (fst x) = ks"
  unfolding tree_of_def by blast

lemma tree_of_node: "tree_of R n \<Longrightarrow> node_at (Some n) ks \<noteq> None \<longleftrightarrow> ks = [] \<or> (\<exists>x\<in>R. prefix ks (route (fst x)))"
  unfolding tree_of_def by blast

lemma tree_of_free: "tree_of R n \<Longrightarrow> leaf_at (Some n) ks = None \<longleftrightarrow> (\<forall>x\<in>R. route (fst x) \<noteq> ks)"
  using tree_of_leaf [of R n ks] by (metis option.exhaust option.distinct(1))

lemma tree_of_route: "tree_of R n \<Longrightarrow> x \<in> R \<Longrightarrow> y \<in> R \<Longrightarrow> route (fst x) = route (fst y) \<Longrightarrow> x = y"
  unfolding tree_of_def by (metis option.inject)

lemma tree_of_add:
  assumes t: "tree_of R n" and wf: "wf_pattern p"
  shows "case addPattern p h n of None \<Rightarrow> \<exists>x\<in>R. route (fst x) = route p | Some n' \<Rightarrow> (\<forall>x\<in>R. route (fst x) \<noteq> route p) \<and> tree_of (insert (p, h) R) n'"
proof (cases "addPattern p h n")
  case None
  then have "leaf_at (Some n) (route p) \<noteq> None" using adds_pattern [OF wf, of h] by (auto simp: adds_at_def dest: spec [of _ n])
  then show ?thesis using None tree_of_free [OF t] by auto
next
  case (Some n')
  then have free: "leaf_at (Some n) (route p) = None" and ext: "extends n (route p) (p, h) n'"
    using adds_pattern [OF wf, of h] by (auto simp: adds_at_def dest: spec [of _ n])
  have new: "\<forall>x\<in>R. route (fst x) \<noteq> route p" using free tree_of_free [OF t] by blast
  have "leaf_at (Some n') ks = Some x \<longleftrightarrow> x \<in> insert (p, h) R \<and> route (fst x) = ks" for ks x
    using ext new tree_of_leaf [OF t, of ks x] by (auto simp: extends_def)
  moreover have "node_at (Some n') ks \<noteq> None \<longleftrightarrow> ks = [] \<or> (\<exists>x\<in>insert (p, h) R. prefix ks (route (fst x)))" for ks
    using ext tree_of_node [OF t, of ks] unfolding extends_def by (metis fst_conv insert_iff)
  ultimately have "tree_of (insert (p, h) R) n'" unfolding tree_of_def by blast
  then show ?thesis using Some new by simp
qed

subsection \<open>The key lists of a path\<close>

text \<open>
  A candidate is a list of keys, the values of the wildcards on the way and, when it ends at a multi wildcard, the value of that. \<open>cands\<close> lists the candidates of a
  path in the order of the search.
\<close>

type_synonym candidate = "string list \<times> string list \<times> string option"

function cands :: "string \<Rightarrow> candidate list" where
  "cands path =
     (if path = '''' then [([], [], None)]
      else
        map (\<lambda>(ks, cs, m). (fst (firstSegment path) # ks, cs, m)) (cands (snd (firstSegment path)))
        @ (if fst (firstSegment path) \<noteq> ''/'' then map (\<lambda>(ks, cs, m). ('''' # ks, fst (firstSegment path) # cs, m)) (cands (snd (firstSegment path))) else [])
        @ [([''*''], [], Some (pathUnescape (tl path)))])"
  by pat_completeness auto
termination
  by (relation "measure length") (auto intro: firstSegment_length simp: prod_eq_iff)

declare cands.simps [simp del] matchPath.simps [simp del]

lemma matchPath_None [simp]: "matchPath None path ms = No_Match"
  by (simp add: matchPath.simps)

definition with_rest :: "pattern \<Rightarrow> string list \<Rightarrow> string option \<Rightarrow> string list" where
  "with_rest p ms m = (case m of None \<Rightarrow> ms | Some v \<Rightarrow> if ps_s (lastSegment p) \<noteq> '''' then ms @ [v] else ms)"

definition attempt :: "'h routingNode option \<Rightarrow> string list \<Rightarrow> candidate \<Rightarrow> 'h match_result" where
  "attempt n ms e =
     (case e of (ks, cs, m) \<Rightarrow>
        (case node_at n ks of
           None \<Rightarrow> No_Match
         | Some c \<Rightarrow>
             (case nd_leaf c of
                None \<Rightarrow> if m = None then No_Match else Match_Panic
              | Some (p, h) \<Rightarrow> Matched p h (with_rest p (ms @ cs) m))))"

definition first_hit :: "('a \<Rightarrow> 'h match_result) \<Rightarrow> 'a list \<Rightarrow> 'h match_result" where
  "first_hit f xs = foldr (\<lambda>x. or_else (f x)) xs No_Match"

lemma or_else_simps [simp]: "or_else No_Match r = r" "or_else r No_Match = r" "or_else (or_else a b) c = or_else a (or_else b c)"
  by (cases r; simp add: or_else_def) (cases r; cases a; simp add: or_else_def)+

lemma first_hit_simps [simp]:
  "first_hit f [] = No_Match" "first_hit f (x # xs) = or_else (f x) (first_hit f xs)"
  "first_hit f (xs @ ys) = or_else (first_hit f xs) (first_hit f ys)" "first_hit f (map g xs) = first_hit (\<lambda>x. f (g x)) xs"
proof -
  show a: "first_hit f [] = No_Match" "first_hit f (x # xs) = or_else (f x) (first_hit f xs)" for x xs
    by (simp_all add: first_hit_def)
  show "first_hit f (xs @ ys) = or_else (first_hit f xs) (first_hit f ys)" by (induction xs) (simp_all add: a)
  show "first_hit f (map g xs) = first_hit (\<lambda>x. f (g x)) xs" by (simp add: first_hit_def foldr_map comp_def)
qed

lemma first_hit_No_Match: "first_hit f xs = No_Match \<longleftrightarrow> (\<forall>x\<in>set xs. f x = No_Match)"
  by (induction xs) (auto simp: or_else_def split: match_result.splits)

lemma first_hit_split: "first_hit f xs = r \<Longrightarrow> r \<noteq> No_Match \<Longrightarrow> \<exists>us x vs. xs = us @ x # vs \<and> f x = r \<and> (\<forall>u\<in>set us. f u = No_Match)"
proof (induction xs)
  case (Cons y ys)
  show ?case
  proof (cases "f y = No_Match")
    case True
    then obtain us x vs where "ys = us @ x # vs" "f x = r" "\<forall>u\<in>set us. f u = No_Match" using Cons by auto
    then have "y # ys = (y # us) @ x # vs \<and> f x = r \<and> (\<forall>u\<in>set (y # us). f u = No_Match)" using True by simp
    then show ?thesis by blast
  next
    case False
    then have "f y = r" using Cons.prems by (auto simp: or_else_def split: match_result.splits)
    then have "y # ys = [] @ y # ys \<and> f y = r \<and> (\<forall>u\<in>set []. f u = No_Match)" by simp
    then show ?thesis by blast
  qed
qed simp

text \<open>The search with backtracking is the first hit.\<close>

lemma matchPath_first_hit: "matchPath n path ms = first_hit (attempt n ms) (cands path)"
proof (induction n path ms rule: matchPath.induct)
  case (1 path ms)
  have "attempt None ms e = (No_Match :: 'a match_result)" for e by (simp add: attempt_def split: prod.splits)
  then have "first_hit (attempt None ms) (cands path) = (No_Match :: 'a match_result)" unfolding first_hit_No_Match by blast
  then show ?case by simp
next
  case (2 n path ms)
  show ?case
  proof (cases "path = ''''")
    case True
    then show ?thesis
      by (simp add: matchPath.simps cands.simps attempt_def with_rest_def split: option.splits prod.splits)
  next
    case False
    let ?seg = "fst (firstSegment path)" and ?rest = "snd (firstSegment path)"
    have lit: "attempt (Some n) ms (case e of (ks, cs, m) \<Rightarrow> (?seg # ks, cs, m)) = attempt (findChild ?seg n) ms e" for e
      by (cases e) (simp add: attempt_def)
    have wild: "attempt (Some n) ms (case e of (ks, cs, m) \<Rightarrow> ('''' # ks, ?seg # cs, m)) = attempt (nd_empty n) (ms @ [?seg]) e" for e
      by (cases e) (simp only: attempt_def findChild_def prod.case node_at.simps option.case append_assoc append.simps if_True refl)
    have multi: "attempt (Some n) ms ([''*''], [], Some (pathUnescape (tl path))) = match_multi n path ms"
      by (simp add: attempt_def match_multi_def with_rest_def split: option.splits prod.splits)
    show ?thesis
      unfolding matchPath.simps cands.simps [of path] if_not_P [OF False] first_hit_simps lit wild multi
      using 2 [OF False] by (auto simp: lit wild multi)
  qed
qed

end
