(* ===== verification/Http_Match.thy ===== *)
theory Http_Match
  imports Http_Tree
begin

text \<open>
  The contract of \<open>ServeMux\<close>: among the registered patterns the search returns one that matches the request and takes precedence over every other that
  does, with the values of its wildcards.
\<close>

subsection \<open>The segments of a path\<close>

function path_parts :: "string \<Rightarrow> string list" where
  "path_parts path = (if path = '''' then [] else fst (firstSegment path) # path_parts (snd (firstSegment path)))"
  by pat_completeness auto
termination
  by (relation "measure length") (auto intro: firstSegment_length simp: prod_eq_iff)

declare path_parts.simps [simp del]

lemma path_parts_Nil [simp]: "path_parts '''' = []" "path_parts path = [] \<longleftrightarrow> path = ''''"
  by (simp_all add: path_parts.simps)

text \<open>Paths the tree treats as documented: no empty segment, no segment \<open>*\<close>, and an encoded slash alone only as the last segment.\<close>

definition good_parts :: "string list \<Rightarrow> bool" where
  "good_parts ps \<longleftrightarrow> '''' \<notin> set ps \<and> ''*'' \<notin> set ps \<and> ''/'' \<notin> set (butlast ps)"

definition good_path :: "string \<Rightarrow> bool" where
  "good_path path \<longleftrightarrow> good_parts (path_parts path)"

lemma good_path_rest:
  assumes "good_path path" "path \<noteq> ''''"
  shows "good_path (snd (firstSegment path))" "fst (firstSegment path) \<noteq> ''''" "fst (firstSegment path) \<noteq> ''*''"
  using assms by (auto simp: good_path_def good_parts_def path_parts.simps [of path] split: if_splits)

lemma legal_good: "good_path path \<Longrightarrow> legal_parts (path_parts path) \<longleftrightarrow> path \<noteq> ''''"
  by (auto simp: good_path_def good_parts_def legal_parts_def)

definition routable :: "pattern \<Rightarrow> bool" where
  "routable p \<longleftrightarrow> wf_pattern p \<and> (\<forall>sg\<in>set (pat_segments p). ps_s sg \<noteq> (if ps_wild sg then ''/'' else ''*''))"

text \<open>The values of the wildcards of a pattern that matches.\<close>

fun captures :: "path_segment list \<Rightarrow> string \<Rightarrow> string list" where
  "captures [] path = []"
| "captures (sg # segs) path =
     (if ps_multi sg then (if ps_s sg \<noteq> '''' then [pathUnescape (tl path)] else [])
      else if ps_wild sg then fst (firstSegment path) # captures segs (snd (firstSegment path))
      else captures segs (snd (firstSegment path)))"

definition no_star :: "path_segment list \<Rightarrow> bool" where
  "no_star segs \<longleftrightarrow> (\<forall>sg\<in>set segs. ps_wild sg \<or> ps_s sg \<noteq> ''*'')"

text \<open>Values of a candidate for the pattern with these segments.\<close>

definition values_of :: "path_segment list \<Rightarrow> string list \<Rightarrow> string option \<Rightarrow> string list" where
  "values_of segs cs m = (case m of None \<Rightarrow> cs | Some v \<Rightarrow> if ps_s (last segs) \<noteq> '''' then cs @ [v] else cs)"

lemma wf_seg_key:
  assumes "wf_segs (sg # segs)" "no_star (sg # segs)"
  shows "seg_key sg = ''*'' \<longleftrightarrow> ps_multi sg" "seg_key sg = '''' \<longleftrightarrow> \<not> ps_multi sg \<and> ps_wild sg"
    "\<not> ps_multi sg \<Longrightarrow> \<not> ps_wild sg \<Longrightarrow> seg_key sg = ps_s sg"
  using assms by (auto simp: seg_key_def no_star_def)

lemma values_of_Cons:
  assumes "segs \<noteq> []"
  shows "values_of (sg # segs) (c # cs) m = c # values_of segs cs m" "values_of (sg # segs) cs m = values_of segs cs m"
  using assms by (auto simp: values_of_def split: option.splits)

lemma cands_Nil_key: "([], cs, m) \<in> set (cands path) \<longleftrightarrow> path = '''' \<and> cs = [] \<and> m = None"
  by (auto simp: cands.simps [of path])

lemma cands_Cons_key:
  "(k # ks, cs, m) \<in> set (cands path) \<longleftrightarrow>
    path \<noteq> '''' \<and>
    (k = fst (firstSegment path) \<and> (ks, cs, m) \<in> set (cands (snd (firstSegment path)))
     \<or> k = '''' \<and> fst (firstSegment path) \<noteq> ''/'' \<and> (\<exists>cs'. cs = fst (firstSegment path) # cs' \<and> (ks, cs', m) \<in> set (cands (snd (firstSegment path))))
     \<or> k = ''*'' \<and> ks = [] \<and> cs = [] \<and> m = Some (pathUnescape (tl path)))"
  by (auto simp: cands.simps [of path] image_iff) force+

text \<open>A pattern matches a path exactly when its keys are a candidate, which then carries the values of its wildcards.\<close>

lemma cands_match:
  assumes "wf_segs segs \<or> segs = []" "no_star segs" "good_path path"
  shows "(\<exists>cs m. (map seg_key segs, cs, m) \<in> set (cands path)) \<longleftrightarrow> path_parts path \<in> path_set segs"
  using assms
proof (induction segs arbitrary: path)
  case Nil
  show ?case by (simp add: cands_Nil_key path_set_Nil)
next
  case (Cons sg segs)
  let ?seg = "fst (firstSegment path)" and ?rest = "snd (firstSegment path)"
  have wf: "wf_segs (sg # segs)" using Cons.prems by simp
  note key = wf_seg_key [OF wf Cons.prems(2)]
  have tail: "wf_segs segs \<or> segs = []" "no_star segs" using wf Cons.prems(2) by (auto simp: no_star_def)
  show ?case
  proof (cases "path = ''''")
    case True
    have "[] \<notin> path_set (sg # segs)" using path_set_legal [OF wf, of "[]"] by (auto simp: legal_parts_def)
    then show ?thesis using True by (simp add: cands_Cons_key)
  next
    case False
    note rest = good_path_rest [OF Cons.prems(3) False]
    have parts: "path_parts path = ?seg # path_parts ?rest" using False by (simp add: path_parts.simps)
    have IH: "(\<exists>cs m. (map seg_key segs, cs, m) \<in> set (cands ?rest)) \<longleftrightarrow> path_parts ?rest \<in> path_set segs"
      by (rule Cons.IH [OF tail rest(1)])
    consider (multi) "ps_multi sg" | (wild) "\<not> ps_multi sg" "ps_wild sg" | (lit) "\<not> ps_multi sg" "\<not> ps_wild sg" by blast
    then show ?thesis
    proof cases
      case multi
      then show ?thesis using wf False key(1) legal_good [OF Cons.prems(3)] by (auto simp: cands_Cons_key path_set_multi)
    next
      case wild
      then have "(\<exists>cs m. (map seg_key (sg # segs), cs, m) \<in> set (cands path)) \<longleftrightarrow> ?seg \<noteq> ''/'' \<and> (\<exists>cs m. (map seg_key segs, cs, m) \<in> set (cands ?rest))"
        using False rest(2) key(2) by (auto simp: cands_Cons_key)
      moreover have "path_parts path \<in> path_set (sg # segs) \<longleftrightarrow> ?seg \<in> part_set sg \<and> path_parts ?rest \<in> path_set segs"
        using wild by (auto simp: parts path_set_Cons)
      ultimately show ?thesis using wild rest(2) by (simp add: IH part_set_def)
    next
      case lit
      then have "(\<exists>cs m. (map seg_key (sg # segs), cs, m) \<in> set (cands path)) \<longleftrightarrow> ps_s sg = ?seg \<and> (\<exists>cs m. (map seg_key segs, cs, m) \<in> set (cands ?rest))"
        using False key by (auto simp: cands_Cons_key)
      moreover have "path_parts path \<in> path_set (sg # segs) \<longleftrightarrow> ?seg \<in> part_set sg \<and> path_parts ?rest \<in> path_set segs"
        using lit by (auto simp: parts path_set_Cons)
      ultimately show ?thesis using lit by (auto simp: IH part_set_def)
    qed
  qed
qed

lemma cands_values:
  assumes "(map seg_key segs, cs, m) \<in> set (cands path)" "wf_segs segs \<or> segs = []" "no_star segs" "good_path path"
  shows "values_of segs cs m = captures segs path"
  using assms
proof (induction segs arbitrary: path cs)
  case Nil
  then show ?case by (simp add: cands_Nil_key values_of_def)
next
  case (Cons sg segs)
  let ?seg = "fst (firstSegment path)" and ?rest = "snd (firstSegment path)"
  have wf: "wf_segs (sg # segs)" using Cons.prems by simp
  note key = wf_seg_key [OF wf Cons.prems(3)]
  have tail: "wf_segs segs \<or> segs = []" "no_star segs" using wf Cons.prems(3) by (auto simp: no_star_def)
  have ne: "path \<noteq> ''''" using Cons.prems(1) by (auto simp: cands_Cons_key)
  note rest = good_path_rest [OF Cons.prems(4) ne]
  have sub: "values_of (sg # segs) cs' m = captures segs ?rest \<and> values_of (sg # segs) (c # cs') m = c # captures segs ?rest"
    if "(map seg_key segs, cs', m) \<in> set (cands ?rest)" for cs' c
  proof -
    note IH = Cons.IH [OF that tail rest(1)]
    show ?thesis
    proof (cases "segs = []")
      case True
      then show ?thesis using that IH by (simp add: cands_Nil_key values_of_def)
    next
      case False
      show ?thesis unfolding values_of_Cons(1) [OF False] values_of_Cons(2) [OF False, of sg cs'] IH by simp
    qed
  qed
  consider (multi) "ps_multi sg" | (wild) "\<not> ps_multi sg" "ps_wild sg" | (lit) "\<not> ps_multi sg" "\<not> ps_wild sg" by blast
  then show ?case
  proof cases
    case multi
    then show ?thesis using wf key Cons.prems(1) rest by (auto simp: cands_Cons_key values_of_def)
  next
    case wild
    then obtain cs' where "cs = ?seg # cs'" "(map seg_key segs, cs', m) \<in> set (cands ?rest)"
      using Cons.prems(1) key rest by (auto simp: cands_Cons_key)
    then show ?thesis using sub wild by simp
  next
    case lit
    then have "(map seg_key segs, cs, m) \<in> set (cands ?rest)" using Cons.prems(1) key by (auto simp: cands_Cons_key)
    then show ?thesis using sub lit by simp
  qed
qed

subsection \<open>The order of the search\<close>

definition rank :: "string \<Rightarrow> nat" where
  "rank k = (if k = ''*'' then 2 else if k = '''' then 1 else 0)"

fun earlier :: "string list \<Rightarrow> string list \<Rightarrow> bool" where
  "earlier (k # ks) (k' # ks') \<longleftrightarrow> rank k < rank k' \<or> rank k = rank k' \<and> earlier ks ks'"
| "earlier _ _ \<longleftrightarrow> False"

lemma cands_sorted: "good_path path \<Longrightarrow> sorted_wrt (\<lambda>e e'. earlier (fst e) (fst e')) (cands path)"
proof (induction path rule: cands.induct)
  case (1 path)
  show ?case
  proof (cases "path = ''''")
    case True
    then show ?thesis by (simp add: cands.simps [of "[]"])
  next
    case False
    note rest = good_path_rest [OF 1(3) False]
    have IH: "sorted_wrt (\<lambda>e e'. earlier (fst e) (fst e')) (cands (snd (firstSegment path)))" by (rule 1(1) [OF False rest(1)])
    have r: "rank (fst (firstSegment path)) = 0" "rank '''' = 1" "rank ''*'' = 2" using rest(2,3) by (simp_all add: rank_def)
    show ?thesis
      unfolding cands.simps [of path] if_not_P [OF False] sorted_wrt_append sorted_wrt_map
      using IH r by (auto simp: sorted_wrt_map split_beta)
  qed
qed

text \<open>A pattern that is more specific on a path comes first.\<close>

lemma earlier_not_more_general:
  assumes "wf_segs p \<or> p = []" "wf_segs q \<or> q = []" "no_star p" "no_star q" "path_set q \<subseteq> path_set p" "ps \<in> path_set q"
  shows "\<not> earlier (map seg_key p) (map seg_key q)"
  using assms
proof (induction p arbitrary: q ps)
  case (Cons s p)
  show ?case
  proof (cases q)
    case q: (Cons t q')
    have wf: "wf_segs (s # p)" "wf_segs (t # q')" using Cons.prems q by auto
    have tail: "wf_segs p \<or> p = []" "wf_segs q' \<or> q' = []" "no_star p" "no_star q'" using wf Cons.prems(3,4) q by (auto simp: no_star_def)
    note kp = wf_seg_key [OF wf(1) Cons.prems(3)] and kq = wf_seg_key [OF wf(2) Cons.prems(4) [unfolded q]]
    have le: "path_set (t # q') \<subseteq> path_set (s # p)" using Cons.prems(5) q by simp
    show ?thesis
    proof (cases "ps_multi t")
      case tm: True
      show ?thesis
      proof (cases "ps_multi s")
        case True
        then show ?thesis using tm wf q kp(1) kq(1) by auto
      next
        case False
        then show ?thesis using relate_multi(2) [OF wf(1) False] le tm by (auto simp: relate_def path_set_multi split: if_splits)
      qed
    next
      case tm: False
      show ?thesis
      proof (cases "ps_multi s")
        case True
        then have "rank (seg_key s) = 2" "rank (seg_key t) \<noteq> 2" using kp(1) kq(1) tm by (auto simp: rank_def)
        moreover have "rank (seg_key t) \<le> 2" by (simp add: rank_def)
        ultimately show ?thesis using q by auto
      next
        case sm: False
        obtain x xs where x: "ps = x # xs" "x \<in> part_set t" "xs \<in> path_set q'" using Cons.prems(6) q tm by (auto simp: path_set_Cons)
        have sub: "part_set t \<subseteq> part_set s" "path_set q' \<subseteq> path_set p"
          using le x(2,3) sm tm by (auto simp: path_set_Cons image_iff subset_iff)
        have "\<not> (rank (seg_key s) < rank (seg_key t))"
        proof
          assume less: "rank (seg_key s) < rank (seg_key t)"
          then have "\<not> ps_wild s" "ps_wild t" using kp kq sm tm by (auto simp: rank_def split: if_splits)
          then have "''a'' \<in> part_set s" "''b'' \<in> part_set s" using sub(1) by (auto simp: part_set_def)
          then have "''a'' = ps_s s" "''b'' = ps_s s" using \<open>\<not> ps_wild s\<close> by (simp_all add: part_set_def)
          then have "''a'' = ''b''" by metis
          then show False by simp
        qed
        then show ?thesis using q Cons.IH [OF tail(1,2,3,4) sub(2) x(3)] by simp
      qed
    qed
  qed simp
qed simp

subsection \<open>The search through hosts, methods and paths\<close>

definition hosts_of :: "string \<Rightarrow> string list" where
  "hosts_of host = (if host \<noteq> '''' then [host] else []) @ ['''']"

definition methods_of :: "string \<Rightarrow> string list" where
  "methods_of method = method # (if method = ''HEAD'' then [''GET''] else []) @ ['''']"

definition search :: "'h routingNode \<Rightarrow> string \<Rightarrow> string \<Rightarrow> string \<Rightarrow> 'h match_result" where
  "search rt host method path =
     first_hit (\<lambda>h. first_hit (\<lambda>m. first_hit (attempt (node_at (Some rt) [h, m]) []) (cands path)) (methods_of method)) (hosts_of host)"

lemma match_search: "match rt host method path = search rt host method path"
proof -
  have m: "matchMethodAndPath (findChild h rt) method path
      = first_hit (\<lambda>m. first_hit (attempt (node_at (Some rt) [h, m]) []) (cands path)) (methods_of method)" for h
    by (cases "findChild h rt") (simp_all add: matchMethodAndPath_def methods_of_def matchPath_first_hit [symmetric] findChild_def)
  have "nd_empty rt = findChild '''' rt" by (simp add: findChild_def)
  then show ?thesis by (simp add: match_def search_def hosts_of_def m)
qed

text \<open>What a pattern handles, and precedence between two patterns: a host wins over none, else the fewer requests win.\<close>

definition handles :: "pattern \<Rightarrow> string \<Rightarrow> string \<Rightarrow> string \<Rightarrow> bool" where
  "handles p host method path \<longleftrightarrow> (pat_host p = '''' \<or> pat_host p = host) \<and> (method, path_parts path) \<in> request_set p"

definition takes_precedence :: "pattern \<Rightarrow> pattern \<Rightarrow> bool" where
  "takes_precedence p q \<longleftrightarrow> pat_host p \<noteq> '''' \<and> pat_host q = '''' \<or> pat_host p = pat_host q \<and> request_set p \<subseteq> request_set q"

definition serves :: "(pattern \<times> 'h) set \<Rightarrow> 'h routingNode \<Rightarrow> bool" where
  "serves R rt \<longleftrightarrow> tree_of R rt \<and> (\<forall>x\<in>R. routable (fst x)) \<and> (\<forall>x\<in>R. \<forall>y\<in>R. x \<noteq> y \<longrightarrow> \<not> conflictsWith (fst x) (fst y))"

lemma serves_conflict: "serves R rt \<Longrightarrow> x \<in> R \<Longrightarrow> y \<in> R \<Longrightarrow> x = y \<or> \<not> conflictsWith (fst x) (fst y)"
  unfolding serves_def by blast

lemma routable_segs: "routable p \<Longrightarrow> wf_segs (pat_segments p) \<and> no_star (pat_segments p)"
  by (auto simp: routable_def wf_pattern_def no_star_def)

lemma method_set_mem: "method \<in> method_set m \<longleftrightarrow> m = '''' \<or> m = method \<or> m = ''GET'' \<and> method = ''HEAD''"
  by (auto simp: method_set_def)

lemma hosts_of_mem: "pat_host p \<in> set (hosts_of host) \<longleftrightarrow> pat_host p = '''' \<or> pat_host p = host"
  by (auto simp: hosts_of_def)

lemma methods_of_mem: "m \<in> set (methods_of method) \<longleftrightarrow> method \<in> method_set m"
  by (auto simp: methods_of_def method_set_mem)

lemma with_rest_values: "with_rest p cs m = values_of (pat_segments p) cs m"
  by (simp add: with_rest_def values_of_def lastSegment_def split: option.split)

lemma attempt_Matched:
  "attempt n [] (ks, cs, m) = Matched p h vs \<longleftrightarrow> leaf_at n ks = Some (p, h) \<and> vs = with_rest p cs m"
  by (auto simp: attempt_def leaf_at_def split: option.splits)

lemma leaf_at_route: "leaf_at (node_at (Some rt) [h, m]) ks = leaf_at (Some rt) (h # m # ks)"
proof -
  have "node_at (node_at (Some rt) [h, m]) ks = node_at (Some rt) ([h, m] @ ks)" by (simp only: node_at_append)
  then show ?thesis by (simp add: leaf_at_def)
qed

text \<open>The candidate of a pattern that handles the request is a hit.\<close>

lemma handles_hit:
  assumes "serves R rt" "(q, g) \<in> R" "handles q host method path" "good_path path"
  obtains cs m where "(map seg_key (pat_segments q), cs, m) \<in> set (cands path)"
    "attempt (node_at (Some rt) [pat_host q, pat_method q]) [] (map seg_key (pat_segments q), cs, m) = Matched q g (captures (pat_segments q) path)"
proof -
  have segs: "wf_segs (pat_segments q) \<or> pat_segments q = []" "no_star (pat_segments q)"
    using assms(1,2) routable_segs by (force simp: serves_def)+
  obtain cs m where c: "(map seg_key (pat_segments q), cs, m) \<in> set (cands path)"
    using cands_match [OF segs assms(4)] assms(3) by (auto simp: handles_def request_set_def)
  have "leaf_at (Some rt) (route q) = Some (q, g)" using tree_of_leaf [of R rt "route q" "(q, g)"] assms(1,2) by (simp add: serves_def)
  then have "attempt (node_at (Some rt) [pat_host q, pat_method q]) [] (map seg_key (pat_segments q), cs, m) = Matched q g (captures (pat_segments q) path)"
    unfolding attempt_Matched leaf_at_route with_rest_values using cands_values [OF c segs assms(4)] by (simp add: route_def)
  with c show ?thesis by (rule that)
qed

text \<open>A hit is a registered pattern that handles the request.\<close>

lemma hit_handles:
  assumes s: "serves R rt" and c: "(ks, cs, m) \<in> set (cands path)" and good: "good_path path"
    and "host' \<in> set (hosts_of host)" "method' \<in> set (methods_of method)"
    and hit: "attempt (node_at (Some rt) [host', method']) [] (ks, cs, m) = Matched p h vs"
  shows "(p, h) \<in> R" "handles p host method path" "vs = captures (pat_segments p) path" "pat_host p = host'" "pat_method p = method'"
    "map seg_key (pat_segments p) = ks"
proof -
  have leaf: "leaf_at (Some rt) (host' # method' # ks) = Some (p, h)" and vs: "vs = values_of (pat_segments p) cs m"
    using hit unfolding attempt_Matched leaf_at_route with_rest_values by simp_all
  have "tree_of R rt" using s by (simp add: serves_def)
  then have R: "(p, h) \<in> R" and rt: "route p = host' # method' # ks" using leaf tree_of_leaf by (metis fst_conv)+
  show "(p, h) \<in> R" by (rule R)
  show host: "pat_host p = host'" and meth: "pat_method p = method'" and ks: "map seg_key (pat_segments p) = ks"
    using rt by (simp_all add: route_def)
  have segs: "wf_segs (pat_segments p) \<or> pat_segments p = []" "no_star (pat_segments p)"
    using s R routable_segs by (force simp: serves_def)+
  have "path_parts path \<in> path_set (pat_segments p)" using cands_match [OF segs good] c ks by auto
  then show "handles p host method path"
    using assms(4,5) by (simp add: handles_def request_set_def host meth hosts_of_mem [of p, unfolded host] methods_of_mem)
  show "vs = captures (pat_segments p) path"
    using cands_values [OF _ segs good, of cs m] c ks vs by simp
qed

lemma cands_multi_key: "(ks, cs, Some v) \<in> set (cands path) \<Longrightarrow> \<exists>ks'. ks = ks' @ [''*'']"
proof (induction path arbitrary: ks cs rule: cands.induct)
  case (1 path)
  have ne: "path \<noteq> ''''" using 1(3) by (auto simp: cands.simps [of "[]"])
  have tail: "\<exists>ks'. k # ks = ks' @ [''*'']" if "(ks, cs', Some v) \<in> set (cands (snd (firstSegment path)))" for k ks cs'
    using 1(1) [OF ne that] by auto
  from 1(3) show ?case using ne tail by (auto simp: cands.simps [of path] split: if_splits)
qed

lemma star_last:
  "wf_segs segs \<or> segs = [] \<Longrightarrow> no_star segs \<Longrightarrow> prefix (ks @ [''*'']) (map seg_key segs) \<Longrightarrow> map seg_key segs = ks @ [''*'']"
proof (induction segs arbitrary: ks)
  case (Cons sg segs)
  have wf: "wf_segs (sg # segs)" using Cons.prems(1) by simp
  have tail: "wf_segs segs \<or> segs = []" "no_star segs" using wf Cons.prems(2) by (auto simp: no_star_def)
  show ?case
  proof (cases ks)
    case Nil
    then have "ps_multi sg" using Cons.prems(3) wf_seg_key(1) [OF wf Cons.prems(2)] by simp
    then show ?thesis using Nil wf Cons.prems(3) by auto
  next
    case (Cons k ks')
    then show ?thesis using Cons.prems(3) Cons.IH [OF tail] by simp
  qed
qed simp

lemma no_panic:
  assumes s: "serves R rt" and c: "e \<in> set (cands path)"
  shows "attempt (node_at (Some rt) [h, m]) [] e \<noteq> Match_Panic"
proof
  obtain ks cs v where e: "e = (ks, cs, v)" by (cases e)
  assume "attempt (node_at (Some rt) [h, m]) [] e = Match_Panic"
  then have leaf: "leaf_at (Some rt) (h # m # ks) = None" and n: "node_at (node_at (Some rt) [h, m]) ks \<noteq> None" and v: "v \<noteq> None"
    unfolding leaf_at_route [symmetric] by (auto simp: e attempt_def leaf_at_def split: option.splits if_splits)
  obtain ks' where ks: "ks = ks' @ [''*'']" using c v cands_multi_key unfolding e by blast
  have t: "tree_of R rt" using s by (simp add: serves_def)
  have "node_at (Some rt) (h # m # ks) \<noteq> None" using n node_at_append [of "Some rt" "[h, m]" ks] by simp
  then obtain x where x: "x \<in> R" "prefix (h # m # ks) (route (fst x))" using tree_of_node [OF t, of "h # m # ks"] by blast
  then have "prefix (ks' @ [''*'']) (map seg_key (pat_segments (fst x)))" by (simp add: route_def ks)
  then have "map seg_key (pat_segments (fst x)) = ks" using star_last s x(1) routable_segs unfolding serves_def ks by blast
  then have "route (fst x) = h # m # ks" using x(2) by (simp add: route_def)
  then show False using leaf tree_of_free [OF t] x(1) by blast
qed

lemma search_hit:
  assumes "search rt host method path = r" "r \<noteq> No_Match"
  obtains hs h hs' ms m ms' es e es' where
    "hosts_of host = hs @ h # hs'" "methods_of method = ms @ m # ms'" "cands path = es @ e # es'"
    "attempt (node_at (Some rt) [h, m]) [] e = r"
    "\<And>h' m' e'. h' \<in> set hs \<Longrightarrow> m' \<in> set (methods_of method) \<Longrightarrow> e' \<in> set (cands path) \<Longrightarrow> attempt (node_at (Some rt) [h', m']) [] e' = No_Match"
    "\<And>m' e'. m' \<in> set ms \<Longrightarrow> e' \<in> set (cands path) \<Longrightarrow> attempt (node_at (Some rt) [h, m']) [] e' = No_Match"
    "\<And>e'. e' \<in> set es \<Longrightarrow> attempt (node_at (Some rt) [h, m]) [] e' = No_Match"
  using first_hit_split [OF assms(1) [unfolded search_def] assms(2)]
proof (elim exE conjE)
  fix hs h hs'
  assume h: "hosts_of host = hs @ h # hs'"
    "first_hit (\<lambda>m. first_hit (attempt (node_at (Some rt) [h, m]) []) (cands path)) (methods_of method) = r"
    "\<forall>u\<in>set hs. first_hit (\<lambda>m. first_hit (attempt (node_at (Some rt) [u, m]) []) (cands path)) (methods_of method) = No_Match"
  obtain ms m ms' where m: "methods_of method = ms @ m # ms'" "first_hit (attempt (node_at (Some rt) [h, m]) []) (cands path) = r"
    "\<forall>u\<in>set ms. first_hit (attempt (node_at (Some rt) [h, u]) []) (cands path) = No_Match"
    using first_hit_split [OF h(2) assms(2)] by blast
  obtain es e es' where e: "cands path = es @ e # es'" "attempt (node_at (Some rt) [h, m]) [] e = r"
    "\<forall>u\<in>set es. attempt (node_at (Some rt) [h, m]) [] u = No_Match"
    using first_hit_split [OF m(2) assms(2)] by blast
  show ?thesis
    by (rule that [OF h(1) m(1) e(1,2)]) (use h(3) m(3) e(3) in \<open>unfold first_hit_No_Match, blast+\<close>)
qed

lemma methods_later:
  assumes "methods_of method = ms @ m # ms'" "m' \<in> set ms'" "m' \<noteq> m"
  shows "\<not> method_set m' \<subseteq> method_set m"
proof -
  have inf: "\<not> UNIV \<subseteq> {x, y :: string}" for x y
    using infinite_UNIV_listI [where 'a = char] by (meson finite.emptyI finite.insertI finite_subset)
  then have inf1: "\<not> UNIV \<subseteq> {x :: string}" for x by (metis insert_absorb2)
  have "m' = '''' \<and> m \<noteq> '''' \<or> m = ''HEAD'' \<and> m' = ''GET'' \<or> m = ''HEAD'' \<and> m' = ''''"
    using assms by (auto simp: methods_of_def Cons_eq_append_conv split: if_splits)
  then show ?thesis using inf inf1 by (auto simp: method_set_def)
qed

text \<open>Of two patterns that handle the request, the one that is hit is not the more general one.\<close>

lemma hit_minimal:
  assumes s: "serves R rt" and good: "good_path path"
    and hit: "search rt host method path = Matched p h vs" and q: "(q, g) \<in> R" "handles q host method path"
  shows "(p, h) \<in> R \<and> handles p host method path \<and> vs = captures (pat_segments p) path"
    and "pat_host p \<noteq> '''' \<and> pat_host q = '''' \<or> pat_host p = pat_host q \<and> \<not> request_set q \<subset> request_set p"
proof -
  obtain hs h0 hs' ms m0 ms' es e es' where
    hosts: "hosts_of host = hs @ h0 # hs'" and methods: "methods_of method = ms @ m0 # ms'" and cands: "cands path = es @ e # es'"
    and e: "attempt (node_at (Some rt) [h0, m0]) [] e = Matched p h vs"
    and before: "\<And>h' m' e'. h' \<in> set hs \<Longrightarrow> m' \<in> set (methods_of method) \<Longrightarrow> e' \<in> set (cands path) \<Longrightarrow> attempt (node_at (Some rt) [h', m']) [] e' = No_Match"
      "\<And>m' e'. m' \<in> set ms \<Longrightarrow> e' \<in> set (cands path) \<Longrightarrow> attempt (node_at (Some rt) [h0, m']) [] e' = No_Match"
      "\<And>e'. e' \<in> set es \<Longrightarrow> attempt (node_at (Some rt) [h0, m0]) [] e' = No_Match"
    using search_hit [OF hit] by blast
  obtain ks cs m where ks: "e = (ks, cs, m)" by (cases e)
  have mem: "(ks, cs, m) \<in> set (cands path)" "h0 \<in> set (hosts_of host)" "m0 \<in> set (methods_of method)" using hosts methods cands ks by auto
  note p = hit_handles [OF s mem(1) good mem(2,3) e [unfolded ks]]
  obtain cs' m' where c: "(map seg_key (pat_segments q), cs', m') \<in> set (cands path)"
    "attempt (node_at (Some rt) [pat_host q, pat_method q]) [] (map seg_key (pat_segments q), cs', m') = Matched q g (captures (pat_segments q) path)"
    using handles_hit [OF s q good] by blast
  have qm: "pat_method q \<in> set (methods_of method)" "pat_host q \<in> set (hosts_of host)"
    using q(2) by (auto simp: handles_def request_set_def methods_of_mem hosts_of_mem)
  have "pat_host q \<notin> set hs" using before(1) [OF _ qm(1) c(1)] c(2) by auto
  then consider "pat_host q \<noteq> pat_host p" "pat_host q \<in> set hs'" | (same) "pat_host q = pat_host p" using qm(2) hosts p(4) by auto
  then show "pat_host p \<noteq> '''' \<and> pat_host q = '''' \<or> pat_host p = pat_host q \<and> \<not> request_set q \<subset> request_set p"
  proof cases
    case 1
    then have "pat_host q = ''''" "h0 = host" "host \<noteq> ''''" using hosts p(4) by (auto simp: hosts_of_def Cons_eq_append_conv split: if_splits)
    then show ?thesis using p(4) by simp
  next
    case same
    have "\<not> request_set q \<subset> request_set p"
    proof
      assume less: "request_set q \<subset> request_set p"
      have ne: "method_set (pat_method q) \<noteq> {}" "path_set (pat_segments q) \<noteq> {}" "path_parts path \<in> path_set (pat_segments q)"
        using q(2) by (auto simp: handles_def request_set_def method_set_nonempty)
      then have sub: "method_set (pat_method q) \<subseteq> method_set m0" "path_set (pat_segments q) \<subseteq> path_set (pat_segments p)"
        using less p(5) by (auto simp: request_set_def times_subset_iff)
      have "pat_method q \<notin> set ms" using before(2) [OF _ c(1)] c(2) same p(4) by auto
      then have m: "pat_method q = m0" using qm(1) methods methods_later [OF methods] sub(1) by auto
      have "(map seg_key (pat_segments q), cs', m') \<notin> set es" using before(3) c(2) same p(4) m by force
      then consider (eq) "e = (map seg_key (pat_segments q), cs', m')" | (later) "(map seg_key (pat_segments q), cs', m') \<in> set es'"
        using c(1) cands by auto
      then show False
      proof cases
        case eq
        then show False using e c(2) same p(4) m less by auto
      next
        case later
        have "earlier (map seg_key (pat_segments p)) (map seg_key (pat_segments q))"
          using cands_sorted [OF good] later p(6) by (auto simp: cands sorted_wrt_append ks)
        moreover have "wf_segs (pat_segments p) \<and> no_star (pat_segments p)" "wf_segs (pat_segments q) \<and> no_star (pat_segments q)"
          using s p(1) q(1) routable_segs by (force simp: serves_def)+
        ultimately show False using earlier_not_more_general [OF _ _ _ _ sub(2) ne(3)] by blast
      qed
    qed
    then show ?thesis using same by simp
  qed
  show "(p, h) \<in> R \<and> handles p host method path \<and> vs = captures (pat_segments p) path" using p(1-3) by simp
qed

lemma hit_precedes:
  assumes s: "serves R rt" and good: "good_path path"
    and hit: "search rt host method path = Matched p h vs" and q: "(q, g) \<in> R" "handles q host method path"
  shows "takes_precedence p q"
proof -
  note p = hit_minimal(1) [OF assms] and min = hit_minimal(2) [OF assms]
  have "wf_pattern p" "wf_pattern q" using s p q(1) by (force simp: serves_def routable_def)+
  moreover have "(method, path_parts path) \<in> request_set p \<inter> request_set q" using p q(2) by (simp add: handles_def)
  ultimately have "pat_host p = pat_host q \<Longrightarrow> \<not> request_set q \<subset> request_set p \<Longrightarrow> conflictsWith p q \<or> request_set p \<subset> request_set q"
    using conflictsWith_iff by blast
  moreover have "p = q \<or> \<not> conflictsWith p q" using serves_conflict [OF s _ q(1), of "(p, h)"] p by auto
  ultimately show ?thesis using min unfolding takes_precedence_def by auto
qed

lemma search_serves:
  assumes s: "serves R rt" and good: "good_path path"
  shows "case search rt host method path of
      No_Match \<Rightarrow> \<forall>(q, g)\<in>R. \<not> handles q host method path
    | Matched p h vs \<Rightarrow> (p, h) \<in> R \<and> handles p host method path \<and> vs = captures (pat_segments p) path
        \<and> (\<forall>(q, g)\<in>R. handles q host method path \<longrightarrow> takes_precedence p q)
    | Match_Panic \<Rightarrow> False"
proof (cases "search rt host method path")
  case No_Match
  have "\<not> handles q host method path" if r: "(q, g) \<in> R" for q g
  proof
    assume h: "handles q host method path"
    obtain cs m where c: "(map seg_key (pat_segments q), cs, m) \<in> set (cands path)"
      "attempt (node_at (Some rt) [pat_host q, pat_method q]) [] (map seg_key (pat_segments q), cs, m) = Matched q g (captures (pat_segments q) path)"
      using handles_hit [OF s r h good] by blast
    have "pat_method q \<in> set (methods_of method)" "pat_host q \<in> set (hosts_of host)"
      using h by (auto simp: handles_def request_set_def methods_of_mem hosts_of_mem)
    then have "attempt (node_at (Some rt) [pat_host q, pat_method q]) [] (map seg_key (pat_segments q), cs, m) = No_Match"
      using No_Match c(1) unfolding search_def first_hit_No_Match by blast
    then show False using c(2) by simp
  qed
  then show ?thesis using No_Match by auto
next
  case (Matched p h vs)
  obtain h0 m0 ks cs m where h0: "h0 \<in> set (hosts_of host)" and m0: "m0 \<in> set (methods_of method)" and c: "(ks, cs, m) \<in> set (cands path)"
    and hit: "attempt (node_at (Some rt) [h0, m0]) [] (ks, cs, m) = Matched p h vs"
    using search_hit [OF Matched] by (metis in_set_conv_decomp match_result.distinct(1) prod_cases3)
  then have "(p, h) \<in> R \<and> handles p host method path \<and> vs = captures (pat_segments p) path"
    using hit_handles(1-3) [OF s c good h0 m0 hit] by simp
  then show ?thesis using Matched hit_precedes [OF s good Matched] by auto
next
  case Match_Panic
  then show ?thesis using search_hit [OF Match_Panic] no_panic [OF s] by (metis in_set_conv_decomp match_result.distinct(3))
qed


end
