(* ===== verification/Url_Parse.thy ===== *)
theory Url_Parse
  imports Url_Query
begin

text \<open>
  Parsing and printing a URL (\<open>net/url\<close>: \<open>Parse\<close>, \<open>ParseRequestURI\<close>, \<open>String\<close>). The fields the server does not look at extend the record \<open>url\<close>; the
  scheme is kept in lower case. The loops over the runes of a port and of a user are over bytes here: both accept ASCII only.
\<close>

record parsed_url = url +
  url_Scheme :: string
  url_Opaque :: string
  url_User :: "(string \<times> string option) option"
  url_OmitHost :: bool
  url_ForceQuery :: bool

datatype parse_error =
    Invalid_Control | Empty_URL | Missing_Scheme | Invalid_URI | Colon_Segment | Missing_Bracket | Invalid_Port string | Invalid_Userinfo
  | Bad_Escape url_error

definition no_url :: parsed_url where
  "no_url = \<lparr>url_Host = '''', url_Path = '''', url_RawPath = '''', url_RawQuery = '''', url_Scheme = '''', url_Opaque = '''', url_User = None,
     url_OmitHost = False, url_ForceQuery = False\<rparr>"

definition stringContainsCTLByte :: "string \<Rightarrow> bool" where
  "stringContainsCTLByte s = list_ex (\<lambda>c. byte c < 0x20 \<or> byte c = 0x7F) s"

definition is_alpha :: "char \<Rightarrow> bool" where
  "is_alpha c \<longleftrightarrow> (let b = byte c in 0x61 \<le> b \<and> b \<le> 0x7A \<or> 0x41 \<le> b \<and> b \<le> 0x5A)"

definition is_digit :: "char \<Rightarrow> bool" where
  "is_digit c \<longleftrightarrow> (let b = byte c in 0x30 \<le> b \<and> b \<le> 0x39)"

text \<open>The loop of \<open>getScheme\<close> over the index \<open>i\<close>; \<open>rest\<close> is \<open>rawURL[i:]\<close>.\<close>

fun getScheme_loop :: "string \<Rightarrow> nat \<Rightarrow> string \<Rightarrow> (parse_error, string \<times> string) result" where
  "getScheme_loop rawURL i [] = Inr ('''', rawURL)"
| "getScheme_loop rawURL i (c # rest) =
     (if is_alpha c then getScheme_loop rawURL (i + 1) rest
      else if is_digit c \<or> c \<in> set ''+-.'' then (if i = 0 then Inr ('''', rawURL) else getScheme_loop rawURL (i + 1) rest)
      else if c = CHR '':'' then (if i = 0 then Inl Missing_Scheme else Inr (take i rawURL, drop (i + 1) rawURL))
      else Inr ('''', rawURL))"

definition getScheme :: "string \<Rightarrow> (parse_error, string \<times> string) result" where
  "getScheme rawURL = getScheme_loop rawURL 0 rawURL"

definition to_lower :: "char \<Rightarrow> char" where
  "to_lower c = (if 0x41 \<le> byte c \<and> byte c \<le> 0x5A then char_of (byte c + 0x20) else c)"

text \<open>\<open>strings.LastIndex\<close> of a byte and \<open>strings.Index\<close> of a string.\<close>

definition LastIndex :: "string \<Rightarrow> char \<Rightarrow> nat option" where
  "LastIndex s c = (if c \<in> set s then Some (length s - 1 - length (takeWhile (\<lambda>x. x \<noteq> c) (rev s))) else None)"

fun Index_from :: "nat \<Rightarrow> string \<Rightarrow> string \<Rightarrow> nat option" where
  "Index_from i [] sub = (if sub = [] then Some i else None)"
| "Index_from i (c # s) sub = (if take (length sub) (c # s) = sub then Some i else Index_from (i + 1) s sub)"

definition validOptionalPort :: "string \<Rightarrow> bool" where
  "validOptionalPort port = (if port = '''' then True else if hd port \<noteq> CHR '':'' then False else list_all is_digit (tl port))"

definition validUserinfo :: "string \<Rightarrow> bool" where
  "validUserinfo s = list_all (\<lambda>r. is_alpha r \<or> is_digit r \<or> r \<in> set ''-._:~!$&()*+,;=%@'' \<union> {CHR 0x27}) s"

definition url_unescape :: "string \<Rightarrow> url_encoding \<Rightarrow> (parse_error, string) result" where
  "url_unescape s mode = (case unescape s mode of Inl e \<Rightarrow> Inl (Bad_Escape e) | Inr t \<Rightarrow> Inr t)"

definition parseHost :: "string \<Rightarrow> (parse_error, string) result" where
  "parseHost host =
     (if host \<noteq> '''' \<and> hd host = CHR ''['' then
        (case LastIndex host (CHR '']'') of
           None \<Rightarrow> Inl Missing_Bracket
         | Some i \<Rightarrow>
             if \<not> validOptionalPort (drop (i + 1) host) then Inl (Invalid_Port (drop (i + 1) host))
             else
               (case Index_from 0 (take i host) ''%25'' of
                  None \<Rightarrow> url_unescape host encodeHost
                | Some zone \<Rightarrow>
                    result_bind (url_unescape (take zone host) encodeHost) (\<lambda>host1.
                    result_bind (url_unescape (drop zone (take i host)) encodeZone) (\<lambda>host2.
                    result_bind (url_unescape (drop i host) encodeHost) (\<lambda>host3.
                      Inr (host1 @ host2 @ host3))))))
      else
        (case LastIndex host (CHR '':'') of
           None \<Rightarrow> url_unescape host encodeHost
         | Some i \<Rightarrow> if \<not> validOptionalPort (drop i host) then Inl (Invalid_Port (drop i host)) else url_unescape host encodeHost))"

definition parseAuthority :: "string \<Rightarrow> (parse_error, (string \<times> string option) option \<times> string) result" where
  "parseAuthority authority =
     (case LastIndex authority (CHR ''@'') of
        None \<Rightarrow> result_bind (parseHost authority) (\<lambda>host. Inr (None, host))
      | Some i \<Rightarrow>
          result_bind (parseHost (drop (i + 1) authority)) (\<lambda>host.
            let userinfo = take i authority in
            if \<not> validUserinfo userinfo then Inl Invalid_Userinfo
            else if CHR '':'' \<notin> set userinfo then
              result_bind (url_unescape userinfo encodeUserPassword) (\<lambda>user. Inr (Some (user, None), host))
            else
              let (username, password, _) = Cut userinfo (CHR '':'') in
              result_bind (url_unescape username encodeUserPassword) (\<lambda>username.
              result_bind (url_unescape password encodeUserPassword) (\<lambda>password.
                Inr (Some (username, Some password), host)))))"

definition parse_setPath :: "parsed_url \<Rightarrow> string \<Rightarrow> (parse_error, parsed_url) result" where
  "parse_setPath u p =
     (case setPath (url.truncate u) p of
        Inl e \<Rightarrow> Inl (Bad_Escape e)
      | Inr v \<Rightarrow> Inr (u\<lparr>url_Path := url_Path v, url_RawPath := url_RawPath v\<rparr>))"

definition parse :: "string \<Rightarrow> bool \<Rightarrow> (parse_error, parsed_url) result" where
  "parse rawURL viaRequest =
     (if stringContainsCTLByte rawURL then Inl Invalid_Control
      else if rawURL = '''' \<and> viaRequest then Inl Empty_URL
      else if rawURL = ''*'' then Inr (no_url\<lparr>url_Path := ''*''\<rparr>)
      else
        result_bind (getScheme rawURL) (\<lambda>(scheme, rest).
          let scheme = map to_lower scheme;
              force = rest \<noteq> '''' \<and> last rest = CHR ''?'' \<and> length (filter (\<lambda>c. c = CHR ''?'') rest) = 1;
              (rest, query) = (if force then (butlast rest, '''') else (let (r, q, _) = Cut rest (CHR ''?'') in (r, q)));
              u = no_url\<lparr>url_Scheme := scheme, url_ForceQuery := force, url_RawQuery := query\<rparr> in
          if \<not> (rest \<noteq> '''' \<and> hd rest = CHR ''/'') \<and> scheme \<noteq> '''' then Inr (u\<lparr>url_Opaque := rest\<rparr>)
          else if \<not> (rest \<noteq> '''' \<and> hd rest = CHR ''/'') \<and> viaRequest then Inl Invalid_URI
          else if \<not> (rest \<noteq> '''' \<and> hd rest = CHR ''/'') \<and> CHR '':'' \<in> set (takeWhile (\<lambda>c. c \<noteq> CHR ''/'') rest) then Inl Colon_Segment
          else if (scheme \<noteq> '''' \<or> \<not> viaRequest \<and> take 3 rest \<noteq> ''///'') \<and> take 2 rest = ''//'' then
            (let authority = takeWhile (\<lambda>c. c \<noteq> CHR ''/'') (drop 2 rest); rest = dropWhile (\<lambda>c. c \<noteq> CHR ''/'') (drop 2 rest) in
             result_bind (parseAuthority authority) (\<lambda>(user, host).
               parse_setPath (u\<lparr>url_User := user, url_Host := host\<rparr>) rest))
          else parse_setPath (u\<lparr>url_OmitHost := scheme \<noteq> '''' \<and> rest \<noteq> '''' \<and> hd rest = CHR ''/''\<rparr>) rest))"

definition ParseRequestURI :: "string \<Rightarrow> (parse_error, parsed_url) result" where
  "ParseRequestURI rawURL = parse rawURL True"

text \<open>\<open>Parse\<close>; the fragment is checked and dropped.\<close>

definition Parse :: "string \<Rightarrow> (parse_error, parsed_url) result" where
  "Parse rawURL =
     (let (u, frag, _) = Cut rawURL (CHR ''#'') in
      result_bind (parse u False) (\<lambda>url.
        if frag = '''' then Inr url
        else result_bind (url_unescape frag encodeFragment) (\<lambda>_. Inr url)))"

text \<open>\<open>URL.String\<close> of a URL without scheme, user and fragment.\<close>

definition URL_String :: "url \<Rightarrow> string" where
  "URL_String u =
     (let host = (if url_Host u \<noteq> '''' then ''//'' @ escape (url_Host u) encodeHost else '''');
          path = EscapedPath u;
          buf = host @ (if path \<noteq> '''' \<and> hd path \<noteq> CHR ''/'' \<and> url_Host u \<noteq> '''' then ''/'' else '''');
          buf = buf @ (if buf = '''' \<and> CHR '':'' \<in> set (takeWhile (\<lambda>c. c \<noteq> CHR ''/'') path) then ''./'' else '''') in
      buf @ path @ (if url_RawQuery u \<noteq> '''' then ''?'' @ url_RawQuery u else ''''))"

subsection \<open>The target of a request\<close>

text \<open>
  A request target that begins with one slash and has no control byte is split at the first question mark; its path is unescaped, and \<open>EscapedPath\<close>
  gives it back.
\<close>

lemma getScheme_slash: "rest \<noteq> '''' \<Longrightarrow> hd rest = CHR ''/'' \<Longrightarrow> getScheme rest = Inr ('''', rest)"
  by (cases rest) (simp_all add: getScheme_def is_alpha_def is_digit_def byte_def Let_def)

end
