(* ===== verification/Cycle_Build.thy ===== *)
theory Cycle_Build
  imports Cycle
begin

text \<open>
  Validation and assembly of a cycle: what \<open>Config.Validate\<close> accepts in terms of the real values of
  the angles, and the shape of the segments that \<open>Build\<close> returns.
\<close>

subsection \<open>Sums of angles\<close>

lemma sum_error:
  assumes "is_finite x" "is_finite y" "\<bar>valof x + valof y\<bar> < 2048"
  shows "is_finite (x + y)" "\<bar>valof (x + y) - (valof x + valof y)\<bar> \<le> 2 powi (-43)"
    "valof (x + y) = rnd (valof x + valof y)"
proof -
  have lim: "\<bar>rnd (valof x + valof y)\<bar> < f64_limit"
  proof (rule rnd_limit)
    have "(2::real) powi 11 \<le> 2 powi 1022" by (simp only: pow2_le_iff)
    moreover have "(2::real) powi 11 = 2048" "(0::real) < 2 powi 1022" by simp_all
    ultimately show "\<bar>valof x + valof y\<bar> \<le> 3 * 2 powi 1022" using assms(3) by linarith
  qed
  show "is_finite (x + y)" "valof (x + y) = rnd (valof x + valof y)"
    using add_finite [OF assms(1,2) lim] by auto
  moreover have "\<bar>rnd (valof x + valof y) - (valof x + valof y)\<bar> \<le> 2 powi (-42) / 2"
    by (rule rnd_error_abs) (use assms(3) in simp_all)
  ultimately show "\<bar>valof (x + y) - (valof x + valof y)\<bar> \<le> 2 powi (-43)"
    by (simp add: power_int_minus)
qed

lemma diff_error:
  assumes "is_finite x" "is_finite y" "\<bar>valof x - valof y\<bar> < 2048"
  shows "is_finite (x - y)" "\<bar>valof (x - y) - (valof x - valof y)\<bar> \<le> 2 powi (-43)"
  using sum_error [of x "- y"] assms by (simp_all add: minus_eq_plus valof_uminus)

text \<open>Adding a zero of either sign to a positive number changes nothing.\<close>

lemma add_zero_right:
  assumes "pos_finite x" "is_finite z" "valof z = 0"
  shows "x + z = x"
  using add_exact [of x z x] pos_finiteD [OF assms(1)] assms(2,3) by (intro valof_inject_pos) auto

lemma zero_add_pos: "pos_finite x \<Longrightarrow> 0 + x = x"
  using pos_finiteD [of x] by (intro add_0_left) auto

subsection \<open>The angle checks\<close>

lemma checkMotionAngle_ok: "checkMotionAngle n b = Inr () \<longleftrightarrow> pos_finite b \<and> valof b < 360"
  using f64_classes [of b]
  by (auto simp: checkMotionAngle_def pos_finite_def le_iff_valof)

lemma checkDwellAngle_ok:
  "checkDwellAngle n b = Inr () \<longleftrightarrow> is_finite b \<and> 0 \<le> valof b \<and> valof b < 360"
  using f64_classes [of b]
  by (auto simp: checkDwellAngle_def le_iff_valof less_iff_valof)

lemma result_unit_cases: "(r = Inr ()) \<or> (\<exists>e. r = Inl e)" for r :: "('e, unit) result"
  by (cases r) auto

definition config_ok :: "config \<Rightarrow> bool" where
  "config_ok c \<longleftrightarrow> Known (RiseLaw c) \<and> Known (ReturnLaw c) \<and> pos_finite (cfg_H c) \<and> pos_finite (cfg_Omega c)
     \<and> pos_finite (RiseAngle c) \<and> valof (RiseAngle c) < 360
     \<and> pos_finite (ReturnAngle c) \<and> valof (ReturnAngle c) < 360
     \<and> is_finite (OuterDwell c) \<and> 0 \<le> valof (OuterDwell c) \<and> valof (OuterDwell c) < 360
     \<and> is_finite (InnerDwell c) \<and> 0 \<le> valof (InnerDwell c) \<and> valof (InnerDwell c) < 360"

lemma Config_Validate_ok:
  "Config_Validate c = Inr () \<longleftrightarrow> config_ok c \<and> \<not> sumTol < math_Abs (angle_total c - FullTurn)"
  unfolding Config_Validate_def config_ok_def
  by (auto simp: result_bind_eq_Inr checkMotionAngle_ok checkDwellAngle_ok Let_def)

text \<open>The real sum of the four angles, and the floating-point positions of the segment ends.\<close>

definition real_total :: "config \<Rightarrow> real" where
  "real_total c = valof (RiseAngle c) + valof (OuterDwell c) + valof (ReturnAngle c) + valof (InnerDwell c)"

definition pos2 :: "config \<Rightarrow> float64" where "pos2 c = RiseAngle c + OuterDwell c"

definition pos3 :: "config \<Rightarrow> float64" where "pos3 c = pos2 c + ReturnAngle c"

lemma angle_total_eq: "angle_total c = pos3 c + InnerDwell c"
  by (simp add: angle_total_def pos2_def pos3_def)

lemma f64_ge_0:
  assumes "is_finite x" "is_finite y" "0 \<le> valof x + valof y" "\<bar>valof x + valof y\<bar> < 2048"
  shows "0 \<le> valof (x + y)"
  using sum_error(3) [OF assms(1,2,4)] assms(3) by (simp add: rnd_nonneg)

lemma sum_pos:
  assumes "pos_finite x" "is_finite y" "0 \<le> valof y" "valof x + valof y < 2048"
  shows "pos_finite (x + y)" "valof x \<le> valof (x + y)" "valof y \<le> valof (x + y)"
proof -
  have b: "\<bar>valof x + valof y\<bar> < 2048" using assms pos_finiteD [OF assms(1)] by simp
  note s = sum_error [OF pos_finiteD(1) [OF assms(1)] assms(2) b]
  show ge: "valof x \<le> valof (x + y)" unfolding s(3) using assms(3) by (intro rnd_ge_representable) auto
  show "valof y \<le> valof (x + y)" unfolding s(3)
    using pos_finiteD(2) [OF assms(1)] by (intro rnd_ge_representable) auto
  show "pos_finite (x + y)" using s(1) ge pos_finiteD(2) [OF assms(1)] by (simp add: pos_finite_def)
qed

text \<open>A bound by an integer survives each sum.\<close>

lemma sum_le:
  assumes "is_finite x" "is_finite y" "\<bar>valof x + valof y\<bar> < 2048" "valof x + valof y \<le> of_int n" "\<bar>n\<bar> \<le> 2 ^ 53"
  shows "valof (x + y) \<le> of_int n"
  unfolding sum_error(3) [OF assms(1-3)]
  using assms(4) representable_valof [of "f64 n"] f64_exact(2) [OF assms(5)]
  by (intro rnd_le_representable) auto

lemma pos_bounds:
  assumes "config_ok c"
  shows "pos_finite (pos2 c)" "valof (RiseAngle c) \<le> valof (pos2 c)" "valof (pos2 c) \<le> 720"
    "pos_finite (pos3 c)" "valof (pos2 c) \<le> valof (pos3 c)" "valof (pos3 c) \<le> 1080"
    "pos_finite (angle_total c)" "valof (pos3 c) \<le> valof (angle_total c)" "valof (angle_total c) \<le> 1440"
proof -
  note ok = assms [unfolded config_ok_def pos_finite_def]
  have p2: "pos_finite (pos2 c)" "valof (RiseAngle c) \<le> valof (pos2 c)" "valof (pos2 c) \<le> 720"
    using sum_pos [of "RiseAngle c" "OuterDwell c"] sum_le [of "RiseAngle c" "OuterDwell c" 720] ok
    by (auto simp: pos2_def pos_finite_def)
  then have p3: "pos_finite (pos3 c)" "valof (pos2 c) \<le> valof (pos3 c)" "valof (pos3 c) \<le> 1080"
    using sum_pos [of "pos2 c" "ReturnAngle c"] sum_le [of "pos2 c" "ReturnAngle c" 1080] ok
    by (auto simp: pos3_def pos_finite_def)
  then have p4: "pos_finite (angle_total c)" "valof (pos3 c) \<le> valof (angle_total c)" "valof (angle_total c) \<le> 1440"
    using sum_pos [of "pos3 c" "InnerDwell c"] sum_le [of "pos3 c" "InnerDwell c" 1440] ok
    by (auto simp: angle_total_eq pos_finite_def)
  show "pos_finite (pos2 c)" "valof (RiseAngle c) \<le> valof (pos2 c)" "valof (pos2 c) \<le> 720"
    "pos_finite (pos3 c)" "valof (pos2 c) \<le> valof (pos3 c)" "valof (pos3 c) \<le> 1080"
    "pos_finite (angle_total c)" "valof (pos3 c) \<le> valof (angle_total c)" "valof (angle_total c) \<le> 1440"
    by (fact p2 p3 p4)+
qed

lemma total_error:
  assumes "config_ok c"
  shows "\<bar>valof (angle_total c) - real_total c\<bar> \<le> 3 * 2 powi (-43)"
proof -
  note ok = assms [unfolded config_ok_def pos_finite_def] and p = pos_bounds [OF assms]
  have "\<bar>valof (pos2 c) - (valof (RiseAngle c) + valof (OuterDwell c))\<bar> \<le> 2 powi (-43)"
    unfolding pos2_def by (rule sum_error) (use ok in auto)
  moreover have "\<bar>valof (pos3 c) - (valof (pos2 c) + valof (ReturnAngle c))\<bar> \<le> 2 powi (-43)"
    unfolding pos3_def by (rule sum_error) (use ok p(1,3) in \<open>auto simp: pos_finite_def\<close>)
  moreover have "\<bar>valof (angle_total c) - (valof (pos3 c) + valof (InnerDwell c))\<bar> \<le> 2 powi (-43)"
    unfolding angle_total_eq by (rule sum_error) (use ok p(4,6) in \<open>auto simp: pos_finite_def\<close>)
  ultimately show ?thesis unfolding real_total_def by linarith
qed

lemma sumTol_value: "is_finite sumTol" "\<bar>valof sumTol - 1 / 10 ^ 9\<bar> \<le> 1 / 10 ^ 20"
  by (simp_all add: sumTol_bits is_finite_def valof_def f64_mag_def f64_mant_def f64_expo_def power_int_minus)

lemma deviation_error:
  assumes "config_ok c"
  shows "is_finite (angle_total c - FullTurn)"
    "\<bar>valof (angle_total c - FullTurn) - (real_total c - 360)\<bar> \<le> 5 / 10 ^ 13"
proof -
  note p = pos_bounds [OF assms]
  have d: "is_finite (angle_total c - FullTurn)"
    "\<bar>valof (angle_total c - FullTurn) - (valof (angle_total c) - valof FullTurn)\<bar> \<le> 2 powi (-43)"
    by (rule diff_error; use p(7,9) in \<open>auto simp: pos_finite_def\<close>)+
  show "is_finite (angle_total c - FullTurn)" by (fact d(1))
  have "4 * (2::real) powi (-43) \<le> 5 / 10 ^ 13" by (simp add: power_int_minus)
  then show "\<bar>valof (angle_total c - FullTurn) - (real_total c - 360)\<bar> \<le> 5 / 10 ^ 13"
    using d(2) [unfolded FullTurn_value] total_error [OF assms] by linarith
qed

lemma Validate_total:
  "Config_Validate c = Inr () \<Longrightarrow> config_ok c \<and> \<bar>real_total c - 360\<bar> \<le> 1001 / 10 ^ 12"
  "config_ok c \<Longrightarrow> \<bar>real_total c - 360\<bar> \<le> 999 / 10 ^ 12 \<Longrightarrow> Config_Validate c = Inr ()"
proof -
  have d: "(sumTol < math_Abs (angle_total c - FullTurn))
      = (valof sumTol < \<bar>valof (angle_total c - FullTurn)\<bar>)" if "config_ok c"
    using deviation_error(1) [OF that] sumTol_value(1) by (simp add: less_iff_valof)
  have tol: "999 / 10 ^ 12 + 5 / 10 ^ 13 \<le> valof sumTol" "valof sumTol + 5 / 10 ^ 13 \<le> 1001 / 10 ^ 12"
    using sumTol_value(2) [unfolded abs_le_iff] by (simp_all add: field_simps)
  show "config_ok c \<and> \<bar>real_total c - 360\<bar> \<le> 1001 / 10 ^ 12" if v: "Config_Validate c = Inr ()"
  proof
    show ok: "config_ok c" using v by (simp add: Config_Validate_ok)
    have "\<bar>valof (angle_total c - FullTurn)\<bar> \<le> valof sumTol" using v d [OF ok] by (simp add: Config_Validate_ok)
    then show "\<bar>real_total c - 360\<bar> \<le> 1001 / 10 ^ 12" using deviation_error(2) [OF ok] tol by linarith
  qed
  show "Config_Validate c = Inr ()" if ok: "config_ok c" and t: "\<bar>real_total c - 360\<bar> \<le> 999 / 10 ^ 12"
  proof -
    have "\<bar>valof (angle_total c - FullTurn)\<bar> \<le> valof sumTol" using deviation_error(2) [OF ok] tol t by linarith
    then show ?thesis using d [OF ok] ok by (simp add: Config_Validate_ok)
  qed
qed

subsection \<open>The segments of a valid cycle\<close>

definition mk_segment :: "config \<Rightarrow> string \<Rightarrow> string \<Rightarrow> float64 \<Rightarrow> float64 \<Rightarrow> segment" where
  "mk_segment c kind tp start beta =
     \<lparr>seg_Kind = kind, seg_Law = tp, seg_Start = start, seg_End = start + beta, seg_Beta = beta,
      seg_Spec = \<lparr>spec_Type = tp, spec_H = cfg_H c, spec_Beta = beta, spec_Omega = cfg_Omega c\<rparr>\<rparr>"

lemma mk_segment_simps [simp]:
  "seg_Kind (mk_segment c k tp p b) = k" "seg_Law (mk_segment c k tp p b) = tp"
  "seg_Start (mk_segment c k tp p b) = p" "seg_End (mk_segment c k tp p b) = p + b"
  "seg_Beta (mk_segment c k tp p b) = b"
  "seg_Spec (mk_segment c k tp p b) = \<lparr>spec_Type = tp, spec_H = cfg_H c, spec_Beta = b, spec_Omega = cfg_Omega c\<rparr>"
  by (simp_all add: mk_segment_def)

definition rise_seg :: "config \<Rightarrow> segment" where
  "rise_seg c = mk_segment c ''rise'' (RiseLaw c) 0 (RiseAngle c)"

definition outer_seg :: "config \<Rightarrow> segment" where
  "outer_seg c = mk_segment c ''outer_dwell'' '''' (RiseAngle c) (OuterDwell c)"

definition return_seg :: "config \<Rightarrow> segment" where
  "return_seg c = mk_segment c ''return'' (ReturnLaw c) (pos2 c) (ReturnAngle c)"

definition inner_seg :: "config \<Rightarrow> segment" where
  "inner_seg c = mk_segment c ''inner_dwell'' '''' (pos3 c) (InnerDwell c)"

lemmas seg_defs = rise_seg_def outer_seg_def return_seg_def inner_seg_def

definition cycle_segs :: "config \<Rightarrow> segment list" where
  "cycle_segs c = rise_seg c # (if 0 < valof (OuterDwell c) then [outer_seg c] else [])
     @ return_seg c # (if 0 < valof (InnerDwell c) then [inner_seg c] else [])"

lemma push_pos: "pos_finite beta \<Longrightarrow>
    push c k tp beta (segs, p) = (segs @ [mk_segment c k tp p beta], p + beta)"
  by (simp add: push_def mk_segment_def pos_finite_def le_iff_valof Let_def)

lemma push_zero: "is_finite beta \<Longrightarrow> \<not> 0 < valof beta \<Longrightarrow> push c k tp beta (segs, p) = (segs, p)"
  by (simp add: push_def le_iff_valof)

lemma push_dwell:
  assumes "is_finite beta" "0 \<le> valof beta" "pos_finite p"
  shows "push c k tp beta (segs, p) = (segs @ (if 0 < valof beta then [mk_segment c k tp p beta] else []), p + beta)"
proof (cases "0 < valof beta")
  case True
  then show ?thesis using assms(1) by (simp add: push_pos pos_finite_def)
next
  case False
  then have "p + beta = p" using add_zero_right [OF assms(3,1)] assms(2) by simp
  then show ?thesis using False assms(1) by (simp add: push_zero)
qed

lemma Build_valid:
  assumes "Config_Validate c = Inr ()"
  shows "Build c = Inr \<lparr>seg_All = cycle_segs c, TotalAngle = angle_total c\<rparr>"
proof -
  have ok: "config_ok c" using assms by (simp add: Config_Validate_ok)
  note p = pos_bounds [OF ok] and k = ok [unfolded config_ok_def]
  let ?r = "push c ''rise'' (RiseLaw c) (RiseAngle c) ([], 0)"
  have r: "?r = ([rise_seg c], RiseAngle c)"
    using k by (simp add: push_pos zero_add_pos rise_seg_def)
  show ?thesis
    using assms k p by (simp add: Build_def r push_dwell push_pos cycle_segs_def seg_defs Let_def
        pos2_def [symmetric] pos3_def [symmetric] angle_total_eq [symmetric])
qed

lemma Build_ok_iff:
  "Build c = Inr b \<longleftrightarrow> Config_Validate c = Inr () \<and> b = \<lparr>seg_All = cycle_segs c, TotalAngle = angle_total c\<rparr>"
proof (cases "Config_Validate c")
  case (Inl e)
  then show ?thesis by (simp add: Build_def)
next
  case (Inr u)
  then have v: "Config_Validate c = Inr ()" by simp
  then show ?thesis using Build_valid [OF v] by auto
qed

lemma Build_config_ok: "Build c = Inr b \<Longrightarrow> config_ok c"
  by (simp add: Build_ok_iff Config_Validate_ok)

lemma cycle_segs_not_Nil [simp]: "cycle_segs c \<noteq> []"
  by (simp add: cycle_segs_def)

lemma cycle_segs_hd [simp]: "hd (cycle_segs c) = rise_seg c" "cycle_segs c ! 0 = rise_seg c"
  by (simp_all add: cycle_segs_def)

lemma cycle_segs_last: "last (cycle_segs c) = (if 0 < valof (InnerDwell c) then inner_seg c else return_seg c)"
  by (simp add: cycle_segs_def)

lemma cycle_segs_cases [consumes 1, case_names rise outer ret inner]:
  assumes "sg \<in> set (cycle_segs c)"
  obtains "sg = rise_seg c" | "sg = outer_seg c" "0 < valof (OuterDwell c)"
    | "sg = return_seg c" | "sg = inner_seg c" "0 < valof (InnerDwell c)"
  using assms by (auto simp: cycle_segs_def split: if_splits)

lemma index_first [simp]: "index_at (cycle_segs c) 0 = Inr (rise_seg c)"
  by (simp add: index_at_def)

lemma index_last: "xs \<noteq> [] \<Longrightarrow> index_at xs (int (length xs) - 1) = Inr (last xs)"
  by (cases xs) (auto simp: index_at_def last_conv_nth nat_diff_distrib')

lemma motion_specs_valid:
  assumes "config_ok c"
  shows "spec_valid (seg_Spec (rise_seg c))" "spec_valid (seg_Spec (return_seg c))"
  using assms by (simp_all add: config_ok_def spec_valid_def seg_defs)

text \<open>The starts and ends of the segments are finite and in order.\<close>

lemma segment_interval:
  assumes "config_ok c" "sg \<in> set (cycle_segs c)"
  shows "is_finite (seg_Start sg)" "is_finite (seg_End sg)" "0 \<le> valof (seg_Start sg)"
    "valof (seg_Start sg) \<le> valof (seg_End sg)" "valof (seg_End sg) \<le> valof (angle_total c)"
proof -
  note p = pos_bounds [OF assms(1)] and k = assms(1) [unfolded config_ok_def]
  have "is_finite (seg_Start sg) \<and> is_finite (seg_End sg) \<and> 0 \<le> valof (seg_Start sg)
     \<and> valof (seg_Start sg) \<le> valof (seg_End sg) \<and> valof (seg_End sg) \<le> valof (angle_total c)"
    using assms(2)
  proof (cases rule: cycle_segs_cases)
    case rise
    then show ?thesis using p k by (simp add: seg_defs zero_add_pos pos_finite_def)
  next
    case outer
    then show ?thesis using p k by (simp add: seg_defs pos2_def [symmetric] pos_finite_def)
  next
    case ret
    then show ?thesis using p k by (simp add: seg_defs pos3_def [symmetric] pos_finite_def)
  next
    case inner
    then show ?thesis using p k by (simp add: seg_defs angle_total_eq [symmetric] pos_finite_def)
  qed
  then show "is_finite (seg_Start sg)" "is_finite (seg_End sg)" "0 \<le> valof (seg_Start sg)"
    "valof (seg_Start sg) \<le> valof (seg_End sg)" "valof (seg_End sg) \<le> valof (angle_total c)" by auto
qed

subsection \<open>Contiguity\<close>

text \<open>Each segment starts where the one before it ends, and spans its own angle.\<close>

fun contiguous :: "float64 \<Rightarrow> segment list \<Rightarrow> float64 \<Rightarrow> bool" where
  "contiguous p [] q \<longleftrightarrow> p = q"
| "contiguous p (sg # sgs) q \<longleftrightarrow>
     seg_Start sg = p \<and> seg_End sg = p + seg_Beta sg \<and> contiguous (seg_End sg) sgs q"

lemma cycle_segs_contiguous:
  assumes "config_ok c"
  shows "contiguous 0 (cycle_segs c) (angle_total c)"
proof -
  note p = pos_bounds [OF assms] and k = assms [unfolded config_ok_def]
  have r: "0 + RiseAngle c = RiseAngle c" using k by (simp add: zero_add_pos)
  have o: "pos2 c = RiseAngle c" if "\<not> 0 < valof (OuterDwell c)"
    unfolding pos2_def using k that by (intro add_zero_right) auto
  have i: "angle_total c = pos3 c" if "\<not> 0 < valof (InnerDwell c)"
    unfolding angle_total_eq using k p that by (intro add_zero_right) auto
  show ?thesis
    using o i by (auto simp: cycle_segs_def seg_defs r pos2_def [symmetric] pos3_def angle_total_eq)
qed

text \<open>In a contiguous list every angle between the ends lies in some segment.\<close>

lemma contiguous_covers:
  assumes "contiguous p sgs q" "\<forall>sg \<in> set sgs. is_finite (seg_Start sg) \<and> is_finite (seg_End sg)"
    "is_finite theta" "is_finite p" "valof p \<le> valof theta" "valof theta < valof q"
  shows "\<exists>sg \<in> set sgs. seg_Start sg \<le> theta \<and> theta < seg_End sg"
  using assms
proof (induction sgs arbitrary: p)
  case Nil
  then show ?case by simp
next
  case (Cons sg sgs)
  show ?case
  proof (cases "valof theta < valof (seg_End sg)")
    case True
    then show ?thesis using Cons.prems by (auto simp: le_iff_valof less_iff_valof)
  next
    case False
    then have "\<exists>sg \<in> set sgs. seg_Start sg \<le> theta \<and> theta < seg_End sg"
      using Cons.prems by (intro Cons.IH [of "seg_End sg"]) auto
    then show ?thesis by auto
  qed
qed

subsection \<open>Properties of validation and assembly\<close>

text \<open>
  Claim C14. \<open>Config.Validate\<close> against the real values of the parameters. What it accepts has known
  laws, positive finite stroke and speed, motion angles strictly between 0 and 360 degrees, dwell angles in
  the half-open range from 0 to 360 (\<open>config_ok\<close>), and a real sum of the four angles within 1.001e-9 degrees of a
  full turn; conversely all of this with a sum within 0.999e-9 of 360 is accepted, whatever rounding
  the three additions suffer.
\<close>

theorem Config_Validate_sound_complete:
  "(Config_Validate c = Inr () \<longrightarrow> config_ok c \<and> \<bar>real_total c - 360\<bar> \<le> 1001 / 10 ^ 12)
   \<and> (config_ok c \<and> \<bar>real_total c - 360\<bar> \<le> 999 / 10 ^ 12 \<longrightarrow> Config_Validate c = Inr ())"
  using Validate_total [of c] by auto

definition example_config :: config where
  "example_config = \<lparr>RiseLaw = ''cycloid'', ReturnLaw = ''parabolic'', cfg_H = f64 16, RiseAngle = f64 64,
     OuterDwell = f64 32, ReturnAngle = f64 128, InnerDwell = f64 136, cfg_Omega = f64 64\<rparr>"

lemma example_values:
  "is_finite (f64 16)" "valof (f64 16) = 16" "is_finite (f64 32)" "valof (f64 32) = 32"
  "is_finite (f64 64)" "valof (f64 64) = 64" "is_finite (f64 128)" "valof (f64 128) = 128"
  "is_finite (f64 136)" "valof (f64 136) = 136"
  using f64_exact [of 16] f64_exact [of 32] f64_exact [of 64] f64_exact [of 128] f64_exact [of 136] by simp_all

lemma example_config_ok: "config_ok example_config" "real_total example_config = 360"
  by (simp_all add: example_config_def example_values Known_def law_names config_ok_def pos_finite_def real_total_def)

theorem Config_Validate_sound_complete_witness: "Config_Validate example_config = Inr ()"
  using Config_Validate_sound_complete [of example_config] by (simp add: example_config_ok)

text \<open>
  Claim C15. \<open>Build\<close> succeeds exactly on the configurations that \<open>Validate\<close> accepts (and returns its error
  otherwise). The segments then start at angle 0, are contiguous up to \<open>TotalAngle\<close>, which is the sum that was
  validated; they are the rise, the outer dwell, the return and the inner dwell in this
  order, a dwell being left out exactly when its angle is zero, and they all carry the stroke and the speed
  of the configuration.
\<close>

theorem Build_correct:
  "case Build c of
     Inl e \<Rightarrow> Config_Validate c = Inl e
   | Inr b \<Rightarrow> Config_Validate c = Inr ()
       \<and> contiguous 0 (seg_All b) (TotalAngle b) \<and> TotalAngle b = angle_total c
       \<and> map (\<lambda>sg. (seg_Kind sg, seg_Law sg, seg_Beta sg)) (seg_All b)
           = [(''rise'', RiseLaw c, RiseAngle c)]
             @ (if feq (OuterDwell c) 0 then [] else [(''outer_dwell'', '''', OuterDwell c)])
             @ [(''return'', ReturnLaw c, ReturnAngle c)]
             @ (if feq (InnerDwell c) 0 then [] else [(''inner_dwell'', '''', InnerDwell c)])
       \<and> list_all (\<lambda>sg. seg_Spec sg = \<lparr>spec_Type = seg_Law sg, spec_H = cfg_H c,
              spec_Beta = seg_Beta sg, spec_Omega = cfg_Omega c\<rparr>) (seg_All b)"
proof (cases "Config_Validate c")
  case (Inl e)
  then show ?thesis by (simp add: Build_def)
next
  case (Inr u)
  then have v: "Config_Validate c = Inr ()" by simp
  then have ok: "config_ok c" by (simp add: Config_Validate_ok)
  have z: "feq (OuterDwell c) 0 \<longleftrightarrow> \<not> 0 < valof (OuterDwell c)" "feq (InnerDwell c) 0 \<longleftrightarrow> \<not> 0 < valof (InnerDwell c)"
    using ok by (auto simp: config_ok_def feq_iff_valof)
  show ?thesis
    using cycle_segs_contiguous [OF ok] by (simp add: Build_valid [OF v] v z cycle_segs_def seg_defs)
qed

end
