(* ===== verification/Json_Scanner.thy ===== *)
theory Json_Scanner
  imports Utf8 Errors
begin

text \<open>
  The state machine of \<open>encoding/json/scanner.go\<close>. The function value \<open>step\<close> of the scanner is a constructor of
  \<open>step_fn\<close>, one per state function; each state function of the source is a definition that returns the
  new scanner and the opcode. The stack \<open>parseState\<close> is kept with its innermost entry first. The
  byte count, which only fills the offset of an error and is not part of its message, is left out.
\<close>

datatype step_fn =
    BeginValueOrEmpty | BeginValue | BeginStringOrEmpty | BeginString | EndValue | EndTop
  | InString | InStringEsc | InStringEscU | InStringEscU1 | InStringEscU12 | InStringEscU123
  | Neg | State1 | State0 | Dot | Dot0 | StE | StESign | StE0
  | StT | StTr | StTru | StF | StFa | StFal | StFals | StN | StNu | StNul | StError

datatype opcode =
    scanContinue | scanBeginLiteral | scanBeginObject | scanObjectKey | scanObjectValue | scanEndObject
  | scanBeginArray | scanArrayValue | scanEndArray | scanSkipSpace | scanEnd | scanError

datatype parse_state = parseObjectKey | parseObjectValue | parseArrayValue

record scanner =
  sc_step :: step_fn
  sc_endTop :: bool
  sc_parseState :: "parse_state list"
  sc_err :: "go_error option"

definition maxNestingDepth :: nat where "maxNestingDepth = 10000"

definition scan_reset :: scanner where
  "scan_reset = \<lparr>sc_step = BeginValue, sc_endTop = False, sc_parseState = [], sc_err = None\<rparr>"

definition scan_fail :: "scanner \<Rightarrow> char \<Rightarrow> string \<Rightarrow> scanner \<times> opcode" where
  "scan_fail s c ctx = (s\<lparr>sc_step := StError, sc_err := Some (Json_Invalid_Char c ctx)\<rparr>, scanError)"

definition pushParseState :: "scanner \<Rightarrow> char \<Rightarrow> parse_state \<Rightarrow> opcode \<Rightarrow> scanner \<times> opcode" where
  "pushParseState s c newParseState successState =
     (let s = s\<lparr>sc_parseState := newParseState # sc_parseState s\<rparr> in
      if length (sc_parseState s) \<le> maxNestingDepth then (s, successState)
      else scan_fail s c ''exceeded max depth'')"

definition popParseState :: "scanner \<Rightarrow> scanner" where
  "popParseState s =
     (let s = s\<lparr>sc_parseState := tl (sc_parseState s)\<rparr> in
      if sc_parseState s = [] then s\<lparr>sc_step := EndTop, sc_endTop := True\<rparr>
      else s\<lparr>sc_step := EndValue\<rparr>)"

definition isSpace :: "char \<Rightarrow> bool" where
  "isSpace c \<longleftrightarrow> c \<in> {CHR '' '', CHR 0x09, CHR 0x0D, CHR 0x0A}"

definition digit :: "char \<Rightarrow> bool" where
  "digit c \<longleftrightarrow> byte (CHR ''0'') \<le> byte c \<and> byte c \<le> byte (CHR ''9'')"

definition digit19 :: "char \<Rightarrow> bool" where
  "digit19 c \<longleftrightarrow> byte (CHR ''1'') \<le> byte c \<and> byte c \<le> byte (CHR ''9'')"

definition hexdigit :: "char \<Rightarrow> bool" where
  "hexdigit c \<longleftrightarrow> digit c \<or> byte (CHR ''a'') \<le> byte c \<and> byte c \<le> byte (CHR ''f'')
     \<or> byte (CHR ''A'') \<le> byte c \<and> byte c \<le> byte (CHR ''F'')"

definition stateEndTop :: "scanner \<Rightarrow> char \<Rightarrow> scanner \<times> opcode" where
  "stateEndTop s c =
     (if \<not> isSpace c then (fst (scan_fail s c ''after top-level value''), scanEnd) else (s, scanEnd))"

definition stateEndValue :: "scanner \<Rightarrow> char \<Rightarrow> scanner \<times> opcode" where
  "stateEndValue s c =
     (case sc_parseState s of
        [] \<Rightarrow> stateEndTop (s\<lparr>sc_step := EndTop, sc_endTop := True\<rparr>) c
      | ps # rest \<Rightarrow>
          if isSpace c then (s\<lparr>sc_step := EndValue\<rparr>, scanSkipSpace)
          else (case ps of
              parseObjectKey \<Rightarrow>
                if c = CHR '':'' then
                  (s\<lparr>sc_parseState := parseObjectValue # rest, sc_step := BeginValue\<rparr>, scanObjectKey)
                else scan_fail s c ''after object key''
            | parseObjectValue \<Rightarrow>
                if c = CHR '','' then
                  (s\<lparr>sc_parseState := parseObjectKey # rest, sc_step := BeginString\<rparr>, scanObjectValue)
                else if c = CHR ''}'' then (popParseState s, scanEndObject)
                else scan_fail s c ''after object key:value pair''
            | parseArrayValue \<Rightarrow>
                if c = CHR '','' then (s\<lparr>sc_step := BeginValue\<rparr>, scanArrayValue)
                else if c = CHR '']'' then (popParseState s, scanEndArray)
                else scan_fail s c ''after array element''))"

definition stateBeginValue :: "scanner \<Rightarrow> char \<Rightarrow> scanner \<times> opcode" where
  "stateBeginValue s c =
     (if isSpace c then (s, scanSkipSpace)
      else if c = CHR ''{'' then pushParseState (s\<lparr>sc_step := BeginStringOrEmpty\<rparr>) c parseObjectKey scanBeginObject
      else if c = CHR ''['' then pushParseState (s\<lparr>sc_step := BeginValueOrEmpty\<rparr>) c parseArrayValue scanBeginArray
      else if c = CHR 0x22 then (s\<lparr>sc_step := InString\<rparr>, scanBeginLiteral)
      else if c = CHR ''-'' then (s\<lparr>sc_step := Neg\<rparr>, scanBeginLiteral)
      else if c = CHR ''0'' then (s\<lparr>sc_step := State0\<rparr>, scanBeginLiteral)
      else if c = CHR ''t'' then (s\<lparr>sc_step := StT\<rparr>, scanBeginLiteral)
      else if c = CHR ''f'' then (s\<lparr>sc_step := StF\<rparr>, scanBeginLiteral)
      else if c = CHR ''n'' then (s\<lparr>sc_step := StN\<rparr>, scanBeginLiteral)
      else if digit19 c then (s\<lparr>sc_step := State1\<rparr>, scanBeginLiteral)
      else scan_fail s c ''looking for beginning of value'')"

definition stateBeginValueOrEmpty :: "scanner \<Rightarrow> char \<Rightarrow> scanner \<times> opcode" where
  "stateBeginValueOrEmpty s c =
     (if isSpace c then (s, scanSkipSpace)
      else if c = CHR '']'' then stateEndValue s c
      else stateBeginValue s c)"

definition stateBeginString :: "scanner \<Rightarrow> char \<Rightarrow> scanner \<times> opcode" where
  "stateBeginString s c =
     (if isSpace c then (s, scanSkipSpace)
      else if c = CHR 0x22 then (s\<lparr>sc_step := InString\<rparr>, scanBeginLiteral)
      else scan_fail s c ''looking for beginning of object key string'')"

definition stateBeginStringOrEmpty :: "scanner \<Rightarrow> char \<Rightarrow> scanner \<times> opcode" where
  "stateBeginStringOrEmpty s c =
     (if isSpace c then (s, scanSkipSpace)
      else if c = CHR ''}'' then
        stateEndValue (s\<lparr>sc_parseState := parseObjectValue # tl (sc_parseState s)\<rparr>) c
      else stateBeginString s c)"

definition stateInString :: "scanner \<Rightarrow> char \<Rightarrow> scanner \<times> opcode" where
  "stateInString s c =
     (if c = CHR 0x22 then (s\<lparr>sc_step := EndValue\<rparr>, scanContinue)
      else if c = CHR 0x5C then (s\<lparr>sc_step := InStringEsc\<rparr>, scanContinue)
      else if byte c < 0x20 then scan_fail s c ''in string literal''
      else (s, scanContinue))"

definition stateInStringEsc :: "scanner \<Rightarrow> char \<Rightarrow> scanner \<times> opcode" where
  "stateInStringEsc s c =
     (if c \<in> {CHR ''b'', CHR ''f'', CHR ''n'', CHR ''r'', CHR ''t'', CHR 0x5C, CHR ''/'', CHR 0x22} then
        (s\<lparr>sc_step := InString\<rparr>, scanContinue)
      else if c = CHR ''u'' then (s\<lparr>sc_step := InStringEscU\<rparr>, scanContinue)
      else scan_fail s c ''in string escape code'')"

definition escape_ctx :: string where "escape_ctx = ''in '' @ [CHR 0x5C] @ ''u hexadecimal character escape''"

definition stateInStringEscU :: "scanner \<Rightarrow> char \<Rightarrow> scanner \<times> opcode" where
  "stateInStringEscU s c =
     (if hexdigit c then (s\<lparr>sc_step := InStringEscU1\<rparr>, scanContinue) else scan_fail s c escape_ctx)"

definition stateInStringEscU1 :: "scanner \<Rightarrow> char \<Rightarrow> scanner \<times> opcode" where
  "stateInStringEscU1 s c =
     (if hexdigit c then (s\<lparr>sc_step := InStringEscU12\<rparr>, scanContinue) else scan_fail s c escape_ctx)"

definition stateInStringEscU12 :: "scanner \<Rightarrow> char \<Rightarrow> scanner \<times> opcode" where
  "stateInStringEscU12 s c =
     (if hexdigit c then (s\<lparr>sc_step := InStringEscU123\<rparr>, scanContinue) else scan_fail s c escape_ctx)"

definition stateInStringEscU123 :: "scanner \<Rightarrow> char \<Rightarrow> scanner \<times> opcode" where
  "stateInStringEscU123 s c =
     (if hexdigit c then (s\<lparr>sc_step := InString\<rparr>, scanContinue) else scan_fail s c escape_ctx)"

definition stateNeg :: "scanner \<Rightarrow> char \<Rightarrow> scanner \<times> opcode" where
  "stateNeg s c =
     (if c = CHR ''0'' then (s\<lparr>sc_step := State0\<rparr>, scanContinue)
      else if digit19 c then (s\<lparr>sc_step := State1\<rparr>, scanContinue)
      else scan_fail s c ''in numeric literal'')"

definition state0 :: "scanner \<Rightarrow> char \<Rightarrow> scanner \<times> opcode" where
  "state0 s c =
     (if c = CHR ''.'' then (s\<lparr>sc_step := Dot\<rparr>, scanContinue)
      else if c = CHR ''e'' \<or> c = CHR ''E'' then (s\<lparr>sc_step := StE\<rparr>, scanContinue)
      else stateEndValue s c)"

definition state1 :: "scanner \<Rightarrow> char \<Rightarrow> scanner \<times> opcode" where
  "state1 s c = (if digit c then (s\<lparr>sc_step := State1\<rparr>, scanContinue) else state0 s c)"

definition stateDot :: "scanner \<Rightarrow> char \<Rightarrow> scanner \<times> opcode" where
  "stateDot s c =
     (if digit c then (s\<lparr>sc_step := Dot0\<rparr>, scanContinue)
      else scan_fail s c ''after decimal point in numeric literal'')"

definition stateDot0 :: "scanner \<Rightarrow> char \<Rightarrow> scanner \<times> opcode" where
  "stateDot0 s c =
     (if digit c then (s, scanContinue)
      else if c = CHR ''e'' \<or> c = CHR ''E'' then (s\<lparr>sc_step := StE\<rparr>, scanContinue)
      else stateEndValue s c)"

definition stateESign :: "scanner \<Rightarrow> char \<Rightarrow> scanner \<times> opcode" where
  "stateESign s c =
     (if digit c then (s\<lparr>sc_step := StE0\<rparr>, scanContinue)
      else scan_fail s c ''in exponent of numeric literal'')"

definition stateE :: "scanner \<Rightarrow> char \<Rightarrow> scanner \<times> opcode" where
  "stateE s c =
     (if c = CHR ''+'' \<or> c = CHR ''-'' then (s\<lparr>sc_step := StESign\<rparr>, scanContinue) else stateESign s c)"

definition stateE0 :: "scanner \<Rightarrow> char \<Rightarrow> scanner \<times> opcode" where
  "stateE0 s c = (if digit c then (s, scanContinue) else stateEndValue s c)"

text \<open>The states inside \<open>true\<close>, \<open>false\<close> and \<open>null\<close> expect one letter each.\<close>

definition expect :: "char \<Rightarrow> step_fn \<Rightarrow> string \<Rightarrow> scanner \<Rightarrow> char \<Rightarrow> scanner \<times> opcode" where
  "expect x nxt ctx s c = (if c = x then (s\<lparr>sc_step := nxt\<rparr>, scanContinue) else scan_fail s c ctx)"

definition expecting :: "string \<Rightarrow> char \<Rightarrow> string" where
  "expecting lit x = ''in literal '' @ lit @ '' (expecting '' @ [CHR 0x27, x, CHR 0x27] @ '')''"

definition stateT :: "scanner \<Rightarrow> char \<Rightarrow> scanner \<times> opcode" where
  "stateT = expect (CHR ''r'') StTr (expecting ''true'' (CHR ''r''))"

definition stateTr :: "scanner \<Rightarrow> char \<Rightarrow> scanner \<times> opcode" where
  "stateTr = expect (CHR ''u'') StTru (expecting ''true'' (CHR ''u''))"

definition stateTru :: "scanner \<Rightarrow> char \<Rightarrow> scanner \<times> opcode" where
  "stateTru = expect (CHR ''e'') EndValue (expecting ''true'' (CHR ''e''))"

definition stateF :: "scanner \<Rightarrow> char \<Rightarrow> scanner \<times> opcode" where
  "stateF = expect (CHR ''a'') StFa (expecting ''false'' (CHR ''a''))"

definition stateFa :: "scanner \<Rightarrow> char \<Rightarrow> scanner \<times> opcode" where
  "stateFa = expect (CHR ''l'') StFal (expecting ''false'' (CHR ''l''))"

definition stateFal :: "scanner \<Rightarrow> char \<Rightarrow> scanner \<times> opcode" where
  "stateFal = expect (CHR ''s'') StFals (expecting ''false'' (CHR ''s''))"

definition stateFals :: "scanner \<Rightarrow> char \<Rightarrow> scanner \<times> opcode" where
  "stateFals = expect (CHR ''e'') EndValue (expecting ''false'' (CHR ''e''))"

definition stateN :: "scanner \<Rightarrow> char \<Rightarrow> scanner \<times> opcode" where
  "stateN = expect (CHR ''u'') StNu (expecting ''null'' (CHR ''u''))"

definition stateNu :: "scanner \<Rightarrow> char \<Rightarrow> scanner \<times> opcode" where
  "stateNu = expect (CHR ''l'') StNul (expecting ''null'' (CHR ''l''))"

definition stateNul :: "scanner \<Rightarrow> char \<Rightarrow> scanner \<times> opcode" where
  "stateNul = expect (CHR ''l'') EndValue (expecting ''null'' (CHR ''l''))"

definition stateError :: "scanner \<Rightarrow> char \<Rightarrow> scanner \<times> opcode" where
  "stateError s c = (s, scanError)"

fun step_of :: "step_fn \<Rightarrow> scanner \<Rightarrow> char \<Rightarrow> scanner \<times> opcode" where
  "step_of BeginValueOrEmpty = stateBeginValueOrEmpty"
| "step_of BeginValue = stateBeginValue"
| "step_of BeginStringOrEmpty = stateBeginStringOrEmpty"
| "step_of BeginString = stateBeginString"
| "step_of EndValue = stateEndValue"
| "step_of EndTop = stateEndTop"
| "step_of InString = stateInString"
| "step_of InStringEsc = stateInStringEsc"
| "step_of InStringEscU = stateInStringEscU"
| "step_of InStringEscU1 = stateInStringEscU1"
| "step_of InStringEscU12 = stateInStringEscU12"
| "step_of InStringEscU123 = stateInStringEscU123"
| "step_of Neg = stateNeg"
| "step_of State1 = state1"
| "step_of State0 = state0"
| "step_of Dot = stateDot"
| "step_of Dot0 = stateDot0"
| "step_of StE = stateE"
| "step_of StESign = stateESign"
| "step_of StE0 = stateE0"
| "step_of StT = stateT"
| "step_of StTr = stateTr"
| "step_of StTru = stateTru"
| "step_of StF = stateF"
| "step_of StFa = stateFa"
| "step_of StFal = stateFal"
| "step_of StFals = stateFals"
| "step_of StN = stateN"
| "step_of StNu = stateNu"
| "step_of StNul = stateNul"
| "step_of StError = stateError"

text \<open>The call \<open>s.step(s, c)\<close>.\<close>

definition scan_step :: "scanner \<Rightarrow> char \<Rightarrow> scanner \<times> opcode" where
  "scan_step s c = step_of (sc_step s) s c"

definition scan_eof :: "scanner \<Rightarrow> scanner \<times> opcode" where
  "scan_eof s =
     (if sc_err s \<noteq> None then (s, scanError)
      else if sc_endTop s then (s, scanEnd)
      else
        let s = fst (scan_step s (CHR '' '')) in
        if sc_endTop s then (s, scanEnd)
        else if sc_err s = None then (s\<lparr>sc_err := Some Json_Unexpected_End\<rparr>, scanError)
        else (s, scanError))"

fun checkValid_from :: "scanner \<Rightarrow> string \<Rightarrow> go_error option" where
  "checkValid_from s [] = (case scan_eof s of (s', op) \<Rightarrow> if op = scanError then sc_err s' else None)"
| "checkValid_from s (c # cs) =
     (case scan_step s c of (s', op) \<Rightarrow> if op = scanError then sc_err s' else checkValid_from s' cs)"

definition checkValid :: "string \<Rightarrow> go_error option" where
  "checkValid data = checkValid_from scan_reset data"

definition Valid :: "string \<Rightarrow> bool" where
  "Valid data \<longleftrightarrow> checkValid data = None"

end
