(* ===== verification/Strconv.thy ===== *)
theory Strconv
  imports Utf8 Errors
begin

text \<open>
  Integers of package \<open>strconv\<close> (\<open>atoi.go\<close>): \<open>ParseUint\<close>, \<open>ParseInt\<close> and \<open>Atoi\<close>, on 64-bit words with the overflow
  tests of the source. A call returns its value and its error, as in Go: a range error comes with the
  saturated value.
\<close>

unbundle bit_operations_syntax

subsection \<open>Characters\<close>

definition lower :: "char \<Rightarrow> nat" where
  "lower c = byte c OR 0x20"

definition is_digit :: "char \<Rightarrow> bool" where
  "is_digit c \<longleftrightarrow> 0x30 \<le> byte c \<and> byte c \<le> 0x39"

definition digit_val :: "char \<Rightarrow> nat" where
  "digit_val c = byte c - 0x30"

definition is_sign :: "char \<Rightarrow> bool" where
  "is_sign c \<longleftrightarrow> c = CHR ''-'' \<or> c = CHR ''+''"

subsection \<open>Underscores\<close>

text \<open>The class of the last character: \<open>^\<close> at the beginning, \<open>0\<close> after a digit or prefix, \<open>_\<close> and \<open>!\<close> for anything else.\<close>

datatype saw = Saw_Begin | Saw_Digit | Saw_Underscore | Saw_Other

fun underscore_loop :: "bool \<Rightarrow> saw \<Rightarrow> string \<Rightarrow> bool" where
  "underscore_loop hex s [] = (s \<noteq> Saw_Underscore)"
| "underscore_loop hex s (c # cs) =
     (if is_digit c \<or> hex \<and> 0x61 \<le> lower c \<and> lower c \<le> 0x66 then underscore_loop hex Saw_Digit cs
      else if c = CHR ''_'' then
        (if s \<noteq> Saw_Digit then False else underscore_loop hex Saw_Underscore cs)
      else if s = Saw_Underscore then False
      else underscore_loop hex Saw_Other cs)"

definition underscoreOK :: "string \<Rightarrow> bool" where
  "underscoreOK s =
     (let s = (if 1 \<le> length s \<and> is_sign (s ! 0) then drop 1 s else s) in
      if 2 \<le> length s \<and> s ! 0 = CHR ''0'' \<and> lower (s ! 1) \<in> {0x62, 0x6F, 0x78} then
        underscore_loop (lower (s ! 1) = 0x78) Saw_Digit (drop 2 s)
      else underscore_loop False Saw_Begin s)"

subsection \<open>Unsigned integers\<close>

definition maxUint64 :: nat where "maxUint64 = 2 ^ 64 - 1"

definition uint_digit :: "char \<Rightarrow> nat option" where
  "uint_digit c =
     (if is_digit c then Some (byte c - 0x30)
      else if 0x61 \<le> lower c \<and> lower c \<le> 0x7A then Some (lower c - 0x61 + 10)
      else None)"

text \<open>The digit loop of \<open>ParseUint\<close>; the last component tells whether an underscore was seen.\<close>

fun parse_digits :: "bool \<Rightarrow> nat \<Rightarrow> 64 word \<Rightarrow> 64 word \<Rightarrow> bool \<Rightarrow> 64 word \<Rightarrow> string \<Rightarrow> 64 word \<times> go_error option \<times> bool" where
  "parse_digits base0 base cutoff maxVal us n [] = (n, None, us)"
| "parse_digits base0 base cutoff maxVal us n (c # cs) =
     (if c = CHR ''_'' \<and> base0 then parse_digits base0 base cutoff maxVal True n cs
      else case uint_digit c of
        None \<Rightarrow> (0, Some Parse_Syntax, us)
      | Some d \<Rightarrow>
          if base \<le> d then (0, Some Parse_Syntax, us)
          else if cutoff \<le> n then (maxVal, Some Parse_Range, us)
          else
            let n = n * of_nat base; n1 = n + of_nat d in
            if n1 < n \<or> maxVal < n1 then (maxVal, Some Parse_Range, us)
            else parse_digits base0 base cutoff maxVal us n1 cs)"

definition base_prefix :: "string \<Rightarrow> nat \<times> string" where
  "base_prefix s =
     (if s ! 0 = CHR ''0'' then
        (if 3 \<le> length s \<and> lower (s ! 1) = 0x62 then (2, drop 2 s)
         else if 3 \<le> length s \<and> lower (s ! 1) = 0x6F then (8, drop 2 s)
         else if 3 \<le> length s \<and> lower (s ! 1) = 0x78 then (16, drop 2 s)
         else (8, drop 1 s))
      else (10, s))"

definition ParseUint :: "string \<Rightarrow> int \<Rightarrow> int \<Rightarrow> 64 word \<times> go_error option" where
  "ParseUint s base bitSize =
     (if s = [] then (0, Some Parse_Syntax)
      else if \<not> (2 \<le> base \<and> base \<le> 36) \<and> base \<noteq> 0 then (0, Some Parse_Bad_Base)
      else
        let s0 = s;
            base0 = (base = 0);
            (base, s) = (if 2 \<le> base \<and> base \<le> 36 then (nat base, s) else base_prefix s) in
        if bitSize < 0 \<or> 64 < bitSize then (0, Some Parse_Bad_Bit_Size)
        else
          let bits = (if bitSize = 0 then 64 else nat bitSize);
              cutoff = of_nat (maxUint64 div base + 1);
              maxVal = push_bit bits 1 - 1;
              (n, err, underscores) = parse_digits base0 base cutoff maxVal False 0 s in
          if err \<noteq> None then (n, err)
          else if underscores \<and> \<not> underscoreOK s0 then (0, Some Parse_Syntax)
          else (n, None))"

subsection \<open>Signed integers\<close>

definition ParseInt :: "string \<Rightarrow> int \<Rightarrow> int \<Rightarrow> int \<times> go_error option" where
  "ParseInt s base bitSize =
     (if s = [] then (0, Some Parse_Syntax)
      else
        let neg = (s ! 0 = CHR ''-'');
            s = (if is_sign (s ! 0) then drop 1 s else s);
            (un, err) = ParseUint s base bitSize in
        if err \<noteq> None \<and> err \<noteq> Some Parse_Range then (0, err)
        else
          let bits = (if bitSize = 0 then 64 else nat bitSize);
              cutoff = push_bit (bits - 1) (1 :: 64 word) in
          if \<not> neg \<and> cutoff \<le> un then (sint (cutoff - 1), Some Parse_Range)
          else if neg \<and> cutoff < un then (sint (- cutoff), Some Parse_Range)
          else (sint (if neg then - un else un), None))"

text \<open>The loop of the fast path of \<open>Atoi\<close>: \<open>ch -= '0'\<close> wraps in a byte, so one comparison rejects everything but digits.\<close>

fun atoi_loop :: "int \<Rightarrow> string \<Rightarrow> int option" where
  "atoi_loop n [] = Some n"
| "atoi_loop n (c # cs) =
     (let ch = (of_nat (byte c) - 0x30 :: 8 word) in
      if 9 < ch then None else atoi_loop (n * 10 + uint ch) cs)"

definition Atoi :: "string \<Rightarrow> int \<times> go_error option" where
  "Atoi s =
     (if 0 < length s \<and> length s < 19 then
        (let s0 = s; s = (if is_sign (s ! 0) then drop 1 s else s) in
         if is_sign (s0 ! 0) \<and> length s < 1 then (0, Some Parse_Syntax)
         else case atoi_loop 0 s of
           None \<Rightarrow> (0, Some Parse_Syntax)
         | Some n \<Rightarrow> ((if s0 ! 0 = CHR ''-'' then - n else n), None))
      else ParseInt s 10 0)"

subsection \<open>Decimal strings\<close>

definition dec_from :: "nat \<Rightarrow> string \<Rightarrow> nat" where
  "dec_from n cs = foldl (\<lambda>n c. n * 10 + digit_val c) n cs"

definition unsigned_part :: "string \<Rightarrow> string" where
  "unsigned_part s = (if s \<noteq> [] \<and> is_sign (hd s) then tl s else s)"

definition int_syntax :: "string \<Rightarrow> bool" where
  "int_syntax s \<longleftrightarrow> unsigned_part s \<noteq> [] \<and> list_all is_digit (unsigned_part s)"

definition int_value :: "string \<Rightarrow> int" where
  "int_value s = (if hd s = CHR ''-'' then - int (dec_from 0 (unsigned_part s)) else int (dec_from 0 (unsigned_part s)))"

lemma dec_from_simps [simp]:
  "dec_from n [] = n" "dec_from n (c # cs) = dec_from (n * 10 + digit_val c) cs"
  by (simp_all add: dec_from_def)

lemma dec_from_mono: "m \<le> n \<Longrightarrow> dec_from m cs \<le> dec_from n cs"
  by (induction cs arbitrary: m n) auto

lemma dec_from_ge: "n \<le> dec_from n cs"
proof (induction cs arbitrary: n)
  case (Cons c cs)
  have "n \<le> n * 10 + digit_val c" by simp
  then show ?case using Cons [of "n * 10 + digit_val c"] by simp
qed simp

lemma dec_from_less: "list_all is_digit cs \<Longrightarrow> dec_from n cs < (n + 1) * 10 ^ length cs"
proof (induction cs arbitrary: n)
  case (Cons c cs)
  have "dec_from (n * 10 + digit_val c) cs < (n * 10 + digit_val c + 1) * 10 ^ length cs" using Cons by simp
  also have "\<dots> \<le> ((n + 1) * 10) * 10 ^ length cs"
    by (rule mult_le_mono1) (use Cons in \<open>auto simp: is_digit_def digit_val_def\<close>)
  finally show ?case by (simp add: algebra_simps)
qed simp


lemma uint_digit_digit: "is_digit c \<Longrightarrow> uint_digit c = Some (digit_val c)" "is_digit c \<Longrightarrow> digit_val c < 10"
  by (auto simp: uint_digit_def is_digit_def digit_val_def)

lemma parse_digits_step:
  fixes n :: "64 word"
  assumes d: "d < 10"
  defines "cutoff \<equiv> of_nat (maxUint64 div 10 + 1) :: 64 word"
  shows "unat n * 10 + d < 2 ^ 64 \<Longrightarrow> \<not> cutoff \<le> n \<and> unat (n * 10 + of_nat d) = unat n * 10 + d
      \<and> \<not> n * 10 + of_nat d < n * 10"
    and "\<not> unat n * 10 + d < 2 ^ 64 \<Longrightarrow> cutoff \<le> n \<or> n * 10 + of_nat d < n * 10"
proof -
  have c: "unat cutoff = 1844674407370955162" by (simp add: cutoff_def maxUint64_def)
  have le: "cutoff \<le> n \<longleftrightarrow> 1844674407370955162 \<le> unat n" by (simp add: word_le_nat_alt c)
  have d': "unat (of_nat d :: 64 word) = d" using d by (simp add: unat_of_nat)
  have m: "unat (n * 10) = unat n * 10" if "\<not> cutoff \<le> n"
    using that unfolding le by (subst unat_mult_lem [THEN iffD1]) auto
  show "\<not> cutoff \<le> n \<and> unat (n * 10 + of_nat d) = unat n * 10 + d \<and> \<not> n * 10 + of_nat d < n * 10"
    if "unat n * 10 + d < 2 ^ 64"
  proof -
    have nc: "\<not> cutoff \<le> n" unfolding le using that by auto
    have "unat (n * 10 + of_nat d) = unat n * 10 + d"
      using that by (subst unat_plus_if_size) (simp add: m [OF nc] d' word_size)
    then show ?thesis using nc m [OF nc] by (auto simp: word_less_nat_alt)
  qed
  show "cutoff \<le> n \<or> n * 10 + of_nat d < n * 10" if "\<not> unat n * 10 + d < 2 ^ 64"
  proof (rule ccontr)
    assume "\<not> ?thesis"
    then have nc: "\<not> cutoff \<le> n" and "\<not> n * 10 + of_nat d < n * 10" by auto
    moreover have "unat (n * 10 + of_nat d) = unat n * 10 + d - 2 ^ 64"
      using that by (subst unat_plus_if_size) (simp add: m [OF nc] d' word_size)
    ultimately show False using m [OF nc] that d by (simp add: word_less_nat_alt)
  qed
qed

lemma parse_digits_decimal:
  assumes "list_all is_digit cs"
  shows "parse_digits False 10 (of_nat (maxUint64 div 10 + 1)) (push_bit 64 1 - 1) us n cs
    = (if dec_from (unat n) cs < 2 ^ 64 then (of_nat (dec_from (unat n) cs), None, us)
       else (-1, Some Parse_Range, us))"
  using assms
proof (induction cs arbitrary: n)
  case Nil
  have "unat n < 2 ^ 64" by (rule less_le_trans [OF unsigned_less]) simp
  then show ?case by simp
next
  case (Cons c cs)
  define d where "d = digit_val c"
  have d: "uint_digit c = Some d" "d < 10" using Cons uint_digit_digit [of c] by (auto simp: d_def)
  have mx: "push_bit 64 (1 :: 64 word) - 1 = -1" by (simp add: push_bit_eq_mult)
  show ?case
  proof (cases "unat n * 10 + d < 2 ^ 64")
    case True
    note s = parse_digits_step(1) [OF d(2) True]
    have "\<not> (-1 :: 64 word) < n * 10 + of_nat d" using word_n1_ge [of "n * 10 + of_nat d"] by (simp only: not_less)
    then have "parse_digits False 10 (of_nat (maxUint64 div 10 + 1)) (push_bit 64 1 - 1) us n (c # cs)
      = parse_digits False 10 (of_nat (maxUint64 div 10 + 1)) (push_bit 64 1 - 1) us (n * 10 + of_nat d) cs"
      using s d unfolding mx parse_digits.simps(2) Let_def by simp
    then show ?thesis using Cons(1) [of "n * 10 + of_nat d"] Cons(2) s by (simp add: d_def)
  next
    case False
    then have big: "\<not> dec_from (unat n * 10 + d) cs < 2 ^ 64"
      using dec_from_ge [of "unat n * 10 + d" cs] by linarith
    show ?thesis using parse_digits_step(2) [OF d(2) False] d mx big by (auto simp: d_def [symmetric] Let_def)
  qed
qed

lemma parse_digits_not_decimal:
  assumes "\<not> list_all is_digit cs"
  shows "fst (snd (parse_digits False 10 cutoff maxVal us n cs)) \<noteq> None"
  using assms
proof (induction cs arbitrary: n)
  case (Cons c cs)
  have "uint_digit c = None \<or> 10 \<le> the (uint_digit c)" if "\<not> is_digit c"
    using that by (auto simp: uint_digit_def)
  then show ?case using Cons by (auto simp: Let_def split: option.splits)
qed simp

lemma atoi_byte: "\<not> 9 < (of_nat (byte c) - 0x30 :: 8 word) \<longleftrightarrow> is_digit c"
  "is_digit c \<Longrightarrow> uint (of_nat (byte c) - 0x30 :: 8 word) = int (digit_val c)"
proof -
  have u: "uint (of_nat (byte c) :: 8 word) = int (byte c)"
    by (simp add: unsigned_of_nat take_bit_nat_eq_self)
  have s: "uint (of_nat (byte c) - 0x30 :: 8 word)
    = (if 0x30 \<le> byte c then int (byte c) - 0x30 else int (byte c) - 0x30 + 256)"
    using byte_less [of c] by (simp add: uint_sub_if_size u word_size)
  show "\<not> 9 < (of_nat (byte c) - 0x30 :: 8 word) \<longleftrightarrow> is_digit c"
    unfolding word_less_def s using byte_less [of c] by (auto simp: is_digit_def)
  show "is_digit c \<Longrightarrow> uint (of_nat (byte c) - 0x30 :: 8 word) = int (digit_val c)"
    unfolding s by (auto simp: is_digit_def digit_val_def)
qed

lemma atoi_loop_eq:
  "atoi_loop (int n) cs = (if list_all is_digit cs then Some (int (dec_from n cs)) else None)"
proof (induction cs arbitrary: n)
  case (Cons c cs)
  have e: "is_digit c \<Longrightarrow> int n * 10 + uint (of_nat (byte c) - 0x30 :: 8 word) = int (n * 10 + digit_val c)"
    using atoi_byte(2) by simp
  show ?case
  proof (cases "is_digit c")
    case True
    then show ?thesis using Cons [of "n * 10 + digit_val c"] atoi_byte(1) [of c] e by (simp add: Let_def)
  next
    case False
    then show ?thesis using atoi_byte(1) [of c] by (simp add: Let_def)
  qed
qed simp

lemma unsigned_part_nth: "s \<noteq> [] \<Longrightarrow> unsigned_part s = (if is_sign (s ! 0) then drop 1 s else s)"
  by (cases s) (simp_all add: unsigned_part_def)

text \<open>The saturating conversion that \<open>ParseInt\<close> and \<open>Atoi\<close> promise.\<close>

definition saturate :: "int \<Rightarrow> int \<times> go_error option" where
  "saturate v = (if v < - (2 ^ 63) then (- (2 ^ 63), Some Parse_Range)
     else if 2 ^ 63 \<le> v then (2 ^ 63 - 1, Some Parse_Range) else (v, None))"

lemma sint64:
  fixes w :: "64 word"
  shows "sint w = (if uint w < 2 ^ 63 then uint w else uint w - 2 ^ 64)"
proof -
  have w: "0 \<le> uint w" "uint w < 2 ^ 64" using uint_lt2p [of w] by auto
  have "bit (uint w) 63 \<longleftrightarrow> 2 ^ 63 \<le> uint w"
  proof (cases "2 ^ 63 \<le> uint w")
    case True
    then have "uint w div 2 ^ 63 = 1" using w by (intro int_div_pos_eq [of _ _ _ "uint w - 2 ^ 63"]) auto
    then show ?thesis using True by (simp add: bit_iff_odd)
  next
    case False
    then have "uint w div 2 ^ 63 = 0" using w by (simp add: div_pos_pos_trivial)
    then show ?thesis using False by (simp add: bit_iff_odd)
  qed
  then show ?thesis using w by (simp add: sint_uint signed_take_bit_eq_take_bit_minus take_bit_int_eq_self)
qed

lemma ParseUint_decimal:
  assumes "s \<noteq> []" "list_all is_digit s" "bitSize = 0 \<or> bitSize = 64"
  shows "ParseUint s 10 bitSize
    = (if dec_from 0 s < 2 ^ 64 then (of_nat (dec_from 0 s), None) else (-1, Some Parse_Range))"
  using assms parse_digits_decimal [of s False 0] by (auto simp: ParseUint_def)

lemma ParseUint_not_decimal:
  assumes "s = [] \<or> \<not> list_all is_digit s" "bitSize = 0 \<or> bitSize = 64"
  shows "snd (ParseUint s 10 bitSize) \<noteq> None"
  using assms parse_digits_not_decimal [of s "of_nat (maxUint64 div 10 + 1)" "push_bit 64 1 - 1" False 0]
  by (auto simp: ParseUint_def Let_def split: prod.splits)

lemma uint_of_nat64: "n < 2 ^ 64 \<Longrightarrow> uint (of_nat n :: 64 word) = int n"
  by (simp add: unsigned_of_nat take_bit_nat_eq_self)

lemma ParseInt_decimal:
  assumes "int_syntax s" "bitSize = 0 \<or> bitSize = 64"
  shows "ParseInt s 10 bitSize = saturate (int_value s)"
proof -
  have ne: "s \<noteq> []" using assms(1) by (auto simp: int_syntax_def unsigned_part_def)
  define t where "t = unsigned_part s"
  define v where "v = dec_from 0 t"
  have t: "t \<noteq> []" "list_all is_digit t" using assms(1) by (auto simp: int_syntax_def t_def)
  have u: "ParseUint t 10 bitSize = (if v < 2 ^ 64 then (of_nat v, None) else (-1, Some Parse_Range))"
    using ParseUint_decimal [OF t assms(2)] by (simp add: v_def)
  define neg where "neg = (s ! 0 = CHR ''-'')"
  have val: "int_value s = (if neg then - int v else int v)"
    using ne by (simp add: int_value_def neg_def hd_conv_nth v_def t_def)
  have t_eq: "(if is_sign (s ! 0) then drop 1 s else s) = t" using unsigned_part_nth [OF ne] by (simp add: t_def)
  define un :: "64 word" where "un = (if v < 2 ^ 64 then of_nat v else -1)"
  have c: "uint (push_bit 63 (1 :: 64 word)) = 2 ^ 63" by (simp add: push_bit_eq_mult)
  have cut: "(if bitSize = 0 then 64 else nat bitSize) - 1 = 63" using assms(2) by auto
  have e: "ParseInt s 10 bitSize =
    (if \<not> neg \<and> push_bit 63 1 \<le> un then (sint (push_bit 63 1 - 1 :: 64 word), Some Parse_Range)
     else if neg \<and> push_bit 63 1 < un then (sint (- push_bit 63 1 :: 64 word), Some Parse_Range)
     else (sint (if neg then - un else un), None))"
    using ne unfolding ParseInt_def Let_def t_eq neg_def [symmetric] u cut un_def by simp
  have un: "uint un = min (int v) (2 ^ 64 - 1)"
    using uint_of_nat64 [of v] word_of_int_minus by (auto simp: un_def uint_word_ariths)
  have le: "push_bit 63 1 \<le> un \<longleftrightarrow> 2 ^ 63 \<le> int v" "push_bit 63 1 < un \<longleftrightarrow> 2 ^ 63 < int v"
    unfolding word_le_def word_less_def c un by auto
  have s1: "sint (push_bit 63 1 - 1 :: 64 word) = 2 ^ 63 - 1" "sint (- push_bit 63 1 :: 64 word) = - (2 ^ 63)"
    by (simp_all add: push_bit_eq_mult sint64)
  have s2: "sint un = int v" if "int v < 2 ^ 63" using that un by (simp add: sint64)
  have s3: "sint (- un) = - int v" if "int v \<le> 2 ^ 63"
  proof (cases "v = 0")
    case True
    then show ?thesis by (simp add: un_def)
  next
    case False
    then have "un \<noteq> 0" using un that by (auto simp: uint_0_iff [symmetric])
    then have "uint (- un) = 2 ^ 64 - int v"
      using un that False by (simp add: uint_word_ariths(4) zmod_zminus1_eq_if)
    then show ?thesis using that by (simp add: sint64)
  qed
  show ?thesis unfolding e le s1 val saturate_def using s2 s3 by auto
qed

lemma parse_digits_range:
  "fst (snd (parse_digits base0 base cutoff maxVal us n cs)) = Some Parse_Range \<Longrightarrow>
   fst (parse_digits base0 base cutoff maxVal us n cs) = maxVal"
proof (induction cs arbitrary: us n)
  case (Cons c cs)
  then show ?case by (auto simp: Let_def split: option.splits if_splits)
qed simp

lemma ParseUint_range:
  assumes "snd (ParseUint s 10 bitSize) = Some Parse_Range" "bitSize = 0 \<or> bitSize = 64"
  shows "fst (ParseUint s 10 bitSize) = -1"
  using assms parse_digits_range [of False 10 "of_nat (maxUint64 div 10 + 1)" "push_bit 64 1 - 1" False 0 s]
  by (auto simp: ParseUint_def Let_def split: prod.splits if_splits)

lemma ParseInt_not_decimal:
  assumes "\<not> int_syntax s" "bitSize = 0 \<or> bitSize = 64"
  shows "snd (ParseInt s 10 bitSize) \<noteq> None"
proof (cases "s = []")
  case False
  have e: "snd (ParseUint (unsigned_part s) 10 bitSize) \<noteq> None"
    using ParseUint_not_decimal [of "unsigned_part s" bitSize] assms by (auto simp: int_syntax_def)
  obtain un err where p: "ParseUint (unsigned_part s) 10 bitSize = (un, err)" by fastforce
  have r: "un = -1" if "err = Some Parse_Range" using ParseUint_range [of "unsigned_part s" bitSize] p that assms(2) by simp
  have cut: "(if bitSize = 0 then 64 else nat bitSize) - 1 = 63" using assms(2) by auto
  have c: "push_bit 63 1 < (-1 :: 64 word)" "push_bit 63 1 \<le> (-1 :: 64 word)"
    by (simp_all add: push_bit_eq_mult word_less_def word_le_def uint_word_ariths)
  show ?thesis
    using e False r c p unfolding ParseInt_def Let_def unsigned_part_nth [OF False, symmetric] cut p prod.case by auto
qed (simp add: ParseInt_def)


lemma Atoi_value:
  "(int_syntax s \<longrightarrow> Atoi s = saturate (int_value s)) \<and> (\<not> int_syntax s \<longrightarrow> snd (Atoi s) \<noteq> None)"
proof (cases "0 < length s \<and> length s < 19")
  case False
  then have "Atoi s = ParseInt s 10 0" by (auto simp: Atoi_def)
  then show ?thesis using ParseInt_decimal [of s 0] ParseInt_not_decimal [of s 0] by simp
next
  case True
  then have ne: "s \<noteq> []" by auto
  have len: "length (unsigned_part s) \<le> 18" using True by (auto simp: unsigned_part_def)
  have a: "Atoi s = (if is_sign (s ! 0) \<and> unsigned_part s = [] then (0, Some Parse_Syntax)
      else case atoi_loop 0 (unsigned_part s) of None \<Rightarrow> (0, Some Parse_Syntax)
        | Some n \<Rightarrow> ((if s ! 0 = CHR ''-'' then - n else n), None))"
    using True unfolding Atoi_def Let_def unsigned_part_nth [OF ne, symmetric] by (auto simp: Suc_le_eq)
  show ?thesis
  proof (cases "int_syntax s")
    case syn: True
    then have d: "unsigned_part s \<noteq> []" "list_all is_digit (unsigned_part s)" by (auto simp: int_syntax_def)
    have "dec_from 0 (unsigned_part s) < 10 ^ length (unsigned_part s)" using dec_from_less [OF d(2), of 0] by simp
    also have "\<dots> \<le> 10 ^ 18" using len by (intro power_increasing) auto
    finally have "int (dec_from 0 (unsigned_part s)) < 2 ^ 63" by simp
    then have "saturate (int_value s) = (int_value s, None)" by (auto simp: saturate_def int_value_def)
    moreover have "Atoi s = (int_value s, None)"
      using a d ne atoi_loop_eq [of 0 "unsigned_part s"] by (simp add: int_value_def hd_conv_nth)
    ultimately show ?thesis using syn by simp
  next
    case False
    have "unsigned_part s = [] \<Longrightarrow> is_sign (s ! 0)"
      using ne unsigned_part_nth [OF ne] by (auto split: if_splits)
    then show ?thesis using a False atoi_loop_eq [of 0 "unsigned_part s"] by (auto simp: int_syntax_def)
  qed
qed

text \<open>
  Claim C39. \<open>Atoi\<close> agrees with the mathematical reading of a decimal string on both of its paths: an optional
  sign and at least one digit give the value, saturated with a range error beyond 64 bits, and
  every other string is an error.
\<close>

theorem Atoi_correct:
  "(int_syntax s \<longrightarrow> Atoi s = saturate (int_value s)) \<and> (\<not> int_syntax s \<longrightarrow> snd (Atoi s) \<noteq> None)"
  by (rule Atoi_value)

theorem Atoi_correct_witness:
  "int_syntax ''-42'' \<and> Atoi ''-42'' = saturate (int_value ''-42'') \<and> Atoi ''-42'' = (-42, None)
   \<and> \<not> int_syntax ''4.2'' \<and> snd (Atoi ''4.2'') \<noteq> None"
proof -
  have "int_syntax ''-42''" "\<not> int_syntax ''4.2''" "saturate (int_value ''-42'') = (-42, None)" by code_simp+
  then show ?thesis using Atoi_correct [of "''-42''"] Atoi_correct [of "''4.2''"] by simp
qed

end
