(* ===== verification/Strconv_Float.thy ===== *)
theory Strconv_Float
  imports Strconv Go_Math
begin

text \<open>
  Floating-point numbers of package \<open>strconv\<close> for 64 bits: the reader of \<open>atof.go\<close> (special values, decimal and
  hexadecimal syntax, underscores, hexadecimal rounding) and the formats \<open>%e\<close> and \<open>%f\<close> of \<open>ftoa.go\<close>.

  The three algorithms that turn a decimal into a float (exact arithmetic, Eisel-Lemire, the multiprecision fallback) are
  replaced by what \<open>ParseFloat\<close> documents, the nearest float of the exact decimal value with ties to
  even; the exact value is what the same reader returns without a limit on the digits of the mantissa.
  The algorithm that finds the shortest decimal (Ryu) is replaced by a search for it: the first
  number of digits for which a neighbouring decimal reads back as the float.
\<close>

unbundle bit_operations_syntax

subsection \<open>Special values\<close>

fun commonPrefixLenIgnoreCase :: "string \<Rightarrow> string \<Rightarrow> nat" where
  "commonPrefixLenIgnoreCase (c # s) (p # prefix) =
     (let b = byte c; b = (if 0x41 \<le> b \<and> b \<le> 0x5A then b + 0x20 else b) in
      if b \<noteq> byte p then 0 else Suc (commonPrefixLenIgnoreCase s prefix))"
| "commonPrefixLenIgnoreCase _ _ = 0"

definition special_inf :: "bool \<Rightarrow> nat \<Rightarrow> string \<Rightarrow> (float64 \<times> nat) option" where
  "special_inf neg nsign s =
     (let n = commonPrefixLenIgnoreCase s ''infinity'';
          n = (if 3 < n \<and> n < 8 then 3 else n) in
      if n = 3 \<or> n = 8 then Some (math_Inf (if neg then -1 else 1), nsign + n) else None)"

definition special :: "string \<Rightarrow> (float64 \<times> nat) option" where
  "special s =
     (case s of
        [] \<Rightarrow> None
      | c # cs \<Rightarrow>
          if is_sign c then special_inf (c = CHR ''-'') 1 cs
          else if c = CHR ''i'' \<or> c = CHR ''I'' then special_inf False 0 s
          else if c = CHR ''n'' \<or> c = CHR ''N'' then
            (if commonPrefixLenIgnoreCase s ''nan'' = 3 then Some (math_NaN, 3) else None)
          else None)"

subsection \<open>Reading a number\<close>

text \<open>The variables of \<open>readFloat\<close>. The mantissa of \<open>readFloat\<close> has at most 19 decimal or 16 hexadecimal digits and fits in 64 bits.\<close>

record float_reader =
  fr_mantissa :: nat
  fr_nd :: nat
  fr_ndMant :: nat
  fr_dp :: int
  fr_sawdot :: bool
  fr_sawdigits :: bool
  fr_trunc :: bool
  fr_underscores :: bool

definition float_reader0 :: float_reader where
  "float_reader0 = \<lparr>fr_mantissa = 0, fr_nd = 0, fr_ndMant = 0, fr_dp = 0, fr_sawdot = False,
     fr_sawdigits = False, fr_trunc = False, fr_underscores = False\<rparr>"

definition add_digit :: "nat \<Rightarrow> nat \<Rightarrow> nat \<Rightarrow> float_reader \<Rightarrow> float_reader" where
  "add_digit base maxMantDigits d r =
     (let r = r\<lparr>fr_sawdigits := True, fr_nd := fr_nd r + 1\<rparr> in
      if fr_ndMant r < maxMantDigits then
        r\<lparr>fr_mantissa := fr_mantissa r * base + d, fr_ndMant := fr_ndMant r + 1\<rparr>
      else r\<lparr>fr_trunc := True\<rparr>)"

fun read_digits :: "nat \<Rightarrow> nat \<Rightarrow> float_reader \<Rightarrow> string \<Rightarrow> float_reader \<times> string" where
  "read_digits base maxMantDigits r [] = (r, [])"
| "read_digits base maxMantDigits r (c # cs) =
     (if c = CHR ''_'' then read_digits base maxMantDigits (r\<lparr>fr_underscores := True\<rparr>) cs
      else if c = CHR ''.'' then
        (if fr_sawdot r then (r, c # cs)
         else read_digits base maxMantDigits (r\<lparr>fr_sawdot := True, fr_dp := int (fr_nd r)\<rparr>) cs)
      else if is_digit c then
        (if c = CHR ''0'' \<and> fr_nd r = 0 then
           read_digits base maxMantDigits (r\<lparr>fr_sawdigits := True, fr_dp := fr_dp r - 1\<rparr>) cs
         else if c = CHR ''0'' \<and> \<not> fr_ndMant r < maxMantDigits then
           read_digits base maxMantDigits (r\<lparr>fr_sawdigits := True, fr_nd := fr_nd r + 1\<rparr>) cs
         else read_digits base maxMantDigits (add_digit base maxMantDigits (digit_val c) r) cs)
      else if base = 16 \<and> 0x61 \<le> lower c \<and> lower c \<le> 0x66 then
        read_digits base maxMantDigits (add_digit base maxMantDigits (lower c - 0x61 + 10) r) cs
      else (r, c # cs))"

fun read_exp_digits :: "nat \<Rightarrow> bool \<Rightarrow> string \<Rightarrow> nat \<times> bool \<times> string" where
  "read_exp_digits e us [] = (e, us, [])"
| "read_exp_digits e us (c # cs) =
     (if is_digit c then read_exp_digits (if e < 10000 then e * 10 + digit_val c else e) us cs
      else if c = CHR ''_'' then read_exp_digits e True cs
      else (e, us, c # cs))"

text \<open>The optional exponent: the signed exponent, whether it has underscores, and the rest; \<open>None\<close> when it is malformed.\<close>

definition read_exponent :: "nat \<Rightarrow> bool \<Rightarrow> string \<Rightarrow> (int \<times> bool \<times> string) option" where
  "read_exponent expChar us s =
     (if s \<noteq> [] \<and> lower (hd s) = expChar then
        (let s = tl s in
         if s = [] then None
         else
           let esign = (if hd s = CHR ''-'' then -1 else 1);
               s = (if is_sign (hd s) then tl s else s) in
           if s = [] \<or> \<not> is_digit (hd s) then None
           else
             let (e, us, s) = read_exp_digits 0 us s in
             Some (esign * int e, us, s))
      else if expChar = 0x70 then None
      else Some (0, us, s))"

definition read_number :: "nat \<Rightarrow> string \<Rightarrow> (nat \<times> int \<times> bool \<times> bool \<times> bool \<times> nat) option" where
  "read_number maxDecDigits s =
     (if s = [] then None
      else
        let neg = (hd s = CHR ''-'');
            t = (if is_sign (hd s) then tl s else s);
            hex = (2 < length t \<and> t ! 0 = CHR ''0'' \<and> lower (t ! 1) = 0x78);
            base = (if hex then 16 else 10);
            maxMantDigits = (if hex then 16 else maxDecDigits);
            t = (if hex then drop 2 t else t);
            (r, t) = read_digits base maxMantDigits float_reader0 t in
        if \<not> fr_sawdigits r then None
        else
          let dp = (if fr_sawdot r then fr_dp r else int (fr_nd r));
              dp = (if hex then dp * 4 else dp);
              ndMant = int (if hex then fr_ndMant r * 4 else fr_ndMant r) in
          case read_exponent (if hex then 0x70 else 0x65) (fr_underscores r) t of
            None \<Rightarrow> None
          | Some (e, us, t) \<Rightarrow>
              let i = length s - length t;
                  ex = (if fr_mantissa r \<noteq> 0 then dp + e - ndMant else 0) in
              if us \<and> \<not> underscoreOK (take i s) then None
              else Some (fr_mantissa r, ex, neg, fr_trunc r, hex, i))"

definition readFloat :: "string \<Rightarrow> (nat \<times> int \<times> bool \<times> bool \<times> bool \<times> nat) option" where
  "readFloat s = read_number 19 s"

subsection \<open>Hexadecimal numbers\<close>

function hex_up :: "nat \<Rightarrow> int \<Rightarrow> nat \<times> int" where
  "hex_up m e = (if m \<noteq> 0 \<and> drop_bit 54 m = 0 then hex_up (push_bit 1 m) (e - 1) else (m, e))"
  by auto
termination
proof (relation "measure (\<lambda>(m, e). 2 ^ 54 - m)", goal_cases)
  case (2 m e)
  then have "m < 2 ^ 54" by (simp add: drop_bit_eq_div div_eq_0_iff)
  then have "2 ^ 54 - m * 2 < 2 ^ 54 - m" using 2 by linarith
  then show ?case by (simp add: push_bit_eq_mult)
qed simp

definition sticky_half :: "nat \<Rightarrow> nat" where
  "sticky_half m = drop_bit 1 m OR (m AND 1)"

lemma sticky_half_less: "1 < m \<Longrightarrow> sticky_half m < m"
proof -
  assume m: "1 < m"
  have "sticky_half m \<le> m div 2 + m mod 2"
    by (cases "even m") (auto simp: sticky_half_def drop_bit_eq_div and_one_eq odd_iff_mod_2_eq_one or_one_eq or_Suc_0_eq)
  moreover have "m = 2 * (m div 2) + m mod 2" by simp
  ultimately show ?thesis using m by linarith
qed

function hex_down :: "nat \<Rightarrow> int \<Rightarrow> nat \<times> int" where
  "hex_down m e = (if drop_bit 55 m \<noteq> 0 then hex_down (sticky_half m) (e + 1) else (m, e))"
  by auto
termination
proof (relation "measure (\<lambda>(m, e). m)", goal_cases)
  case (2 m e)
  then have "1 < m" by (cases "m \<le> 1") (auto simp: drop_bit_eq_div)
  then show ?case using sticky_half_less by simp
qed simp

function hex_denormal :: "nat \<Rightarrow> int \<Rightarrow> nat \<times> int" where
  "hex_denormal m e = (if 1 < m \<and> e < -1022 - 2 then hex_denormal (sticky_half m) (e + 1) else (m, e))"
  by auto
termination
  by (relation "measure (\<lambda>(m, e). m)") (auto simp: sticky_half_less)

declare hex_up.simps [simp del] hex_down.simps [simp del] hex_denormal.simps [simp del]

definition mantbits :: nat where "mantbits = 52"

definition atofHex :: "nat \<Rightarrow> int \<Rightarrow> bool \<Rightarrow> bool \<Rightarrow> float64 \<times> go_error option" where
  "atofHex mantissa ex neg trunc =
     (let maxExp = (1023 :: int);
          (mantissa, ex) = hex_up mantissa (ex + int mantbits);
          mantissa = (if trunc then mantissa OR 1 else mantissa);
          (mantissa, ex) = hex_down mantissa ex;
          (mantissa, ex) = hex_denormal mantissa ex;
          round = mantissa AND 3;
          mantissa = drop_bit 2 mantissa;
          round = round OR (mantissa AND 1);
          ex = ex + 2;
          (mantissa, ex) =
            (if round = 3 then
               (let mantissa = mantissa + 1 in
                if mantissa = 2 ^ (1 + mantbits) then (drop_bit 1 mantissa, ex + 1) else (mantissa, ex))
             else (mantissa, ex));
          ex = (if drop_bit mantbits mantissa = 0 then -1023 else ex);
          err = (if maxExp < ex then Some Parse_Range else None);
          (mantissa, ex) = (if maxExp < ex then (2 ^ mantbits, maxExp + 1) else (mantissa, ex))
      in (Float64 neg (of_int (ex + 1023)) (of_nat mantissa), err))"

subsection \<open>Decimal numbers\<close>

text \<open>The float nearest to \<open>d * 10 ^ k\<close>.\<close>

definition dec_round :: "bool \<Rightarrow> nat \<Rightarrow> int \<Rightarrow> float64" where
  "dec_round neg d k =
     (if 0 \<le> k then f64_round neg (int d * 10 ^ nat k) 1 0
      else f64_round neg (int d) (10 ^ nat (- k)) 0)"

definition atof64 :: "string \<Rightarrow> float64 \<times> nat \<times> go_error option" where
  "atof64 s =
     (case special s of
        Some (val, n) \<Rightarrow> (val, n, None)
      | None \<Rightarrow>
        (case readFloat s of
           None \<Rightarrow> (0, 0, Some Parse_Syntax)
         | Some (mantissa, ex, neg, trunc, hex, n) \<Rightarrow>
             if hex then (let (f, err) = atofHex mantissa ex neg trunc in (f, n, err))
             else
               (case read_number (length s) s of
                  None \<Rightarrow> (0, n, Some Parse_Syntax)
                | Some (mantissa, ex, neg, trunc, hex, n) \<Rightarrow>
                    let f = dec_round neg mantissa ex in
                    (f, n, if is_inf f then Some Parse_Range else None))))"

definition ParseFloat :: "string \<Rightarrow> float64 \<times> go_error option" where
  "ParseFloat s =
     (let (f, n, err) = atof64 s in
      if n \<noteq> length s \<and> err \<noteq> Some Parse_Syntax then (0, Some Parse_Syntax)
      else (f, err))"

subsection \<open>The shortest decimal\<close>

definition f64_abs :: "float64 \<Rightarrow> float64" where
  "f64_abs x = Float64 False (fexp x) (ffrac x)"

text \<open>Numerator and denominator of the magnitude of a float in units of \<open>10 ^ k\<close>.\<close>

definition unit_num :: "float64 \<Rightarrow> int \<Rightarrow> int" where
  "unit_num x k = f64_mant x * 2 ^ nat (f64_expo x) * 10 ^ nat (- k)"

definition unit_den :: "float64 \<Rightarrow> int \<Rightarrow> int" where
  "unit_den x k = 2 ^ nat (- f64_expo x) * 10 ^ nat k"

definition last_unit :: "float64 \<Rightarrow> int" where
  "last_unit x = min 0 (f64_expo x)"

text \<open>
  With the last digit at \<open>10 ^ k\<close>, the two decimals around the float: the nearest of those that read back as
  the float (an even last digit on a tie), or a digit more when neither does.
\<close>

function shortest_from :: "float64 \<Rightarrow> int \<Rightarrow> nat \<times> int" where
  "shortest_from x k =
     (let p = unit_num x k; q = unit_den x k; lo = nat (p div q); r = p mod q;
          okdown = (dec_round False lo k = f64_abs x);
          okup = (dec_round False (lo + 1) k = f64_abs x) in
      if okdown \<and> okup then ((if 2 * r < q \<or> 2 * r = q \<and> even lo then lo else lo + 1), k)
      else if okdown then (lo, k)
      else if okup then (lo + 1, k)
      else if k \<le> last_unit x then (lo, k)
      else shortest_from x (k - 1))"
  by pat_completeness auto
termination
  by (relation "measure (\<lambda>(x, k). nat (k - last_unit x))") auto

declare shortest_from.simps [simp del]

text \<open>A decimal with unit \<open>10 ^ first_unit x\<close> is above the float, so the search misses no shorter one.\<close>

definition first_unit :: "float64 \<Rightarrow> int" where
  "first_unit x = max (last_unit x) ((bitlen (f64_mant x) + f64_expo x) * 30103 div 100000 + 1)"

fun dec_string :: "nat \<Rightarrow> string" where
  "dec_string n = (if n < 10 then [char_of (0x30 + n)] else dec_string (n div 10) @ [char_of (0x30 + n mod 10)])"

declare dec_string.simps [simp del]

function trim_zeros :: "nat \<Rightarrow> int \<Rightarrow> nat \<times> int" where
  "trim_zeros d k = (if d \<noteq> 0 \<and> 10 dvd d then trim_zeros (d div 10) (k + 1) else (d, k))"
  by auto
termination by (relation "measure fst") auto

declare trim_zeros.simps [simp del]

text \<open>The digits and the position of the decimal point (\<open>decimalSlice\<close>); zero has no digits.\<close>

record decimalSlice =
  ds_d :: string
  ds_dp :: int

definition shortest :: "float64 \<Rightarrow> decimalSlice" where
  "shortest x =
     (if is_zero x then \<lparr>ds_d = [], ds_dp = 0\<rparr>
      else
        let (d, k) = shortest_from x (first_unit x);
            (d, k) = trim_zeros d k;
            ds = dec_string d in
        \<lparr>ds_d = ds, ds_dp = int (length ds) + k\<rparr>)"

subsection \<open>Formats\<close>

definition exp_chars :: "nat \<Rightarrow> string" where
  "exp_chars e =
     (if e < 10 then [CHR ''0'', char_of (0x30 + e)]
      else if e < 100 then [char_of (0x30 + e div 10), char_of (0x30 + e mod 10)]
      else [char_of (0x30 + e div 100), char_of (0x30 + e div 10 mod 10), char_of (0x30 + e mod 10)])"

definition fmtE :: "bool \<Rightarrow> decimalSlice \<Rightarrow> nat \<Rightarrow> char \<Rightarrow> string" where
  "fmtE neg d prec fmt =
     (let nd = length (ds_d d);
          m = min nd (prec + 1);
          more = (if 1 < m then take (m - 1) (drop 1 (ds_d d)) else []);
          ex = (if nd = 0 then 0 else ds_dp d - 1) in
      (if neg then ''-'' else '''') @ [if nd \<noteq> 0 then ds_d d ! 0 else CHR ''0'']
      @ (if 0 < prec then ''.'' @ more @ replicate (prec - length more) (CHR ''0'') else '''')
      @ [fmt, if ex < 0 then CHR ''-'' else CHR ''+''] @ exp_chars (nat \<bar>ex\<bar>))"

definition fmtF :: "bool \<Rightarrow> decimalSlice \<Rightarrow> nat \<Rightarrow> string" where
  "fmtF neg d prec =
     (let nd = int (length (ds_d d)); dp = ds_dp d in
      (if neg then ''-'' else '''')
      @ (if 0 < dp then take (nat dp) (ds_d d) @ replicate (nat (dp - nd)) (CHR ''0'') else ''0'')
      @ (if 0 < prec then
           ''.'' @ map (\<lambda>i. let j = dp + int i in if 0 \<le> j \<and> j < nd then ds_d d ! nat j else CHR ''0'') [0..<prec]
         else ''''))"

text \<open>\<open>AppendFloat(b, f, fmt, -1, 64)\<close> for the formats that the program reaches, \<open>e\<close> and \<open>f\<close>.\<close>

definition FormatFloat :: "float64 \<Rightarrow> char \<Rightarrow> string" where
  "FormatFloat x fmt =
     (if is_nan x then ''NaN''
      else if is_inf x then (if fsign x then ''-Inf'' else ''+Inf'')
      else
        let digs = shortest x; nd = int (length (ds_d digs)) in
        if fmt = CHR ''e'' then fmtE (fsign x) digs (nat (max (nd - 1) 0)) fmt
        else if fmt = CHR ''f'' then fmtF (fsign x) digs (nat (max (nd - ds_dp digs) 0))
        else [CHR ''%'', fmt])"

end
