(* ===== verification/Json_Encode.thy ===== *)
theory Json_Encode
  imports Json_Scanner Strconv_Float "HOL-Library.Multiset" "HOL-Library.Char_ord" "HOL-Library.List_Lexorder"
begin

text \<open>
  The encoder of \<open>encoding/json\<close> for the types of the program: structs, maps with string keys, slices, pointers to structs, strings,
  integers, floats and booleans, without the option \<open>,string\<close>. A Go value is a \<open>json_val\<close>; the fields of a
  struct (those of embedded structs included) come in declaration order with their JSON name and the flag \<open>omitempty\<close>. Every encoder writes to
  the end of the buffer, so each is the function that gives the bytes it writes; an error ends the
  encoding, as \<open>e.error\<close> does.
\<close>

unbundle bit_operations_syntax

datatype json_val =
    JNull
  | JString string
  | JFloat float64
  | JInt int
  | JBool bool
  | JStruct "(string \<times> bool \<times> json_val) list"
  | JMap "(string \<times> json_val) list"
  | JArray "json_val list"

subsection \<open>Strings\<close>

definition hex_char :: "nat \<Rightarrow> char" where
  "hex_char n = ''0123456789abcdef'' ! n"

definition safeSet :: "nat \<Rightarrow> bool" where
  "safeSet b \<longleftrightarrow> 0x20 \<le> b \<and> b < RuneSelf \<and> b \<notin> {0x22, 0x5C}"

definition htmlSafeSet :: "nat \<Rightarrow> bool" where
  "htmlSafeSet b \<longleftrightarrow> 0x20 \<le> b \<and> b < RuneSelf \<and> b \<notin> {0x22, 0x26, 0x3C, 0x3E, 0x5C}"

definition escape_byte :: "char \<Rightarrow> string" where
  "escape_byte b =
     (if b = CHR 0x5C \<or> b = CHR 0x22 then [CHR 0x5C, b]
      else if byte b = 0x08 then [CHR 0x5C, CHR ''b'']
      else if byte b = 0x0C then [CHR 0x5C, CHR ''f'']
      else if byte b = 0x0A then [CHR 0x5C, CHR ''n'']
      else if byte b = 0x0D then [CHR 0x5C, CHR ''r'']
      else if byte b = 0x09 then [CHR 0x5C, CHR ''t'']
      else [CHR 0x5C, CHR ''u'', CHR ''0'', CHR ''0'', hex_char (drop_bit 4 (byte b)), hex_char (byte b AND 0xF)])"

lemma drop_decode_less:
  assumes "(c, n) = DecodeRuneInString (take 4 src)" "src \<noteq> []"
  shows "length src - n < length src"
proof -
  have "1 \<le> n" using Decode_size [of "take 4 src"] assms by (metis snd_conv take_eq_Nil zero_neq_numeral)
  then show ?thesis using assms(2) by simp
qed

function string_body :: "bool \<Rightarrow> string \<Rightarrow> string" where
  "string_body escapeHTML src =
     (if src = [] then []
      else
        let b = hd src in
        if byte b < RuneSelf then
          (if htmlSafeSet (byte b) \<or> \<not> escapeHTML \<and> safeSet (byte b) then b # string_body escapeHTML (tl src)
           else escape_byte b @ string_body escapeHTML (tl src))
        else
          let (c, size) = DecodeRuneInString (take 4 src) in
          if c = RuneError \<and> size = 1 then (CHR 0x5C # ''ufffd'') @ string_body escapeHTML (drop size src)
          else if c = 0x2028 \<or> c = 0x2029 then
            (CHR 0x5C # ''u202'') @ [hex_char (c AND 0xF)] @ string_body escapeHTML (drop size src)
          else take size src @ string_body escapeHTML (drop size src))"
  by pat_completeness auto
termination
  by (relation "measure (\<lambda>(escapeHTML, src). length src)") (auto intro: drop_decode_less)

declare string_body.simps [simp del]

definition appendString :: "string \<Rightarrow> bool \<Rightarrow> string" where
  "appendString src escapeHTML = [CHR 0x22] @ string_body escapeHTML src @ [CHR 0x22]"

fun appendHTMLEscape :: "string \<Rightarrow> string" where
  "appendHTMLEscape [] = []"
| "appendHTMLEscape (c # src) =
     (if c = CHR ''<'' \<or> c = CHR ''>'' \<or> c = CHR ''&'' then
        [CHR 0x5C, CHR ''u'', CHR ''0'', CHR ''0'', hex_char (drop_bit 4 (byte c)), hex_char (byte c AND 0xF)] @ appendHTMLEscape src
      else if byte c = 0xE2 \<and> 2 \<le> length src \<and> byte (src ! 0) = 0x80 \<and> byte (src ! 1) \<in> {0xA8, 0xA9} then
        (CHR 0x5C # ''u202'') @ [hex_char (byte (src ! 1) AND 0xF)] @ appendHTMLEscape (drop 2 src)
      else c # appendHTMLEscape src)"

subsection \<open>Numbers\<close>

text \<open>\<open>strconv.AppendInt\<close> in base 10.\<close>

definition AppendInt :: "int \<Rightarrow> string" where
  "AppendInt i = (if i < 0 then CHR ''-'' # dec_string (nat (- i)) else dec_string (nat i))"

text \<open>\<open>e-09\<close> becomes \<open>e-9\<close>.\<close>

definition clean_exponent :: "string \<Rightarrow> string" where
  "clean_exponent b =
     (let n = length b in
      if 4 \<le> n \<and> b ! (n - 4) = CHR ''e'' \<and> b ! (n - 3) = CHR ''-'' \<and> b ! (n - 2) = CHR ''0''
      then take (n - 2) b @ [b ! (n - 1)] else b)"

definition floatEncoder :: "float64 \<Rightarrow> (go_error, string) result" where
  "floatEncoder f =
     (if math_IsInf f 0 \<or> math_IsNaN f then Inl (Json_Unsupported_Value f)
      else
        let a = math_Abs f;
            fmt = (if \<not> feq a 0 \<and> (a < f64_const 1 (10 ^ 6) \<or> f64_const (10 ^ 21) 1 \<le> a) then CHR ''e'' else CHR ''f'');
            b = FormatFloat f fmt in
        Inr (if fmt = CHR ''e'' then clean_exponent b else b))"

definition boolEncoder :: "bool \<Rightarrow> string" where
  "boolEncoder b = (if b then ''true'' else ''false'')"

subsection \<open>Values\<close>

fun isEmptyValue :: "json_val \<Rightarrow> bool" where
  "isEmptyValue (JString s) = (s = [])"
| "isEmptyValue (JFloat x) = feq x 0"
| "isEmptyValue (JInt i) = (i = 0)"
| "isEmptyValue (JBool b) = (\<not> b)"
| "isEmptyValue (JMap kvs) = (kvs = [])"
| "isEmptyValue (JArray vs) = (vs = [])"
| "isEmptyValue JNull = True"
| "isEmptyValue (JStruct fs) = False"

text \<open>The field name with its quotes and colon (\<open>nameEscHTML\<close>).\<close>

definition nameEscHTML :: "string \<Rightarrow> string" where
  "nameEscHTML name = [CHR 0x22] @ appendHTMLEscape name @ [CHR 0x22, CHR '':'']"

text \<open>
  \<open>reflectValue\<close> with the encoder of the kind of the value. The loop over the fields of a struct keeps the byte to write before the next
  field, an opening brace at first and a comma later; those over maps and slices write a comma
  before every element but the first.
\<close>

lemma size_list_sort_key [simp]: "size_list f (sort_key g xs) = size_list f xs"
proof -
  have "size_list f ys = sum_mset (image_mset f (mset ys)) + size (mset ys)" for ys
    by (induction ys) auto
  then show ?thesis by simp
qed

function reflectValue :: "json_val \<Rightarrow> (go_error, string) result"
  and structEncoder :: "char \<Rightarrow> (string \<times> bool \<times> json_val) list \<Rightarrow> (go_error, string) result"
  and mapEncoder :: "bool \<Rightarrow> (string \<times> json_val) list \<Rightarrow> (go_error, string) result"
  and arrayEncoder :: "bool \<Rightarrow> json_val list \<Rightarrow> (go_error, string) result" where
  "reflectValue JNull = Inr ''null''"
| "reflectValue (JString s) = Inr (appendString s True)"
| "reflectValue (JFloat x) = floatEncoder x"
| "reflectValue (JInt i) = Inr (AppendInt i)"
| "reflectValue (JBool b) = Inr (boolEncoder b)"
| "reflectValue (JStruct fs) = structEncoder (CHR ''{'') fs"
| "reflectValue (JMap kvs) =
     result_bind (mapEncoder True (sort_key fst kvs)) (\<lambda>b. Inr (''{'' @ b @ ''}''))"
| "reflectValue (JArray vs) = result_bind (arrayEncoder True vs) (\<lambda>b. Inr (''['' @ b @ '']''))"
| "structEncoder next [] = Inr (if next = CHR ''{'' then ''{}'' else ''}'')"
| "structEncoder next ((name, omitEmpty, v) # fs) =
     (if omitEmpty \<and> isEmptyValue v then structEncoder next fs
      else
        result_bind (reflectValue v) (\<lambda>b.
        result_bind (structEncoder (CHR '','') fs) (\<lambda>rest.
        Inr ([next] @ nameEscHTML name @ b @ rest))))"
| "mapEncoder first [] = Inr []"
| "mapEncoder first ((k, v) # kvs) =
     result_bind (reflectValue v) (\<lambda>b.
     result_bind (mapEncoder False kvs) (\<lambda>rest.
     Inr ((if first then '''' else '','') @ appendString k True @ '':'' @ b @ rest)))"
| "arrayEncoder first [] = Inr []"
| "arrayEncoder first (v # vs) =
     result_bind (reflectValue v) (\<lambda>b.
     result_bind (arrayEncoder False vs) (\<lambda>rest.
     Inr ((if first then '''' else '','') @ b @ rest)))"
  by pat_completeness auto
termination
  by (relation "measure (\<lambda>x. case x of Inl (Inl v) \<Rightarrow> size v
      | Inl (Inr (c, fs)) \<Rightarrow> size_list (size_prod (\<lambda>_. 0) (size_prod (\<lambda>_. 0) size)) fs
      | Inr (Inl (b, kvs)) \<Rightarrow> size_list (size_prod (\<lambda>_. 0) size) kvs
      | Inr (Inr (b, vs)) \<Rightarrow> size_list size vs)") auto

text \<open>\<open>Marshal\<close>, and \<open>Encode\<close>, which adds a newline.\<close>

definition Marshal :: "json_val \<Rightarrow> (go_error, string) result" where
  "Marshal v = reflectValue v"

definition Encode :: "json_val \<Rightarrow> (go_error, string) result" where
  "Encode v = result_bind (Marshal v) (\<lambda>b. Inr (b @ [CHR 0x0A]))"

subsection \<open>Indentation\<close>

definition appendNewline :: "string \<Rightarrow> string \<Rightarrow> string \<Rightarrow> int \<Rightarrow> string" where
  "appendNewline dst prefix ind depth = dst @ [CHR 0x0A] @ prefix @ concat (replicate (nat depth) ind)"

text \<open>The loop of \<open>appendIndent\<close>; it stops at a scan error, which \<open>eof\<close> then reports.\<close>

fun indent_loop :: "string \<Rightarrow> string \<Rightarrow> scanner \<Rightarrow> bool \<Rightarrow> int \<Rightarrow> string \<Rightarrow> string \<Rightarrow> scanner \<times> string" where
  "indent_loop prefix ind scan needIndent depth dst [] = (scan, dst)"
| "indent_loop prefix ind scan needIndent depth dst (c # src) =
     (let (scan, v) = scan_step scan c in
      if v = scanSkipSpace then indent_loop prefix ind scan needIndent depth dst src
      else if v = scanError then (scan, dst)
      else
        let (needIndent, depth, dst) =
              (if needIndent \<and> v \<noteq> scanEndObject \<and> v \<noteq> scanEndArray
               then (False, depth + 1, appendNewline dst prefix ind (depth + 1))
               else (needIndent, depth, dst)) in
        if v = scanContinue then indent_loop prefix ind scan needIndent depth (dst @ [c]) src
        else if c = CHR ''{'' \<or> c = CHR ''['' then indent_loop prefix ind scan True depth (dst @ [c]) src
        else if c = CHR '','' then indent_loop prefix ind scan needIndent depth (appendNewline (dst @ [c]) prefix ind depth) src
        else if c = CHR '':'' then indent_loop prefix ind scan needIndent depth (dst @ [c, CHR '' '']) src
        else if c = CHR ''}'' \<or> c = CHR '']'' then
          (if needIndent then indent_loop prefix ind scan False depth (dst @ [c]) src
           else indent_loop prefix ind scan needIndent (depth - 1) (appendNewline dst prefix ind (depth - 1) @ [c]) src)
        else indent_loop prefix ind scan needIndent depth (dst @ [c]) src)"

definition appendIndent :: "string \<Rightarrow> string \<Rightarrow> string \<Rightarrow> (go_error, string) result" where
  "appendIndent src prefix ind =
     (let (scan, dst) = indent_loop prefix ind scan_reset False 0 [] src;
          (scan, op) = scan_eof scan in
      if op = scanError then Inl (the (sc_err scan)) else Inr dst)"

definition MarshalIndent :: "json_val \<Rightarrow> string \<Rightarrow> string \<Rightarrow> (go_error, string) result" where
  "MarshalIndent v prefix ind = result_bind (Marshal v) (\<lambda>b. appendIndent b prefix ind)"

end
