(* ===== verification/Json_Decode.thy ===== *)
theory Json_Decode
  imports Json_Scanner Strconv_Float
begin

text \<open>
  The decoder of \<open>encoding/json\<close> (\<open>decode.go\<close>, \<open>fold.go\<close>, \<open>stream.go\<close>) into structs with fields of the kinds the program uses: strings, floats,
  integers and pointers to strings and floats; none of these types implements an \<open>Unmarshaler\<close>. The struct is the list of its fields (those of an embedded struct
  included) with their JSON names.

  The position in the data is the last byte read and the bytes not yet read; nothing else of the data
  is ever looked at. A panic of the decoder is the error \<open>Json_Panic\<close>. The decoder keeps the first error it saves and
  goes on, as the source does; the field names that it adds to an error message are left out.
\<close>

unbundle bit_operations_syntax

subsection \<open>Quoted strings\<close>

definition hex_val :: "char \<Rightarrow> nat option" where
  "hex_val c =
     (let b = byte c in
      if 0x30 \<le> b \<and> b \<le> 0x39 then Some (b - 0x30)
      else if 0x61 \<le> b \<and> b \<le> 0x66 then Some (b - 0x61 + 10)
      else if 0x41 \<le> b \<and> b \<le> 0x46 then Some (b - 0x41 + 10)
      else None)"

fun hex_run :: "nat \<Rightarrow> string \<Rightarrow> nat option" where
  "hex_run r [] = Some r"
| "hex_run r (c # cs) = (case hex_val c of None \<Rightarrow> None | Some d \<Rightarrow> hex_run (r * 16 + d) cs)"

text \<open>\<open>getu4\<close> returns -1 (here \<open>None\<close>) when \<open>s\<close> does not begin with \<open>\uXXXX\<close>.\<close>

definition getu4 :: "string \<Rightarrow> nat option" where
  "getu4 s =
     (if length s < 6 \<or> s ! 0 \<noteq> CHR 0x5C \<or> s ! 1 \<noteq> CHR ''u'' then None
      else hex_run 0 (take 4 (drop 2 s)))"

definition IsSurrogate :: "nat \<Rightarrow> bool" where
  "IsSurrogate r \<longleftrightarrow> 0xd800 \<le> r \<and> r < 0xe000"

definition utf16_DecodeRune :: "nat \<Rightarrow> nat option \<Rightarrow> nat" where
  "utf16_DecodeRune r1 r2 =
     (case r2 of
        Some r2 \<Rightarrow>
          if 0xd800 \<le> r1 \<and> r1 < 0xdc00 \<and> 0xdc00 \<le> r2 \<and> r2 < 0xe000
          then (push_bit 10 (r1 - 0xd800) OR (r2 - 0xdc00)) + 0x10000 else RuneError
      | None \<Rightarrow> RuneError)"

text \<open>The bytes before the first one that needs unquoting.\<close>

function plain_prefix :: "string \<Rightarrow> nat" where
  "plain_prefix s =
     (if s = [] then 0
      else
        let c = hd s in
        if c = CHR 0x5C \<or> c = CHR 0x22 \<or> byte c < 0x20 then 0
        else if byte c < RuneSelf then 1 + plain_prefix (tl s)
        else
          let (rr, n) = DecodeRuneInString s in
          if rr = RuneError \<and> n = 1 then 0 else n + plain_prefix (drop n s))"
  by pat_completeness auto
termination
proof (relation "measure length", goal_cases)
  case (3 s c p rr n)
  then have "1 \<le> n" using Decode_size [of s] by (metis snd_conv)
  then show ?case using 3 by simp
qed simp_all

declare plain_prefix.simps [simp del]

definition simple_escape :: "char \<Rightarrow> char option" where
  "simple_escape c =
     (if c \<in> {CHR 0x22, CHR 0x5C, CHR ''/'', CHR 0x27} then Some c
      else if c = CHR ''b'' then Some (CHR 0x08)
      else if c = CHR ''f'' then Some (CHR 0x0C)
      else if c = CHR ''n'' then Some (CHR 0x0A)
      else if c = CHR ''r'' then Some (CHR 0x0D)
      else if c = CHR ''t'' then Some (CHR 0x09)
      else None)"

function unquote_loop :: "string \<Rightarrow> string option" where
  "unquote_loop s =
     (if s = [] then Some []
      else
        let c = hd s in
        if c = CHR 0x5C then
          (if length s < 2 then None
           else if s ! 1 = CHR ''u'' then
             (case getu4 s of
                None \<Rightarrow> None
              | Some rr \<Rightarrow>
                  let rest = drop 6 s in
                  if IsSurrogate rr then
                    (let dec = utf16_DecodeRune rr (getu4 rest) in
                     if dec \<noteq> RuneError then
                       map_option ((@) (AppendRune [] dec)) (unquote_loop (drop 6 rest))
                     else map_option ((@) (AppendRune [] RuneError)) (unquote_loop rest))
                  else map_option ((@) (AppendRune [] rr)) (unquote_loop rest))
           else
             (case simple_escape (s ! 1) of
                None \<Rightarrow> None
              | Some b \<Rightarrow> map_option ((#) b) (unquote_loop (drop 2 s))))
        else if c = CHR 0x22 \<or> byte c < 0x20 then None
        else if byte c < RuneSelf then map_option ((#) c) (unquote_loop (tl s))
        else
          let (rr, n) = DecodeRuneInString s in
          map_option ((@) (AppendRune [] rr)) (unquote_loop (drop n s)))"
  by pat_completeness auto
termination
proof (relation "measure length", goal_cases)
  case (7 s c p rr n)
  then have "1 \<le> n" using Decode_size [of s] by (metis snd_conv)
  then show ?case using 7 by simp
qed auto

declare unquote_loop.simps [simp del]

definition unquoteBytes :: "string \<Rightarrow> string option" where
  "unquoteBytes s =
     (if length s < 2 \<or> s ! 0 \<noteq> CHR 0x22 \<or> last s \<noteq> CHR 0x22 then None
      else
        let s = butlast (tl s); r = plain_prefix s in
        if r = length s then Some s
        else map_option ((@) (take r s)) (unquote_loop (drop r s)))"

subsection \<open>Field names\<close>

text \<open>
  The smallest rune of a fold set. Only two runes outside ASCII fold to ASCII ones, the Kelvin sign and the long s; the field names of
  the program are ASCII, so the folding of other runes among themselves never makes a name match
  and is left out.
\<close>

definition foldRune :: "nat \<Rightarrow> nat" where
  "foldRune r = (if r = 0x212A then 0x4B else if r = 0x017F then 0x53 else r)"

function foldName :: "string \<Rightarrow> string" where
  "foldName s =
     (if s = [] then []
      else
        let c = hd s in
        if byte c < RuneSelf then
          (if 0x61 \<le> byte c \<and> byte c \<le> 0x7A then char_of (byte c - 0x20) else c) # foldName (tl s)
        else
          let (r, n) = DecodeRuneInString s in
          AppendRune [] (foldRune r) @ foldName (drop n s))"
  by pat_completeness auto
termination
proof (relation "measure length", goal_cases)
  case (3 s c p r n)
  then have "1 \<le> n" using Decode_size [of s] by (metis snd_conv)
  then show ?case using 3 by simp
qed simp_all

declare foldName.simps [simp del]

subsection \<open>The struct being filled\<close>

datatype field_val =
    VString string
  | VFloat float64
  | VInt int
  | VPtrString "string option"
  | VPtrFloat "float64 option"

type_synonym go_struct = "(string \<times> field_val) list"

text \<open>The field of a key: its exact name first, then the name up to case.\<close>

definition find_field :: "go_struct \<Rightarrow> string \<Rightarrow> string option" where
  "find_field st key =
     (case find (\<lambda>f. fst f = key) st of
        Some f \<Rightarrow> Some (fst f)
      | None \<Rightarrow> map_option fst (find (\<lambda>f. foldName (fst f) = foldName key) st))"

definition set_field :: "go_struct \<Rightarrow> string \<Rightarrow> field_val \<Rightarrow> go_struct" where
  "set_field st name v = map (\<lambda>(n, w). if n = name then (n, v) else (n, w)) st"

definition get_field :: "go_struct \<Rightarrow> string \<Rightarrow> field_val" where
  "get_field st name = the (map_of st name)"

text \<open>\<open>indirect\<close> allocates a nil pointer before a value other than null is stored.\<close>

fun allocated :: "field_val \<Rightarrow> field_val" where
  "allocated (VPtrString None) = VPtrString (Some '''')"
| "allocated (VPtrFloat None) = VPtrFloat (Some 0)"
| "allocated v = v"

subsection \<open>The decoder state\<close>

record decodeState =
  ds_last :: char
  ds_rest :: string
  ds_opcode :: opcode
  ds_scan :: scanner
  ds_savedError :: "go_error option"
  ds_disallowUnknownFields :: bool

definition saveError :: "decodeState \<Rightarrow> go_error \<Rightarrow> decodeState" where
  "saveError d err = (if ds_savedError d = None then d\<lparr>ds_savedError := Some err\<rparr> else d)"

text \<open>\<open>skip\<close> reads to the end of the composite value that was begun; running off the data is a panic.\<close>

fun skip_loop :: "nat \<Rightarrow> decodeState \<Rightarrow> string \<Rightarrow> (go_error, decodeState) result" where
  "skip_loop depth d [] = Inl Json_Panic"
| "skip_loop depth d (c # cs) =
     (let (s, op) = scan_step (ds_scan d) c; d = d\<lparr>ds_scan := s\<rparr> in
      if length (sc_parseState s) < depth then Inr (d\<lparr>ds_last := c, ds_rest := cs, ds_opcode := op\<rparr>)
      else skip_loop depth d cs)"

definition skip :: "decodeState \<Rightarrow> (go_error, decodeState) result" where
  "skip d = skip_loop (length (sc_parseState (ds_scan d))) d (ds_rest d)"

definition scanNext :: "decodeState \<Rightarrow> decodeState" where
  "scanNext d =
     (case ds_rest d of
        c # cs \<Rightarrow> (let (s, op) = scan_step (ds_scan d) c in d\<lparr>ds_last := c, ds_rest := cs, ds_opcode := op, ds_scan := s\<rparr>)
      | [] \<Rightarrow> (let (s, op) = scan_eof (ds_scan d) in d\<lparr>ds_opcode := op, ds_scan := s\<rparr>))"

fun scanWhile_loop :: "opcode \<Rightarrow> decodeState \<Rightarrow> string \<Rightarrow> decodeState" where
  "scanWhile_loop op d [] = (let (s, eop) = scan_eof (ds_scan d) in d\<lparr>ds_rest := [], ds_opcode := eop, ds_scan := s\<rparr>)"
| "scanWhile_loop op d (c # cs) =
     (let (s, newOp) = scan_step (ds_scan d) c; d = d\<lparr>ds_scan := s\<rparr> in
      if newOp \<noteq> op then d\<lparr>ds_last := c, ds_rest := cs, ds_opcode := newOp\<rparr>
      else scanWhile_loop op d cs)"

definition scanWhile :: "opcode \<Rightarrow> decodeState \<Rightarrow> decodeState" where
  "scanWhile op d = scanWhile_loop op d (ds_rest d)"

text \<open>The number of bytes of a string literal after its opening quote, and of the rest of a number.\<close>

fun string_span :: "string \<Rightarrow> nat" where
  "string_span [] = 0"
| "string_span (c # cs) =
     (if c = CHR 0x5C then (case cs of [] \<Rightarrow> 2 | _ # cs' \<Rightarrow> 2 + string_span cs')
      else if c = CHR 0x22 then 1
      else 1 + string_span cs)"

definition number_char :: "char \<Rightarrow> bool" where
  "number_char c \<longleftrightarrow> is_digit c \<or> c \<in> {CHR ''.'', CHR ''e'', CHR ''E'', CHR ''+'', CHR ''-''}"

definition literal_span :: "char \<Rightarrow> string \<Rightarrow> nat" where
  "literal_span c rest =
     (if c = CHR 0x22 then string_span rest
      else if is_digit c \<or> c = CHR ''-'' then length (takeWhile number_char rest)
      else if c = CHR ''t'' then 3
      else if c = CHR ''f'' then 4
      else if c = CHR ''n'' then 3
      else 0)"

text \<open>
  \<open>rescanLiteral\<close>, with the text of the literal (\<open>data[start:readIndex()]\<close>), whose first byte has been read.
\<close>

definition rescanLiteral :: "decodeState \<Rightarrow> decodeState \<times> string" where
  "rescanLiteral d =
     (let n = literal_span (ds_last d) (ds_rest d);
          item = ds_last d # take n (ds_rest d) in
      case drop n (ds_rest d) of
        [] \<Rightarrow> (d\<lparr>ds_rest := [], ds_opcode := scanEnd\<rparr>, item)
      | c # cs \<Rightarrow>
          let (s, op) = stateEndValue (ds_scan d) c in
          (d\<lparr>ds_last := c, ds_rest := cs, ds_opcode := op, ds_scan := s\<rparr>, item))"

subsection \<open>Literals\<close>

definition number_mismatch :: "string \<Rightarrow> go_error" where
  "number_mismatch item = Json_Type_Mismatch (''number '' @ item)"

fun store_string :: "string \<Rightarrow> field_val \<Rightarrow> go_error option \<times> field_val" where
  "store_string s (VString _) = (None, VString s)"
| "store_string s (VPtrString _) = (None, VPtrString (Some s))"
| "store_string s v = (Some (Json_Type_Mismatch ''string''), v)"

definition parsed_float :: "string \<Rightarrow> (go_error, float64) result" where
  "parsed_float item = (case ParseFloat item of (n, None) \<Rightarrow> Inr n | (n, Some err) \<Rightarrow> Inl (number_mismatch item))"

fun store_number :: "string \<Rightarrow> field_val \<Rightarrow> go_error option \<times> field_val" where
  "store_number item (VFloat x) = (case parsed_float item of Inl e \<Rightarrow> (Some e, VFloat x) | Inr n \<Rightarrow> (None, VFloat n))"
| "store_number item (VPtrFloat x) = (case parsed_float item of Inl e \<Rightarrow> (Some e, VPtrFloat x) | Inr n \<Rightarrow> (None, VPtrFloat (Some n)))"
| "store_number item (VInt i) =
     (case ParseInt item 10 64 of
        (n, None) \<Rightarrow> (None, VInt n)
      | (n, Some err) \<Rightarrow> (Some (number_mismatch item), VInt i))"
| "store_number item v = (Some (Json_Type_Mismatch ''number''), v)"

fun store_null :: "field_val \<Rightarrow> field_val" where
  "store_null (VPtrString _) = VPtrString None"
| "store_null (VPtrFloat _) = VPtrFloat None"
| "store_null v = v"

text \<open>\<open>literalStore\<close> into a field: the error it saves, if any, and the new value; a literal that the scanner would not accept is a panic.\<close>

definition literalStore :: "string \<Rightarrow> field_val \<Rightarrow> (go_error, go_error option \<times> field_val) result" where
  "literalStore item v =
     (if item = [] then Inr (Some (Json_Type_Mismatch ''''), v)
      else if hd item = CHR ''n'' then Inr (None, store_null v)
      else
        let v = allocated v in
        if hd item = CHR ''t'' \<or> hd item = CHR ''f'' then Inr (Some (Json_Type_Mismatch ''bool''), v)
        else if hd item = CHR 0x22 then
          (case unquoteBytes item of None \<Rightarrow> Inl Json_Panic | Some s \<Rightarrow> Inr (store_string s v))
        else if hd item \<noteq> CHR ''-'' \<and> \<not> is_digit (hd item) then Inl Json_Panic
        else Inr (store_number item v))"

definition saveMaybe :: "decodeState \<Rightarrow> go_error option \<Rightarrow> decodeState" where
  "saveMaybe d e = (case e of None \<Rightarrow> d | Some err \<Rightarrow> saveError d err)"

subsection \<open>Values\<close>

text \<open>
  \<open>value\<close> into a field, or past a value without one: the state after it and the new value of the field.
  An array or object in the place of a scalar is skipped with an error saved.
\<close>

definition composite_value :: "string \<Rightarrow> decodeState \<Rightarrow> field_val option \<Rightarrow> (go_error, decodeState \<times> field_val option) result" where
  "composite_value what d v =
     (let d = (if v \<noteq> None then saveError d (Json_Type_Mismatch what) else d) in
      result_bind (skip d) (\<lambda>d. Inr (scanNext d, map_option allocated v)))"

definition literal_value :: "decodeState \<Rightarrow> field_val option \<Rightarrow> (go_error, decodeState \<times> field_val option) result" where
  "literal_value d v =
     (let (d, item) = rescanLiteral d in
      case v of
        None \<Rightarrow> Inr (d, None)
      | Some v \<Rightarrow>
          result_bind (literalStore item v) (\<lambda>(e, v). Inr (saveMaybe d e, Some v)))"

definition json_value :: "decodeState \<Rightarrow> field_val option \<Rightarrow> (go_error, decodeState \<times> field_val option) result" where
  "json_value d v =
     (if ds_opcode d = scanBeginArray then composite_value ''array'' d v
      else if ds_opcode d = scanBeginObject then composite_value ''object'' d v
      else if ds_opcode d = scanBeginLiteral then literal_value d v
      else Inl Json_Panic)"

definition skipSpaces :: "decodeState \<Rightarrow> decodeState" where
  "skipSpaces d = (if ds_opcode d = scanSkipSpace then scanWhile scanSkipSpace d else d)"

text \<open>One turn of the loop of \<open>object\<close>; the last component tells whether another member follows.\<close>

definition object_member :: "decodeState \<Rightarrow> go_struct \<Rightarrow> (go_error, decodeState \<times> go_struct \<times> bool) result" where
  "object_member d st =
     (let d = scanWhile scanSkipSpace d in
      if ds_opcode d = scanEndObject then Inr (d, st, False)
      else if ds_opcode d \<noteq> scanBeginLiteral then Inl Json_Panic
      else
        let (d, item) = rescanLiteral d in
        case unquoteBytes item of
          None \<Rightarrow> Inl Json_Panic
        | Some key \<Rightarrow>
            let f = find_field st key;
                d = (if f = None \<and> ds_disallowUnknownFields d then saveError d (Json_Unknown_Field key) else d);
                d = skipSpaces d in
            if ds_opcode d \<noteq> scanObjectKey then Inl Json_Panic
            else
              result_bind (json_value (scanWhile scanSkipSpace d) (map_option (get_field st) f)) (\<lambda>(d, v).
                let st = (case (f, v) of (Some n, Some v) \<Rightarrow> set_field st n v | _ \<Rightarrow> st);
                    d = skipSpaces d in
                if ds_opcode d = scanEndObject then Inr (d, st, False)
                else if ds_opcode d \<noteq> scanObjectValue then Inl Json_Panic
                else Inr (d, st, True)))"

subsection \<open>The decoder reads forward\<close>

lemma scanWhile_loop_rest: "length (ds_rest (scanWhile_loop op d cs)) \<le> length cs"
  by (induction cs arbitrary: d) (auto simp: Let_def le_SucI split: prod.splits)

lemma scanWhile_loop_literal:
  "ds_opcode (scanWhile_loop op d cs) = scanBeginLiteral \<Longrightarrow> length (ds_rest (scanWhile_loop op d cs)) < length cs"
proof (induction op d cs rule: scanWhile_loop.induct)
  case (1 op d)
  then show ?case by (auto simp: scan_eof_def Let_def split: prod.splits if_splits)
qed (auto simp: Let_def less_Suc_eq split: prod.splits)

lemma scanWhile_rest: "length (ds_rest (scanWhile op d)) \<le> length (ds_rest d)"
  by (simp add: scanWhile_def scanWhile_loop_rest)

lemma scanWhile_literal:
  "ds_opcode (scanWhile op d) = scanBeginLiteral \<Longrightarrow> length (ds_rest (scanWhile op d)) < length (ds_rest d)"
  by (simp add: scanWhile_def scanWhile_loop_literal)

lemma saveError_rest [simp]: "ds_rest (saveError d e) = ds_rest d" "ds_opcode (saveError d e) = ds_opcode d"
  "ds_scan (saveError d e) = ds_scan d"
  by (simp_all add: saveError_def)

lemma saveMaybe_rest [simp]: "ds_rest (saveMaybe d e) = ds_rest d" "ds_opcode (saveMaybe d e) = ds_opcode d"
  "ds_scan (saveMaybe d e) = ds_scan d"
  by (simp_all add: saveMaybe_def split: option.splits)

lemma skipSpaces_rest: "length (ds_rest (skipSpaces d)) \<le> length (ds_rest d)"
  using scanWhile_rest by (simp add: skipSpaces_def)

lemma rescanLiteral_rest: "rescanLiteral d = (d', item) \<Longrightarrow> length (ds_rest d') \<le> length (ds_rest d)"
proof -
  assume a: "rescanLiteral d = (d', item)"
  let ?n = "literal_span (ds_last d) (ds_rest d)"
  show ?thesis
  proof (cases "drop ?n (ds_rest d)")
    case Nil
    then show ?thesis using a by (auto simp: rescanLiteral_def Let_def)
  next
    case (Cons c cs)
    then have "length (drop ?n (ds_rest d)) = Suc (length cs)" by simp
    then have "length cs \<le> length (ds_rest d)" by simp
    then show ?thesis using a Cons by (auto simp: rescanLiteral_def Let_def split: prod.splits)
  qed
qed

lemma skip_loop_rest: "skip_loop depth d cs = Inr d' \<Longrightarrow> length (ds_rest d') \<le> length cs"
  by (induction cs arbitrary: d) (auto simp: Let_def le_SucI split: prod.splits if_splits)

lemma scanNext_rest: "length (ds_rest (scanNext d)) \<le> length (ds_rest d)"
  by (auto simp: scanNext_def Let_def split: list.splits prod.splits)

lemma json_value_rest:
  assumes "json_value d v = Inr (d', v')"
  shows "length (ds_rest d') \<le> length (ds_rest d)"
proof -
  have c: "length (ds_rest d') \<le> length (ds_rest d)" if a: "composite_value what d v = Inr (d', v')" for what
  proof -
    define d0 where "d0 = (if v \<noteq> None then saveError d (Json_Type_Mismatch what) else d)"
    obtain d1 where d1: "skip d0 = Inr d1" "d' = scanNext d1"
      using a unfolding composite_value_def Let_def d0_def [symmetric] by (auto simp: result_bind_eq_Inr)
    have "ds_rest d0 = ds_rest d" by (simp add: d0_def)
    then show ?thesis using skip_loop_rest [OF d1(1) [unfolded skip_def]] scanNext_rest [of d1] d1(2) by simp
  qed
  have l: "length (ds_rest d') \<le> length (ds_rest d)" if "literal_value d v = Inr (d', v')"
    using that rescanLiteral_rest [of d]
    by (fastforce simp: literal_value_def result_bind_eq_Inr split: prod.splits option.splits)
  show ?thesis using assms c l by (auto simp: json_value_def split: if_splits)
qed

lemma object_member_rest:
  assumes "object_member d st = Inr (d', st', True)"
  shows "length (ds_rest d') < length (ds_rest d)"
proof -
  define d1 where "d1 = scanWhile scanSkipSpace d"
  obtain d2 item where d2: "rescanLiteral d1 = (d2, item)" by fastforce
  have op: "ds_opcode d1 = scanBeginLiteral"
    using assms by (auto simp: object_member_def d1_def [symmetric] Let_def split: if_splits)
  obtain key where key: "unquoteBytes item = Some key"
    using assms op by (auto simp: object_member_def d1_def [symmetric] d2 Let_def split: if_splits option.splits)
  define f where "f = find_field st key"
  define d3 where "d3 = skipSpaces (if f = None \<and> ds_disallowUnknownFields d2 then saveError d2 (Json_Unknown_Field key) else d2)"
  have d3: "length (ds_rest d3) \<le> length (ds_rest d2)"
    using skipSpaces_rest by (auto simp: d3_def intro: order_trans [OF skipSpaces_rest])
  obtain d4 v where d4: "json_value (scanWhile scanSkipSpace d3) (map_option (get_field st) f) = Inr (d4, v)"
    and d': "d' = skipSpaces d4"
    using assms op key
    by (auto simp: object_member_def d1_def [symmetric] d2 Let_def f_def [symmetric] d3_def [symmetric] result_bind_eq_Inr
        split: if_splits)
  show ?thesis
    using scanWhile_literal [OF op [unfolded d1_def]] rescanLiteral_rest [OF d2] d3 scanWhile_rest [of scanSkipSpace d3]
      json_value_rest [OF d4] skipSpaces_rest [of d4] unfolding d' d1_def by linarith
qed

function object_loop :: "decodeState \<Rightarrow> go_struct \<Rightarrow> (go_error, decodeState \<times> go_struct) result" where
  "object_loop d st =
     (case object_member d st of
        Inl e \<Rightarrow> Inl e
      | Inr (d, st, again) \<Rightarrow> if again then object_loop d st else Inr (d, st))"
  by pat_completeness auto
termination
  by (relation "measure (\<lambda>(d, st). length (ds_rest d))") (auto simp: object_member_rest)

declare object_loop.simps [simp del]

subsection \<open>Whole values\<close>

text \<open>\<open>value\<close> at the top, where the target is the struct.\<close>

definition top_literal :: "string \<Rightarrow> (go_error, go_error option) result" where
  "top_literal item =
     (if item = [] then Inr (Some (Json_Type_Mismatch ''''))
      else if hd item = CHR ''n'' then Inr None
      else if hd item = CHR ''t'' \<or> hd item = CHR ''f'' then Inr (Some (Json_Type_Mismatch ''bool''))
      else if hd item = CHR 0x22 then
        (case unquoteBytes item of None \<Rightarrow> Inl Json_Panic | Some s \<Rightarrow> Inr (Some (Json_Type_Mismatch ''string'')))
      else if hd item \<noteq> CHR ''-'' \<and> \<not> is_digit (hd item) then Inl Json_Panic
      else Inr (Some (Json_Type_Mismatch ''number'')))"

definition top_value :: "decodeState \<Rightarrow> go_struct \<Rightarrow> (go_error, decodeState \<times> go_struct) result" where
  "top_value d st =
     (if ds_opcode d = scanBeginArray then
        result_bind (skip (saveError d (Json_Type_Mismatch ''array''))) (\<lambda>d. Inr (scanNext d, st))
      else if ds_opcode d = scanBeginObject then
        result_bind (object_loop d st) (\<lambda>(d, st). Inr (scanNext d, st))
      else if ds_opcode d = scanBeginLiteral then
        (let (d, item) = rescanLiteral d in
         result_bind (top_literal item) (\<lambda>e. Inr (saveMaybe d e, st)))
      else Inl Json_Panic)"

definition decode_init :: "bool \<Rightarrow> string \<Rightarrow> decodeState" where
  "decode_init disallow data = \<lparr>ds_last = CHR 0x00, ds_rest = data, ds_opcode = scanContinue, ds_scan = scan_reset,
     ds_savedError = None, ds_disallowUnknownFields = disallow\<rparr>"

text \<open>\<open>unmarshal\<close>: the error and the struct, which may have changed even when there is an error.\<close>

definition unmarshal :: "bool \<Rightarrow> string \<Rightarrow> go_struct \<Rightarrow> go_error option \<times> go_struct" where
  "unmarshal disallow data st =
     (case top_value (scanWhile scanSkipSpace (decode_init disallow data)) st of
        Inl e \<Rightarrow> (Some e, st)
      | Inr (d, st) \<Rightarrow> (ds_savedError d, st))"

definition Unmarshal :: "string \<Rightarrow> go_struct \<Rightarrow> go_error option \<times> go_struct" where
  "Unmarshal data st =
     (case checkValid data of Some err \<Rightarrow> (Some err, st) | None \<Rightarrow> unmarshal False data st)"

subsection \<open>The stream decoder\<close>

definition nonSpace :: "string \<Rightarrow> bool" where
  "nonSpace b \<longleftrightarrow> \<not> list_all isSpace b"

text \<open>
  \<open>readValue\<close> on a body whose end has been reached: the length of its first value. The byte that ends an object or array at the top is not
  waited for; what follows the value is not read.
\<close>

fun readValue_loop :: "string \<Rightarrow> scanner \<Rightarrow> nat \<Rightarrow> string \<Rightarrow> (go_error, nat) result" where
  "readValue_loop buf s n [] =
     (if snd (scan_step s (CHR '' '')) = scanEnd then Inr n
      else if nonSpace buf then Inl Io_UnexpectedEOF else Inl Io_EOF)"
| "readValue_loop buf s n (c # cs) =
     (let (s, op) = scan_step s c in
      if op = scanEnd then Inr n
      else if op = scanEndObject \<or> op = scanEndArray then
        (let (s, op) = stateEndValue s (CHR '' '') in
         if op = scanEnd then Inr (n + 1) else readValue_loop buf s (n + 1) cs)
      else if op = scanError then Inl (the (sc_err s))
      else readValue_loop buf s (n + 1) cs)"

definition readValue :: "string \<Rightarrow> (go_error, nat) result" where
  "readValue buf = readValue_loop buf scan_reset 0 buf"

text \<open>\<open>Decode\<close> of a decoder with \<open>DisallowUnknownFields\<close>.\<close>

definition Decode :: "string \<Rightarrow> go_struct \<Rightarrow> go_error option \<times> go_struct" where
  "Decode body st =
     (case readValue body of
        Inl err \<Rightarrow> (Some err, st)
      | Inr n \<Rightarrow> unmarshal True (take n body) st)"

end
