(* ===== verification/Float_Text.thy ===== *)
theory Float_Text
  imports Strconv_Float
begin

text \<open>
  Texts of numbers: a sign, an integer part, a fraction and an exponent. The reader of \<open>strconv\<close> returns the exact value of such
  a text, and the shortest decimal of a float reads back as the float.
\<close>

subsection \<open>Number texts\<close>

definition num_text :: "bool \<Rightarrow> string \<Rightarrow> string \<Rightarrow> (char \<times> string) option \<Rightarrow> string" where
  "num_text neg ip fp ex =
     (if neg then ''-'' else '''') @ ip @ (if fp = [] then [] else CHR ''.'' # fp)
     @ (case ex of None \<Rightarrow> [] | Some (sg, es) \<Rightarrow> CHR ''e'' # sg # es)"

definition num_ok :: "string \<Rightarrow> string \<Rightarrow> (char \<times> string) option \<Rightarrow> bool" where
  "num_ok ip fp ex \<longleftrightarrow>
     ip \<noteq> [] \<and> list_all is_digit ip \<and> (hd ip = CHR ''0'' \<longrightarrow> ip = ''0'') \<and> list_all is_digit fp
     \<and> (case ex of None \<Rightarrow> True | Some (sg, es) \<Rightarrow> is_sign sg \<and> es \<noteq> [] \<and> list_all is_digit es \<and> length es \<le> 4)"

definition exp_val :: "(char \<times> string) option \<Rightarrow> int" where
  "exp_val ex = (case ex of None \<Rightarrow> 0
     | Some (sg, es) \<Rightarrow> (if sg = CHR ''-'' then - int (dec_from 0 es) else int (dec_from 0 es)))"

lemma is_digit_chars:
  "is_digit c \<Longrightarrow> c \<noteq> CHR ''_'' \<and> c \<noteq> CHR ''.'' \<and> \<not> is_sign c \<and> c \<noteq> CHR ''i'' \<and> c \<noteq> CHR ''I'' \<and> c \<noteq> CHR ''n''
     \<and> c \<noteq> CHR ''N'' \<and> c \<noteq> CHR ''e'' \<and> c \<noteq> CHR ''E''"
  by (auto simp: is_digit_def is_sign_def byte_def)

subsection \<open>Reading digits\<close>

definition reader_ok :: "float_reader \<Rightarrow> bool" where
  "reader_ok r \<longleftrightarrow> fr_ndMant r = fr_nd r \<and> (fr_nd r = 0 \<longrightarrow> fr_mantissa r = 0)"

definition reads :: "nat \<Rightarrow> string \<Rightarrow> float_reader \<Rightarrow> float_reader \<Rightarrow> bool" where
  "reads maxDigits ds r r' \<longleftrightarrow>
     fr_sawdot r' = fr_sawdot r \<and> fr_underscores r' = fr_underscores r
     \<and> fr_sawdigits r' = (fr_sawdigits r \<or> ds \<noteq> [])
     \<and> (reader_ok r \<and> fr_nd r + length ds \<le> maxDigits \<longrightarrow>
          reader_ok r' \<and> fr_mantissa r' = dec_from (fr_mantissa r) ds \<and> fr_trunc r' = fr_trunc r
          \<and> int (fr_nd r') - fr_dp r' = int (fr_nd r) - fr_dp r + int (length ds) \<and> fr_nd r' \<le> fr_nd r + length ds)"

lemma read_digits_block:
  assumes "list_all is_digit ds"
  shows "\<exists>r'. read_digits 10 m r (ds @ rest) = read_digits 10 m r' rest \<and> reads m ds r r'"
  using assms
proof (induction ds arbitrary: r)
  case Nil
  have "reads m [] r r" by (simp add: reads_def)
  then show ?case by (intro exI [of _ r]) simp
next
  case (Cons c ds)
  define r1 where "r1 =
    (if c = CHR ''0'' \<and> fr_nd r = 0 then r\<lparr>fr_sawdigits := True, fr_dp := fr_dp r - 1\<rparr>
     else if c = CHR ''0'' \<and> \<not> fr_ndMant r < m then r\<lparr>fr_sawdigits := True, fr_nd := fr_nd r + 1\<rparr>
     else add_digit 10 m (digit_val c) r)"
  have e: "read_digits 10 m r ((c # ds) @ rest) = read_digits 10 m r1 (ds @ rest)"
    using Cons(2) is_digit_chars [of c] by (simp add: r1_def)
  obtain r' where r': "read_digits 10 m r1 (ds @ rest) = read_digits 10 m r' rest" "reads m ds r1 r'"
    using Cons by auto
  have z: "digit_val (CHR ''0'') = 0" by (simp add: digit_val_def byte_def)
  have "reads m [c] r r1"
    by (auto simp: reads_def r1_def add_digit_def reader_ok_def z Let_def)
  then have "reads m (c # ds) r r'"
    using r'(2) by (auto simp: reads_def)
  then show ?case using e r'(1) by auto
qed

lemma read_exp_block:
  assumes "list_all is_digit es" "e * 10 ^ length es + 10 ^ length es \<le> 10000"
  shows "read_exp_digits e us es = (dec_from e es, us, [])"
  using assms
proof (induction es arbitrary: e)
  case (Cons c es)
  have d: "digit_val c < 10" using Cons(2) uint_digit_digit(2) by simp
  have le: "(e + 1) * 10 ^ length (c # es) \<le> 10000" using Cons(3) by (simp add: algebra_simps)
  have "(e + 1) * 1 \<le> (e + 1) * 10 ^ length (c # es)" by (rule mult_le_mono2) simp
  from order_trans [OF this le] have small: "e < 10000" by simp
  have "(e * 10 + digit_val c + 1) * 10 ^ length es \<le> (e + 1) * 10 * 10 ^ length es"
    using d by (intro mult_right_mono) auto
  also have "\<dots> \<le> 10000" using le by (simp add: algebra_simps)
  finally have "(e * 10 + digit_val c) * 10 ^ length es + 10 ^ length es \<le> 10000" by (simp add: algebra_simps)
  then show ?case using Cons small by simp
qed simp

lemma read_exponent_text:
  assumes "case ex of None \<Rightarrow> True | Some (sg, es) \<Rightarrow> is_sign sg \<and> es \<noteq> [] \<and> list_all is_digit es \<and> length es \<le> 4"
  shows "read_exponent 0x65 us (case ex of None \<Rightarrow> [] | Some (sg, es) \<Rightarrow> CHR ''e'' # sg # es) = Some (exp_val ex, us, [])"
proof (cases ex)
  case None
  then show ?thesis by (simp add: read_exponent_def exp_val_def)
next
  case (Some p)
  obtain sg es where p: "ex = Some (sg, es)" using Some by (cases p) auto
  have a: "is_sign sg" "es \<noteq> []" "list_all is_digit es" "length es \<le> 4" using assms p by auto
  have "(10::nat) ^ length es \<le> 10 ^ 4" using a(4) by (intro power_increasing) auto
  then have r: "read_exp_digits 0 us es = (dec_from 0 es, us, [])" using read_exp_block [OF a(3), of 0] by simp
  have l: "lower (CHR ''e'') = 0x65" by (simp add: lower_def byte_def)
  have h: "is_digit (hd es)" using a by (cases es) auto
  show ?thesis using p a r l h by (simp add: read_exponent_def exp_val_def Let_def)
qed

lemma read_digits_stop:
  assumes "c \<noteq> CHR ''_''" "c \<noteq> CHR ''.''" "\<not> is_digit c"
  shows "read_digits 10 m r (c # cs) = (r, c # cs)"
  using assms by simp

lemma read_digits_number:
  assumes "num_ok ip fp ex"
  defines "rest \<equiv> (case ex of None \<Rightarrow> [] | Some (sg, es) \<Rightarrow> CHR ''e'' # sg # es)"
  shows "\<exists>r. read_digits 10 m float_reader0 (ip @ (if fp = [] then [] else CHR ''.'' # fp) @ rest) = (r, rest)
    \<and> fr_sawdigits r \<and> \<not> fr_underscores r
    \<and> (length ip + length fp \<le> m \<longrightarrow> \<not> fr_trunc r \<and> fr_mantissa r = dec_from 0 (ip @ fp)
        \<and> (if fr_sawdot r then fr_dp r else int (fr_nd r)) - int (fr_ndMant r) = - int (length fp))"
proof -
  have stop: "read_digits 10 m r rest = (r, rest)" for r
    by (cases ex) (auto simp: rest_def is_digit_def byte_def)
  have ip: "list_all is_digit ip" "ip \<noteq> []" and fp: "list_all is_digit fp" using assms(1) by (auto simp: num_ok_def)
  have ok0: "reader_ok float_reader0" by (simp add: reader_ok_def float_reader0_def)
  show ?thesis
  proof (cases "fp = []")
    case True
    obtain r where r: "read_digits 10 m float_reader0 (ip @ rest) = read_digits 10 m r rest" "reads m ip float_reader0 r"
      using read_digits_block [OF ip(1), of m float_reader0 rest] by auto
    show ?thesis using r ok0 ip stop True
      by (intro exI [of _ r]) (auto simp: reads_def reader_ok_def float_reader0_def)
  next
    case False
    let ?x = "CHR ''.'' # fp @ rest"
    obtain r1 where r1: "read_digits 10 m float_reader0 (ip @ ?x) = read_digits 10 m r1 ?x" "reads m ip float_reader0 r1"
      using read_digits_block [OF ip(1), of m float_reader0 ?x] by auto
    define r2 where "r2 = r1\<lparr>fr_sawdot := True, fr_dp := int (fr_nd r1)\<rparr>"
    have r2: "read_digits 10 m r1 ?x = read_digits 10 m r2 (fp @ rest)"
      using r1(2) by (simp add: reads_def float_reader0_def r2_def)
    obtain r where r: "read_digits 10 m r2 (fp @ rest) = read_digits 10 m r rest" "reads m fp r2 r"
      using read_digits_block [OF fp, of m r2 rest] by auto
    have "reader_ok r2 = reader_ok r1" by (simp add: r2_def reader_ok_def)
    moreover have "dec_from 0 (ip @ fp) = dec_from (dec_from 0 ip) fp" by (simp add: dec_from_def)
    ultimately show ?thesis using r1 r2 r ok0 ip stop False
      by (intro exI [of _ r]) (auto simp: reads_def reader_ok_def float_reader0_def r2_def)
  qed
qed

lemma lower_simps: "lower (CHR ''.'') = 0x2E" "lower (CHR ''e'') = 0x65"
  by (simp_all add: lower_def byte_def)

lemma not_hex_text:
  assumes "num_ok ip fp ex"
  shows "\<not> (2 < length (num_text False ip fp ex) \<and> num_text False ip fp ex ! 0 = CHR ''0''
    \<and> lower (num_text False ip fp ex ! 1) = 0x78)"
proof
  assume a: "2 < length (num_text False ip fp ex) \<and> num_text False ip fp ex ! 0 = CHR ''0''
    \<and> lower (num_text False ip fp ex ! 1) = 0x78"
  have "ip \<noteq> []" using assms by (auto simp: num_ok_def)
  then have "ip = ''0''" using a assms by (cases ip) (auto simp: num_ok_def num_text_def)
  then show False using a by (auto simp: num_text_def lower_simps split: if_splits option.splits)
qed

text \<open>Reading a number text: the exact value unless digits were left out.\<close>

lemma read_number_text:
  assumes ok: "num_ok ip fp ex"
  shows "\<exists>m e t. read_number k (num_text neg ip fp ex) = Some (m, e, neg, t, False, length (num_text neg ip fp ex))
    \<and> (length ip + length fp \<le> k \<longrightarrow> m = dec_from 0 (ip @ fp) \<and> (m \<noteq> 0 \<longrightarrow> e = exp_val ex - int (length fp)))"
proof -
  let ?s = "num_text neg ip fp ex" and ?u = "num_text False ip fp ex"
  define rest where "rest = (case ex of None \<Rightarrow> [] | Some (sg, es) \<Rightarrow> CHR ''e'' # sg # es)"
  have ip: "ip \<noteq> []" "is_digit (hd ip)" using ok by (auto simp: num_ok_def list_all_iff)
  have u: "?u = ip @ (if fp = [] then [] else CHR ''.'' # fp) @ rest" by (simp add: num_text_def rest_def)
  have s: "?s \<noteq> []" "(hd ?s = CHR ''-'') = neg" "(if is_sign (hd ?s) then tl ?s else ?s) = ?u"
    using ip is_digit_chars [OF ip(2)] by (auto simp: num_text_def is_sign_def)
  obtain r where r: "read_digits 10 k float_reader0 ?u = (r, rest)" "fr_sawdigits r" "\<not> fr_underscores r"
    "length ip + length fp \<le> k \<longrightarrow> \<not> fr_trunc r \<and> fr_mantissa r = dec_from 0 (ip @ fp)
        \<and> (if fr_sawdot r then fr_dp r else int (fr_nd r)) - int (fr_ndMant r) = - int (length fp)"
    using read_digits_number [OF ok, of k] unfolding u rest_def by blast
  have x: "read_exponent 0x65 (fr_underscores r) rest = Some (exp_val ex, fr_underscores r, [])"
    using read_exponent_text [of ex "fr_underscores r"] ok unfolding rest_def num_ok_def by blast
  have "read_number k ?s = Some (fr_mantissa r, (if fr_mantissa r \<noteq> 0
      then (if fr_sawdot r then fr_dp r else int (fr_nd r)) + exp_val ex - int (fr_ndMant r) else 0),
      neg, fr_trunc r, False, length ?s)"
    unfolding read_number_def Let_def s(2,3) using s(1) not_hex_text [OF ok] r(1,2,3) x
    by (simp only: if_False if_True simp_thms prod.case option.case) simp
  then show ?thesis using r(4) by auto
qed

lemma special_text:
  assumes "num_ok ip fp ex"
  shows "special (num_text neg ip fp ex) = None"
proof -
  obtain c cs where ip: "ip = c # cs" "is_digit c" using assms by (cases ip) (auto simp: num_ok_def)
  have "byte c \<noteq> byte (CHR ''i'')" using ip(2) by (auto simp: is_digit_def byte_def)
  moreover have "\<not> 0x41 \<le> byte c" using ip(2) by (simp add: is_digit_def)
  ultimately show ?thesis using ip(1) is_digit_chars [OF ip(2)]
    by (cases neg) (auto simp: special_def num_text_def special_inf_def is_sign_def Let_def)
qed

lemma ParseFloat_text:
  assumes "num_ok ip fp ex"
  defines "m \<equiv> dec_from 0 (ip @ fp)"
  shows "ParseFloat (num_text neg ip fp ex)
    = (let f = dec_round neg m (if m \<noteq> 0 then exp_val ex - int (length fp) else 0)
       in (f, if is_inf f then Some Parse_Range else None))"
proof -
  let ?s = "num_text neg ip fp ex"
  obtain m1 e1 t1 where r1: "readFloat ?s = Some (m1, e1, neg, t1, False, length ?s)"
    using read_number_text [OF assms(1), of 19 neg] by (auto simp: readFloat_def)
  have "length ip + length fp \<le> length ?s" by (auto simp: num_text_def)
  then obtain e2 t2 where r2: "read_number (length ?s) ?s = Some (m, e2, neg, t2, False, length ?s)"
    and e2: "m \<noteq> 0 \<longrightarrow> e2 = exp_val ex - int (length fp)"
    using read_number_text [OF assms(1), of "length ?s" neg] unfolding m_def by blast
  have z: "m = 0 \<Longrightarrow> dec_round neg m e2 = dec_round neg m 0" by (simp add: dec_round_def f64_round_def)
  have a: "atof64 ?s = (let f = dec_round neg m e2 in (f, length ?s, if is_inf f then Some Parse_Range else None))"
    unfolding atof64_def special_text [OF assms(1)] r1 r2 by (simp add: Let_def)
  show ?thesis unfolding ParseFloat_def a using e2 z by (auto simp: Let_def)
qed


subsection \<open>The value of a decimal\<close>

definition dec_value :: "nat \<Rightarrow> int \<Rightarrow> real" where
  "dec_value d k = of_nat d * 10 powi k"

lemma dec_value_shift: "dec_value (d * 10 ^ n) k = dec_value d (k + int n)"
  by (simp add: dec_value_def power_int_add)

lemma dec_round_eq:
  assumes "0 < d"
  shows "dec_round neg d k = f64_pack neg (texp (dec_value d k)) (mrnd (dec_value d k))"
proof (cases "0 \<le> k")
  case True
  have v: "dec_value d k = of_int (int d * 10 ^ nat k) / of_int 1 * 2 powi 0"
    using True by (simp add: dec_value_def power_int_def)
  have p: "0 < int d * 10 ^ nat k" using assms by simp
  have r: "dec_round neg d k = f64_round neg (int d * 10 ^ nat k) 1 0" using True by (simp add: dec_round_def)
  show ?thesis unfolding r by (rule f64_round_eq [OF p zero_less_one v])
next
  case False
  have "(10 :: real) powi k = 1 / 10 ^ nat (- k)"
    using False by (simp add: power_int_def power_one_over inverse_eq_divide)
  then have v: "dec_value d k = of_int (int d) / of_int (10 ^ nat (- k)) * 2 powi 0"
    by (simp add: dec_value_def)
  have p: "0 < int d" "0 < (10 :: int) ^ nat (- k)" using assms by simp_all
  have r: "dec_round neg d k = f64_round neg (int d) (10 ^ nat (- k)) 0" using False by (simp add: dec_round_def)
  show ?thesis unfolding r by (rule f64_round_eq [OF p v])
qed

lemma dec_round_0 [simp]: "dec_round s 0 k = Float64 s 0 0"
  by (simp add: dec_round_def f64_round_def)

lemma dec_round_cong:
  assumes "dec_value d k = dec_value d' k'"
  shows "dec_round neg d k = dec_round neg d' k'"
proof (cases "d = 0")
  case True
  then have "d' = 0" using assms by (simp add: dec_value_def)
  then show ?thesis using True by (simp add: dec_round_def f64_round_def)
next
  case False
  then have "dec_value d k \<noteq> 0" by (simp add: dec_value_def)
  then have "d' \<noteq> 0" using assms by (cases "d' = 0") (auto simp: dec_value_def)
  then show ?thesis using False assms dec_round_eq [of d neg k] dec_round_eq [of d' neg k'] by simp
qed

lemma fsign_pack: "fsign (f64_pack s t m) = s"
  by (simp add: f64_pack_def f64_inf_def Let_def)

lemma dec_round_sign: "dec_round s d k = Float64 s (fexp (dec_round False d k)) (ffrac (dec_round False d k))"
proof -
  have pack: "f64_pack s t m = Float64 s (fexp (f64_pack False t m)) (ffrac (f64_pack False t m))" for t m
    by (simp add: f64_pack_def f64_inf_def Let_def)
  show ?thesis
  proof (cases "d = 0")
    case True
    then show ?thesis by (simp add: dec_round_def f64_round_def)
  next
    case False
    then show ?thesis using dec_round_eq [of d] pack by simp
  qed
qed

lemma float64_eqI:
  assumes "is_finite x" "is_finite y" "fsign x = fsign y" "f64_mag x = f64_mag y"
  shows "x = y"
proof -
  have k: "f64_key x = f64_key y"
    using f64_mag_strict_mono [of x y] f64_mag_strict_mono [of y x] assms(4) by (metis less_irrefl linorder_neqE)
  have "uint (fexp x) = f64_key x div 2 ^ 52" "uint (ffrac x) = f64_key x mod 2 ^ 52"
    "uint (fexp y) = f64_key y div 2 ^ 52" "uint (ffrac y) = f64_key y mod 2 ^ 52"
    by (simp_all add: f64_key_def)
  then have "fexp x = fexp y" "ffrac x = ffrac y" using k by (simp_all add: word_uint_eq_iff)
  then show ?thesis using assms(3) by (cases x; cases y) simp
qed

lemma dec_round_exact:
  assumes x: "is_finite x" "\<not> is_zero x" and v: "dec_value d k = f64_mag x"
  shows "dec_round False d k = f64_abs x"
proof -
  have fin: "is_finite (f64_abs x)" "f64_mag (f64_abs x) = f64_mag x" "\<not> fsign (f64_abs x)"
    using x by (simp_all add: f64_abs_def is_finite_def f64_mag_def f64_mant_def f64_expo_def)
  have pos: "0 < f64_mag x" using x by (metis f64_mag_0_iff f64_mag_nonneg order_le_less)
  have d: "0 < d" using v pos by (cases "d = 0") (auto simp: dec_value_def)
  have r: "dec_round False d k = f64_round False (f64_mant x) 1 (f64_expo x)"
  proof -
    have m: "0 < f64_mant x" using x(2) f64_mant_nonneg [of x] by (metis is_zero_iff order_le_less)
    have "dec_value d k = of_int (f64_mant x) / of_int 1 * 2 powi f64_expo x" using v by (simp add: f64_mag_def)
    from f64_round_eq [OF m _ this, of False] show ?thesis using dec_round_eq [OF d, of False k] by simp
  qed
  have v2: "of_int (f64_mant x) / of_int 1 * 2 powi f64_expo x = f64_mag x" by (simp add: f64_mag_def)
  have lim: "rnd (of_int (f64_mant x) / of_int 1 * 2 powi f64_expo x) < f64_limit"
    unfolding v2 using f64_mag_less [OF x(1)] rnd_representable [OF representable_mag] by simp
  note f = f64_round_finite [OF f64_mant_nonneg _ lim, of False, unfolded v2]
  show ?thesis unfolding r
    by (rule float64_eqI) (use f fin rnd_representable [OF representable_mag [of x]] in auto)
qed


subsection \<open>The shortest decimal reads back\<close>

lemma unit_den_pos: "0 < unit_den x k"
  by (simp add: unit_den_def)

lemma pow2_split: "(2 :: real) powi e = 2 ^ nat e / 2 ^ nat (- e)"
  by (simp add: power_int_def power_one_over inverse_eq_divide)

lemma unit_last_exact:
  assumes "k \<le> last_unit x"
  shows "unit_num x k mod unit_den x k = 0" "dec_value (nat (unit_num x k div unit_den x k)) k = f64_mag x"
proof -
  have k: "k \<le> 0" "k \<le> f64_expo x" using assms by (auto simp: last_unit_def)
  define n where "n = nat (- k)"
  define j where "j = nat (- f64_expo x)"
  have jn: "j \<le> n" using k by (auto simp: j_def n_def)
  have den: "unit_den x k = 2 ^ j" using k by (simp add: unit_den_def j_def)
  have ten: "(10 :: int) ^ n = 2 ^ j * (2 ^ (n - j) * 5 ^ n)"
  proof -
    have "(10 :: int) ^ n = 2 ^ n * 5 ^ n" by (simp add: power_mult_distrib [symmetric])
    also have "(2 :: int) ^ n = 2 ^ j * 2 ^ (n - j)" using jn by (simp add: power_add [symmetric])
    finally show ?thesis by simp
  qed
  have num: "unit_num x k = unit_den x k * (f64_mant x * 2 ^ nat (f64_expo x) * (2 ^ (n - j) * 5 ^ n))"
    by (simp add: unit_num_def n_def [symmetric] ten den)
  then show m: "unit_num x k mod unit_den x k = 0" by simp
  have q: "real_of_int (unit_num x k div unit_den x k) = real_of_int (unit_num x k) / real_of_int (unit_den x k)"
    using m by (simp add: real_of_int_div mod_eq_0_iff_dvd)
  have p: "0 \<le> unit_num x k div unit_den x k"
    using unit_den_pos [of x k] by (intro pos_imp_zdiv_nonneg_iff [THEN iffD2]) (auto simp: unit_num_def)
  have "(10 :: real) powi k = 1 / 10 ^ n"
    using k by (cases "k = 0") (auto simp: n_def power_int_def power_one_over inverse_eq_divide)
  then have "dec_value (nat (unit_num x k div unit_den x k)) k
      = real_of_int (unit_num x k) / real_of_int (unit_den x k) * (1 / 10 ^ n)"
    using p by (simp add: dec_value_def q)
  also have "\<dots> = f64_mag x"
    by (simp add: unit_num_def den n_def [symmetric] f64_mag_def pow2_split j_def)
  finally show "dec_value (nat (unit_num x k div unit_den x k)) k = f64_mag x" .
qed

lemma shortest_from_reads_back:
  assumes "is_finite x" "\<not> is_zero x" "shortest_from x k = (d, k')"
  shows "dec_round False d k' = f64_abs x"
  using assms
proof (induction x k rule: shortest_from.induct)
  case (1 x k)
  show ?case
  proof (cases "k \<le> last_unit x")
    case True
    then have "dec_round False (nat (unit_num x k div unit_den x k)) k = f64_abs x"
      using dec_round_exact [OF 1(2,3)] unit_last_exact(2) by blast
    then show ?thesis using 1(4) by (auto simp: shortest_from.simps [of x k] Let_def split: if_splits)
  next
    case False
    show ?thesis using 1 False by (auto simp: shortest_from.simps [of x k] Let_def split: if_splits)
  qed
qed

lemma trim_zeros_value:
  "trim_zeros d k = (d', k') \<Longrightarrow> dec_value d' k' = dec_value d k \<and> (d \<noteq> 0 \<longrightarrow> d' \<noteq> 0)"
proof (induction d k rule: trim_zeros.induct)
  case (1 d k)
  show ?case
  proof (cases "d \<noteq> 0 \<and> 10 dvd d")
    case True
    then have e: "trim_zeros (d div 10) (k + 1) = (d', k')" using 1(2) by (simp add: trim_zeros.simps [of d k])
    have "dec_value (d div 10) (k + 1) = dec_value d k"
      using True dec_value_shift [of "d div 10" 1 k] by (simp add: dvd_div_mult_self)
    then show ?thesis using 1(1) [OF True e] True by (auto simp: dvd_div_eq_0_iff)
  next
    case False
    then show ?thesis using 1(2) by (subst (asm) trim_zeros.simps) (auto split: if_splits)
  qed
qed

subsection \<open>Digit strings\<close>


lemma dec_string_props:
  "list_all is_digit (dec_string n) \<and> dec_string n \<noteq> [] \<and> dec_from 0 (dec_string n) = n
   \<and> (0 < n \<longrightarrow> hd (dec_string n) \<noteq> CHR ''0'')"
proof (induction n rule: dec_string.induct)
  case (1 n)
  have dg: "is_digit (char_of (0x30 + m))" "digit_val (char_of (0x30 + m)) = m" if "m < 10" for m
    using that by (simp_all add: is_digit_def digit_val_def byte_char_of)
  show ?case
  proof (cases "n < 10")
    case True
    have "0 < n \<Longrightarrow> char_of (0x30 + n) \<noteq> CHR ''0''"
    proof
      assume "0 < n" "char_of (0x30 + n) = CHR ''0''"
      then have "byte (char_of (0x30 + n)) = byte (CHR ''0'')" by simp
      then show False using True \<open>0 < n\<close> by (simp add: byte_char_of) (simp add: byte_def)
    qed
    then show ?thesis using True dg [of n] by (simp add: dec_string.simps [of n])
  next
    case False
    have "dec_from 0 (dec_string (n div 10) @ [char_of (0x30 + n mod 10)]) = n div 10 * 10 + n mod 10"
      using 1 [OF False] dg [of "n mod 10"] by (simp add: dec_from_def)
    then show ?thesis using 1 [OF False] False dg [of "n mod 10"] by (simp add: dec_string.simps [of n])
  qed
qed

lemmas dec_string_digits [simp] = dec_string_props [THEN conjunct1]
lemmas dec_string_nonempty [simp] = dec_string_props [THEN conjunct2, THEN conjunct1]
lemmas dec_string_value [simp] = dec_string_props [THEN conjunct2, THEN conjunct2, THEN conjunct1]
lemmas dec_string_head = dec_string_props [THEN conjunct2, THEN conjunct2, THEN conjunct2, rule_format]

subsection \<open>Bounds of the decimal exponent\<close>

lemma rne_small: "0 \<le> x \<Longrightarrow> x < 1/2 \<Longrightarrow> rne x = 0"
proof -
  assume x: "0 \<le> x" "x < 1/2"
  then have "\<lfloor>x\<rfloor> = 0" by linarith
  then show ?thesis using x by (simp add: rne_def Let_def)
qed

lemma dec_round_bounds:
  assumes x: "is_finite x" "\<not> is_zero x" and d: "0 < d" and r: "dec_round False d k = f64_abs x"
  shows "dec_value d k < f64_limit" "2 powi (-1075) \<le> dec_value d k"
proof -
  let ?v = "dec_value d k"
  have v: "0 < ?v" using d by (simp add: dec_value_def)
  have pack: "f64_abs x = f64_pack False (texp ?v) (mrnd ?v)" using r dec_round_eq [OF d, of False k] by simp
  have nz: "\<not> is_zero (f64_abs x)" "is_finite (f64_abs x)" using x by (simp_all add: f64_abs_def is_zero_def is_finite_def)
  show "?v < f64_limit"
  proof (rule ccontr)
    assume "\<not> ?thesis"
    then have "f64_limit \<le> rnd ?v"
      using rnd_mono [of f64_limit ?v] rnd_representable [OF representable_pow2 [of 1024]] by (simp add: f64_limit_def)
    then have "\<not> (texp ?v + 1074) * 2 ^ 52 + mrnd ?v < 2047 * 2 ^ 52" using f64_overflow_iff [OF v] by simp
    then have "f64_abs x = f64_inf False" using pack by (simp add: f64_pack_def Let_def)
    then show False using nz(2) by (simp add: f64_inf_def is_finite_def)
  qed
  show "2 powi (-1075) \<le> ?v"
  proof (rule ccontr)
    assume "\<not> ?thesis"
    then have small: "?v < 2 powi (-1075)" by simp
    have t: "texp ?v = -1074"
      by (rule texp_eqI [OF v]) (use less_le_trans [OF small, of "2 powi (-1074 + 53)"] in auto)
    have "?v / 2 powi (-1074) < 2 powi (-1075) / 2 powi (-1074)" using small by (simp add: divide_strict_right_mono)
    also have "(2 :: real) powi (-1075) / 2 powi (-1074) = 2 powi ((-1075) - (-1074))"
      by (rule power_int_diff [symmetric]) simp
    finally have "mrnd ?v = 0" unfolding mrnd_def t using v by (intro rne_small) auto
    then have "f64_abs x = Float64 False 0 0" using pack t by (simp add: f64_pack_def Let_def)
    then show False using nz(1) by (simp add: is_zero_def)
  qed
qed

lemma byte_inject: "byte c = byte d \<longleftrightarrow> c = d"
  unfolding byte_def by (rule of_char_eq_iff)

lemma dec_from_lower:
  assumes "list_all is_digit ds" "ds \<noteq> []" "hd ds \<noteq> CHR ''0''"
  shows "10 ^ (length ds - 1) \<le> dec_from 0 ds"
proof -
  obtain c cs where ds: "ds = c # cs" using assms(2) by (cases ds) auto
  have "digit_val c \<noteq> 0"
  proof
    assume "digit_val c = 0"
    then have "byte c = byte (CHR ''0'')" using assms(1) ds by (simp add: digit_val_def is_digit_def) (simp add: byte_def)
    then show False using assms(3) ds byte_inject by fastforce
  qed
  moreover have "n * 10 ^ length cs \<le> dec_from n cs" for n
  proof (induction cs arbitrary: n)
    case (Cons a cs)
    have "n * 10 * 10 ^ length cs \<le> (n * 10 + digit_val a) * 10 ^ length cs" by (rule mult_le_mono1) simp
    then show ?case using Cons [of "n * 10 + digit_val a"] by (simp add: algebra_simps)
  qed simp
  ultimately have "1 * 10 ^ length cs \<le> dec_from (digit_val c) cs"
    by (meson less_one linorder_not_less mult_le_mono1 order_trans)
  then show ?thesis using ds by simp
qed

lemma pow10_less: "(10 :: real) powi a < 10 powi b \<Longrightarrow> a < b"
  by (rule ccontr) (use power_int_increasing [of b a "10 :: real"] in auto)

lemma decimal_point_bounds:
  assumes x: "is_finite x" "\<not> is_zero x" and d: "0 < d" and r: "dec_round False d k = f64_abs x"
  defines "dp \<equiv> int (length (dec_string d)) + k"
  shows "- 324 < dp" "dp < 311"
proof -
  note b = dec_round_bounds [OF x d r]
  let ?n = "length (dec_string d)"
  have n: "1 \<le> ?n" by (simp add: Suc_le_eq)
  have up: "d < 10 ^ ?n" using dec_from_less [of "dec_string d" 0] by simp
  have lo: "10 ^ (?n - 1) \<le> d" using dec_from_lower [of "dec_string d"] dec_string_head [OF d] by simp
  have "dec_value d k < 10 powi dp"
  proof -
    have "dec_value d k < 10 ^ ?n * 10 powi k" using up unfolding dec_value_def
      by (intro mult_strict_right_mono) (metis of_nat_less_iff of_nat_numeral of_nat_power, simp)
    then show ?thesis by (simp add: dp_def power_int_add)
  qed
  then have "(2 :: real) powi (-1075) < 10 powi dp" using b(2) by linarith
  moreover have "(10 :: real) powi (-324) < 2 powi (-1075)"
  proof -
    have "(2 :: real) ^ 1075 < 10 ^ 324" by simp
    then have "inverse ((10 :: real) ^ 324) < inverse (2 ^ 1075)" by (rule less_imp_inverse_less) simp
    then show ?thesis by (simp only: power_int_minus power_int_numeral)
  qed
  ultimately have "(10 :: real) powi (-324) < 10 powi dp" by linarith
  then show "- 324 < dp" by (rule pow10_less)
  have "10 powi (dp - 1) \<le> dec_value d k"
  proof -
    have "10 ^ (?n - 1) * (10 :: real) powi k \<le> dec_value d k" using lo unfolding dec_value_def
      by (intro mult_right_mono) (metis of_nat_le_iff of_nat_numeral of_nat_power, simp)
    moreover have "(10 :: real) ^ (?n - 1) * 10 powi k = 10 powi (dp - 1)"
      using n by (simp add: dp_def power_int_add power_int_diff power_diff)
    ultimately show ?thesis by simp
  qed
  then have "(10 :: real) powi (dp - 1) < 10 powi 310"
  proof -
    have "f64_limit < 10 powi 310" unfolding f64_limit_def by (simp add: power_int_def)
    then show ?thesis using b(1) \<open>10 powi (dp - 1) \<le> dec_value d k\<close> by linarith
  qed
  then have "dp - 1 < 310" by (rule pow10_less)
  then show "dp < 311" by simp
qed


subsection \<open>Formatted floats as number texts\<close>

lemma shortest_zero: "is_zero x \<Longrightarrow> shortest x = \<lparr>ds_d = [], ds_dp = 0\<rparr>"
  by (simp add: shortest_def)

lemma shortest_nonzero:
  assumes "is_finite x" "\<not> is_zero x"
  obtains d k where "0 < d" "shortest x = \<lparr>ds_d = dec_string d, ds_dp = int (length (dec_string d)) + k\<rparr>"
    "dec_round False d k = f64_abs x"
proof -
  obtain d0 k0 where s: "shortest_from x (first_unit x) = (d0, k0)" by fastforce
  obtain d k where t: "trim_zeros d0 k0 = (d, k)" by fastforce
  have r: "dec_round False d0 k0 = f64_abs x" by (rule shortest_from_reads_back [OF assms s])
  have "d0 \<noteq> 0"
  proof
    assume "d0 = 0"
    then have "f64_abs x = Float64 False 0 0" using r dec_round_0 [of False k0] by simp
    then show False using assms(2) by (simp add: f64_abs_def is_zero_def)
  qed
  then have "dec_value d k = dec_value d0 k0" "0 < d" using trim_zeros_value [OF t] by auto
  moreover have "dec_round False d k = f64_abs x" using r dec_round_cong [OF calculation(1)] by simp
  moreover have "shortest x = \<lparr>ds_d = dec_string d, ds_dp = int (length (dec_string d)) + k\<rparr>"
    using assms(2) s t by (simp add: shortest_def Let_def)
  ultimately show ?thesis using that by blast
qed

definition reads_as :: "string \<Rightarrow> float64 \<Rightarrow> bool" where
  "reads_as s x \<longleftrightarrow> (\<exists>ip fp ex. s = num_text (fsign x) ip fp ex \<and> num_ok ip fp ex
     \<and> ParseFloat s = (x, None))"

lemma reads_as_intro:
  assumes x: "is_finite x" and ok: "num_ok ip fp ex" and s: "s = num_text (fsign x) ip fp ex"
    and r: "dec_round False d k = f64_abs x" "dec_value (dec_from 0 (ip @ fp)) (exp_val ex - int (length fp)) = dec_value d k"
  shows "reads_as s x"
proof -
  define m where "m = dec_from 0 (ip @ fp)"
  define e where "e = (if m \<noteq> 0 then exp_val ex - int (length fp) else 0)"
  have v: "dec_value m e = dec_value d k" using r(2) by (auto simp: m_def [symmetric] e_def dec_value_def)
  have "dec_round (fsign x) m e = Float64 (fsign x) (fexp x) (ffrac x)"
    using dec_round_sign [of "fsign x" m e] dec_round_cong [OF v, of False] r(1) by (simp add: f64_abs_def)
  then have f: "dec_round (fsign x) m e = x" by simp
  have "ParseFloat s = (x, None)"
    using ParseFloat_text [OF ok, of "fsign x"] x f unfolding s m_def [symmetric] e_def [symmetric]
    by (simp add: Let_def)
  then show ?thesis unfolding reads_as_def using s ok by blast
qed

lemma dec_from_zeros: "dec_from 0 (replicate n (CHR ''0'') @ ds) = dec_from 0 ds"
  by (induction n) (simp_all add: dec_from_def digit_val_def byte_def)

lemma dec_from_append_zeros: "dec_from 0 (ds @ replicate n (CHR ''0'')) = dec_from 0 ds * 10 ^ n"
proof -
  have "dec_from m (replicate n (CHR ''0'')) = m * 10 ^ n" for m
    by (induction n arbitrary: m) (simp_all add: digit_val_def byte_def)
  then show ?thesis by (simp add: dec_from_def)
qed

lemma zeros_digits [simp]: "list_all is_digit (replicate n (CHR ''0''))"
  by (simp add: list_all_iff is_digit_def byte_def)


text \<open>The \<open>%f\<close> format with the precision of the shortest decimal.\<close>

lemma fmtF_fraction:
  assumes "dp \<le> 0"
  shows "map (\<lambda>i. let j = dp + int i in if 0 \<le> j \<and> j < int (length ds) then ds ! nat j else CHR ''0'')
      [0..<nat (int (length ds) - dp)] = replicate (nat (- dp)) (CHR ''0'') @ ds"
proof (rule nth_equalityI)
  show "length (map (\<lambda>i. let j = dp + int i in if 0 \<le> j \<and> j < int (length ds) then ds ! nat j else CHR ''0'')
      [0..<nat (int (length ds) - dp)]) = length (replicate (nat (- dp)) (CHR ''0'') @ ds)"
    using assms by (simp add: nat_diff_distrib')
next
  fix i
  assume "i < length (map (\<lambda>i. let j = dp + int i in if 0 \<le> j \<and> j < int (length ds) then ds ! nat j else CHR ''0'')
      [0..<nat (int (length ds) - dp)])"
  then have i: "i < nat (int (length ds) - dp)" by simp
  have "nat (dp + int i) = i - nat (- dp)" using assms by linarith
  then show "map (\<lambda>i. let j = dp + int i in if 0 \<le> j \<and> j < int (length ds) then ds ! nat j else CHR ''0'')
      [0..<nat (int (length ds) - dp)] ! i = (replicate (nat (- dp)) (CHR ''0'') @ ds) ! i"
    using i assms by (auto simp: nth_append Let_def)
qed

lemma fmtF_middle:
  assumes "0 < dp" "dp \<le> int (length ds)"
  shows "map (\<lambda>i. let j = dp + int i in if 0 \<le> j \<and> j < int (length ds) then ds ! nat j else CHR ''0'')
      [0..<nat (int (length ds) - dp)] = drop (nat dp) ds"
  by (rule nth_equalityI) (use assms in \<open>auto simp: Let_def nat_add_distrib nat_diff_distrib'\<close>)

lemma FormatFloat_f_reads:
  assumes x: "is_finite x"
  shows "reads_as (FormatFloat x (CHR ''f'')) x"
proof (cases "is_zero x")
  case True
  have e: "FormatFloat x (CHR ''f'') = num_text (fsign x) ''0'' [] None"
    using x True by (simp add: FormatFloat_def fmtF_def shortest_zero num_text_def)
  have ok: "num_ok ''0'' [] None" by (simp add: num_ok_def is_digit_def byte_def)
  have z: "dec_round False 0 0 = f64_abs x" using True by (simp add: f64_abs_def is_zero_def)
  have "dec_from 0 ''0'' = 0" by (simp add: digit_val_def byte_def)
  then show ?thesis unfolding e using reads_as_intro [OF x ok refl z] by (simp add: dec_value_def)
next
  case False
  obtain d k where d: "0 < d" and sh: "shortest x = \<lparr>ds_d = dec_string d, ds_dp = int (length (dec_string d)) + k\<rparr>"
    and r: "dec_round False d k = f64_abs x"
    using shortest_nonzero [OF x False] .
  let ?ds = "dec_string d"
  define dp where "dp = int (length ?ds) + k"
  have f: "FormatFloat x (CHR ''f'') = fmtF (fsign x) \<lparr>ds_d = ?ds, ds_dp = dp\<rparr> (nat (max (int (length ?ds) - dp) 0))"
    using x sh by (simp add: FormatFloat_def dp_def)
  have hd: "hd ?ds \<noteq> CHR ''0''" by (rule dec_string_head [OF d])
  have len: "0 < int (length ?ds)" by simp
  have dig: "list_all is_digit (take n ?ds)" "list_all is_digit (drop n ?ds)" for n
    using dec_string_digits [of d] by (auto simp: list_all_iff dest: in_set_takeD in_set_dropD)
  consider "dp \<le> 0" | "0 < dp" "dp < int (length ?ds)" | "0 < dp" "int (length ?ds) \<le> dp" by linarith
  then show ?thesis
  proof cases
    case 1
    let ?fp = "replicate (nat (- dp)) (CHR ''0'') @ ?ds"
    have e: "FormatFloat x (CHR ''f'') = num_text (fsign x) ''0'' ?fp None"
    proof -
      have "dp < int (length ?ds)" using 1 len by linarith
      then show ?thesis unfolding f fmtF_def decimalSlice.select_convs using 1 fmtF_fraction [OF 1, of ?ds]
        by (simp add: num_text_def Let_def)
    qed
    have ok: "num_ok ''0'' ?fp None" by (simp add: num_ok_def is_digit_def byte_def)
    have "dec_from 0 (''0'' @ ?fp) = d"
      using dec_from_zeros [of "Suc (nat (- dp))" ?ds] by simp
    then show ?thesis unfolding e using 1 by (intro reads_as_intro [OF x ok refl r]) (simp add: exp_val_def dp_def)
  next
    case 2
    have e: "FormatFloat x (CHR ''f'') = num_text (fsign x) (take (nat dp) ?ds) (drop (nat dp) ?ds) None"
      unfolding f fmtF_def decimalSlice.select_convs using 2 fmtF_middle [of dp ?ds] by (simp add: num_text_def Let_def)
    have ok: "num_ok (take (nat dp) ?ds) (drop (nat dp) ?ds) None"
      using 2 dig hd by (auto simp: num_ok_def hd_take)
    show ?thesis unfolding e
      by (intro reads_as_intro [OF x ok refl r]) (use 2 in \<open>simp add: exp_val_def dp_def\<close>)
  next
    case 3
    define n where "n = nat (dp - int (length ?ds))"
    have e: "FormatFloat x (CHR ''f'') = num_text (fsign x) (?ds @ replicate n (CHR ''0'')) [] None"
      unfolding f fmtF_def decimalSlice.select_convs using 3 by (simp add: num_text_def Let_def n_def)
    have ok: "num_ok (?ds @ replicate n (CHR ''0'')) [] None" using hd by (simp add: num_ok_def)
    have n: "int n = k" using 3 by (simp add: n_def dp_def)
    show ?thesis unfolding e
      by (intro reads_as_intro [OF x ok refl r])
        (use dec_value_shift [of d n 0] n in \<open>simp add: exp_val_def dec_from_append_zeros\<close>)
  qed
qed


text \<open>The \<open>%e\<close> format: one digit, the others after the point, and an exponent of two or three digits.\<close>

lemma exp_chars_props:
  assumes "n < 1000"
  shows "list_all is_digit (exp_chars n)" "dec_from 0 (exp_chars n) = n" "exp_chars n \<noteq> []" "length (exp_chars n) \<le> 3"
proof -
  have dg: "is_digit (char_of (0x30 + m))" "digit_val (char_of (0x30 + m)) = m" if "m < 10" for m
    using that by (simp_all add: is_digit_def digit_val_def byte_char_of)
  have z: "is_digit (CHR ''0'')" "digit_val (CHR ''0'') = 0" by (simp_all add: is_digit_def digit_val_def byte_def)
  have b: "n div 100 < 10" "n div 10 mod 10 < 10" "n mod 10 < 10" "n < 100 \<Longrightarrow> n div 10 < 10" using assms by auto
  show "list_all is_digit (exp_chars n)" using b z dg by (auto simp: exp_chars_def)
  have "(n div 100 * 10 + n div 10 mod 10) * 10 + n mod 10 = n" by (simp add: div_mult2_eq [of n 10 10, simplified] mult.commute)
  then show "dec_from 0 (exp_chars n) = n" using b z dg by (auto simp: exp_chars_def)
  show "exp_chars n \<noteq> []" "length (exp_chars n) \<le> 3" by (simp_all add: exp_chars_def)
qed

lemma FormatFloat_e_reads:
  assumes x: "is_finite x" and nz: "\<not> is_zero x"
  shows "\<exists>ip fp sg n. FormatFloat x (CHR ''e'') = num_text (fsign x) ip fp (Some (sg, exp_chars n)) \<and> n < 1000 \<and> is_sign sg
    \<and> (\<forall>es. list_all is_digit es \<and> es \<noteq> [] \<and> length es \<le> 4 \<and> dec_from 0 es = n
        \<longrightarrow> reads_as (num_text (fsign x) ip fp (Some (sg, es))) x)"
proof -
  obtain d k where d: "0 < d" and sh: "shortest x = \<lparr>ds_d = dec_string d, ds_dp = int (length (dec_string d)) + k\<rparr>"
    and r: "dec_round False d k = f64_abs x"
    using shortest_nonzero [OF x nz] .
  define ds where "ds = dec_string d"
  define dp where "dp = int (length ds) + k"
  have b: "- 324 < dp" "dp < 311" using decimal_point_bounds [OF x nz d r] by (simp_all add: dp_def ds_def)
  define n where "n = nat \<bar>dp - 1\<bar>"
  define sg where "sg = (if dp - 1 < 0 then CHR ''-'' else CHR ''+'')"
  obtain c cs where ds: "ds = c # cs" by (cases ds) (auto simp: ds_def)
  have f: "FormatFloat x (CHR ''e'') = fmtE (fsign x) \<lparr>ds_d = ds, ds_dp = dp\<rparr> (length cs) (CHR ''e'')"
    using x sh ds by (simp add: FormatFloat_def dp_def ds_def [symmetric])
  have e: "FormatFloat x (CHR ''e'') = num_text (fsign x) [c] cs (Some (sg, exp_chars n))"
    unfolding f fmtE_def decimalSlice.select_convs ds sg_def n_def
    by (cases cs) (auto simp: num_text_def Let_def)
  have hd: "c \<noteq> CHR ''0''" using dec_string_head [OF d] ds by (simp add: ds_def [symmetric])
  have dig: "is_digit c" "list_all is_digit cs" using dec_string_digits [of d] ds by (simp_all add: ds_def [symmetric])
  have val: "dec_from 0 (c # cs) = d" using dec_string_value [of d] ds by (simp add: ds_def [symmetric])
  have "reads_as (num_text (fsign x) [c] cs (Some (sg, es))) x"
    if es: "list_all is_digit es" "es \<noteq> []" "length es \<le> 4" "dec_from 0 es = n" for es
  proof (rule reads_as_intro [OF x _ refl r])
    show "num_ok [c] cs (Some (sg, es))" using es dig hd by (simp add: num_ok_def sg_def is_sign_def)
    have "exp_val (Some (sg, es)) = dp - 1" using es(4) by (auto simp: exp_val_def sg_def n_def)
    moreover have "dp - 1 - int (length cs) = k" using ds by (simp add: dp_def)
    ultimately show "dec_value (dec_from 0 ([c] @ cs)) (exp_val (Some (sg, es)) - int (length cs)) = dec_value d k"
      using val by simp
  qed
  moreover have "n < 1000" "is_sign sg" using b by (simp_all add: n_def sg_def is_sign_def)
  ultimately show ?thesis using e by blast
qed

end
