(* ===== verification/Json_Tokens.thy ===== *)
theory Json_Tokens
  imports Json_Encode Json_Decode Float_Text Names
begin

text \<open>
  The literals that the encoder writes (strings of name characters and finite floats) as tokens of the scanner: one opcode for
  the beginning, then only uninteresting bytes, and a state in which punctuation ends the value.
\<close>

subsection \<open>Runs of the scanner\<close>

abbreviation mk :: "step_fn \<Rightarrow> parse_state list \<Rightarrow> scanner" where
  "mk st ps \<equiv> \<lparr>sc_step = st, sc_endTop = False, sc_parseState = ps, sc_err = None\<rparr>"

fun scan_run :: "scanner \<Rightarrow> string \<Rightarrow> scanner \<times> opcode list" where
  "scan_run s [] = (s, [])"
| "scan_run s (c # cs) = (let (s, op) = scan_step s c; (s, ops) = scan_run s cs in (s, op # ops))"

lemma scan_run_append:
  "scan_run s (xs @ ys) = (let (s, ops) = scan_run s xs; (s, ops') = scan_run s ys in (s, ops @ ops'))"
  by (induction xs arbitrary: s) (auto simp: Let_def split: prod.splits)

text \<open>A run of bytes that the scanner takes as the inside of a literal.\<close>

definition continues :: "step_fn \<Rightarrow> string \<Rightarrow> step_fn \<Rightarrow> bool" where
  "continues st cs st' \<longleftrightarrow> (\<forall>ps. scan_run (mk st ps) cs = (mk st' ps, replicate (length cs) scanContinue))"

lemma continues_Nil [simp]: "continues st [] st' \<longleftrightarrow> st = st'"
  by (auto simp: continues_def)

lemma continues_Cons:
  assumes "\<And>ps. scan_step (mk st ps) c = (mk st' ps, scanContinue)" "continues st' cs st''"
  shows "continues st (c # cs) st''"
  using assms by (simp add: continues_def Let_def)

lemma continues_append: "continues st xs st' \<Longrightarrow> continues st' ys st'' \<Longrightarrow> continues st (xs @ ys) st''"
  by (simp add: continues_def scan_run_append replicate_add)

lemma continues_loop:
  assumes "\<And>c ps. c \<in> set cs \<Longrightarrow> scan_step (mk st ps) c = (mk st ps, scanContinue)"
  shows "continues st cs st"
  using assms by (induction cs) (auto intro!: continues_Cons)

definition ends_value :: "step_fn \<Rightarrow> bool" where
  "ends_value st \<longleftrightarrow> (\<forall>c ps. c \<in> {CHR '','', CHR ''}'', CHR '']'', CHR '':'', CHR '' '', CHR 0x0A} \<longrightarrow>
     scan_step (mk st ps) c = stateEndValue (mk st ps) c)"

definition token :: "step_fn \<Rightarrow> string \<Rightarrow> bool" where
  "token st t \<longleftrightarrow> (\<exists>c cs st1 st2. t = c # cs
     \<and> c \<notin> {CHR ''{'', CHR ''['', CHR '','', CHR '':'', CHR ''}'', CHR '']''}
     \<and> (\<forall>ps. scan_step (mk st ps) c = (mk st1 ps, scanBeginLiteral)) \<and> continues st1 cs st2 \<and> ends_value st2)"

lemma tokenI:
  assumes "t = c # cs" "c \<notin> {CHR ''{'', CHR ''['', CHR '','', CHR '':'', CHR ''}'', CHR '']''}"
    "\<And>ps. scan_step (mk st ps) c = (mk st1 ps, scanBeginLiteral)" "continues st1 cs st2" "ends_value st2"
  shows "token st t"
  unfolding token_def by (intro exI [of _ c] exI [of _ cs] exI [of _ st1] exI [of _ st2] conjI allI) (fact assms)+

subsection \<open>Strings\<close>

definition name_string :: "string \<Rightarrow> bool" where
  "name_string s \<longleftrightarrow> list_all (\<lambda>(i, r). name_rune r) (range_string s)"

definition quoted :: "string \<Rightarrow> string" where
  "quoted s = [CHR 0x22] @ s @ [CHR 0x22]"

definition plain_byte :: "char \<Rightarrow> bool" where
  "plain_byte c \<longleftrightarrow> c \<noteq> CHR 0x22 \<and> c \<noteq> CHR 0x5C \<and> 0x20 \<le> byte c"

lemma name_byte_plain: "name_byte c \<Longrightarrow> plain_byte c"
  by (auto simp: name_byte_def plain_byte_def name_rune_def byte_def)

lemma name_string_plain: "name_string s \<Longrightarrow> list_all plain_byte s"
  using range_from_name_bytes [of 0 s] name_byte_plain
  by (auto simp: name_string_def range_string_def list_all_iff)

lemma scan_plain: "plain_byte c \<Longrightarrow> scan_step (mk InString ps) c = (mk InString ps, scanContinue)"
  by (simp add: plain_byte_def scan_step_def stateInString_def not_less)

lemma token_quoted:
  assumes "list_all plain_byte s" "st \<in> {BeginValue, BeginString, BeginStringOrEmpty}"
  shows "token st (quoted s)"
proof -
  have b: "continues InString s InString"
    by (rule continues_loop) (use assms(1) scan_plain in \<open>simp add: list_all_iff\<close>)
  have "continues InString [CHR 0x22] EndValue"
    by (rule continues_Cons [where st' = EndValue]) (simp_all add: scan_step_def stateInString_def)
  then have c: "continues InString (s @ [CHR 0x22]) EndValue" by (rule continues_append [OF b])
  have e: "ends_value EndValue" by (simp add: ends_value_def scan_step_def)
  have f: "scan_step (mk st ps) (CHR 0x22) = (mk InString ps, scanBeginLiteral)" for ps
    using assms(2) by (auto simp: scan_step_def stateBeginValue_def stateBeginString_def stateBeginStringOrEmpty_def isSpace_def)
  have "quoted s = CHR 0x22 # (s @ [CHR 0x22])" by (simp add: quoted_def)
  then show ?thesis unfolding token_def using f c e by fastforce
qed

lemma rune_induct [case_names Nil Rune]:
  assumes "P []" "\<And>s r n. s \<noteq> [] \<Longrightarrow> DecodeRuneInString s = (r, n) \<Longrightarrow> P (drop n s) \<Longrightarrow> P s"
  shows "P s"
proof (induction s rule: length_induct)
  case (1 s)
  show ?case
  proof (cases "s = []")
    case False
    obtain r n where d: "DecodeRuneInString s = (r, n)" by fastforce
    have "1 \<le> n" using Decode_size [OF False] d by simp
    then have "length (drop n s) < length s" using False by simp
    then show ?thesis using 1 assms(2) [OF False d] by blast
  qed (simp add: assms(1))
qed

lemma name_string_step:
  assumes "s \<noteq> []" "DecodeRuneInString s = (r, n)"
  shows "name_string s \<longleftrightarrow> name_rune r \<and> name_string (drop n s)"
proof -
  have shift: "map snd (range_from i t) = map snd (range_from j t)" for i j t
  proof (induction t arbitrary: i j rule: rune_induct)
    case Nil
    then show ?case by (simp add: range_from.simps)
  next
    case (Rune s r n)
    then show ?case by (simp add: range_from.simps [of _ s])
  qed
  have "list_all (\<lambda>(i, r). name_rune r) xs = list_all name_rune (map snd xs)" for xs :: "(nat \<times> nat) list"
    by (auto simp: list_all_iff)
  then show ?thesis using assms shift [of n "drop n s" 0]
    by (simp add: name_string_def range_string_def range_from.simps [of 0 s])
qed

lemma name_rune_bounds: "name_rune r \<Longrightarrow> r \<noteq> RuneError \<and> r \<noteq> 0x2028 \<and> r \<noteq> 0x2029"
  by (auto simp: name_rune_def RuneError_def)

lemma Decode_take4: "DecodeRuneInString (take 4 s) = DecodeRuneInString s"
proof (cases "4 \<le> length s")
  case True
  have z: "take 4 s ! 0 = s ! 0" "take 4 s \<noteq> []" "length (take 4 s) = 4" using True by auto
  have "utf8_as \<le> first_tab ! byte (s ! 0) \<or> first_tab ! byte (s ! 0) mod 8 \<le> 4"
  proof (rule disjCI)
    assume "\<not> first_tab ! byte (s ! 0) mod 8 \<le> 4"
    then show "utf8_as \<le> first_tab ! byte (s ! 0)"
      using first_tab_accept(2) [OF first_tab_multi(2) [of "byte (s ! 0)"]] by fastforce
  qed
  then have "utf8_as \<le> first_tab ! byte (take 4 s ! 0) \<or> first_tab ! byte (take 4 s ! 0) mod 8 \<le> length (take 4 s)"
    unfolding z(1,3) .
  from Decode_prefix [OF z(2) this, of "drop 4 s"] show ?thesis by simp
qed simp

lemma ascii_first:
  assumes "s \<noteq> []" "byte (hd s) < 0x80"
  shows "DecodeRuneInString s = (byte (hd s), 1)"
  using assms Decode_ascii [of "byte (hd s)" "tl s"] by (cases s) (simp_all add: byte_def)

lemma string_body_name: "name_string s \<Longrightarrow> string_body True s = s"
proof (induction s rule: rune_induct)
  case Nil
  then show ?case by (simp add: string_body.simps)
next
  case (Rune s r n)
  have r: "name_rune r" "name_string (drop n s)" using name_string_step [OF Rune(1,2)] Rune(4) by auto
  show ?case
  proof (cases "byte (hd s) < 0x80")
    case True
    then have d: "r = byte (hd s)" "n = 1" using ascii_first [OF Rune(1)] Rune(2) by auto
    have "htmlSafeSet (byte (hd s))" using r(1) d True
      by (auto simp: htmlSafeSet_def name_rune_def RuneSelf_def)
    then show ?thesis using Rune r d True by (simp add: string_body.simps [of True s] RuneSelf_def drop_Suc)
  next
    case False
    then show ?thesis using Rune r name_rune_bounds [OF r(1)]
      by (simp add: string_body.simps [of True s] RuneSelf_def Decode_take4 Let_def)
  qed
qed

lemma plain_prefix_name: "name_string s \<Longrightarrow> plain_prefix s = length s"
proof (induction s rule: rune_induct)
  case Nil
  then show ?case by (simp add: plain_prefix.simps)
next
  case (Rune s r n)
  have r: "name_rune r" "name_string (drop n s)" using name_string_step [OF Rune(1,2)] Rune(4) by auto
  have p: "plain_byte (hd s)" using name_string_plain [OF Rune(4)] Rune(1) by (cases s) auto
  have n: "n \<le> length s"
    using Decode_cases [OF Rune(1,2)] name_rune_bounds [OF r(1)] Rune(1) by (auto simp: Suc_le_eq)
  show ?case
  proof (cases "byte (hd s) < 0x80")
    case True
    then have "n = 1" using ascii_first [OF Rune(1)] Rune(2) by auto
    then show ?thesis using Rune r p True
      by (cases s) (auto simp: plain_prefix.simps [of "a # b" for a b] RuneSelf_def plain_byte_def)
  next
    case False
    then show ?thesis using Rune r p n name_rune_bounds [OF r(1)]
      by (simp add: plain_prefix.simps [of s] RuneSelf_def plain_byte_def Let_def)
  qed
qed

lemma appendString_name: "name_string s \<Longrightarrow> appendString s True = quoted s"
  by (simp add: appendString_def quoted_def string_body_name)

lemma unquoteBytes_name: "name_string s \<Longrightarrow> unquoteBytes (quoted s) = Some s"
  by (simp add: unquoteBytes_def quoted_def plain_prefix_name butlast_append)

lemma string_span_plain: "list_all plain_byte s \<Longrightarrow> string_span (s @ CHR 0x22 # rest) = length s + 1"
  by (induction s) (auto simp: plain_byte_def)

subsection \<open>Numbers\<close>

lemma digit_eq: "digit c = is_digit c"
  by (simp add: digit_def is_digit_def byte_def)

lemma digit19_eq: "is_digit c \<Longrightarrow> c \<noteq> CHR ''0'' \<Longrightarrow> digit19 c"
proof -
  assume "is_digit c" "c \<noteq> CHR ''0''"
  then have "byte c \<noteq> byte (CHR ''0'')" by (simp add: byte_inject)
  then show ?thesis using \<open>is_digit c\<close> by (auto simp: digit19_def is_digit_def byte_def)
qed

lemma is_digit_not_zero_state: "is_digit c \<Longrightarrow> \<not> isSpace c \<and> c \<notin> {CHR ''{'', CHR ''['', CHR 0x22, CHR ''-'', CHR ''t'', CHR ''f'',
    CHR ''n'', CHR '','', CHR '':'', CHR ''}'', CHR '']'', CHR ''e'', CHR ''E'', CHR ''.'', CHR ''+''}"
  by (auto simp: is_digit_def isSpace_def byte_def)

lemma number_steps:
  "is_digit c \<Longrightarrow> scan_step (mk State1 ps) c = (mk State1 ps, scanContinue)"
  "is_digit c \<Longrightarrow> scan_step (mk Dot0 ps) c = (mk Dot0 ps, scanContinue)"
  "is_digit c \<Longrightarrow> scan_step (mk Dot ps) c = (mk Dot0 ps, scanContinue)"
  "is_digit c \<Longrightarrow> scan_step (mk StESign ps) c = (mk StE0 ps, scanContinue)"
  "is_digit c \<Longrightarrow> scan_step (mk StE0 ps) c = (mk StE0 ps, scanContinue)"
  "is_sign c \<Longrightarrow> scan_step (mk StE ps) c = (mk StESign ps, scanContinue)"
  by (auto simp: scan_step_def state1_def stateDot0_def stateDot_def stateESign_def stateE0_def stateE_def digit_eq is_sign_def)

lemma point_steps:
  "st \<in> {State0, State1} \<Longrightarrow> scan_step (mk st ps) (CHR ''.'') = (mk Dot ps, scanContinue)"
  "st \<in> {State0, State1, Dot0} \<Longrightarrow> scan_step (mk st ps) (CHR ''e'') = (mk StE ps, scanContinue)"
  by (auto simp: scan_step_def state1_def state0_def stateDot0_def digit_eq is_digit_def byte_def)

lemma number_ends: "st \<in> {State0, State1, Dot0, StE0} \<Longrightarrow> ends_value st"
  by (auto simp: ends_value_def scan_step_def state1_def state0_def stateDot0_def stateE0_def digit_eq is_digit_def byte_def)

lemma continues_digits:
  assumes "list_all is_digit ds" "st \<in> {State1, Dot0, StE0}"
  shows "continues st ds st"
  by (rule continues_loop) (use assms number_steps in \<open>auto simp: list_all_iff\<close>)

lemma continues_first_digits:
  assumes "list_all is_digit ds" "ds \<noteq> []" "(st, st') \<in> {(Dot, Dot0), (StESign, StE0)}"
  shows "continues st ds st'"
proof -
  obtain c cs where ds: "ds = c # cs" using assms(2) by (cases ds) auto
  have "continues st' cs st'" using assms(1,3) ds by (intro continues_digits) auto
  then show ?thesis unfolding ds
    by (intro continues_Cons [where st' = st']) (use assms ds number_steps in auto)
qed

text \<open>The rest of a number after its first integer digit.\<close>

lemma continues_number_tail:
  assumes ok: "num_ok ip fp ex" and st: "st \<in> {State0, State1}"
  shows "\<exists>st'. continues st ((if fp = [] then [] else CHR ''.'' # fp)
      @ (case ex of None \<Rightarrow> [] | Some (sg, es) \<Rightarrow> CHR ''e'' # sg # es)) st' \<and> st' \<in> {State0, State1, Dot0, StE0}"
proof -
  define st1 where "st1 = (if fp = [] then st else Dot0)"
  have st1: "st1 \<in> {State0, State1, Dot0}" using st by (auto simp: st1_def)
  have f: "continues st (if fp = [] then [] else CHR ''.'' # fp) st1"
    using ok st continues_first_digits [of fp Dot Dot0]
    by (auto simp: st1_def num_ok_def intro!: continues_Cons [where st' = Dot] point_steps)
  define st2 where "st2 = (case ex of None \<Rightarrow> st1 | Some (sg, es) \<Rightarrow> StE0)"
  have "continues st1 (case ex of None \<Rightarrow> [] | Some (sg, es) \<Rightarrow> CHR ''e'' # sg # es) st2"
  proof (cases ex)
    case (Some p)
    obtain sg es where p: "p = (sg, es)" by fastforce
    have "continues StESign es StE0" using ok Some p by (intro continues_first_digits) (auto simp: num_ok_def)
    then have "continues StE (sg # es) StE0"
      using ok Some p by (intro continues_Cons [where st' = StESign]) (auto simp: num_ok_def number_steps)
    then show ?thesis using Some p st1 point_steps(2)
      by (auto simp: st2_def intro!: continues_Cons [where st' = StE])
  qed (simp add: st2_def)
  moreover have "st2 \<in> {State0, State1, Dot0, StE0}" using st1 by (auto simp: st2_def split: option.splits)
  ultimately show ?thesis using continues_append [OF f] by blast
qed

lemma begin_digit:
  assumes "is_digit c"
  shows "scan_step (mk BeginValue ps) c = (mk (if c = CHR ''0'' then State0 else State1) ps, scanBeginLiteral)"
    "scan_step (mk Neg ps) c = (mk (if c = CHR ''0'' then State0 else State1) ps, scanContinue)"
  using assms is_digit_not_zero_state [OF assms] digit19_eq [OF assms]
  by (auto simp: scan_step_def stateBeginValue_def stateNeg_def)

lemma token_number:
  assumes ok: "num_ok ip fp ex"
  shows "token BeginValue (num_text neg ip fp ex)"
proof -
  obtain c cs where ip: "ip = c # cs" using ok by (cases ip) (auto simp: num_ok_def)
  have c: "is_digit c" "list_all is_digit cs" using ok ip by (auto simp: num_ok_def)
  define st where "st = (if c = CHR ''0'' then State0 else State1)"
  have st: "st \<in> {State0, State1}" by (simp add: st_def)
  have cs: "continues st cs st"
    using ok ip c(2) continues_digits [of cs State1] by (auto simp: st_def num_ok_def)
  obtain st' where t: "continues st (cs @ (if fp = [] then [] else CHR ''.'' # fp)
      @ (case ex of None \<Rightarrow> [] | Some (sg, es) \<Rightarrow> CHR ''e'' # sg # es)) st'" "ends_value st'"
    using continues_number_tail [OF ok st] continues_append [OF cs] number_ends by blast
  show ?thesis
  proof (cases neg)
    case True
    have "scan_step (mk BeginValue ps) (CHR ''-'') = (mk Neg ps, scanBeginLiteral)" for ps
      by (simp add: scan_step_def stateBeginValue_def isSpace_def)
    moreover have "continues Neg (ip @ (if fp = [] then [] else CHR ''.'' # fp)
      @ (case ex of None \<Rightarrow> [] | Some (sg, es) \<Rightarrow> CHR ''e'' # sg # es)) st'"
      unfolding ip append_Cons by (rule continues_Cons [OF _ t(1)]) (simp add: begin_digit [OF c(1)] st_def)
    ultimately show ?thesis unfolding num_text_def if_P [OF True] append_Cons append_Nil
      by (intro tokenI [OF refl _ _ _ t(2)]) auto
  next
    case False
    show ?thesis unfolding num_text_def if_not_P [OF False] append_Nil ip append_Cons
      by (rule tokenI [OF refl _ _ t]) (use begin_digit(1) [OF c(1)] is_digit_not_zero_state [OF c(1)] in \<open>auto simp: st_def\<close>)
  qed
qed

lemma num_text_chars:
  assumes "num_ok ip fp ex"
  shows "list_all number_char (num_text neg ip fp ex)" "hd (num_text neg ip fp ex) = CHR ''-'' \<or> is_digit (hd (num_text neg ip fp ex))"
proof -
  show "list_all number_char (num_text neg ip fp ex)"
    using assms by (auto simp: num_text_def num_ok_def number_char_def list_all_iff is_sign_def split: option.splits)
  show "hd (num_text neg ip fp ex) = CHR ''-'' \<or> is_digit (hd (num_text neg ip fp ex))"
    using assms by (cases ip) (auto simp: num_text_def num_ok_def)
qed

end
