(* ===== verification/Json_Round_Trip.thy ===== *)
theory Json_Round_Trip
  imports Json_Tokens
begin

text \<open>
  Flat structs of name strings and finite floats survive \<open>MarshalIndent\<close> and \<open>Unmarshal\<close>: the compact text that the encoder writes, its
  indentation, and the way the decoder reads the indented text back.
\<close>

subsection \<open>Floats\<close>

lemma clean_exponent_text:
  assumes "n < 1000" "is_sign sg"
  shows "\<exists>es. clean_exponent (num_text neg ip fp (Some (sg, exp_chars n))) = num_text neg ip fp (Some (sg, es))
    \<and> list_all is_digit es \<and> es \<noteq> [] \<and> length es \<le> 4 \<and> dec_from 0 es = n"
proof -
  define a where "a = (if neg then ''-'' else '''') @ ip @ (if fp = [] then [] else CHR ''.'' # fp)"
  have t: "num_text neg ip fp (Some (sg, es)) = a @ [CHR ''e'', sg] @ es" for es
    by (simp add: num_text_def a_def)
  have z: "is_digit (CHR ''0'')" "digit_val (CHR ''0'') = 0" by (simp_all add: is_digit_def digit_val_def byte_def)
  have dg: "is_digit (char_of (0x30 + m))" "digit_val (char_of (0x30 + m)) = m" if "m < 10" for m
    using that by (simp_all add: is_digit_def digit_val_def byte_char_of)
  show ?thesis
  proof (cases "n < 10 \<and> sg = CHR ''-''")
    case True
    then have e: "exp_chars n = [CHR ''0'', char_of (0x30 + n)]" by (simp add: exp_chars_def)
    have "clean_exponent (a @ [CHR ''e'', sg] @ exp_chars n) = a @ [CHR ''e'', sg] @ [char_of (0x30 + n)]"
      unfolding e clean_exponent_def Let_def using True by (simp add: nth_append)
    then show ?thesis unfolding t using True dg [of n] by (intro exI [of _ "[char_of (0x30 + n)]"]) simp
  next
    case False
    have nz: "n \<ge> 10 \<Longrightarrow> n < 100 \<Longrightarrow> char_of (0x30 + n div 10) \<noteq> CHR ''0''"
    proof
      assume n: "n \<ge> 10" "n < 100" and "char_of (0x30 + n div 10) = CHR ''0''"
      then have "byte (char_of (0x30 + n div 10)) = byte (CHR ''0'')" by simp
      moreover have "byte (char_of (0x30 + n div 10)) = 0x30 + n div 10" using n by (intro byte_char_of) simp
      ultimately have "n div 10 = 0" by (simp add: byte_def)
      then show False using n by simp
    qed
    have "clean_exponent (a @ [CHR ''e'', sg] @ exp_chars n) = a @ [CHR ''e'', sg] @ exp_chars n"
      unfolding clean_exponent_def Let_def using False nz assms(2)
      by (auto simp: exp_chars_def nth_append is_sign_def)
    then show ?thesis unfolding t using exp_chars_props [OF assms(1)] by (intro exI [of _ "exp_chars n"]) auto
  qed
qed

lemma floatEncoder_reads:
  assumes x: "is_finite x"
  shows "\<exists>t. floatEncoder x = Inr t \<and> reads_as t x"
proof -
  define big where "big \<longleftrightarrow> \<not> feq (math_Abs x) 0 \<and> (math_Abs x < f64_const 1 (10 ^ 6) \<or> f64_const (10 ^ 21) 1 \<le> math_Abs x)"
  have ok: "\<not> (math_IsInf x 0 \<or> math_IsNaN x)" using x by (simp add: math_IsNaN_def feq_def)
  show ?thesis
  proof (cases big)
    case True
    have nz: "\<not> is_zero x"
    proof
      assume "is_zero x"
      then have "feq (math_Abs x) 0"
        by (simp add: math_Abs_def is_zero_def feq_def zero_float64_def is_nan_def f64_skey_def f64_key_def)
      then show False using True by (simp add: big_def)
    qed
    obtain ip fp sg n where e: "FormatFloat x (CHR ''e'') = num_text (fsign x) ip fp (Some (sg, exp_chars n))" "n < 1000" "is_sign sg"
      and r: "\<And>es. list_all is_digit es \<and> es \<noteq> [] \<and> length es \<le> 4 \<and> dec_from 0 es = n
        \<Longrightarrow> reads_as (num_text (fsign x) ip fp (Some (sg, es))) x"
      using FormatFloat_e_reads [OF x nz] by blast
    obtain es where c: "clean_exponent (FormatFloat x (CHR ''e'')) = num_text (fsign x) ip fp (Some (sg, es))"
      and "list_all is_digit es \<and> es \<noteq> [] \<and> length es \<le> 4 \<and> dec_from 0 es = n"
      using clean_exponent_text [OF e(2,3), of "fsign x" ip fp] unfolding e(1) by blast
    then have "reads_as (clean_exponent (FormatFloat x (CHR ''e''))) x" using r by simp
    moreover have "floatEncoder x = Inr (clean_exponent (FormatFloat x (CHR ''e'')))"
      using ok True unfolding floatEncoder_def Let_def big_def [symmetric] by simp
    ultimately show ?thesis by blast
  next
    case False
    then have "floatEncoder x = Inr (FormatFloat x (CHR ''f''))"
      using ok unfolding floatEncoder_def Let_def big_def [symmetric] by simp
    then show ?thesis using FormatFloat_f_reads [OF x] by blast
  qed
qed

subsection \<open>Compact and indented texts of a flat object\<close>

text \<open>A member is its key and the text of its value.\<close>

fun compact_from :: "char \<Rightarrow> (string \<times> string) list \<Rightarrow> string" where
  "compact_from c [] = ''}''"
| "compact_from c ((k, t) # ms) = [c] @ quoted k @ '':'' @ t @ compact_from (CHR '','') ms"

fun indented_from :: "string \<Rightarrow> (string \<times> string) list \<Rightarrow> string" where
  "indented_from sep [] = [CHR 0x0A, CHR ''}'']"
| "indented_from sep ((k, t) # ms) =
     sep @ [CHR 0x0A, CHR '' '', CHR '' ''] @ quoted k @ '': '' @ t @ indented_from '','' ms"

definition member_ok :: "string \<times> string \<Rightarrow> bool" where
  "member_ok m \<longleftrightarrow> list_all plain_byte (fst m) \<and> token BeginValue (snd m)"

abbreviation end_state :: scanner where
  "end_state \<equiv> \<lparr>sc_step = EndTop, sc_endTop = True, sc_parseState = [], sc_err = None\<rparr>"

lemma indent_continue:
  "scan_run s cs = (s', replicate (length cs) scanContinue) \<Longrightarrow>
   indent_loop p i s False d dst (cs @ rest) = indent_loop p i s' False d (dst @ cs) rest"
proof (induction cs arbitrary: s dst)
  case (Cons c cs)
  obtain s1 op where s1: "scan_step s c = (s1, op)" by fastforce
  obtain s2 ops where s2: "scan_run s1 cs = (s2, ops)" by fastforce
  have "op = scanContinue" "s2 = s'" "ops = replicate (length cs) scanContinue" using Cons(2) s1 s2 by auto
  then show ?case using Cons(1) [of s1 "dst @ [c]"] s1 s2 by simp
qed simp

lemma indent_token:
  assumes "token st t"
  shows "\<exists>st'. ends_value st' \<and> (\<forall>p i ps d dst rest need.
    indent_loop p i (mk st ps) need d dst (t @ rest)
    = indent_loop p i (mk st' ps) False (if need then d + 1 else d) ((if need then appendNewline dst p i (d + 1) else dst) @ t) rest)"
proof -
  obtain c cs st1 st2 where t: "t = c # cs" "c \<notin> {CHR ''{'', CHR ''['', CHR '','', CHR '':'', CHR ''}'', CHR '']''}"
    and b: "\<And>ps. scan_step (mk st ps) c = (mk st1 ps, scanBeginLiteral)" and r: "continues st1 cs st2" "ends_value st2"
    using assms unfolding token_def by auto
  have "indent_loop p i (mk st ps) need d dst (t @ rest)
    = indent_loop p i (mk st2 ps) False (if need then d + 1 else d) ((if need then appendNewline dst p i (d + 1) else dst) @ t) rest"
    for p i ps d dst rest need
    using t b r(1) by (cases need) (auto simp: continues_def indent_continue)
  then show ?thesis using r(2) by blast
qed

lemma end_value_steps:
  "stateEndValue (mk st [parseObjectValue]) (CHR '','') = (mk BeginString [parseObjectKey], scanObjectValue)"
  "stateEndValue (mk st [parseObjectValue]) (CHR ''}'') = (end_state, scanEndObject)"
  "stateEndValue (mk st [parseObjectValue]) (CHR 0x0A) = (mk EndValue [parseObjectValue], scanSkipSpace)"
  "stateEndValue (mk st [parseObjectKey]) (CHR '':'') = (mk BeginValue [parseObjectValue], scanObjectKey)"
  by (simp_all add: stateEndValue_def isSpace_def popParseState_def Let_def)

lemma indent_member:
  assumes "member_ok (k, t)" "st \<in> {BeginString, BeginStringOrEmpty}"
  shows "\<exists>st'. ends_value st' \<and> (\<forall>need d dst rest.
    indent_loop '''' ''  '' (mk st [parseObjectKey]) need d dst (quoted k @ '':'' @ t @ rest)
    = indent_loop '''' ''  '' (mk st' [parseObjectValue]) False (if need then d + 1 else d)
        ((if need then appendNewline dst '''' ''  '' (d + 1) else dst) @ quoted k @ '': '' @ t) rest)"
proof -
  have kt: "token st (quoted k)" "token BeginValue t" using assms token_quoted by (auto simp: member_ok_def)
  obtain s1 where s1: "ends_value s1" and i1: "\<And>p i ps d dst rest need. indent_loop p i (mk st ps) need d dst (quoted k @ rest)
    = indent_loop p i (mk s1 ps) False (if need then d + 1 else d) ((if need then appendNewline dst p i (d + 1) else dst) @ quoted k) rest"
    using indent_token [OF kt(1)] by blast
  obtain s2 where s2: "ends_value s2" and i2: "\<And>p i ps d dst rest need. indent_loop p i (mk BeginValue ps) need d dst (t @ rest)
    = indent_loop p i (mk s2 ps) False (if need then d + 1 else d) ((if need then appendNewline dst p i (d + 1) else dst) @ t) rest"
    using indent_token [OF kt(2)] by blast
  have c: "scan_step (mk s1 [parseObjectKey]) (CHR '':'') = (mk BeginValue [parseObjectValue], scanObjectKey)"
    using s1 by (simp add: ends_value_def end_value_steps)
  show ?thesis using s2 c by (intro exI [of _ s2]) (simp add: i1 i2 append_assoc)
qed

lemma indent_tail:
  assumes "list_all member_ok ms" "ends_value st"
  shows "indent_loop '''' ''  '' (mk st [parseObjectValue]) False 1 dst (compact_from (CHR '','') ms)
    = (end_state, dst @ indented_from '','' ms)"
  using assms
proof (induction ms arbitrary: st dst)
  case Nil
  have "scan_step (mk st [parseObjectValue]) (CHR ''}'') = (end_state, scanEndObject)"
    using Nil(2) by (simp add: ends_value_def end_value_steps)
  then show ?case by (simp add: appendNewline_def)
next
  case (Cons m ms)
  obtain k t where m: "m = (k, t)" by fastforce
  obtain s' where s': "ends_value s'" and i: "\<And>need d dst rest.
    indent_loop '''' ''  '' (mk BeginString [parseObjectKey]) need d dst (quoted k @ '':'' @ t @ rest)
    = indent_loop '''' ''  '' (mk s' [parseObjectValue]) False (if need then d + 1 else d)
        ((if need then appendNewline dst '''' ''  '' (d + 1) else dst) @ quoted k @ '': '' @ t) rest"
    using indent_member [of k t BeginString] Cons(2) m by auto
  have c: "scan_step (mk st [parseObjectValue]) (CHR '','') = (mk BeginString [parseObjectKey], scanObjectValue)"
    using Cons(3) by (simp add: ends_value_def end_value_steps)
  have "indent_loop '''' ''  '' (mk st [parseObjectValue]) False 1 dst (compact_from (CHR '','') (m # ms))
    = indent_loop '''' ''  '' (mk BeginString [parseObjectKey]) False 1 (dst @ '','' @ [CHR 0x0A] @ ''  '')
        (quoted k @ '':'' @ t @ compact_from (CHR '','') ms)"
    using c by (simp add: m appendNewline_def)
  also have "\<dots> = (end_state, (dst @ '','' @ [CHR 0x0A] @ ''  '') @ (quoted k @ '': '' @ t) @ indented_from '','' ms)"
    unfolding i using Cons(1) [OF _ s'] Cons(2) by simp
  finally show ?case by (simp add: m)
qed

lemma appendIndent_object:
  assumes "list_all member_ok ms" "ms \<noteq> []"
  shows "appendIndent (compact_from (CHR ''{'') ms) '''' ''  '' = Inr (''{'' @ indented_from '''' ms)"
proof -
  obtain k t ms' where ms: "ms = (k, t) # ms'" using assms(2) by (cases ms) auto
  obtain s' where s': "ends_value s'" and i: "\<And>need d dst rest.
    indent_loop '''' ''  '' (mk BeginStringOrEmpty [parseObjectKey]) need d dst (quoted k @ '':'' @ t @ rest)
    = indent_loop '''' ''  '' (mk s' [parseObjectValue]) False (if need then d + 1 else d)
        ((if need then appendNewline dst '''' ''  '' (d + 1) else dst) @ quoted k @ '': '' @ t) rest"
    using indent_member [of k t BeginStringOrEmpty] assms(1) ms by auto
  have b: "scan_step scan_reset (CHR ''{'') = (mk BeginStringOrEmpty [parseObjectKey], scanBeginObject)"
    by (simp add: scan_reset_def scan_step_def stateBeginValue_def isSpace_def pushParseState_def maxNestingDepth_def)
  have "indent_loop '''' ''  '' scan_reset False 0 [] (compact_from (CHR ''{'') ms)
    = indent_loop '''' ''  '' (mk BeginStringOrEmpty [parseObjectKey]) True 0 ''{'' (quoted k @ '':'' @ t @ compact_from (CHR '','') ms')"
    using b by (simp add: ms)
  also have "\<dots> = (end_state, (appendNewline ''{'' '''' ''  '' 1 @ quoted k @ '': '' @ t) @ indented_from '','' ms')"
    unfolding i using indent_tail [OF _ s'] assms(1) ms by simp
  finally have "indent_loop '''' ''  '' scan_reset False 0 [] (compact_from (CHR ''{'') ms) = (end_state, ''{'' @ indented_from '''' ms)"
    by (simp add: ms appendNewline_def)
  then show ?thesis by (simp add: appendIndent_def scan_eof_def)
qed

subsection \<open>The indented text is valid\<close>

lemma checkValid_run:
  "scan_run s cs = (s', ops) \<Longrightarrow> scanError \<notin> set ops \<Longrightarrow> checkValid_from s (cs @ rest) = checkValid_from s' rest"
proof (induction cs arbitrary: s ops)
  case (Cons c cs)
  obtain s1 op where s1: "scan_step s c = (s1, op)" by fastforce
  obtain s2 ops' where s2: "scan_run s1 cs = (s2, ops')" by fastforce
  then show ?case using Cons s1 by auto
qed simp

lemma token_run:
  assumes "token st t"
  shows "\<exists>st'. ends_value st' \<and> (\<forall>ps. scan_run (mk st ps) t = (mk st' ps, scanBeginLiteral # replicate (length t - 1) scanContinue))"
proof -
  obtain c cs st1 st2 where "t = c # cs" "\<And>ps. scan_step (mk st ps) c = (mk st1 ps, scanBeginLiteral)"
    "continues st1 cs st2" "ends_value st2"
    using assms unfolding token_def by auto
  then show ?thesis by (intro exI [of _ st2]) (simp add: continues_def)
qed

lemma checkValid_token:
  assumes "token st t"
  shows "\<exists>st'. ends_value st' \<and> (\<forall>ps rest. checkValid_from (mk st ps) (t @ rest) = checkValid_from (mk st' ps) rest)"
proof -
  obtain st' where e: "ends_value st'"
    and r: "\<And>ps. scan_run (mk st ps) t = (mk st' ps, scanBeginLiteral # replicate (length t - 1) scanContinue)"
    using token_run [OF assms] by blast
  have "checkValid_from (mk st ps) (t @ rest) = checkValid_from (mk st' ps) rest" for ps rest
    by (rule checkValid_run [OF r]) auto
  then show ?thesis using e by blast
qed

lemma space_steps:
  "c \<in> {CHR 0x0A, CHR '' ''} \<Longrightarrow> st \<in> {BeginString, BeginStringOrEmpty, BeginValue} \<Longrightarrow>
   scan_step (mk st ps) c = (mk st ps, scanSkipSpace)"
  by (auto simp: scan_step_def stateBeginString_def stateBeginStringOrEmpty_def stateBeginValue_def isSpace_def)

lemma checkValid_member:
  assumes "member_ok (k, t)" "st \<in> {BeginString, BeginStringOrEmpty}"
  shows "\<exists>st'. ends_value st' \<and> (\<forall>rest.
    checkValid_from (mk st [parseObjectKey]) ([CHR 0x0A, CHR '' '', CHR '' ''] @ quoted k @ '': '' @ t @ rest)
    = checkValid_from (mk st' [parseObjectValue]) rest)"
proof -
  have kt: "token st (quoted k)" "token BeginValue t" using assms token_quoted by (auto simp: member_ok_def)
  obtain s1 where s1: "ends_value s1"
    and c1: "\<And>ps rest. checkValid_from (mk st ps) (quoted k @ rest) = checkValid_from (mk s1 ps) rest"
    using checkValid_token [OF kt(1)] by blast
  obtain s2 where s2: "ends_value s2"
    and c2: "\<And>ps rest. checkValid_from (mk BeginValue ps) (t @ rest) = checkValid_from (mk s2 ps) rest"
    using checkValid_token [OF kt(2)] by blast
  have c: "scan_step (mk s1 [parseObjectKey]) (CHR '':'') = (mk BeginValue [parseObjectValue], scanObjectKey)"
    using s1 by (simp add: ends_value_def end_value_steps)
  have sp: "scan_step (mk st [parseObjectKey]) a = (mk st [parseObjectKey], scanSkipSpace)"
    "scan_step (mk BeginValue [parseObjectValue]) a = (mk BeginValue [parseObjectValue], scanSkipSpace)"
    if "a \<in> {CHR 0x0A, CHR '' ''}" for a using space_steps that assms(2) by auto
  show ?thesis using s2 c by (intro exI [of _ s2]) (simp add: c1 c2 sp)
qed

lemma checkValid_tail:
  assumes "list_all member_ok ms" "ends_value st"
  shows "checkValid_from (mk st [parseObjectValue]) (indented_from '','' ms) = None"
  using assms
proof (induction ms arbitrary: st)
  case Nil
  have "scan_step (mk st [parseObjectValue]) (CHR 0x0A) = (mk EndValue [parseObjectValue], scanSkipSpace)"
    using Nil(2) by (simp add: ends_value_def end_value_steps)
  then show ?case by (simp add: scan_step_def [of "mk EndValue ps" for ps] end_value_steps scan_eof_def)
next
  case (Cons m ms)
  obtain k t where m: "m = (k, t)" by fastforce
  obtain s' where s': "ends_value s'" and r: "\<And>rest.
    checkValid_from (mk BeginString [parseObjectKey]) ([CHR 0x0A, CHR '' '', CHR '' ''] @ quoted k @ '': '' @ t @ rest)
    = checkValid_from (mk s' [parseObjectValue]) rest"
    using checkValid_member [of k t BeginString] Cons(2) m by auto
  have c: "scan_step (mk st [parseObjectValue]) (CHR '','') = (mk BeginString [parseObjectKey], scanObjectValue)"
    using Cons(3) by (simp add: ends_value_def end_value_steps)
  have "checkValid_from (mk st [parseObjectValue]) (indented_from '','' (m # ms))
    = checkValid_from (mk BeginString [parseObjectKey]) ([CHR 0x0A, CHR '' '', CHR '' ''] @ quoted k @ '': '' @ t @ indented_from '','' ms)"
    using c by (simp add: m)
  also have "\<dots> = None" unfolding r using Cons s' by simp
  finally show ?case .
qed

lemma begin_object: "scan_step scan_reset (CHR ''{'') = (mk BeginStringOrEmpty [parseObjectKey], scanBeginObject)"
  by (simp add: scan_reset_def scan_step_def stateBeginValue_def isSpace_def pushParseState_def maxNestingDepth_def)

lemma checkValid_object:
  assumes "list_all member_ok ms" "ms \<noteq> []"
  shows "checkValid (''{'' @ indented_from '''' ms) = None"
proof -
  obtain k t ms' where ms: "ms = (k, t) # ms'" using assms(2) by (cases ms) auto
  obtain s' where s': "ends_value s'" and r: "\<And>rest.
    checkValid_from (mk BeginStringOrEmpty [parseObjectKey]) ([CHR 0x0A, CHR '' '', CHR '' ''] @ quoted k @ '': '' @ t @ rest)
    = checkValid_from (mk s' [parseObjectValue]) rest"
    using checkValid_member [of k t BeginStringOrEmpty] assms(1) ms by auto
  have "checkValid (''{'' @ indented_from '''' ms)
    = checkValid_from (mk BeginStringOrEmpty [parseObjectKey]) ([CHR 0x0A, CHR '' '', CHR '' ''] @ quoted k @ '': '' @ t @ indented_from '','' ms')"
    using begin_object by (simp add: checkValid_def ms)
  also have "\<dots> = None" unfolding r using checkValid_tail [OF _ s'] assms(1) ms by simp
  finally show ?thesis .
qed

subsection \<open>Reading the text back\<close>

text \<open>A text that the decoder stores as \<open>w\<close> in a field of the kind of \<open>w\<close>.\<close>

fun same_kind :: "field_val \<Rightarrow> field_val \<Rightarrow> bool" where
  "same_kind (VString _) (VString _) = True"
| "same_kind (VFloat _) (VFloat _) = True"
| "same_kind _ _ = False"

definition value_text :: "string \<Rightarrow> field_val \<Rightarrow> bool" where
  "value_text t w \<longleftrightarrow> token BeginValue t
     \<and> (\<forall>c rest. c \<in> {CHR '','', CHR 0x0A} \<longrightarrow> literal_span (hd t) (tl t @ c # rest) = length (tl t))
     \<and> (\<forall>v. same_kind v w \<longrightarrow> literalStore t v = Inr (None, w))"

lemma value_text_string: "name_string s \<Longrightarrow> value_text (quoted s) (VString s)"
proof -
  assume s: "name_string s"
  have "literal_span (CHR 0x22) (s @ CHR 0x22 # rest) = length s + 1" for rest
    using string_span_plain [OF name_string_plain [OF s]] by (simp add: literal_span_def)
  then have l: "literal_span (hd (quoted s)) (tl (quoted s) @ rest) = length (tl (quoted s))" for rest
    by (simp add: quoted_def)
  have h: "quoted s \<noteq> []" "hd (quoted s) = CHR 0x22" by (simp_all add: quoted_def)
  have "literalStore (quoted s) v = Inr (None, VString s)" if k: "same_kind v (VString s)" for v
    using k unquoteBytes_name [OF s] h by (cases v) (simp_all add: literalStore_def Let_def)
  then show ?thesis using l token_quoted [OF name_string_plain [OF s], of BeginValue] by (simp add: value_text_def)
qed

lemma value_text_float:
  assumes "reads_as t x"
  shows "value_text t (VFloat x)"
proof -
  obtain ip fp ex where t: "t = num_text (fsign x) ip fp ex" "num_ok ip fp ex" and p: "ParseFloat t = (x, None)"
    using assms by (auto simp: reads_as_def)
  have tok: "token BeginValue t" using token_number [OF t(2)] t(1) by simp
  have ne: "t \<noteq> []" using tok by (auto simp: token_def)
  have ch: "list_all number_char t" "hd t = CHR ''-'' \<or> is_digit (hd t)" using num_text_chars [OF t(2)] t(1) by auto
  have h: "hd t \<noteq> CHR 0x22" "hd t \<notin> {CHR ''n'', CHR ''t'', CHR ''f''}"
    using ch(2) is_digit_not_zero_state [of "hd t"] by auto
  have "takeWhile number_char (tl t @ c # rest) = tl t" if "c \<in> {CHR '','', CHR 0x0A}" for c rest
  proof -
    have "\<forall>a \<in> set (tl t). number_char a" using ch(1) ne by (cases t) (auto simp: list_all_iff)
    moreover have "\<not> number_char c" using that by (auto simp: number_char_def is_digit_def byte_def)
    ultimately show ?thesis by (simp add: takeWhile_append2)
  qed
  then have l: "literal_span (hd t) (tl t @ c # rest) = length (tl t)" if "c \<in> {CHR '','', CHR 0x0A}" for c rest
    using that ch(2) h by (auto simp: literal_span_def)
  have "literalStore t v = Inr (None, VFloat x)" if k: "same_kind v (VFloat x)" for v
    using k p ch(2) h ne by (cases v) (auto simp: literalStore_def Let_def parsed_float_def)
  then show ?thesis using l tok by (simp add: value_text_def)
qed

abbreviation ds :: "bool \<Rightarrow> char \<Rightarrow> string \<Rightarrow> opcode \<Rightarrow> scanner \<Rightarrow> decodeState" where
  "ds dis c rest op sc \<equiv> \<lparr>ds_last = c, ds_rest = rest, ds_opcode = op, ds_scan = sc, ds_savedError = None,
     ds_disallowUnknownFields = dis\<rparr>"

lemma scanWhile_space:
  "scan_step sc c = (sc, scanSkipSpace) \<Longrightarrow>
   scanWhile scanSkipSpace (ds dis a (c # cs) op sc) = scanWhile scanSkipSpace (ds dis a cs op sc)"
proof -
  have "scanWhile_loop o1 d cs = scanWhile_loop o1 (d\<lparr>ds_rest := r\<rparr>) cs" for o1 d r cs
  proof (induction cs arbitrary: d)
    case (Cons b bs)
    obtain s o2 where s: "scan_step (ds_scan d) b = (s, o2)" by fastforce
    show ?case using Cons [of "d\<lparr>ds_scan := s\<rparr>"] s by (cases d) (simp add: Let_def)
  qed (simp split: prod.splits)
  from this [of scanSkipSpace "ds dis a (c # cs) op sc" cs cs]
  show "scan_step sc c = (sc, scanSkipSpace) \<Longrightarrow> ?thesis" by (simp add: scanWhile_def)
qed

lemma scanWhile_stop:
  "scan_step sc c = (sc', op') \<Longrightarrow> op' \<noteq> scanSkipSpace \<Longrightarrow>
   scanWhile scanSkipSpace (ds dis a (c # cs) op sc) = ds dis c cs op' sc'"
  by (simp add: scanWhile_def)

lemma rescan_text:
  assumes "literal_span (hd t) (tl t @ c # rest) = length (tl t)" "t \<noteq> []" "stateEndValue sc c = (sc', op')"
  shows "rescanLiteral (ds dis (hd t) (tl t @ c # rest) op sc) = (ds dis c rest op' sc', t)"
  using assms by (simp add: rescanLiteral_def)

lemma read_token:
  assumes "token st t"
  obtains st1 where "\<And>ps. scan_step (mk st ps) (hd t) = (mk st1 ps, scanBeginLiteral)" "t = hd t # tl t"
  using assms unfolding token_def by auto

lemma find_field_key: "k \<in> fst ` set s \<Longrightarrow> find_field s k = Some k"
proof -
  assume "k \<in> fst ` set s"
  then have "find (\<lambda>f. fst f = k) s \<noteq> None" by (auto simp: find_None_iff)
  then obtain f where f: "find (\<lambda>f. fst f = k) s = Some f" by blast
  then have "fst f = k" by (auto simp: find_Some_iff)
  then show ?thesis using f by (simp add: find_field_def)
qed

text \<open>One member of the indented text, up to the byte after its value.\<close>

lemma read_member:
  assumes k: "name_string k" "k \<in> fst ` set s" and st: "st \<in> {BeginString, BeginStringOrEmpty}"
    and t: "value_text t w" "same_kind (get_field s k) w" and c: "c \<in> {CHR '','', CHR 0x0A}"
    and e: "\<And>st. stateEndValue (mk st [parseObjectValue]) c = (sc', op')" "op' \<noteq> scanError"
  shows "object_member (ds dis a ([CHR 0x0A, CHR '' '', CHR '' ''] @ quoted k @ '': '' @ t @ c # rest) op (mk st [parseObjectKey])) s
    = (let d = skipSpaces (ds dis c rest op' sc') in
       if ds_opcode d = scanEndObject then Inr (d, set_field s k w, False)
       else if ds_opcode d \<noteq> scanObjectValue then Inl Json_Panic else Inr (d, set_field s k w, True))"
proof -
  have sp: "scan_step (mk st [parseObjectKey]) b = (mk st [parseObjectKey], scanSkipSpace)"
    "scan_step (mk BeginValue [parseObjectValue]) b = (mk BeginValue [parseObjectValue], scanSkipSpace)"
    if "b \<in> {CHR 0x0A, CHR '' ''}" for b using space_steps that st by auto
  obtain s1 where k1: "\<And>ps. scan_step (mk st ps) (hd (quoted k)) = (mk s1 ps, scanBeginLiteral)" "quoted k = hd (quoted k) # tl (quoted k)"
    using read_token [OF token_quoted [OF name_string_plain [OF k(1)]], of st] st by auto
  obtain s2 where t1: "\<And>ps. scan_step (mk BeginValue ps) (hd t) = (mk s2 ps, scanBeginLiteral)" "t = hd t # tl t"
    using read_token [of BeginValue t] t(1) by (auto simp: value_text_def)
  have kl: "literal_span (hd (quoted k)) (tl (quoted k) @ CHR '':'' # r) = length (tl (quoted k))" for r
    using string_span_plain [OF name_string_plain [OF k(1)]] by (simp add: quoted_def literal_span_def)
  have tl: "literal_span (hd t) (tl t @ c # rest) = length (tl t)" using t(1) c unfolding value_text_def by blast
  have b1: "scanWhile scanSkipSpace (ds dis a ([CHR 0x0A, CHR '' '', CHR '' ''] @ quoted k @ r) op (mk st [parseObjectKey]))
    = ds dis (hd (quoted k)) (tl (quoted k) @ r) scanBeginLiteral (mk s1 [parseObjectKey])" for r
  proof -
    have "scanWhile scanSkipSpace (ds dis a (quoted k @ r) op (mk st [parseObjectKey]))
      = ds dis (hd (quoted k)) (tl (quoted k) @ r) scanBeginLiteral (mk s1 [parseObjectKey])"
      by (subst k1(2)) (simp add: scanWhile_stop k1(1))
    then show ?thesis by (simp add: scanWhile_space sp)
  qed
  have b2: "rescanLiteral (ds dis (hd (quoted k)) (tl (quoted k) @ '': '' @ r) scanBeginLiteral (mk s1 [parseObjectKey]))
    = (ds dis (CHR '':'') (CHR '' '' # r) scanObjectKey (mk BeginValue [parseObjectValue]), quoted k)" for r
    using rescan_text [OF kl _ end_value_steps(4), of "CHR '' '' # r"] by (simp add: quoted_def)
  have b3: "scanWhile scanSkipSpace (ds dis (CHR '':'') (CHR '' '' # t @ r) scanObjectKey (mk BeginValue [parseObjectValue]))
    = ds dis (hd t) (tl t @ r) scanBeginLiteral (mk s2 [parseObjectValue])" for r
    by (subst t1(2)) (simp add: scanWhile_space sp scanWhile_stop t1(1))
  have b4: "literal_value (ds dis (hd t) (tl t @ c # rest) scanBeginLiteral (mk s2 [parseObjectValue])) (Some (get_field s k))
    = Inr (ds dis c rest op' sc', Some w)"
  proof -
    have "t \<noteq> []" using t1(2) by (metis list.discI)
    moreover have "literalStore t (get_field s k) = Inr (None, w)" using t unfolding value_text_def by blast
    ultimately show ?thesis using rescan_text [OF tl _ e(1)] by (simp add: literal_value_def saveMaybe_def)
  qed
  show ?thesis
    unfolding object_member_def b1 b2 Let_def
    using unquoteBytes_name [OF k(1)] find_field_key [OF k(2)] b4
    by (simp add: b2 [simplified] skipSpaces_def [of "ds dis (CHR '':'') r o1 x" for r o1 x] b3 json_value_def)
qed

text \<open>A member with the value it stands for, and the struct it is read into.\<close>

definition field_ok :: "string \<times> string \<times> field_val \<Rightarrow> bool" where
  "field_ok m \<longleftrightarrow> (case m of (k, t, w) \<Rightarrow> name_string k \<and> value_text t w)"

definition target :: "go_struct \<Rightarrow> (string \<times> string \<times> field_val) list \<Rightarrow> bool" where
  "target st ms \<longleftrightarrow> list_all2 (\<lambda>(k, v) (k', t, w). k = k' \<and> same_kind v w) st ms \<and> distinct (map fst st)"

abbreviation texts :: "(string \<times> string \<times> field_val) list \<Rightarrow> (string \<times> string) list" where
  "texts \<equiv> map (\<lambda>(k, t, w). (k, t))"

abbreviation fields :: "(string \<times> string \<times> field_val) list \<Rightarrow> go_struct" where
  "fields \<equiv> map (\<lambda>(k, t, w). (k, w))"

lemma set_field_here:
  "k \<notin> fst ` set pre \<Longrightarrow> k \<notin> fst ` set todo \<Longrightarrow> set_field (pre @ (k, v) # todo) k w = pre @ (k, w) # todo"
  by (auto simp: set_field_def image_iff intro!: map_idI)

lemma get_field_here: "k \<notin> fst ` set pre \<Longrightarrow> get_field (pre @ (k, v) # todo) k = v"
  by (simp add: get_field_def map_add_def map_of_eq_None_iff [THEN iffD2])

lemma read_object:
  assumes "list_all field_ok ms" "target todo ms" "distinct (map fst (pre @ todo))" "ms \<noteq> []"
    "st \<in> {BeginString, BeginStringOrEmpty}"
  shows "object_loop (ds dis a (indented_from '''' (texts ms)) op (mk st [parseObjectKey])) (pre @ todo)
    = Inr (ds dis (CHR ''}'') [] scanEndObject end_state, pre @ fields ms)"
  using assms
proof (induction ms arbitrary: st pre todo a op)
  case (Cons m ms)
  obtain k t w where m: "m = (k, t, w)" by (cases m)
  obtain v todo' where todo: "todo = (k, v) # todo'" and tg: "same_kind v w" "target todo' ms"
    using Cons(3) by (auto simp: target_def m list_all2_Cons2)
  have k: "name_string k" "value_text t w" using Cons(2) by (auto simp: field_ok_def m)
  have fresh: "k \<notin> fst ` set pre" "k \<notin> fst ` set todo'" using Cons(4) by (auto simp: todo)
  have here: "same_kind (get_field (pre @ todo) k) w" "k \<in> fst ` set (pre @ todo)"
    using get_field_here [OF fresh(1)] tg by (simp_all add: todo)
  note member = read_member [OF k(1) here(2) Cons(6) k(2) here(1)]
  have set: "set_field (pre @ todo) k w = pre @ (k, w) # todo'" using set_field_here fresh by (simp add: todo)
  show ?case
  proof (cases ms)
    case Nil
    have "scan_step (mk EndValue [parseObjectValue]) (CHR ''}'') = (end_state, scanEndObject)"
      by (simp add: scan_step_def end_value_steps)
    then have s: "skipSpaces (ds dis (CHR 0x0A) ''}'' scanSkipSpace (mk EndValue [parseObjectValue])) = ds dis (CHR ''}'') [] scanEndObject end_state"
      by (simp add: skipSpaces_def scanWhile_stop)
    have "indented_from '''' (texts (m # ms)) = [CHR 0x0A, CHR '' '', CHR '' ''] @ quoted k @ '': '' @ t @ CHR 0x0A # ''}''"
      by (simp add: m Nil)
    moreover have "todo' = []" using tg(2) Nil by (simp add: target_def)
    ultimately show ?thesis using member [OF _ end_value_steps(3)] s set
      by (subst object_loop.simps) (simp add: m Nil)
  next
    case (Cons m' ms')
    have "indented_from '''' (texts (m # ms))
      = [CHR 0x0A, CHR '' '', CHR '' ''] @ quoted k @ '': '' @ t @ CHR '','' # indented_from '''' (texts ms)"
      by (cases m') (simp add: m Cons)
    moreover have "object_loop (ds dis (CHR '','') (indented_from '''' (texts ms)) scanObjectValue (mk BeginString [parseObjectKey])) ((pre @ [(k, w)]) @ todo')
      = Inr (ds dis (CHR ''}'') [] scanEndObject end_state, (pre @ [(k, w)]) @ fields ms)"
      using Cons.prems Cons tg(2) by (intro Cons.IH) (auto simp: todo)
    ultimately show ?thesis using member [OF _ end_value_steps(1)] set
      by (subst object_loop.simps) (simp add: m skipSpaces_def)
  qed
qed simp

lemma Unmarshal_object:
  assumes "list_all field_ok ms" "target st ms" "ms \<noteq> []"
  shows "Unmarshal (''{'' @ indented_from '''' (texts ms)) st = (None, fields ms)"
proof -
  have "list_all member_ok (texts ms)"
    using assms(1) name_string_plain by (auto simp: list_all_iff field_ok_def member_ok_def value_text_def)
  then have v: "checkValid (''{'' @ indented_from '''' (texts ms)) = None" using assms(3) by (intro checkValid_object) simp_all
  have w: "scanWhile scanSkipSpace (decode_init False (''{'' @ indented_from '''' (texts ms)))
    = ds False (CHR ''{'') (indented_from '''' (texts ms)) scanBeginObject (mk BeginStringOrEmpty [parseObjectKey])"
    using begin_object by (simp add: decode_init_def scanWhile_stop)
  have "object_loop (ds False (CHR ''{'') (indented_from '''' (texts ms)) scanBeginObject (mk BeginStringOrEmpty [parseObjectKey])) ([] @ st)
    = Inr (ds False (CHR ''}'') [] scanEndObject end_state, [] @ fields ms)"
    using assms by (intro read_object) (auto simp: target_def)
  then have "unmarshal False (''{'' @ indented_from '''' (texts ms)) st = (None, fields ms)"
    unfolding unmarshal_def w by (simp add: top_value_def scanNext_def scan_eof_def)
  then show ?thesis using v by (simp add: Unmarshal_def)
qed

subsection \<open>The round trip\<close>

text \<open>The Go value of a field as the encoder sees it, and the fields that survive.\<close>

fun json_of :: "field_val \<Rightarrow> json_val" where
  "json_of (VString s) = JString s"
| "json_of (VFloat x) = JFloat x"
| "json_of (VInt i) = JInt i"
| "json_of (VPtrString p) = (case p of None \<Rightarrow> JNull | Some s \<Rightarrow> JString s)"
| "json_of (VPtrFloat p) = (case p of None \<Rightarrow> JNull | Some x \<Rightarrow> JFloat x)"

definition json_struct :: "go_struct \<Rightarrow> json_val" where
  "json_struct st = JStruct (map (\<lambda>(k, v). (k, False, json_of v)) st)"

fun plain_field :: "field_val \<Rightarrow> bool" where
  "plain_field (VString s) = name_string s"
| "plain_field (VFloat x) = is_finite x"
| "plain_field _ = False"

definition key_ok :: "string \<Rightarrow> bool" where
  "key_ok k \<longleftrightarrow> list_all (\<lambda>c. byte c < 0x80 \<and> name_rune (byte c)) k"

lemma key_ok_name: "key_ok k \<Longrightarrow> name_string k"
  using range_string_ascii [of k name_rune] by (auto simp: key_ok_def name_string_def list_all_iff)

lemma nameEscHTML_key: "key_ok k \<Longrightarrow> nameEscHTML k = quoted k @ '':''"
proof -
  assume "key_ok k"
  then have "appendHTMLEscape k = k" unfolding key_ok_def by (induction k) (auto simp: name_rune_def byte_def)
  then show ?thesis by (simp add: nameEscHTML_def quoted_def)
qed

lemma reflectValue_field:
  assumes "plain_field w"
  shows "\<exists>t. reflectValue (json_of w) = Inr t \<and> value_text t w"
proof (cases w)
  case (VString s)
  then show ?thesis using assms value_text_string by (simp add: appendString_name)
next
  case (VFloat x)
  then show ?thesis using assms floatEncoder_reads [of x] value_text_float by auto
qed (use assms in auto)

lemma structEncoder_fields:
  assumes "\<And>k w. (k, w) \<in> set fs \<Longrightarrow> key_ok k \<and> plain_field w" "c = CHR ''{'' \<longrightarrow> fs \<noteq> []"
  shows "\<exists>ms. structEncoder c (map (\<lambda>(k, v). (k, False, json_of v)) fs) = Inr (compact_from c (texts ms))
    \<and> list_all field_ok ms \<and> fields ms = fs"
  using assms
proof (induction fs arbitrary: c)
  case (Cons f fs)
  obtain k w where f: "f = (k, w)" by fastforce
  obtain ms where ms: "structEncoder (CHR '','') (map (\<lambda>(k, v). (k, False, json_of v)) fs) = Inr (compact_from (CHR '','') (texts ms))"
    "list_all field_ok ms" "fields ms = fs"
    using Cons.IH [of "CHR '',''"] Cons.prems(1) by fastforce
  have kw: "key_ok k" "plain_field w" using Cons.prems(1) [of k w] by (auto simp: f)
  obtain t where t: "reflectValue (json_of w) = Inr t" "value_text t w" using reflectValue_field [OF kw(2)] by blast
  show ?case
    using ms t nameEscHTML_key [OF kw(1)] key_ok_name [OF kw(1)]
    by (intro exI [of _ "(k, t, w) # ms"]) (simp add: f field_ok_def [of "(k, t, w)"])
qed simp

definition plain_struct :: "go_struct \<Rightarrow> bool" where
  "plain_struct fs \<longleftrightarrow> fs \<noteq> [] \<and> distinct (map fst fs) \<and> list_all (\<lambda>(k, w). key_ok k \<and> plain_field w) fs"

lemma Unmarshal_MarshalIndent:
  assumes fs: "plain_struct fs"
  shows "\<exists>b. MarshalIndent (json_struct fs) '''' ''  '' = Inr b
    \<and> (\<forall>st. list_all2 (\<lambda>(k, v) (k', w). k = k' \<and> same_kind v w) st fs \<longrightarrow> Unmarshal b st = (None, fs))"
proof -
  have f: "key_ok k \<and> plain_field w" if "(k, w) \<in> set fs" for k w using that fs by (auto simp: plain_struct_def list_all_iff)
  have ne: "fs \<noteq> []" using fs by (simp add: plain_struct_def)
  obtain ms where ms: "reflectValue (json_struct fs) = Inr (compact_from (CHR ''{'') (texts ms))" "list_all field_ok ms" "fields ms = fs"
    using structEncoder_fields [of fs "CHR ''{''"] f ne by (fastforce simp: json_struct_def)
  have ne': "ms \<noteq> []" using ms(3) ne by auto
  have "list_all member_ok (texts ms)"
    using ms(2) name_string_plain by (auto simp: list_all_iff field_ok_def member_ok_def value_text_def)
  then have b: "MarshalIndent (json_struct fs) '''' ''  '' = Inr (''{'' @ indented_from '''' (texts ms))"
    using appendIndent_object [of "texts ms"] ne' ms(1) by (simp add: MarshalIndent_def Marshal_def)
  have "Unmarshal (''{'' @ indented_from '''' (texts ms)) st = (None, fs)"
    if st: "list_all2 (\<lambda>(k, v) (k', w). k = k' \<and> same_kind v w) st fs" for st
  proof -
    have "map fst st = map fst fs" using st by (induction rule: list_all2_induct) auto
    then have "distinct (map fst st)" using fs by (simp add: plain_struct_def)
    moreover have "list_all2 (\<lambda>(k, v) (k', t, w). k = k' \<and> same_kind v w) st ms"
      using st unfolding ms(3) [symmetric] by (auto simp: list_all2_map2 elim!: list_all2_mono)
    ultimately have "target st ms" by (simp add: target_def)
    then show ?thesis using Unmarshal_object [OF ms(2) _ ne'] ms(3) by simp
  qed
  then show ?thesis using b by blast
qed

end
