(* ===== verification/File_Match.thy ===== *)
theory File_Match
  imports Filepath
begin

text \<open>
  File name patterns: \<open>Match\<close> of \<open>path/filepath/match.go\<close> on Unix with \<open>scanChunk\<close>, \<open>matchChunk\<close> and \<open>getEsc\<close>, and what
  it decides for a pattern with one star between literal parts.
\<close>

subsection \<open>The code\<close>

text \<open>The index at which the loop of \<open>scanChunk\<close> stops.\<close>

fun chunk_end :: "bool \<Rightarrow> string \<Rightarrow> nat" where
  "chunk_end inrange [] = 0"
| "chunk_end inrange (c # cs) =
     (if c = CHR 0x5C then (case cs of [] \<Rightarrow> 1 | _ # cs' \<Rightarrow> 2 + chunk_end inrange cs')
      else if c = CHR ''['' then 1 + chunk_end True cs
      else if c = CHR '']'' then 1 + chunk_end False cs
      else if c = CHR ''*'' \<and> \<not> inrange then 0
      else 1 + chunk_end inrange cs)"

definition scanChunk :: "string \<Rightarrow> bool \<times> string \<times> string" where
  "scanChunk pattern =
     (let rest = dropWhile (\<lambda>c. c = CHR ''*'') pattern; i = chunk_end False rest in
      (pattern \<noteq> rest, take i rest, drop i rest))"

definition getEsc :: "string \<Rightarrow> (go_error, nat \<times> string) result" where
  "getEsc chunk =
     (if chunk = [] \<or> hd chunk = CHR ''-'' \<or> hd chunk = CHR '']'' then Inl Bad_Pattern
      else
        let esc = (hd chunk = CHR 0x5C); chunk = (if esc then tl chunk else chunk) in
        if esc \<and> chunk = [] then Inl Bad_Pattern
        else
          let (r, n) = DecodeRuneInString chunk; nchunk = drop n chunk in
          if r = RuneError \<and> n = 1 \<or> nchunk = [] then Inl Bad_Pattern else Inr (r, nchunk))"

lemma getEsc_shorter: "getEsc chunk = Inr (r, nchunk) \<Longrightarrow> length nchunk < length chunk"
proof -
  assume a: "getEsc chunk = Inr (r, nchunk)"
  define c where "c = (if hd chunk = CHR 0x5C then tl chunk else chunk)"
  obtain q n where d: "DecodeRuneInString c = (q, n)" by fastforce
  have ne: "chunk \<noteq> []" "c \<noteq> []" using a by (auto simp: getEsc_def c_def Let_def split: if_splits)
  have n: "1 \<le> n" using Decode_size [OF ne(2)] d by simp
  have "nchunk = drop n c"
    using a d by (auto simp: getEsc_def c_def Let_def split: if_splits prod.splits)
  moreover have "length c \<le> length chunk" by (simp add: c_def)
  ultimately show ?thesis using n ne by (cases c) auto
qed

text \<open>The ranges of a character class: whether one of them holds the rune, and the chunk after the class.\<close>

function class_ranges :: "nat \<Rightarrow> bool \<Rightarrow> nat \<Rightarrow> string \<Rightarrow> (go_error, bool \<times> string) result" where
  "class_ranges r matched nrange chunk =
     (if chunk \<noteq> [] \<and> hd chunk = CHR '']'' \<and> 0 < nrange then Inr (matched, tl chunk)
      else
        case getEsc chunk of
          Inl e \<Rightarrow> Inl e
        | Inr (lo, chunk') \<Rightarrow>
            if hd chunk' = CHR ''-'' then
              (case getEsc (tl chunk') of
                 Inl e \<Rightarrow> Inl e
               | Inr (hi, chunk'') \<Rightarrow> class_ranges r (matched \<or> lo \<le> r \<and> r \<le> hi) (nrange + 1) chunk'')
            else class_ranges r (matched \<or> lo \<le> r \<and> r \<le> lo) (nrange + 1) chunk')"
  by pat_completeness auto
termination
proof (relation "measure (\<lambda>(r, matched, nrange, chunk). length chunk)", goal_cases)
  case (2 r matched nrange chunk b lo chunk' c hi chunk'')
  then have "length chunk' < length chunk" "length chunk'' < length (tl chunk')" using getEsc_shorter by blast+
  then show ?case by simp
next
  case (3 r matched nrange chunk b lo chunk')
  then show ?case using getEsc_shorter [of chunk lo chunk'] by simp
qed simp

declare class_ranges.simps [simp del]

lemma class_ranges_shorter: "class_ranges r m k chunk = Inr (m', rest) \<Longrightarrow> length rest \<le> length chunk"
proof (induction r m k chunk arbitrary: m' rest rule: class_ranges.induct)
  case (1 r m k chunk)
  show ?case
  proof (cases "chunk \<noteq> [] \<and> hd chunk = CHR '']'' \<and> 0 < k")
    case True
    then show ?thesis using 1(3) by (auto simp: class_ranges.simps [of r m k chunk])
  next
    case False
    obtain lo c' where g: "getEsc chunk = Inr (lo, c')"
      using 1(3) False by (auto simp: class_ranges.simps [of r m k chunk] split: sum.splits if_splits)
    note l = getEsc_shorter [OF g]
    show ?thesis
    proof (cases "hd c' = CHR ''-''")
      case True
      obtain hi c'' where h: "getEsc (tl c') = Inr (hi, c'')"
        using 1(3) False g True by (auto simp: class_ranges.simps [of r m k chunk] split: sum.splits if_splits)
      have "length rest \<le> length c''"
        using 1(1) [OF False g refl True h refl] 1(3) False g True h by (simp add: class_ranges.simps [of r m k chunk])
      then show ?thesis using l getEsc_shorter [OF h] by simp
    next
      case nd: False
      have "length rest \<le> length c'"
        using 1(2) [OF False g refl nd] 1(3) False g nd by (simp add: class_ranges.simps [of r m k chunk])
      then show ?thesis using l by simp
    qed
  qed
qed

text \<open>\<open>matchChunk\<close> returns the rest of the name when it matches and \<open>None\<close> when it does not.\<close>

function matchChunk_loop :: "bool \<Rightarrow> string \<Rightarrow> string \<Rightarrow> (go_error, string option) result" where
  "matchChunk_loop failed chunk s =
     (if chunk = [] then Inr (if failed then None else Some s)
      else
        let failed = (failed \<or> s = []); c = hd chunk; chunk = tl chunk in
        if c = CHR ''['' then
          (let (r, s) = (if failed then (0, s) else let (r, n) = DecodeRuneInString s in (r, drop n s));
               negated = (chunk \<noteq> [] \<and> hd chunk = CHR ''^'') in
           case class_ranges r False 0 (if negated then tl chunk else chunk) of
             Inl e \<Rightarrow> Inl e
           | Inr (matched, chunk') \<Rightarrow> matchChunk_loop (failed \<or> matched = negated) chunk' s)
        else if c = CHR ''?'' then
          (if failed then matchChunk_loop failed chunk s
           else matchChunk_loop (IsPathSeparator (hd s)) chunk (drop (snd (DecodeRuneInString s)) s))
        else if c = CHR 0x5C \<and> chunk = [] then Inl Bad_Pattern
        else
          let (c, chunk) = (if c = CHR 0x5C then (hd chunk, tl chunk) else (c, chunk)) in
          if failed then matchChunk_loop failed chunk s
          else matchChunk_loop (c \<noteq> hd s) chunk (tl s))"
  by pat_completeness auto
termination
proof (relation "measure (\<lambda>(failed, chunk, s). length chunk)", goal_cases)
  case (2 failed chunk s failed' c chunk' p r s' negated q matched chunk'')
  then have "class_ranges r False 0 (if negated then tl chunk' else chunk') = Inr (matched, chunk'')" by simp
  then have "length chunk'' \<le> length (if negated then tl chunk' else chunk')" by (rule class_ranges_shorter)
  then have "length chunk'' \<le> length chunk'" by (cases negated) auto
  then show ?case using 2 by (cases chunk) auto
qed (auto simp: Let_def split: if_splits)

declare matchChunk_loop.simps [simp del]

definition matchChunk :: "string \<Rightarrow> string \<Rightarrow> (go_error, string option) result" where
  "matchChunk chunk s = matchChunk_loop False chunk s"

text \<open>
  The loop over the positions after a star; \<open>last\<close> says that the pattern ends with this chunk, so the
  name has to end too.
\<close>

fun star_loop :: "bool \<Rightarrow> string \<Rightarrow> string \<Rightarrow> (go_error, string option) result" where
  "star_loop last_chunk chunk [] = Inr None"
| "star_loop last_chunk chunk (c # name) =
     (if IsPathSeparator c then Inr None
      else
        case matchChunk chunk name of
          Inl e \<Rightarrow> Inl e
        | Inr None \<Rightarrow> star_loop last_chunk chunk name
        | Inr (Some t) \<Rightarrow> if last_chunk \<and> t \<noteq> [] then star_loop last_chunk chunk name else Inr (Some t))"

lemma scanChunk_shorter:
  assumes "scanChunk pattern = (star, chunk, rest)" "pattern \<noteq> []"
  shows "length rest < length pattern"
proof -
  define p where "p = dropWhile (\<lambda>c. c = CHR ''*'') pattern"
  have l: "length p \<le> length pattern" by (simp add: p_def length_dropWhile_le)
  have r: "rest = drop (chunk_end False p) p" using assms(1) by (auto simp: scanChunk_def p_def Let_def)
  show ?thesis
  proof (cases p)
    case Nil
    then show ?thesis using r assms(2) by simp
  next
    case (Cons c cs)
    have "c \<noteq> CHR ''*''" using Cons hd_dropWhile [of "\<lambda>c. c = CHR ''*''" pattern] by (simp add: p_def)
    then have "0 < chunk_end False p" by (auto simp: Cons split: list.splits)
    then have "length rest < length p" using r Cons by simp
    then show ?thesis using l by simp
  qed
qed

function Match :: "string \<Rightarrow> string \<Rightarrow> (go_error, bool) result" where
  "Match pattern name =
     (if pattern = [] then Inr (name = [])
      else
        let (star, chunk, rest) = scanChunk pattern in
        if star \<and> chunk = [] then Inr (\<not> list_ex IsPathSeparator name)
        else
          case matchChunk chunk name of
            Inr (Some t) \<Rightarrow>
              if t = [] \<or> rest \<noteq> [] then Match rest t
              else if star then
                (case star_loop (rest = []) chunk name of
                   Inl e \<Rightarrow> Inl e | Inr None \<Rightarrow> Inr False | Inr (Some t) \<Rightarrow> Match rest t)
              else Inr False
          | Inl e \<Rightarrow> Inl e
          | Inr None \<Rightarrow>
              if star then
                (case star_loop (rest = []) chunk name of
                   Inl e \<Rightarrow> Inl e | Inr None \<Rightarrow> Inr False | Inr (Some t) \<Rightarrow> Match rest t)
              else Inr False)"
  by pat_completeness auto
termination
  by (relation "measure (\<lambda>(pattern, name). length pattern)") (auto intro: scanChunk_shorter [OF sym])

declare Match.simps [simp del]

subsection \<open>One star between literals\<close>

definition literal_char :: "char \<Rightarrow> bool" where
  "literal_char c \<longleftrightarrow> c \<notin> {CHR ''*'', CHR ''?'', CHR ''['', CHR 0x5C}"

lemma matchChunk_loop_failed: "list_all literal_char chunk \<Longrightarrow> matchChunk_loop True chunk s = Inr None"
  by (induction chunk arbitrary: s) (simp_all add: matchChunk_loop.simps literal_char_def)

lemma matchChunk_literal:
  "list_all literal_char chunk \<Longrightarrow>
   matchChunk chunk s = Inr (if take (length chunk) s = chunk then Some (drop (length chunk) s) else None)"
  unfolding matchChunk_def
proof (induction chunk arbitrary: s)
  case Nil
  then show ?case by (simp add: matchChunk_loop.simps)
next
  case (Cons c chunk)
  show ?case
  proof (cases s)
    case Nil
    then show ?thesis using Cons(2) matchChunk_loop_failed [of chunk "[]"]
      by (simp add: matchChunk_loop.simps [of False "c # chunk"] literal_char_def [of c])
  next
    case s: (Cons d s')
    then show ?thesis using Cons matchChunk_loop_failed [of chunk s']
      by (cases "c = d") (auto simp: matchChunk_loop.simps [of False "a # chunk" for a] literal_char_def [of c] literal_char_def [of d])
  qed
qed

lemma chunk_end_literal:
  "list_all literal_char cs \<Longrightarrow> chunk_end False (cs @ CHR ''*'' # rest) = length cs"
  "list_all literal_char cs \<Longrightarrow> chunk_end False cs = length cs"
  by (induction cs) (auto simp: literal_char_def)

lemma scanChunk_literal:
  assumes "list_all literal_char cs" "cs \<noteq> []"
  shows "scanChunk (cs @ CHR ''*'' # rest) = (False, cs, CHR ''*'' # rest)" "scanChunk (CHR ''*'' # cs) = (True, cs, [])"
proof -
  obtain c cs' where cs: "cs = c # cs'" using assms(2) by (cases cs) auto
  have d: "dropWhile (\<lambda>c. c = CHR ''*'') (cs @ xs) = cs @ xs" "dropWhile (\<lambda>c. c = CHR ''*'') (CHR ''*'' # cs) = cs" for xs
    using assms(1) by (simp_all add: cs literal_char_def)
  show "scanChunk (cs @ CHR ''*'' # rest) = (False, cs, CHR ''*'' # rest)" "scanChunk (CHR ''*'' # cs) = (True, cs, [])"
    unfolding scanChunk_def d Let_def chunk_end_literal [OF assms(1)] by simp_all
qed

lemma star_loop_literal:
  assumes "list_all literal_char chunk"
  shows "star_loop True chunk t =
    Inr (if \<exists>mid. mid \<noteq> [] \<and> t = mid @ chunk \<and> CHR ''/'' \<notin> set mid then Some [] else None)"
proof (induction t)
  case (Cons c t)
  show ?case
  proof (cases "c = CHR ''/''")
    case True
    then show ?thesis by (auto simp: IsPathSeparator_def Cons_eq_append_conv)
  next
    case False
    have here: "matchChunk chunk t = Inr (Some []) \<longleftrightarrow> t = chunk" by (auto simp: matchChunk_literal [OF assms])
    have e: "(\<exists>mid. mid \<noteq> [] \<and> c # t = mid @ chunk \<and> CHR ''/'' \<notin> set mid)
      \<longleftrightarrow> t = chunk \<or> (\<exists>mid. mid \<noteq> [] \<and> t = mid @ chunk \<and> CHR ''/'' \<notin> set mid)"
    proof -
      have "(\<exists>mid. mid \<noteq> [] \<and> c # t = mid @ chunk \<and> CHR ''/'' \<notin> set mid) \<longleftrightarrow> (\<exists>m. t = m @ chunk \<and> CHR ''/'' \<notin> set (c # m))"
      proof
        assume "\<exists>mid. mid \<noteq> [] \<and> c # t = mid @ chunk \<and> CHR ''/'' \<notin> set mid"
        then obtain a m where "c # t = (a # m) @ chunk" "CHR ''/'' \<notin> set (a # m)" by (metis neq_Nil_conv)
        then show "\<exists>m. t = m @ chunk \<and> CHR ''/'' \<notin> set (c # m)" by auto
      next
        assume "\<exists>m. t = m @ chunk \<and> CHR ''/'' \<notin> set (c # m)"
        then obtain m where "c # t = (c # m) @ chunk" "CHR ''/'' \<notin> set (c # m)" by auto
        then show "\<exists>mid. mid \<noteq> [] \<and> c # t = mid @ chunk \<and> CHR ''/'' \<notin> set mid" by blast
      qed
      also have "\<dots> \<longleftrightarrow> t = chunk \<or> (\<exists>mid. mid \<noteq> [] \<and> t = mid @ chunk \<and> CHR ''/'' \<notin> set mid)"
        using False by (auto intro: exI [of _ "[]"])
      finally show ?thesis .
    qed
    show ?thesis unfolding e using Cons False here
      by (auto simp: matchChunk_literal [OF assms] IsPathSeparator_def)
  qed
qed simp

lemma Match_star:
  assumes "list_all literal_char pre" "list_all literal_char suf" "pre \<noteq> []" "suf \<noteq> []"
  shows "Match (pre @ CHR ''*'' # suf) name = Inr (\<exists>mid. name = pre @ mid @ suf \<and> CHR ''/'' \<notin> set mid)"
proof (cases "take (length pre) name = pre")
  case False
  then show ?thesis using assms
    by (auto simp: Match.simps [of "pre @ CHR ''*'' # suf"] scanChunk_literal matchChunk_literal)
next
  case True
  define t where "t = drop (length pre) name"
  have name: "name = pre @ t" using True by (metis append_take_drop_id t_def)
  have "Match (pre @ CHR ''*'' # suf) name = Match (CHR ''*'' # suf) t"
    using assms by (simp add: Match.simps [of "pre @ CHR ''*'' # suf"] scanChunk_literal matchChunk_literal name)
  also have "\<dots> = Inr (\<exists>mid. t = mid @ suf \<and> CHR ''/'' \<notin> set mid)"
  proof (cases "t = suf")
    case True
    then show ?thesis using assms by (simp add: Match.simps scanChunk_literal matchChunk_literal)
  next
    case False
    have "matchChunk suf t \<noteq> Inr (Some [])" using False by (auto simp: matchChunk_literal [OF assms(2)])
    then have "Match (CHR ''*'' # suf) t = (case star_loop True suf t of Inl e \<Rightarrow> Inl e | Inr None \<Rightarrow> Inr False | Inr (Some t) \<Rightarrow> Match [] t)"
      using assms by (auto simp: Match.simps [of "CHR ''*'' # suf"] scanChunk_literal matchChunk_literal split: option.splits)
    also have "\<dots> = Inr (\<exists>mid. mid \<noteq> [] \<and> t = mid @ suf \<and> CHR ''/'' \<notin> set mid)"
      unfolding star_loop_literal [OF assms(2)] by (simp add: Match.simps [of "[]"])
    also have "\<dots> = Inr (\<exists>mid. t = mid @ suf \<and> CHR ''/'' \<notin> set mid)" using False by auto
    finally show ?thesis .
  qed
  finally show ?thesis by (simp add: name)
qed

text \<open>
  A pattern with one star between two literal parts, which is the form of the patterns of the list operations, matches exactly the names
  that begin with the first part and end with the second, with no path separator between them; the two parts do not overlap in the name.
\<close>

theorem Match_one_star:
  "list_all literal_char pre \<and> list_all literal_char suf \<and> pre \<noteq> [] \<and> suf \<noteq> [] \<longrightarrow>
     Match (pre @ CHR ''*'' # suf) name = Inr (\<exists>mid. name = pre @ mid @ suf \<and> CHR ''/'' \<notin> set mid)"
  using Match_star by blast

theorem Match_one_star_witness:
  "Match ''recipe_*.json'' ''recipe_a.json'' = Inr True \<and> Match ''recipe_*.json'' ''recipe_a.json.tmp'' = Inr False"
proof -
  have l: "list_all literal_char ''recipe_''" "list_all literal_char ''.json''" by code_simp+
  note m = Match_one_star [of "''recipe_''" "''.json''"]
  have "Match ''recipe_*.json'' ''recipe_a.json'' = Inr True"
    using m [of "''recipe_a.json''"] l by (force intro: exI [of _ "''a''"])
  moreover have "\<not> (\<exists>mid. ''recipe_a.json.tmp'' = ''recipe_'' @ mid @ ''.json'')"
  proof
    assume "\<exists>mid. ''recipe_a.json.tmp'' = ''recipe_'' @ mid @ ''.json''"
    then obtain mid where "''recipe_a.json.tmp'' = ''recipe_'' @ mid @ ''.json''" by blast
    then have "rev ''recipe_a.json.tmp'' = rev ''.json'' @ rev mid @ rev ''recipe_''" by (metis rev_append append_assoc)
    then show False by simp
  qed
  ultimately show ?thesis using m [of "''recipe_a.json.tmp''"] l by auto
qed

end
