(* ===== verification/File_System.thy ===== *)
theory File_System
  imports File_Match "HOL-Library.AList" "HOL-Library.Char_ord" "HOL-Library.List_Lexorder"
begin

text \<open>
  The operating system as the store sees it: files and directories by their clean path, the calls of package \<open>os\<close>
  (\<open>file.go\<close>, \<open>path.go\<close>, \<open>file_unix.go\<close>), and \<open>Glob\<close> of \<open>path/filepath/match.go\<close>.

  The kernel is a parameter: \<open>os_fault env call path\<close> is the error with which it refuses a system call, if it does, and
  \<open>os_done env path\<close> how much of an interrupted write or directory listing was done. Every
  definition takes it as its first argument. There are no symbolic links, so a path names what its clean form names.
\<close>

subsection \<open>State\<close>

datatype sys_call =
    Sys_Stat | Sys_Open | Sys_Read | Sys_Create | Sys_Write | Sys_Close | Sys_Rename | Sys_Remove | Sys_Mkdir | Sys_Readdir

record os_env =
  os_fault :: "sys_call \<Rightarrow> string \<Rightarrow> go_error option"
  os_done :: "string \<Rightarrow> nat"

record file_system =
  fs_files :: "(string \<times> string) list"
  fs_dirs :: "string list"

definition fs_lookup :: "file_system \<Rightarrow> string \<Rightarrow> string option" where
  "fs_lookup fs = map_of (fs_files fs)"

definition fs_put :: "file_system \<Rightarrow> string \<Rightarrow> string \<Rightarrow> file_system" where
  "fs_put fs path b = fs\<lparr>fs_files := AList.update path b (fs_files fs)\<rparr>"

definition fs_delete :: "file_system \<Rightarrow> string \<Rightarrow> file_system" where
  "fs_delete fs path = fs\<lparr>fs_files := AList.delete path (fs_files fs)\<rparr>"

definition fs_is_dir :: "file_system \<Rightarrow> string \<Rightarrow> bool" where
  "fs_is_dir fs path \<longleftrightarrow> Clean path \<in> {''.'', ''/''} \<union> set (fs_dirs fs)"

definition fs_ok :: "file_system \<Rightarrow> bool" where
  "fs_ok fs \<longleftrightarrow> distinct (map fst (fs_files fs))"

definition no_faults :: os_env where
  "no_faults = \<lparr>os_fault = (\<lambda>call path. None), os_done = (\<lambda>path. 0)\<rparr>"

subsection \<open>Package \<open>os\<close>\<close>

text \<open>\<open>Stat\<close> tells whether the path is a directory.\<close>

definition os_Stat :: "os_env \<Rightarrow> file_system \<Rightarrow> string \<Rightarrow> (go_error, bool) result" where
  "os_Stat env fs name =
     (case os_fault env Sys_Stat name of
        Some e \<Rightarrow> Inl e
      | None \<Rightarrow>
          if fs_is_dir fs name then Inr True
          else if fs_lookup fs (Clean name) \<noteq> None then Inr False
          else Inl ErrNotExist)"

definition os_ReadFile :: "os_env \<Rightarrow> file_system \<Rightarrow> string \<Rightarrow> (go_error, string) result" where
  "os_ReadFile env fs name =
     (case os_fault env Sys_Open name of
        Some e \<Rightarrow> Inl e
      | None \<Rightarrow>
          (case fs_lookup fs name of
             None \<Rightarrow> Inl (if fs_is_dir fs name then Os_Error else ErrNotExist)
           | Some b \<Rightarrow> (case os_fault env Sys_Read name of Some e \<Rightarrow> Inl e | None \<Rightarrow> Inr b)))"

text \<open>\<open>WriteFile\<close> opens the file with truncation, writes and closes; a failed write leaves what was written.\<close>

definition os_WriteFile :: "os_env \<Rightarrow> file_system \<Rightarrow> string \<Rightarrow> string \<Rightarrow> file_system \<times> go_error option" where
  "os_WriteFile env fs name data =
     (if fs_is_dir fs name then (fs, Some Os_Error)
      else
        case os_fault env Sys_Create name of
          Some e \<Rightarrow> (fs, Some e)
        | None \<Rightarrow>
            (case os_fault env Sys_Write name of
               Some e \<Rightarrow> (fs_put fs name (take (os_done env name) data), Some e)
             | None \<Rightarrow> (fs_put fs name data, os_fault env Sys_Close name)))"

definition os_Rename :: "os_env \<Rightarrow> file_system \<Rightarrow> string \<Rightarrow> string \<Rightarrow> file_system \<times> go_error option" where
  "os_Rename env fs oldname newname =
     (case fs_lookup fs oldname of
        None \<Rightarrow> (fs, Some ErrNotExist)
      | Some b \<Rightarrow>
          if fs_is_dir fs newname then (fs, Some Os_Error)
          else
            (case os_fault env Sys_Rename newname of
               Some e \<Rightarrow> (fs, Some e)
             | None \<Rightarrow> (fs_put (fs_delete fs oldname) newname b, None)))"

definition os_Remove :: "os_env \<Rightarrow> file_system \<Rightarrow> string \<Rightarrow> file_system \<times> go_error option" where
  "os_Remove env fs name =
     (case os_fault env Sys_Remove name of
        Some e \<Rightarrow> (fs, Some e)
      | None \<Rightarrow> if fs_lookup fs name = None then (fs, Some ErrNotExist) else (fs_delete fs name, None))"

definition os_Mkdir :: "os_env \<Rightarrow> file_system \<Rightarrow> string \<Rightarrow> file_system \<times> go_error option" where
  "os_Mkdir env fs name =
     (if fs_is_dir fs name \<or> fs_lookup fs (Clean name) \<noteq> None then (fs, Some Os_Error)
      else
        case os_fault env Sys_Mkdir name of
          Some e \<Rightarrow> (fs, Some e)
        | None \<Rightarrow> (fs\<lparr>fs_dirs := Clean name # fs_dirs fs\<rparr>, None))"

text \<open>The parent of a path: trailing separators and the last element go, and the separator before it.\<close>

definition mkdir_parent :: "string \<Rightarrow> string" where
  "mkdir_parent path = rev (tl (dropWhile (\<lambda>c. \<not> IsPathSeparator c) (dropWhile IsPathSeparator (rev path))))"

lemma mkdir_parent_shorter:
  assumes "mkdir_parent path \<noteq> []"
  shows "length (mkdir_parent path) < length path"
proof -
  define s where "s = dropWhile (\<lambda>c. \<not> IsPathSeparator c) (dropWhile IsPathSeparator (rev path))"
  have "length s \<le> length (dropWhile IsPathSeparator (rev path))" by (simp add: s_def length_dropWhile_le)
  also have "\<dots> \<le> length path" using length_dropWhile_le [of IsPathSeparator "rev path"] by simp
  finally show ?thesis using assms by (cases s) (auto simp: mkdir_parent_def s_def [symmetric])
qed

function os_MkdirAll :: "os_env \<Rightarrow> file_system \<Rightarrow> string \<Rightarrow> file_system \<times> go_error option" where
  "os_MkdirAll env fs path =
     (case os_Stat env fs path of
        Inr isdir \<Rightarrow> (fs, if isdir then None else Some Os_Error)
      | Inl _ \<Rightarrow>
          let parent = mkdir_parent path;
              (fs, err) = (if parent \<noteq> '''' then os_MkdirAll env fs parent else (fs, None)) in
          case err of
            Some e \<Rightarrow> (fs, Some e)
          | None \<Rightarrow>
              (case os_Mkdir env fs path of
                 (fs, None) \<Rightarrow> (fs, None)
               | (fs, Some e) \<Rightarrow> (fs, if os_Stat env fs path = Inr True then None else Some e)))"
  by pat_completeness auto
termination
  by (relation "measure (\<lambda>(env, fs, path). length path)") (auto simp: mkdir_parent_shorter)

declare os_MkdirAll.simps [simp del]

subsection \<open>Glob\<close>

definition hasMeta :: "string \<Rightarrow> bool" where
  "hasMeta path \<longleftrightarrow> list_ex (\<lambda>c. c \<in> {CHR ''*'', CHR ''?'', CHR ''['', CHR 0x5C}) path"

definition cleanGlobPath :: "string \<Rightarrow> string" where
  "cleanGlobPath path = (if path = '''' then ''.'' else if path = ''/'' then path else butlast path)"

definition dir_names :: "file_system \<Rightarrow> string \<Rightarrow> string list" where
  "dir_names fs dir =
     map filepath_Base
       (filter (\<lambda>p. file_name (filepath_Base p) \<and> filepath_Join [dir, filepath_Base p] = p) (map fst (fs_files fs) @ fs_dirs fs))"

text \<open>\<open>Readdirnames\<close>; an error in the middle leaves the names read so far.\<close>

definition os_Readdirnames :: "os_env \<Rightarrow> file_system \<Rightarrow> string \<Rightarrow> string list" where
  "os_Readdirnames env fs dir =
     (let names = dir_names fs dir in
      case os_fault env Sys_Readdir dir of None \<Rightarrow> names | Some e \<Rightarrow> take (os_done env dir) names)"

fun glob_loop :: "string \<Rightarrow> string \<Rightarrow> string list \<Rightarrow> (go_error, string list) result" where
  "glob_loop dir pattern [] = Inr []"
| "glob_loop dir pattern (n # names) =
     (case Match pattern n of
        Inl e \<Rightarrow> Inl e
      | Inr matched \<Rightarrow>
          result_bind (glob_loop dir pattern names) (\<lambda>m. Inr (if matched then filepath_Join [dir, n] # m else m)))"

definition glob :: "os_env \<Rightarrow> file_system \<Rightarrow> string \<Rightarrow> string \<Rightarrow> string list \<Rightarrow> (go_error, string list) result" where
  "glob env fs dir pattern matches =
     (case os_Stat env fs dir of
        Inl _ \<Rightarrow> Inr matches
      | Inr isdir \<Rightarrow>
          if \<not> isdir \<or> os_fault env Sys_Open dir \<noteq> None then Inr matches
          else
            result_bind (glob_loop dir pattern (sort (os_Readdirnames env fs dir))) (\<lambda>m. Inr (matches @ m)))"

fun glob_all :: "os_env \<Rightarrow> file_system \<Rightarrow> string \<Rightarrow> string list \<Rightarrow> string list \<Rightarrow> (go_error, string list) result" where
  "glob_all env fs file matches [] = Inr matches"
| "glob_all env fs file matches (d # ds) =
     result_bind (glob env fs d file matches) (\<lambda>matches. glob_all env fs file matches ds)"

lemma glob_dir_shorter:
  assumes "filepath_Split pattern = (dir, file)" "hasMeta (cleanGlobPath dir)"
  shows "length (cleanGlobPath dir) < length pattern"
proof -
  have "length dir \<le> length pattern" using assms(1) by (auto simp: filepath_Split_def Let_def)
  moreover have "dir \<noteq> ''''" "dir \<noteq> ''/''" using assms(2) by (auto simp: cleanGlobPath_def hasMeta_def)
  ultimately show ?thesis by (cases dir rule: rev_cases) (auto simp: cleanGlobPath_def)
qed

function globWithLimit :: "os_env \<Rightarrow> file_system \<Rightarrow> string \<Rightarrow> nat \<Rightarrow> (go_error, string list) result" where
  "globWithLimit env fs pattern depth =
     (if depth = 10000 then Inl Bad_Pattern
      else
        case Match pattern '''' of
          Inl e \<Rightarrow> Inl e
        | Inr _ \<Rightarrow>
            if \<not> hasMeta pattern then
              (case os_Stat env fs pattern of Inl _ \<Rightarrow> Inr [] | Inr _ \<Rightarrow> Inr [pattern])
            else
              let (dir, file) = filepath_Split pattern; dir = cleanGlobPath dir in
              if \<not> hasMeta dir then glob env fs dir file []
              else if dir = pattern then Inl Bad_Pattern
              else result_bind (globWithLimit env fs dir (depth + 1)) (\<lambda>m. glob_all env fs file [] m))"
  by pat_completeness auto
termination
  by (relation "measure (\<lambda>(env, fs, pattern, depth). length pattern)") (auto intro: glob_dir_shorter [OF sym])

declare globWithLimit.simps [simp del]

definition Glob :: "os_env \<Rightarrow> file_system \<Rightarrow> string \<Rightarrow> (go_error, string list) result" where
  "Glob env fs pattern = globWithLimit env fs pattern 0"

subsection \<open>Files and directories\<close>

lemma fs_lookup_put [simp]: "fs_lookup (fs_put fs p b) = (fs_lookup fs)(p \<mapsto> b)"
  by (simp add: fs_lookup_def fs_put_def update_conv')

lemma fs_lookup_delete [simp]: "fs_lookup (fs_delete fs p) = (fs_lookup fs)(p := None)"
  by (simp add: fs_lookup_def fs_delete_def delete_conv')

lemma fs_dirs_put [simp]: "fs_dirs (fs_put fs p b) = fs_dirs fs" "fs_dirs (fs_delete fs p) = fs_dirs fs"
  by (simp_all add: fs_put_def fs_delete_def)

lemma fs_is_dir_put [simp]: "fs_is_dir (fs_put fs p b) = fs_is_dir fs" "fs_is_dir (fs_delete fs p) = fs_is_dir fs"
  by (simp_all add: fs_is_dir_def fun_eq_iff)

lemma fs_ok_put [simp]: "fs_ok fs \<Longrightarrow> fs_ok (fs_put fs p b)" "fs_ok fs \<Longrightarrow> fs_ok (fs_delete fs p)"
  by (simp_all add: fs_ok_def fs_put_def fs_delete_def distinct_update distinct_delete)

lemma fs_files_dom: "fst ` set (fs_files fs) = dom (fs_lookup fs)"
  by (simp add: fs_lookup_def dom_map_of_conv_image_fst)

lemma MkdirAll_files: "fs_lookup (fst (os_MkdirAll env fs path)) = fs_lookup fs"
proof (induction env fs path rule: os_MkdirAll.induct)
  case (1 env fs path)
  have m: "fs_lookup (fst (os_Mkdir env fs path)) = fs_lookup fs" for fs
    by (auto simp: os_Mkdir_def fs_lookup_def split: option.splits)
  show ?case
  proof (cases "os_Stat env fs path")
    case (Inl e)
    define q where "q = (if mkdir_parent path \<noteq> '''' then os_MkdirAll env fs (mkdir_parent path) else (fs, None))"
    have q: "fs_lookup (fst q) = fs_lookup fs" using 1 [OF Inl] by (auto simp: q_def)
    have "os_MkdirAll env fs path = (case snd q of Some e \<Rightarrow> (fst q, Some e)
        | None \<Rightarrow> (case os_Mkdir env (fst q) path of (fs, None) \<Rightarrow> (fs, None)
           | (fs, Some e) \<Rightarrow> (fs, if os_Stat env fs path = Inr True then None else Some e)))"
      by (subst os_MkdirAll.simps) (simp only: Inl q_def Let_def case_prod_unfold sum.case)
    then show ?thesis using q m [of "fst q"] by (auto split: option.splits prod.splits)
  qed (subst os_MkdirAll.simps, simp)
qed

text \<open>After \<open>MkdirAll\<close> has succeeded the path is a directory.\<close>

lemma MkdirAll_dir: "snd (os_MkdirAll env fs path) = None \<Longrightarrow> fs_is_dir (fst (os_MkdirAll env fs path)) path"
proof -
  assume a: "snd (os_MkdirAll env fs path) = None"
  have s: "os_Stat env fs path = Inr True \<Longrightarrow> fs_is_dir fs path" for fs
    by (auto simp: os_Stat_def split: option.splits if_splits)
  have m: "os_Mkdir env fs path = (fs', None) \<Longrightarrow> fs_is_dir fs' path" for fs fs'
    by (auto simp: os_Mkdir_def fs_is_dir_def split: option.splits if_splits)
  show ?thesis
  proof (cases "os_Stat env fs path")
    case (Inr b)
    then show ?thesis using a s by (subst os_MkdirAll.simps) (cases b; simp add: os_MkdirAll.simps [of env fs path])
  next
    case (Inl e)
    define q where "q = (if mkdir_parent path \<noteq> '''' then os_MkdirAll env fs (mkdir_parent path) else (fs, None))"
    have e: "os_MkdirAll env fs path = (case snd q of Some e \<Rightarrow> (fst q, Some e)
        | None \<Rightarrow> (case os_Mkdir env (fst q) path of (fs, None) \<Rightarrow> (fs, None)
           | (fs, Some e) \<Rightarrow> (fs, if os_Stat env fs path = Inr True then None else Some e)))"
      by (subst os_MkdirAll.simps) (simp only: Inl q_def Let_def case_prod_unfold sum.case)
    show ?thesis using a m [of "fst q"] s unfolding e
      by (auto split: option.splits prod.splits if_splits)
  qed
qed

subsection \<open>A glob in one directory\<close>

lemma dir_part_end: "dir_part dir = [] \<or> last (dir_part dir) = CHR ''/''"
  by (auto simp: dir_part_def)

lemma takeWhile_file:
  assumes "CHR ''/'' \<notin> set f"
  shows "takeWhile (\<lambda>c. \<not> IsPathSeparator c) (rev f @ rev (dir_part dir)) = rev f"
proof (cases "dir_part dir = []")
  case True
  then show ?thesis using assms by (auto simp: takeWhile_eq_all_conv IsPathSeparator_def)
next
  case False
  then obtain d where d: "dir_part dir = d @ ''/''" using dir_part_end [of dir] by (metis append_butlast_last_id)
  have "\<And>x. x \<in> set (rev f) \<Longrightarrow> \<not> IsPathSeparator x" using assms by (auto simp: IsPathSeparator_def)
  then show ?thesis by (subst takeWhile_append2) (auto simp: d IsPathSeparator_def)
qed

lemma Split_dir: "CHR ''/'' \<notin> set f \<Longrightarrow> filepath_Split (dir_part dir @ f) = (dir_part dir, f)"
  by (simp add: filepath_Split_def takeWhile_file)

lemma cleanGlobPath_dir: "cleanGlobPath (dir_part dir) = Clean dir"
  using Clean_nonempty [of dir] by (auto simp: cleanGlobPath_def dir_part_def) (simp add: Clean_def)

lemma Base_dir:
  assumes "file_name f"
  shows "filepath_Base (dir_part dir @ f) = f"
proof -
  have f: "f \<noteq> []" "CHR ''/'' \<notin> set f" using assms by (auto simp: file_name_def)
  have "\<not> IsPathSeparator (last f)" using f last_in_set [OF f(1)] by (metis IsPathSeparator_def)
  then have "dropWhile IsPathSeparator (rev (dir_part dir @ f)) = rev (dir_part dir @ f)"
    using f(1) by (cases f rule: rev_cases) auto
  then show ?thesis using f takeWhile_file [OF f(2), of dir] by (simp add: filepath_Base_def)
qed

lemma dir_names_iff:
  "n \<in> set (dir_names fs dir) \<longleftrightarrow> file_name n \<and> dir_part dir @ n \<in> dom (fs_lookup fs) \<union> set (fs_dirs fs)"
proof -
  define ps where "ps = map fst (fs_files fs) @ fs_dirs fs"
  have ps: "set ps = dom (fs_lookup fs) \<union> set (fs_dirs fs)" by (simp add: ps_def fs_files_dom)
  have m: "n \<in> set (dir_names fs dir) \<longleftrightarrow>
    (\<exists>p \<in> set ps. n = filepath_Base p \<and> file_name (filepath_Base p) \<and> filepath_Join [dir, filepath_Base p] = p)"
    unfolding dir_names_def ps_def [symmetric] by auto
  show ?thesis unfolding m ps [symmetric]
  proof
    assume "\<exists>p \<in> set ps. n = filepath_Base p \<and> file_name (filepath_Base p) \<and> filepath_Join [dir, filepath_Base p] = p"
    then show "file_name n \<and> dir_part dir @ n \<in> set ps" by (metis Join_file)
  next
    assume "file_name n \<and> dir_part dir @ n \<in> set ps"
    then show "\<exists>p \<in> set ps. n = filepath_Base p \<and> file_name (filepath_Base p) \<and> filepath_Join [dir, filepath_Base p] = p"
      by (intro bexI [of _ "dir_part dir @ n"]) (auto simp: Base_dir Join_file)
  qed
qed

lemma glob_loop_star:
  assumes "\<And>n. n \<in> set names \<Longrightarrow> Match pattern n = Inr (P n)"
  shows "glob_loop dir pattern names = Inr (map (\<lambda>n. filepath_Join [dir, n]) (filter P names))"
  using assms by (induction names) auto

definition quiet :: "os_env \<Rightarrow> string \<Rightarrow> bool" where
  "quiet env path \<longleftrightarrow> (\<forall>call. os_fault env call path = None)"

lemma Glob_star:
  assumes lit: "list_all literal_char pre" "list_all literal_char suf" and ne: "pre \<noteq> []" "suf \<noteq> []"
    and sep: "CHR ''/'' \<notin> set pre" "CHR ''/'' \<notin> set suf"
    and dir: "\<not> hasMeta (Clean dir)" "fs_is_dir fs dir" "quiet env (Clean dir)"
  shows "Glob env fs (filepath_Join [dir, pre @ ''*'' @ suf])
    = Inr (map ((@) (dir_part dir)) (filter (\<lambda>n. \<exists>mid. n = pre @ mid @ suf) (sort (dir_names fs (Clean dir)))))"
proof -
  let ?f = "pre @ ''*'' @ suf"
  have f: "file_name ?f" "CHR ''/'' \<notin> set ?f" using sep ne by (auto simp: file_name_def append_eq_Cons_conv)
  have pat: "filepath_Join [dir, ?f] = dir_part dir @ ?f" by (rule Join_file [OF f(1)])
  have "list_all literal_char (dir_part dir)"
    using dir(1) by (auto simp: dir_part_def hasMeta_def list_all_iff list_ex_iff literal_char_def)
  then have well: "Match (dir_part dir @ ?f) '''' = Inr False"
    using Match_star [of "dir_part dir @ pre" suf "''''"] lit ne by simp
  have meta: "hasMeta (dir_part dir @ ?f)" by (simp add: hasMeta_def)
  have "os_Stat env fs (Clean dir) = Inr True" "os_fault env Sys_Open (Clean dir) = None" "os_fault env Sys_Readdir (Clean dir) = None"
    using dir(2,3) by (simp_all add: os_Stat_def quiet_def fs_is_dir_def Clean_idem)
  then have "glob env fs (Clean dir) ?f [] = glob_loop (Clean dir) ?f (sort (dir_names fs (Clean dir)))"
    by (simp add: glob_def os_Readdirnames_def result_bind_def split: sum.splits)
  also have "\<dots> = Inr (map (\<lambda>n. filepath_Join [Clean dir, n]) (filter (\<lambda>n. \<exists>mid. n = pre @ mid @ suf) (sort (dir_names fs (Clean dir)))))"
  proof (rule glob_loop_star)
    fix n
    assume "n \<in> set (sort (dir_names fs (Clean dir)))"
    then have "CHR ''/'' \<notin> set n" by (auto simp: dir_names_iff file_name_def)
    then show "Match ?f n = Inr (\<exists>mid. n = pre @ mid @ suf)" using Match_star [OF lit ne, of n] by auto
  qed
  also have "\<dots> = Inr (map ((@) (dir_part dir)) (filter (\<lambda>n. \<exists>mid. n = pre @ mid @ suf) (sort (dir_names fs (Clean dir)))))"
    by (auto simp: dir_names_iff Join_file dir_part_Clean)
  finally have g: "glob env fs (Clean dir) ?f [] = Inr (map ((@) (dir_part dir)) (filter (\<lambda>n. \<exists>mid. n = pre @ mid @ suf) (sort (dir_names fs (Clean dir)))))" .
  show ?thesis
    using well meta dir(1) g unfolding pat Glob_def
    by (auto simp: globWithLimit.simps [of env fs "dir_part dir @ f" for f] Split_dir [OF f(2)] cleanGlobPath_dir simp del: append_Cons)
qed

end
