(* ===== verification/Store.thy ===== *)
theory Store
  imports Cycle_Build Json_Round_Trip File_System
begin

text \<open>
  The record store: \<open>internal/store/store.go\<close> and \<open>internal/store/jsonfile.go\<close>. A \<open>Store\<close> is its data directory; the state its
  operations change is the file system. Every operation runs under the mutex of the store, so operations are
  functions of the state; what a crash can leave of one is in theory \<open>Store_Crash\<close>. A struct is decoded into
  the list of its fields with their JSON names (\<open>go_struct\<close>).
\<close>

subsection \<open>Records\<close>

record recipe =
  rcp_Name :: string
  rcp_Type :: string
  rcp_H :: float64
  rcp_Beta :: float64

definition Recipe_Validate :: "recipe \<Rightarrow> (go_error, unit) result" where
  "Recipe_Validate r =
     (if TrimSpace (rcp_Name r) = '''' then Inl (Name_Blank_Record Recipe_Kind)
      else if \<not> Known (rcp_Type r) then Inl ErrUnknownLaw
      else if bad_positive (rcp_H r) then Inl H_Not_Positive
      else if bad_positive (rcp_Beta r) then Inl Beta_Not_Positive
      else if FullTurn \<le> rcp_Beta r then Inl (Beta_Full_Turn (rcp_Beta r))
      else Inr ())"

record cycle_record =
  cyc_Name :: string
  cyc_H :: float64
  cyc_RiseLaw :: string
  cyc_ReturnLaw :: string
  cyc_RiseAngle :: float64
  cyc_OuterDwell :: float64
  cyc_ReturnAngle :: float64
  cyc_InnerDwell :: float64

definition ToConfig :: "cycle_record \<Rightarrow> float64 \<Rightarrow> config" where
  "ToConfig r omega = \<lparr>RiseLaw = cyc_RiseLaw r, ReturnLaw = cyc_ReturnLaw r, cfg_H = cyc_H r, RiseAngle = cyc_RiseAngle r,
     OuterDwell = cyc_OuterDwell r, ReturnAngle = cyc_ReturnAngle r, InnerDwell = cyc_InnerDwell r, cfg_Omega = omega\<rparr>"

text \<open>The speed is not stored; a positive one is borrowed for the check.\<close>

definition CycleRecord_Validate :: "cycle_record \<Rightarrow> (go_error, unit) result" where
  "CycleRecord_Validate r =
     (if TrimSpace (cyc_Name r) = '''' then Inl (Name_Blank_Record Cycle_Kind)
      else
        Config_Validate \<lparr>RiseLaw = cyc_RiseLaw r, ReturnLaw = cyc_ReturnLaw r, cfg_H = cyc_H r, RiseAngle = cyc_RiseAngle r,
          OuterDwell = cyc_OuterDwell r, ReturnAngle = cyc_ReturnAngle r, InnerDwell = cyc_InnerDwell r, cfg_Omega = 1\<rparr>)"

text \<open>The structs as the JSON package sees them.\<close>

definition string_field :: "go_struct \<Rightarrow> string \<Rightarrow> string" where
  "string_field st k = (case get_field st k of VString s \<Rightarrow> s | _ \<Rightarrow> '''')"

definition float_field :: "go_struct \<Rightarrow> string \<Rightarrow> float64" where
  "float_field st k = (case get_field st k of VFloat x \<Rightarrow> x | _ \<Rightarrow> 0)"

definition recipe_struct :: "recipe \<Rightarrow> go_struct" where
  "recipe_struct r = [(''name'', VString (rcp_Name r)), (''type'', VString (rcp_Type r)), (''h'', VFloat (rcp_H r)),
     (''beta_deg'', VFloat (rcp_Beta r))]"

definition recipe_of :: "go_struct \<Rightarrow> recipe" where
  "recipe_of st = \<lparr>rcp_Name = string_field st ''name'', rcp_Type = string_field st ''type'', rcp_H = float_field st ''h'',
     rcp_Beta = float_field st ''beta_deg''\<rparr>"

definition zero_recipe :: recipe where
  "zero_recipe = \<lparr>rcp_Name = '''', rcp_Type = '''', rcp_H = 0, rcp_Beta = 0\<rparr>"

definition cycle_struct :: "cycle_record \<Rightarrow> go_struct" where
  "cycle_struct r = [(''name'', VString (cyc_Name r)), (''h'', VFloat (cyc_H r)), (''rise_law'', VString (cyc_RiseLaw r)),
     (''return_law'', VString (cyc_ReturnLaw r)), (''rise_angle_deg'', VFloat (cyc_RiseAngle r)),
     (''outer_dwell_deg'', VFloat (cyc_OuterDwell r)), (''return_angle_deg'', VFloat (cyc_ReturnAngle r)),
     (''inner_dwell_deg'', VFloat (cyc_InnerDwell r))]"

definition cycle_record_of :: "go_struct \<Rightarrow> cycle_record" where
  "cycle_record_of st = \<lparr>cyc_Name = string_field st ''name'', cyc_H = float_field st ''h'', cyc_RiseLaw = string_field st ''rise_law'',
     cyc_ReturnLaw = string_field st ''return_law'', cyc_RiseAngle = float_field st ''rise_angle_deg'',
     cyc_OuterDwell = float_field st ''outer_dwell_deg'', cyc_ReturnAngle = float_field st ''return_angle_deg'',
     cyc_InnerDwell = float_field st ''inner_dwell_deg''\<rparr>"

definition zero_cycle :: cycle_record where
  "zero_cycle = \<lparr>cyc_Name = '''', cyc_H = 0, cyc_RiseLaw = '''', cyc_ReturnLaw = '''', cyc_RiseAngle = 0, cyc_OuterDwell = 0,
     cyc_ReturnAngle = 0, cyc_InnerDwell = 0\<rparr>"

subsection \<open>JSON files\<close>

text \<open>\<open>readJSONFile\<close> into a struct: the error and the struct as the decoder leaves it.\<close>

definition readJSONFile :: "os_env \<Rightarrow> file_system \<Rightarrow> string \<Rightarrow> string \<Rightarrow> go_struct \<Rightarrow> go_error option \<times> go_struct" where
  "readJSONFile env fs dir file v =
     (let path = (if file \<noteq> '''' then filepath_Join [dir, file] else dir) in
      case os_ReadFile env fs path of
        Inl e \<Rightarrow> (Some e, v)
      | Inr b \<Rightarrow>
          (case Unmarshal b v of
             (Some e, v) \<Rightarrow> (Some (Json_Parse (filepath_Base path) e), v)
           | (None, v) \<Rightarrow> (None, v)))"

definition atomicWriteJSON :: "os_env \<Rightarrow> file_system \<Rightarrow> string \<Rightarrow> string \<Rightarrow> json_val \<Rightarrow> file_system \<times> go_error option" where
  "atomicWriteJSON env fs dir name v =
     (case MarshalIndent v '''' ''  '' of
        Inl e \<Rightarrow> (fs, Some e)
      | Inr b \<Rightarrow>
          let final = filepath_Join [dir, name]; tmp = final @ ''.tmp'' in
          case os_WriteFile env fs tmp b of
            (fs, Some e) \<Rightarrow> (fs, Some (Io_Failed Write_Op name e))
          | (fs, None) \<Rightarrow>
              (case os_Rename env fs tmp final of
                 (fs, Some e) \<Rightarrow> (fst (os_Remove env fs tmp), Some (Io_Failed Rename_Op name e))
               | (fs, None) \<Rightarrow> (fs, None)))"

subsection \<open>The store\<close>

record store =
  st_dir :: string

definition Open :: "os_env \<Rightarrow> file_system \<Rightarrow> string \<Rightarrow> file_system \<times> (go_error, store) result" where
  "Open env fs dir =
     (case os_MkdirAll env fs dir of
        (fs, Some e) \<Rightarrow> (fs, Inl (Io_Failed Mkdir_Op dir e))
      | (fs, None) \<Rightarrow> (fs, Inr \<lparr>st_dir = dir\<rparr>))"

definition SaveRecipe :: "os_env \<Rightarrow> store \<Rightarrow> file_system \<Rightarrow> recipe \<Rightarrow> file_system \<times> go_error option" where
  "SaveRecipe env s fs r =
     (case Recipe_Validate r of
        Inl e \<Rightarrow> (fs, Some e)
      | Inr _ \<Rightarrow>
          (case checkName (rcp_Name r) of
             Inl e \<Rightarrow> (fs, Some e)
           | Inr _ \<Rightarrow> atomicWriteJSON env fs (st_dir s) (''recipe_'' @ rcp_Name r @ ''.json'') (json_struct (recipe_struct r))))"

definition GetRecipe :: "os_env \<Rightarrow> store \<Rightarrow> file_system \<Rightarrow> string \<Rightarrow> (go_error, recipe) result" where
  "GetRecipe env s fs name =
     (case checkName name of
        Inl e \<Rightarrow> Inl e
      | Inr _ \<Rightarrow>
          (case readJSONFile env fs (st_dir s) (''recipe_'' @ name @ ''.json'') (recipe_struct zero_recipe) of
             (Some e, v) \<Rightarrow> Inl (if errors_Is e ErrNotExist then Not_Found Recipe_Kind name ErrNotFound else e)
           | (None, v) \<Rightarrow> Inr (recipe_of v)))"

text \<open>The loop of the list operations: files that cannot be read or parsed are skipped.\<close>

fun read_all :: "os_env \<Rightarrow> file_system \<Rightarrow> go_struct \<Rightarrow> string list \<Rightarrow> go_struct list" where
  "read_all env fs v0 [] = []"
| "read_all env fs v0 (f # files) =
     (case readJSONFile env fs f '''' v0 of
        (Some e, v) \<Rightarrow> read_all env fs v0 files
      | (None, v) \<Rightarrow> v # read_all env fs v0 files)"

definition ListRecipes :: "os_env \<Rightarrow> store \<Rightarrow> file_system \<Rightarrow> (go_error, recipe list) result" where
  "ListRecipes env s fs =
     result_bind (Glob env fs (filepath_Join [st_dir s, ''recipe_*.json''])) (\<lambda>files.
     Inr (map recipe_of (read_all env fs (recipe_struct zero_recipe) (sort files))))"

definition SaveCycle :: "os_env \<Rightarrow> store \<Rightarrow> file_system \<Rightarrow> cycle_record \<Rightarrow> file_system \<times> go_error option" where
  "SaveCycle env s fs r =
     (case CycleRecord_Validate r of
        Inl e \<Rightarrow> (fs, Some e)
      | Inr _ \<Rightarrow>
          (case checkName (cyc_Name r) of
             Inl e \<Rightarrow> (fs, Some e)
           | Inr _ \<Rightarrow> atomicWriteJSON env fs (st_dir s) (''cycle_'' @ cyc_Name r @ ''.json'') (json_struct (cycle_struct r))))"

definition GetCycle :: "os_env \<Rightarrow> store \<Rightarrow> file_system \<Rightarrow> string \<Rightarrow> (go_error, cycle_record) result" where
  "GetCycle env s fs name =
     (case checkName name of
        Inl e \<Rightarrow> Inl e
      | Inr _ \<Rightarrow>
          (case readJSONFile env fs (st_dir s) (''cycle_'' @ name @ ''.json'') (cycle_struct zero_cycle) of
             (Some e, v) \<Rightarrow> Inl (if errors_Is e ErrNotExist then Not_Found Cycle_Kind name ErrNotFound else e)
           | (None, v) \<Rightarrow> Inr (cycle_record_of v)))"

definition ListCycles :: "os_env \<Rightarrow> store \<Rightarrow> file_system \<Rightarrow> (go_error, cycle_record list) result" where
  "ListCycles env s fs =
     result_bind (Glob env fs (filepath_Join [st_dir s, ''cycle_*.json''])) (\<lambda>files.
     Inr (map cycle_record_of (read_all env fs (cycle_struct zero_cycle) (sort files))))"

end
