(* ===== verification/Stroke.thy ===== *)
theory Stroke
  imports Kinematics
begin

text \<open>
  The interface between the laws and their clients: what the kinematics and the cycle rely on is only
  that a law runs from displacement 0 to displacement 1 and that it stays at 1 from then on. The locale
  states this contract, proves what it means for a rise and for a mirrored return, and is
  interpreted on the three laws of \<open>law.go\<close>.
\<close>

locale stroke_law =
  fixes eval :: "float64 \<Rightarrow> float64 \<Rightarrow> law_values"
  assumes at_start: "val_Y (eval 0 side) = 0"
    and at_end: "1 \<le> T \<Longrightarrow> val_Y (eval T side) = 1"
begin

lemma start_T:
  assumes "is_finite x" "pos_finite b"
  shows "val_Y (eval ((x - x) / b) side) = 0"
  using pos_finiteD [OF assms(2)] by (simp add: sub_self [OF assms(1)] div_0_left at_start)

lemma rise_start:
  assumes "is_finite x" "pos_finite b" "pos_finite (spec_H s)"
  shows "m_S (restore (eval ((x - x) / b) side) f s theta t False) = 0"
  using pos_finiteD [OF assms(3)] by (simp add: start_T [OF assms(1,2)] mul_0_right)

lemma return_start:
  assumes "is_finite x" "pos_finite b" "pos_finite (spec_H s)"
  shows "m_S (restore (eval ((x - x) / b) side) f s theta t True) = spec_H s"
  using pos_finiteD [OF assms(3)] by (simp add: start_T [OF assms(1,2)] mul_0_right sub_0_right)

lemma rise_end:
  assumes "1 \<le> T" "pos_finite (spec_H s)"
  shows "m_S (restore (eval T side) f s theta t False) = spec_H s"
  using pos_finiteD [OF assms(2)] by (simp add: at_end [OF assms(1)] mul_1_right)

lemma return_end:
  assumes "1 \<le> T" "pos_finite (spec_H s)"
  shows "m_S (restore (eval T side) f s theta t True) = 0"
  using pos_finiteD [OF assms(2)] by (simp add: at_end [OF assms(1)] mul_1_right sub_self)

end

subsection \<open>The three laws meet the contract\<close>

lemma ge_1_cases:
  fixes T :: float64
  assumes "1 \<le> T"
  shows "T = 1 \<or> 1 < T"
proof (cases "f64_skey 1 = f64_skey T")
  case True
  then have "valof T = valof 1" using skey_le_iff [of 1 T] skey_le_iff [of T 1] by simp
  then have "T = 1" by (intro valof_inject_pos) auto
  then show ?thesis by simp
next
  case False
  then show ?thesis using assms by (auto simp: less_eq_float64_def less_float64_def f64_le_def f64_lt_def)
qed

lemma law_at_end:
  assumes "Known tp" "1 \<le> T"
  shows "val_Y (law_at tp T side) = 1"
proof -
  have "law_at tp T side = law_at tp 1 side"
    using ge_1_cases [OF assms(2)] law_at_clamp [of tp T side] clampT_1 [of T] by metis
  then show ?thesis using law_at_1_Y [OF assms(1)] by simp
qed

interpretation cosine: stroke_law "law_at Cosine"
  by unfold_locales (use law_at_0_Y law_at_end in \<open>auto simp: Known_def\<close>)

interpretation cycloid: stroke_law "law_at Cycloid"
  by unfold_locales (use law_at_0_Y law_at_end in \<open>auto simp: Known_def\<close>)

interpretation parabolic: stroke_law "law_at Parabolic"
  by unfold_locales (use law_at_0_Y law_at_end in \<open>auto simp: Known_def\<close>)

lemmas rise_starts = cosine.rise_start cycloid.rise_start parabolic.rise_start
lemmas return_starts = cosine.return_start cycloid.return_start parabolic.return_start
lemmas rise_ends = cosine.rise_end cycloid.rise_end parabolic.rise_end
lemmas return_ends = cosine.return_end cycloid.return_end parabolic.return_end

text \<open>A segment of a known law begins and ends where it should, in floating point.\<close>

lemma stroke_start:
  assumes "spec_valid s" "is_finite x"
  shows "m_S (restore (law_at (spec_Type s) ((x - x) / spec_Beta s) side) f s theta t returning)
    = (if returning then spec_H s else 0)"
proof -
  have k: "Known (spec_Type s)" and p: "pos_finite (spec_Beta s)" "pos_finite (spec_H s)"
    using assms(1) by (auto simp: spec_valid_def)
  show ?thesis
    using k by (cases rule: Known_cases; cases returning)
      (simp_all del: restore_rise restore_return add: rise_starts [OF assms(2) p] return_starts [OF assms(2) p])
qed

lemma stroke_end:
  assumes "spec_valid s" "1 \<le> T"
  shows "m_S (restore (law_at (spec_Type s) T side) f s theta t returning) = (if returning then 0 else spec_H s)"
proof -
  have k: "Known (spec_Type s)" and p: "pos_finite (spec_H s)"
    using assms(1) by (auto simp: spec_valid_def)
  show ?thesis
    using k by (cases rule: Known_cases; cases returning)
      (simp_all del: restore_rise restore_return add: rise_ends [OF assms(2) p] return_ends [OF assms(2) p])
qed

subsection \<open>The parabolic law at a switch point\<close>

text \<open>A quotient by a positive number is never NaN.\<close>

lemma div_not_nan:
  assumes "is_finite x" "pos_finite y"
  shows "\<not> is_nan (x / y)"
proof (cases "\<bar>rnd (valof x / valof y)\<bar> < f64_limit")
  case True
  then show ?thesis using div_finite(1) [of x y] assms pos_finiteD [OF assms(2)] by simp
next
  case False
  note y = pos_finiteD [OF assms(2)]
  have y0: "\<not> is_zero y" using y(3) by (simp add: valof_0_iff)
  then have my: "0 < f64_mant y" using f64_mant_nonneg [of y] is_zero_iff [of y] by linarith
  have r: "\<bar>rnd (valof x / valof y)\<bar> = rnd (f64_mag x / f64_mag y)"
    by (simp add: rnd_abs [symmetric] abs_valof)
  have mag: "real_of_int (f64_mant x) / of_int (f64_mant y) * 2 powi (f64_expo x - f64_expo y) = f64_mag x / f64_mag y"
    by (simp add: f64_mag_def pow2_diff)
  have "f64_mant x \<noteq> 0" using False r by (auto simp: f64_mag_def)
  then have mx: "0 < f64_mant x" using f64_mant_nonneg [of x] by linarith
  have "x / y = f64_inf (fsign x \<noteq> fsign y)"
    using f64_round_overflow [OF mx my, of "f64_expo x - f64_expo y"] False r mag assms(1) y y0
    by (simp add: divide_float64_def f64_div_def)
  then show ?thesis by (simp add: f64_inf_def is_nan_def)
qed

lemma clampT_unit:
  assumes "\<not> is_nan T"
  shows "is_finite (clampT T)" "0 \<le> valof (clampT T)" "valof (clampT T) \<le> 1"
proof -
  have "is_finite (clampT T) \<and> 0 \<le> valof (clampT T) \<and> valof (clampT T) \<le> 1"
  proof (cases "is_finite T")
    case True
    then show ?thesis by (auto simp: clampT_def less_iff_valof)
  next
    case False
    then have inf: "is_inf T" using f64_classes [of T] assms by auto
    then have k: "f64_skey T = (if fsign T then - (2047 * 2 ^ 52) else 2047 * 2 ^ 52)"
      by (simp add: f64_skey_def f64_key_def is_inf_def)
    have "f64_skey 0 = 0" "f64_skey 1 = 1023 * 2 ^ 52"
      by (simp_all add: zero_float64_def one_float64_def f64_skey_def f64_key_def)
    then have "T < 0 \<or> 1 < T"
      using assms k by (auto simp: less_float64_def f64_lt_def split: if_splits)
    then show ?thesis using clampT_0 clampT_1 by auto
  qed
  then show "is_finite (clampT T)" "0 \<le> valof (clampT T)" "valof (clampT T) \<le> 1" by auto
qed

text \<open>Displacement and velocity do not depend on the side, and the displacement stays in the unit interval.\<close>

lemma parabolic_sides:
  assumes "\<not> is_nan T"
  shows "val_Y (law_at Parabolic T x) = val_Y (law_at Parabolic T y)"
    "val_Y1 (law_at Parabolic T x) = val_Y1 (law_at Parabolic T y)"
    "is_finite (val_Y (law_at Parabolic T x))" "0 \<le> valof (val_Y (law_at Parabolic T x))"
    "valof (val_Y (law_at Parabolic T x)) \<le> 1"
proof -
  note u = clampT_unit [OF assms]
  have l: "law_at Parabolic T z = evalParabolic (clampT T) z" for z
    by (simp add: law_at_def law_names)
  have "val_Y (evalParabolic (clampT T) x) = val_Y (evalParabolic (clampT T) y)
      \<and> val_Y1 (evalParabolic (clampT T) x) = val_Y1 (evalParabolic (clampT T) y)"
  proof (cases "valof (clampT T) = 1/2")
    case True
    then show ?thesis using evalParabolic_mid [OF u(1)] by simp
  next
    case False
    then have "\<not> feq (clampT T) half_f" using u(1) by (simp add: feq_iff_valof)
    then show ?thesis by (simp add: evalParabolic_def Let_def)
  qed
  then show "val_Y (law_at Parabolic T x) = val_Y (law_at Parabolic T y)"
    "val_Y1 (law_at Parabolic T x) = val_Y1 (law_at Parabolic T y)" unfolding l by auto
  show "is_finite (val_Y (law_at Parabolic T x))" "0 \<le> valof (val_Y (law_at Parabolic T x))"
    "valof (val_Y (law_at Parabolic T x)) \<le> 1"
    unfolding l using parabolic_values(1-3) [OF u refl, of x] by auto
qed

lemma parabolic_S:
  assumes "\<not> is_nan T" "pos_finite (spec_H s)"
  shows "m_S (restore (law_at Parabolic T x) f s theta t r) = m_S (restore (law_at Parabolic T y) f s theta' t' r)"
    "is_finite (m_S (restore (law_at Parabolic T x) f s theta t r))"
proof -
  note h = pos_finiteD [OF assms(2)] and y = parabolic_sides [OF assms(1)]
  show "m_S (restore (law_at Parabolic T x) f s theta t r) = m_S (restore (law_at Parabolic T y) f s theta' t' r)"
    using y(1) [of x y] by (cases r) simp_all
  let ?p = "spec_H s * val_Y (law_at Parabolic T x)"
  have p: "is_finite ?p" "0 \<le> valof ?p" "valof ?p \<le> valof (spec_H s)"
    using mul_bounds [OF h(1) y(3), of 0 "spec_H s" x] h(1,2) y(4,5) [of x]
    by (simp_all add: mult_left_le)
  then show "is_finite (m_S (restore (law_at Parabolic T x) f s theta t r))"
    using sub_bounds(1) [OF h(1) p(1), of 0 "spec_H s"] h(1) by (cases r) auto
qed

end
