(* ===== verification/Handlers.thy ===== *)
theory Handlers
  imports Store Stroke Url_Query
begin

text \<open>
  The HTTP handlers of \<open>handlers.go\<close>. A handler is a function of the server environment, the file system and the request; it returns the response
  and, where it writes, the new file system. The environment holds the behaviour of the kernel, the store and the texts of the
  messages: an error message enters a response only as the value of \<open>error\<close> in the JSON body, so the texts (Chinese, and those of
  the standard library) are a parameter and every statement about the handlers holds for all of them.

  A nil slice is encoded as \<open>null\<close> and an empty one as \<open>[]\<close>; \<open>nil_slice\<close> marks the slices that the code leaves nil when they have no element.
\<close>

subsection \<open>Requests and responses\<close>

datatype message =
    Error_Text go_error
  | Decode_Failed go_error
  | Recipe_Param_Missing
  | Cycle_Param_Missing
  | Omega_Param_Bad
  | Points_Param_Bad
  | Points_Too_Few

record api_env =
  ap_os :: os_env
  ap_store :: store
  ap_text :: "message \<Rightarrow> string"

record request =
  rq_Method :: string
  rq_RequestURI :: string
  rq_ProtoAtLeast11 :: bool
  rq_Host :: string
  rq_URL :: url
  rq_Body :: string

record response =
  rs_Code :: int
  rs_Header :: "(string \<times> string) list"
  rs_Body :: string

definition StatusOK :: int where "StatusOK = 200"
definition StatusCreated :: int where "StatusCreated = 201"
definition StatusBadRequest :: int where "StatusBadRequest = 400"
definition StatusNotFound :: int where "StatusNotFound = 404"
definition StatusInternalServerError :: int where "StatusInternalServerError = 500"

lemmas status_defs = StatusOK_def StatusCreated_def StatusBadRequest_def StatusNotFound_def StatusInternalServerError_def

definition json_content_type :: string where "json_content_type = ''application/json; charset=utf-8''"

text \<open>The error of \<open>Encode\<close> is dropped; \<open>Encode\<close> writes nothing when it fails.\<close>

definition writeJSON :: "int \<Rightarrow> json_val \<Rightarrow> response" where
  "writeJSON code v =
     \<lparr>rs_Code = code, rs_Header = [(''Content-Type'', json_content_type)],
      rs_Body = (case Encode v of Inl e \<Rightarrow> '''' | Inr b \<Rightarrow> b)\<rparr>"

definition writeErr :: "api_env \<Rightarrow> int \<Rightarrow> message \<Rightarrow> response" where
  "writeErr env code msg = writeJSON code (JMap [(''error'', JString (ap_text env msg)), (''status'', JInt code)])"

definition decode :: "api_env \<Rightarrow> request \<Rightarrow> go_struct \<Rightarrow> (response, go_struct) result" where
  "decode env r v =
     (case Decode (rq_Body r) v of
        (Some err, v) \<Rightarrow> Inl (writeErr env StatusBadRequest (Decode_Failed err))
      | (None, v) \<Rightarrow> Inr v)"

subsection \<open>Values as JSON\<close>

definition nil_slice :: "json_val list \<Rightarrow> json_val" where
  "nil_slice vs = (if vs = [] then JNull else JArray vs)"

definition recipe_json :: "recipe \<Rightarrow> json_val" where
  "recipe_json r = json_struct (recipe_struct r)"

definition cycle_json :: "cycle_record \<Rightarrow> json_val" where
  "cycle_json r = json_struct (cycle_struct r)"

definition motion_fields :: "motion \<Rightarrow> (string \<times> bool \<times> json_val) list" where
  "motion_fields m = [(''theta_deg'', False, JFloat (m_Theta m)), (''t_s'', False, JFloat (m_Time m)), (''s'', False, JFloat (m_S m)),
     (''v'', False, JFloat (m_V m)), (''a'', False, JFloat (m_A m)), (''j'', False, JFloat (m_J m))]"

definition peaks_json :: "peaks \<Rightarrow> json_val" where
  "peaks_json p = JStruct [(''v_max'', False, JFloat (VMax p)), (''a_max'', False, JFloat (AMax p)), (''j_max'', False, JFloat (JMax p))]"

definition seam_fields :: "seam \<Rightarrow> (string \<times> bool \<times> json_val) list" where
  "seam_fields s = [(''theta_deg'', False, JFloat (sm_Theta s)), (''kind'', False, JString (sm_Kind s)),
     (''left'', False, JStruct (motion_fields (sm_Left s))), (''right'', False, JStruct (motion_fields (sm_Right s))),
     (''s_continuous'', False, JBool (SCont s)), (''v_continuous'', False, JBool (VCont s)), (''a_continuous'', False, JBool (ACont s)),
     (''j_continuous'', False, JBool (JCont s)), (''s_jump'', False, JBool (SJump s))]"

text \<open>The embedded \<open>Motion\<close> and \<open>Seam\<close> give their fields to the outer struct; the field \<open>Spec\<close> of a segment is not encoded.\<close>

definition sample_json :: "curve_sample \<Rightarrow> json_val" where
  "sample_json c = JStruct ((''segment'', False, JString (cs_Segment c)) # motion_fields (cs_Motion c))"

definition joint_json :: "joint \<Rightarrow> json_val" where
  "joint_json j = JStruct ((''left_segment'', False, JString (LeftSegment j)) # (''right_segment'', False, JString (RightSegment j))
     # seam_fields (joint_Seam j))"

definition segment_json :: "segment \<Rightarrow> json_val" where
  "segment_json g = JStruct [(''kind'', False, JString (seg_Kind g)), (''law'', True, JString (seg_Law g)),
     (''start_deg'', False, JFloat (seg_Start g)), (''end_deg'', False, JFloat (seg_End g)), (''beta_deg'', True, JFloat (seg_Beta g))]"

subsection \<open>Recipes and cycle records\<close>

definition healthz :: "response" where
  "healthz = writeJSON StatusOK (JMap [(''status'', JString ''ok'')])"

definition listRecipes :: "api_env \<Rightarrow> file_system \<Rightarrow> response" where
  "listRecipes env fs =
     (case ListRecipes (ap_os env) (ap_store env) fs of
        Inl err \<Rightarrow> writeErr env StatusInternalServerError (Error_Text err)
      | Inr rs \<Rightarrow> writeJSON StatusOK (JMap [(''recipes'', JArray (map recipe_json rs))]))"

definition putRecipe :: "api_env \<Rightarrow> file_system \<Rightarrow> request \<Rightarrow> file_system \<times> response" where
  "putRecipe env fs r =
     (case decode env r (recipe_struct zero_recipe) of
        Inl resp \<Rightarrow> (fs, resp)
      | Inr v \<Rightarrow>
          let rec = recipe_of v in
          case Recipe_Validate rec of
            Inl err \<Rightarrow> (fs, writeErr env StatusBadRequest (Error_Text err))
          | Inr _ \<Rightarrow>
              (case SaveRecipe (ap_os env) (ap_store env) fs rec of
                 (fs, Some err) \<Rightarrow> (fs, writeErr env StatusBadRequest (Error_Text err))
               | (fs, None) \<Rightarrow> (fs, writeJSON StatusCreated (JMap [(''recipe'', recipe_json rec)]))))"

definition recipeStoreError :: "api_env \<Rightarrow> go_error \<Rightarrow> response" where
  "recipeStoreError env err =
     (if errors_Is err ErrNotFound then writeErr env StatusNotFound (Error_Text err)
      else writeErr env StatusBadRequest (Error_Text err))"

definition getRecipe :: "api_env \<Rightarrow> file_system \<Rightarrow> string \<Rightarrow> response" where
  "getRecipe env fs name =
     (case GetRecipe (ap_os env) (ap_store env) fs name of
        Inl err \<Rightarrow> recipeStoreError env err
      | Inr rec \<Rightarrow> writeJSON StatusOK (JMap [(''recipe'', recipe_json rec)]))"

definition listCycles :: "api_env \<Rightarrow> file_system \<Rightarrow> response" where
  "listCycles env fs =
     (case ListCycles (ap_os env) (ap_store env) fs of
        Inl err \<Rightarrow> writeErr env StatusInternalServerError (Error_Text err)
      | Inr cs \<Rightarrow> writeJSON StatusOK (JMap [(''cycles'', JArray (map cycle_json cs))]))"

definition putCycle :: "api_env \<Rightarrow> file_system \<Rightarrow> request \<Rightarrow> file_system \<times> response" where
  "putCycle env fs r =
     (case decode env r (cycle_struct zero_cycle) of
        Inl resp \<Rightarrow> (fs, resp)
      | Inr v \<Rightarrow>
          let rec = cycle_record_of v in
          case CycleRecord_Validate rec of
            Inl err \<Rightarrow> (fs, writeErr env StatusBadRequest (Error_Text err))
          | Inr _ \<Rightarrow>
              (case SaveCycle (ap_os env) (ap_store env) fs rec of
                 (fs, Some err) \<Rightarrow> (fs, writeErr env StatusBadRequest (Error_Text err))
               | (fs, None) \<Rightarrow> (fs, writeJSON StatusCreated (JMap [(''cycle'', cycle_json rec)]))))"

definition getCycle :: "api_env \<Rightarrow> file_system \<Rightarrow> string \<Rightarrow> response" where
  "getCycle env fs name =
     (case GetCycle (ap_os env) (ap_store env) fs name of
        Inl err \<Rightarrow>
          (if errors_Is err ErrNotFound then writeErr env StatusNotFound (Error_Text err)
           else writeErr env StatusBadRequest (Error_Text err))
      | Inr rec \<Rightarrow> writeJSON StatusOK (JMap [(''cycle'', cycle_json rec)]))"

subsection \<open>Lift curves\<close>

record liftRequest =
  lr_Recipe :: string
  lr_Type :: "string option"
  lr_H :: "float64 option"
  lr_Beta :: "float64 option"
  lr_Omega :: float64
  lr_Points :: int

definition int_field :: "go_struct \<Rightarrow> string \<Rightarrow> int" where
  "int_field st k = (case get_field st k of VInt i \<Rightarrow> i | _ \<Rightarrow> 0)"

definition ptr_string_field :: "go_struct \<Rightarrow> string \<Rightarrow> string option" where
  "ptr_string_field st k = (case get_field st k of VPtrString p \<Rightarrow> p | _ \<Rightarrow> None)"

definition ptr_float_field :: "go_struct \<Rightarrow> string \<Rightarrow> float64 option" where
  "ptr_float_field st k = (case get_field st k of VPtrFloat p \<Rightarrow> p | _ \<Rightarrow> None)"

text \<open>The zero value of the request struct, and the request of a decoded struct.\<close>

definition lift_struct0 :: go_struct where
  "lift_struct0 = [(''recipe'', VString ''''), (''type'', VPtrString None), (''h'', VPtrFloat None), (''beta_deg'', VPtrFloat None),
     (''omega_deg_s'', VFloat 0), (''points'', VInt 0)]"

definition liftRequest_of :: "go_struct \<Rightarrow> liftRequest" where
  "liftRequest_of st = \<lparr>lr_Recipe = string_field st ''recipe'', lr_Type = ptr_string_field st ''type'', lr_H = ptr_float_field st ''h'',
     lr_Beta = ptr_float_field st ''beta_deg'', lr_Omega = float_field st ''omega_deg_s'', lr_Points = int_field st ''points''\<rparr>"

definition AngleUnit :: string where "AngleUnit = ''degree''"

definition OmegaUnit :: string where "OmegaUnit = ''degree/s''"

definition liftResponse :: "spec \<Rightarrow> motion list \<Rightarrow> peaks \<Rightarrow> seam list \<Rightarrow> json_val" where
  "liftResponse s pts peaks seams = JStruct
     [(''law'', False, JString (spec_Type s)), (''h'', False, JFloat (spec_H s)), (''beta_deg'', False, JFloat (spec_Beta s)),
      (''omega_deg_s'', False, JFloat (spec_Omega s)), (''angle_unit'', False, JString AngleUnit), (''omega_unit'', False, JString OmegaUnit),
      (''points'', False, JArray (map (\<lambda>m. JStruct (motion_fields m)) pts)), (''closed_form_peaks'', False, peaks_json peaks),
      (''internal_seams'', False, nil_slice (map (\<lambda>s. JStruct (seam_fields s)) seams))]"

definition resolveSpec :: "api_env \<Rightarrow> file_system \<Rightarrow> liftRequest \<Rightarrow> (go_error, spec) result" where
  "resolveSpec env fs req =
     (if lr_Recipe req \<noteq> '''' then
        if lr_Type req \<noteq> None \<or> lr_H req \<noteq> None \<or> lr_Beta req \<noteq> None then Inl Recipe_With_Params
        else
          result_bind (GetRecipe (ap_os env) (ap_store env) fs (lr_Recipe req)) (\<lambda>rec.
            Inr \<lparr>spec_Type = rcp_Type rec, spec_H = rcp_H rec, spec_Beta = rcp_Beta rec, spec_Omega = lr_Omega req\<rparr>)
      else
        case (lr_Type req, lr_H req, lr_Beta req) of
          (Some t, Some h, Some b) \<Rightarrow> Inr \<lparr>spec_Type = t, spec_H = h, spec_Beta = b, spec_Omega = lr_Omega req\<rparr>
        | _ \<Rightarrow> Inl Params_Missing)"

definition serveLift :: "api_env \<Rightarrow> file_system \<Rightarrow> liftRequest \<Rightarrow> response" where
  "serveLift env fs req =
     (case resolveSpec env fs req of
        Inl err \<Rightarrow>
          (if errors_Is err ErrNotFound then writeErr env StatusNotFound (Error_Text err)
           else writeErr env StatusBadRequest (Error_Text err))
      | Inr spec \<Rightarrow>
          (case Spec_Validate spec of
             Inl err \<Rightarrow> writeErr env StatusBadRequest (Error_Text err)
           | Inr _ \<Rightarrow>
               if lr_Points req < MinPoints then writeErr env StatusBadRequest Points_Too_Few
               else
                 (case Curve spec (lr_Points req) of
                    Inl err \<Rightarrow> writeErr env StatusBadRequest (Error_Text err)
                  | Inr (pts, peaks) \<Rightarrow>
                      (case InternalSeams spec 0 of
                         Inl err \<Rightarrow> writeErr env StatusBadRequest (Error_Text err)
                       | Inr seams \<Rightarrow> writeJSON StatusOK (liftResponse spec pts peaks seams)))))"

text \<open>The parameters \<open>omega_deg_s\<close> and \<open>points\<close> of both GET handlers.\<close>

definition curve_params :: "url_values \<Rightarrow> (message, float64 \<times> int) result" where
  "curve_params q =
     (case ParseFloat (Values_Get q ''omega_deg_s'') of
        (omega, err) \<Rightarrow>
          if err \<noteq> None \<or> omega \<le> 0 then Inl Omega_Param_Bad
          else
            let v = Values_Get q ''points'' in
            if v \<noteq> '''' then
              (case Atoi v of
                 (points, Some err) \<Rightarrow> Inl Points_Param_Bad
               | (points, None) \<Rightarrow> Inr (omega, points))
            else Inr (omega, DefaultPoints))"

definition liftCurveGET :: "api_env \<Rightarrow> file_system \<Rightarrow> request \<Rightarrow> response" where
  "liftCurveGET env fs r =
     (let q = URL_Query (rq_URL r); name = Values_Get q ''recipe'' in
      if name = '''' then writeErr env StatusBadRequest Recipe_Param_Missing
      else
        case curve_params q of
          Inl msg \<Rightarrow> writeErr env StatusBadRequest msg
        | Inr (omega, points) \<Rightarrow>
            serveLift env fs \<lparr>lr_Recipe = name, lr_Type = None, lr_H = None, lr_Beta = None, lr_Omega = omega, lr_Points = points\<rparr>)"

definition liftCurvePOST :: "api_env \<Rightarrow> file_system \<Rightarrow> request \<Rightarrow> response" where
  "liftCurvePOST env fs r =
     (case decode env r lift_struct0 of
        Inl resp \<Rightarrow> resp
      | Inr v \<Rightarrow>
          let req = liftRequest_of v;
              req = (if lr_Points req = 0 then req\<lparr>lr_Points := DefaultPoints\<rparr> else req) in
          serveLift env fs req)"

subsection \<open>Cycle curves\<close>

record cycleCurveRequest =
  cr_Cycle :: string
  cr_Config :: config
  cr_Points :: int

definition cycle_curve_struct0 :: go_struct where
  "cycle_curve_struct0 = [(''cycle'', VString ''''), (''rise_law'', VString ''''), (''return_law'', VString ''''), (''h'', VFloat 0),
     (''rise_angle_deg'', VFloat 0), (''outer_dwell_deg'', VFloat 0), (''return_angle_deg'', VFloat 0), (''inner_dwell_deg'', VFloat 0),
     (''omega_deg_s'', VFloat 0), (''points'', VInt 0)]"

definition cycleCurveRequest_of :: "go_struct \<Rightarrow> cycleCurveRequest" where
  "cycleCurveRequest_of st = \<lparr>cr_Cycle = string_field st ''cycle'',
     cr_Config = \<lparr>RiseLaw = string_field st ''rise_law'', ReturnLaw = string_field st ''return_law'', cfg_H = float_field st ''h'',
       RiseAngle = float_field st ''rise_angle_deg'', OuterDwell = float_field st ''outer_dwell_deg'',
       ReturnAngle = float_field st ''return_angle_deg'', InnerDwell = float_field st ''inner_dwell_deg'',
       cfg_Omega = float_field st ''omega_deg_s''\<rparr>,
     cr_Points = int_field st ''points''\<rparr>"

definition cycleCurveResponse :: "config \<Rightarrow> segments \<Rightarrow> curve_sample list \<Rightarrow> joint list \<Rightarrow> json_val" where
  "cycleCurveResponse cfg segs pts joints = JStruct
     [(''h'', False, JFloat (cfg_H cfg)), (''omega_deg_s'', False, JFloat (cfg_Omega cfg)), (''angle_unit'', False, JString AngleUnit),
      (''omega_unit'', False, JString OmegaUnit), (''total_angle_deg'', False, JFloat (TotalAngle segs)),
      (''segments'', False, nil_slice (map segment_json (seg_All segs))), (''points'', False, JArray (map sample_json pts)),
      (''joints'', False, nil_slice (map joint_json joints)), (''displacement_jump'', False, JBool (HasDisplacementJump joints))]"

definition serveCycle :: "api_env \<Rightarrow> config \<Rightarrow> int \<Rightarrow> response" where
  "serveCycle env cfg points =
     (case Config_Validate cfg of
        Inl err \<Rightarrow> writeErr env StatusBadRequest (Error_Text err)
      | Inr _ \<Rightarrow>
          if points < MinPoints then writeErr env StatusBadRequest Points_Too_Few
          else if \<not> Known (RiseLaw cfg) \<or> \<not> Known (ReturnLaw cfg) then writeErr env StatusBadRequest (Error_Text ErrUnknownLaw)
          else
            (case Build cfg of
               Inl err \<Rightarrow> writeErr env StatusBadRequest (Error_Text err)
             | Inr segs \<Rightarrow>
                 (case Segments_Curve segs points of
                    Inl err \<Rightarrow> writeErr env StatusBadRequest (Error_Text err)
                  | Inr pts \<Rightarrow>
                      (case Discontinuities segs of
                         Inl err \<Rightarrow> writeErr env StatusInternalServerError (Error_Text err)
                       | Inr joints \<Rightarrow> writeJSON StatusOK (cycleCurveResponse cfg segs pts joints)))))"

definition cycleCurveGET :: "api_env \<Rightarrow> file_system \<Rightarrow> request \<Rightarrow> response" where
  "cycleCurveGET env fs r =
     (let q = URL_Query (rq_URL r); name = Values_Get q ''cycle'' in
      if name = '''' then writeErr env StatusBadRequest Cycle_Param_Missing
      else
        case curve_params q of
          Inl msg \<Rightarrow> writeErr env StatusBadRequest msg
        | Inr (omega, points) \<Rightarrow>
            (case GetCycle (ap_os env) (ap_store env) fs name of
               Inl err \<Rightarrow>
                 (if errors_Is err ErrNotFound then writeErr env StatusNotFound (Error_Text err)
                  else writeErr env StatusBadRequest (Error_Text err))
             | Inr rec \<Rightarrow> serveCycle env (ToConfig rec omega) points))"

definition cycleCurvePOST :: "api_env \<Rightarrow> file_system \<Rightarrow> request \<Rightarrow> response" where
  "cycleCurvePOST env fs r =
     (case decode env r cycle_curve_struct0 of
        Inl resp \<Rightarrow> resp
      | Inr v \<Rightarrow>
          let req = cycleCurveRequest_of v;
              req = (if cr_Points req = 0 then req\<lparr>cr_Points := DefaultPoints\<rparr> else req) in
          if cr_Cycle req \<noteq> '''' then
            (case GetCycle (ap_os env) (ap_store env) fs (cr_Cycle req) of
               Inl err \<Rightarrow>
                 (if errors_Is err ErrNotFound then writeErr env StatusNotFound (Error_Text err)
                  else writeErr env StatusBadRequest (Error_Text err))
             | Inr rec \<Rightarrow> serveCycle env (ToConfig rec (cfg_Omega (cr_Config req))) (cr_Points req))
          else serveCycle env (cr_Config req) (cr_Points req))"

end
