(* ===== verification/Http_Mux.thy ===== *)
theory Http_Mux
  imports Http_Match Url_Parse Handlers "HOL-Library.Char_ord" "HOL-Library.List_Lexorder"
begin

text \<open>
  \<open>ServeMux\<close> (\<open>net/http\<close>: \<open>server.go\<close>, \<open>routing_index.go\<close>): registration with the detection of conflicts, the search of a handler with its redirects, and
  the answers to requests that no pattern takes. The mutex of the mux makes its methods atomic. A registration that fails makes \<open>HandleFunc\<close>
  panic. Handlers of the program are never nil. The texts of its errors, and the place a pattern was registered at, are left out.
\<close>

subsection \<open>The index of patterns\<close>

text \<open>The Go map \<open>segments\<close> is an association list; nothing depends on the order of its entries, as \<open>segments_conflict\<close> below shows.\<close>

record routingIndex =
  idx_segments :: "((nat \<times> string) \<times> pattern list) list"
  idx_multis :: "pattern list"

definition idx_at :: "((nat \<times> string) \<times> pattern list) list \<Rightarrow> nat \<times> string \<Rightarrow> pattern list" where
  "idx_at m key = (case map_of m key of None \<Rightarrow> [] | Some pats \<Rightarrow> pats)"

definition index_key :: "nat \<Rightarrow> path_segment \<Rightarrow> nat \<times> string" where
  "index_key pos seg = (pos, if \<not> ps_wild seg then ps_s seg else '''')"

fun index_segments :: "nat \<Rightarrow> path_segment list \<Rightarrow> pattern \<Rightarrow> ((nat \<times> string) \<times> pattern list) list \<Rightarrow> ((nat \<times> string) \<times> pattern list) list" where
  "index_segments pos [] pat m = m"
| "index_segments pos (seg # segs) pat m =
     index_segments (pos + 1) segs pat (AList.update (index_key pos seg) (idx_at m (index_key pos seg) @ [pat]) m)"

definition index_addPattern :: "routingIndex \<Rightarrow> pattern \<Rightarrow> routingIndex" where
  "index_addPattern idx pat =
     (if ps_multi (lastSegment pat) then idx\<lparr>idx_multis := idx_multis idx @ [pat]\<rparr>
      else idx\<lparr>idx_segments := index_segments 0 (pat_segments pat) pat (idx_segments idx)\<rparr>)"

text \<open>
  The patterns \<open>possiblyConflictingPatterns\<close> passes to its function, as long as that returns nil. The loop looks for the literal segment with the
  fewest patterns; \<open>None\<close> stands for \<open>hasLit\<close> being false.
\<close>

fun fewest :: "routingIndex \<Rightarrow> nat \<Rightarrow> path_segment list \<Rightarrow> (pattern list \<times> pattern list) option \<Rightarrow> (pattern list \<times> pattern list) option" where
  "fewest idx i [] best = best"
| "fewest idx i (seg # segs) best =
     (if ps_multi seg then best
      else if \<not> ps_wild seg then
        (let lpats = idx_at (idx_segments idx) (i, ps_s seg); wpats = idx_at (idx_segments idx) (i, '''') in
         fewest idx (i + 1) segs
           (case best of
              None \<Rightarrow> Some (lpats, wpats)
            | Some (lmin, wmin) \<Rightarrow> if length lpats + length wpats < length lmin + length wmin then Some (lpats, wpats) else best))
      else fewest idx (i + 1) segs best)"

definition possiblyConflictingPatterns :: "routingIndex \<Rightarrow> pattern \<Rightarrow> pattern list" where
  "possiblyConflictingPatterns idx pat =
     idx_multis idx
     @ (if ps_s (lastSegment pat) = ''/'' then idx_at (idx_segments idx) (length (pat_segments pat) - 1, ''/'')
        else
          case fewest idx 0 (pat_segments pat) None of
            Some (lmin, wmin) \<Rightarrow> lmin @ wmin
          | None \<Rightarrow> concat (map snd (idx_segments idx)))"

subsection \<open>Registration\<close>

record 'h ServeMux =
  mux_tree :: "'h routingNode"
  mux_index :: routingIndex
  mux_patterns :: "pattern list"

definition NewServeMux :: "'h ServeMux" where
  "NewServeMux = \<lparr>mux_tree = emptyNode, mux_index = \<lparr>idx_segments = [], idx_multis = []\<rparr>, mux_patterns = []\<rparr>"

datatype register_error = Invalid_Pattern | Parsing pattern_error | Conflict | Tree_Panic

definition registerErr :: "unicode_tables \<Rightarrow> 'h ServeMux \<Rightarrow> string \<Rightarrow> 'h \<Rightarrow> (register_error, 'h ServeMux) result" where
  "registerErr tb mux patstr handler =
     (if patstr = '''' then Inl Invalid_Pattern
      else
        case parsePattern tb patstr of
          Inl err \<Rightarrow> Inl (Parsing err)
        | Inr pat \<Rightarrow>
            if list_ex (conflictsWith pat) (possiblyConflictingPatterns (mux_index mux) pat) then Inl Conflict
            else
              case addPattern pat handler (mux_tree mux) of
                None \<Rightarrow> Inl Tree_Panic
              | Some tree \<Rightarrow>
                  Inr \<lparr>mux_tree = tree, mux_index = index_addPattern (mux_index mux) pat, mux_patterns = mux_patterns mux @ [pat]\<rparr>)"

fun HandleFuncs :: "unicode_tables \<Rightarrow> 'h ServeMux \<Rightarrow> (string \<times> 'h) list \<Rightarrow> (register_error, 'h ServeMux) result" where
  "HandleFuncs tb mux [] = Inr mux"
| "HandleFuncs tb mux ((patstr, h) # rs) = result_bind (registerErr tb mux patstr h) (\<lambda>mux. HandleFuncs tb mux rs)"

subsection \<open>Finding a handler\<close>

definition exactMatch :: "'h match_result \<Rightarrow> string \<Rightarrow> bool" where
  "exactMatch n path =
     (case n of
        Matched p h ms \<Rightarrow>
          if \<not> ps_multi (lastSegment p) then True
          else if 0 < length path \<and> last path \<noteq> CHR ''/'' then False
          else length (pat_segments p) = length (filter (\<lambda>c. c = CHR ''/'') path)
      | _ \<Rightarrow> False)"

definition matchOrRedirect :: "'h ServeMux \<Rightarrow> string \<Rightarrow> string \<Rightarrow> string \<Rightarrow> url option \<Rightarrow> 'h match_result \<times> url option" where
  "matchOrRedirect mux host method path u =
     (let n = match (mux_tree mux) host method path in
      if n = Match_Panic then (Match_Panic, None)
      else if \<not> exactMatch n path \<and> u \<noteq> None then
        (let path = path @ ''/''; n2 = match (mux_tree mux) host method path in
         if n2 = Match_Panic then (Match_Panic, None)
         else if exactMatch n2 path then
           (No_Match, Some \<lparr>url_Host = '''', url_Path = cleanPath (url_Path (the u)) @ ''/'', url_RawPath = '''', url_RawQuery = url_RawQuery (the u)\<rparr>)
         else (n, None))
      else (n, None))"

definition matchingMethods :: "'h ServeMux \<Rightarrow> string \<Rightarrow> string \<Rightarrow> string list option" where
  "matchingMethods mux host path =
     (case tree_matchingMethods (mux_tree mux) host path {} of
        None \<Rightarrow> None
      | Some ms \<Rightarrow> map_option sorted_list_of_set (tree_matchingMethods (mux_tree mux) host (path @ ''/'') ms))"

text \<open>The handlers of \<open>findHandler\<close> that are not registered ones are constructors.\<close>

datatype 'h found =
    Found_Handler 'h pattern "string list"
  | Redirect_Handler url
  | Method_Not_Allowed "string list"
  | No_Handler
  | Find_Panic

definition no_match_found :: "'h ServeMux \<Rightarrow> string \<Rightarrow> string \<Rightarrow> 'h match_result \<Rightarrow> 'h found" where
  "no_match_found mux host path n =
     (case n of
        Matched p h ms \<Rightarrow> Found_Handler h p ms
      | Match_Panic \<Rightarrow> Find_Panic
      | No_Match \<Rightarrow>
          (case matchingMethods mux host path of
             None \<Rightarrow> Find_Panic
           | Some allowedMethods \<Rightarrow> if 0 < length allowedMethods then Method_Not_Allowed allowedMethods else No_Handler))"

definition findHandler :: "'h ServeMux \<Rightarrow> request \<Rightarrow> 'h found" where
  "findHandler mux r =
     (let host = url_Host (rq_URL r); escapedPath = EscapedPath (rq_URL r) in
      if rq_Method r = ''CONNECT'' then
        (case matchOrRedirect mux host (rq_Method r) escapedPath (Some (rq_URL r)) of
           (Match_Panic, _) \<Rightarrow> Find_Panic
         | (_, Some u) \<Rightarrow> Redirect_Handler u
         | (_, None) \<Rightarrow> no_match_found mux host escapedPath (fst (matchOrRedirect mux (rq_Host r) (rq_Method r) escapedPath None)))
      else
        let host = stripHostPort (rq_Host r); path = cleanPath escapedPath in
        case matchOrRedirect mux host (rq_Method r) path (Some (rq_URL r)) of
          (Match_Panic, _) \<Rightarrow> Find_Panic
        | (_, Some u) \<Rightarrow> Redirect_Handler u
        | (n, None) \<Rightarrow>
            if path \<noteq> escapedPath then
              Redirect_Handler \<lparr>url_Host = '''', url_Path = path, url_RawPath = '''', url_RawQuery = url_RawQuery (rq_URL r)\<rparr>
            else no_match_found mux host path n)"

subsection \<open>Wildcard values\<close>

fun patIndex_loop :: "path_segment list \<Rightarrow> string \<Rightarrow> nat \<Rightarrow> nat option" where
  "patIndex_loop [] name i = None"
| "patIndex_loop (seg # segs) name i =
     (if ps_wild seg \<and> ps_s seg \<noteq> '''' then (if name = ps_s seg then Some i else patIndex_loop segs name (i + 1))
      else patIndex_loop segs name i)"

text \<open>\<open>PathValue\<close> of a request with no values set by hand; \<open>None\<close> is an index out of range.\<close>

definition PathValue :: "pattern \<Rightarrow> string list \<Rightarrow> string \<Rightarrow> string option" where
  "PathValue p matches name =
     (case patIndex_loop (pat_segments p) name 0 of
        None \<Rightarrow> Some ''''
      | Some i \<Rightarrow> if i < length matches then Some (matches ! i) else None)"

end
