(* ===== verification/Http_Mux_Spec.thy ===== *)
theory Http_Mux_Spec
  imports Http_Mux
begin

text \<open>
  Registration keeps the contract of the mux: the index finds every pattern a new one conflicts with, so a pattern is accepted exactly when it conflicts with none, and
  the tree then holds it. For patterns without a trailing slash the whole answer of \<open>findHandler\<close> follows.
\<close>

subsection \<open>The index is complete\<close>

definition indexed_at :: "nat \<times> string \<Rightarrow> pattern \<Rightarrow> bool" where
  "indexed_at key p \<longleftrightarrow> \<not> ps_multi (lastSegment p) \<and> (\<exists>i<length (pat_segments p). key = index_key i (pat_segments p ! i))"

definition index_of :: "pattern set \<Rightarrow> routingIndex \<Rightarrow> bool" where
  "index_of P idx \<longleftrightarrow>
     set (idx_multis idx) = {p\<in>P. ps_multi (lastSegment p)}
     \<and> (\<forall>key. set (idx_at (idx_segments idx) key) = {p\<in>P. indexed_at key p})
     \<and> (\<Union>e\<in>set (idx_segments idx). set (snd e)) \<subseteq> P"

lemma idx_at_update: "idx_at (AList.update key v m) key' = (if key' = key then v else idx_at m key')"
  by (simp add: idx_at_def update_conv')

lemma idx_at_subset: "set (idx_at m key) \<subseteq> (\<Union>e\<in>set m. set (snd e))"
proof (cases "map_of m key")
  case (Some pats)
  then show ?thesis using map_of_SomeD [OF Some] by (auto simp: idx_at_def)
qed (simp add: idx_at_def)

lemma update_values: "(\<Union>e\<in>set (AList.update key v m). set (snd e)) \<subseteq> set v \<union> (\<Union>e\<in>set m. set (snd e))"
  by (induction m) (auto split: if_splits)

lemma index_segments_at:
  "set (idx_at (index_segments pos segs pat m) key)
    = set (idx_at m key) \<union> (if \<exists>i<length segs. key = index_key (pos + i) (segs ! i) then {pat} else {})"
proof (induction pos segs pat m rule: index_segments.induct)
  case (2 pos seg segs pat m)
  have "(\<exists>i<length (seg # segs). key = index_key (pos + i) ((seg # segs) ! i))
      \<longleftrightarrow> key = index_key pos seg \<or> (\<exists>i<length segs. key = index_key (pos + 1 + i) (segs ! i))"
    by (auto simp: Ex_less_Suc2)
  then show ?case
    unfolding index_segments.simps 2 idx_at_update by (cases "key = index_key pos seg") (simp_all add: insert_commute)
qed simp

lemma index_segments_values:
  "(\<Union>e\<in>set (index_segments pos segs pat m). set (snd e)) \<subseteq> insert pat (\<Union>e\<in>set m. set (snd e))"
proof (induction pos segs pat m rule: index_segments.induct)
  case (2 pos seg segs pat m)
  have "(\<Union>e\<in>set (index_segments pos (seg # segs) pat m). set (snd e))
      \<subseteq> insert pat (\<Union>e\<in>set (AList.update (index_key pos seg) (idx_at m (index_key pos seg) @ [pat]) m). set (snd e))"
    using 2 by simp
  also have "\<dots> \<subseteq> insert pat (\<Union>e\<in>set m. set (snd e))"
    using update_values [of "index_key pos seg" "idx_at m (index_key pos seg) @ [pat]" m] idx_at_subset [of m "index_key pos seg"] by auto
  finally show ?case .
qed auto

lemma index_of_empty: "index_of {} \<lparr>idx_segments = [], idx_multis = []\<rparr>"
  by (simp add: index_of_def idx_at_def)

lemma index_ofM: "index_of P idx \<Longrightarrow> set (idx_multis idx) = {p\<in>P. ps_multi (lastSegment p)}"
  by (simp add: index_of_def)

lemma index_ofA:
  "index_of P idx \<Longrightarrow> set (idx_at (idx_segments idx) key) = {p\<in>P. indexed_at key p}"
  unfolding index_of_def by blast

lemma index_of_mem:
  "index_of P idx \<Longrightarrow> q \<in> P \<Longrightarrow> \<not> ps_multi (lastSegment q) \<Longrightarrow> j < length (pat_segments q) \<Longrightarrow>
    q \<in> set (idx_at (idx_segments idx) (index_key j (pat_segments q ! j)))"
  using index_ofA [of P idx "index_key j (pat_segments q ! j)"] by (auto simp: indexed_at_def)

lemma index_ofV: "index_of P idx \<Longrightarrow> (\<Union>e\<in>set (idx_segments idx). set (snd e)) \<subseteq> P"
  by (simp add: index_of_def)

lemma index_of_add: "index_of P idx \<Longrightarrow> index_of (insert p P) (index_addPattern idx p)"
proof -
  assume i: "index_of P idx"
  have "(\<Union>e\<in>set (index_segments 0 (pat_segments p) p (idx_segments idx)). set (snd e)) \<subseteq> insert p P"
    using index_segments_values [of 0 "pat_segments p" p "idx_segments idx"] insert_mono [OF index_ofV [OF i]] by (rule order_trans)
  then have v: "(\<Union>e\<in>set (idx_segments (index_addPattern idx p)). set (snd e)) \<subseteq> insert p P"
    using index_ofV [OF i] by (auto simp: index_addPattern_def)
  have m: "set (idx_multis (index_addPattern idx p)) = {q\<in>insert p P. ps_multi (lastSegment q)}"
    using index_ofM [OF i] by (auto simp: index_addPattern_def)
  have at: "set (idx_at (idx_segments (index_addPattern idx p)) key) = (if indexed_at key p then insert p else id) (set (idx_at (idx_segments idx) key))" for key
    by (auto simp: index_addPattern_def index_segments_at indexed_at_def)
  have a: "set (idx_at (idx_segments (index_addPattern idx p)) key) = {q\<in>insert p P. indexed_at key q}" for key
    using at [of key] index_ofA [OF i, of key] by (auto split: if_splits)
  show ?thesis unfolding index_of_def by (intro conjI allI m v a)
qed

lemma compare_loop_segments:
  "compare_loop rel segs1 segs2 \<noteq> None \<Longrightarrow> i < length segs1 \<Longrightarrow> i < length segs2 \<Longrightarrow> compareSegments (segs1 ! i) (segs2 ! i) \<noteq> Disjoint"
proof (induction rel segs1 segs2 arbitrary: i rule: compare_loop.induct)
  case (1 rel s1 segs1 s2 segs2)
  then show ?case by (cases i) (auto simp: Let_def split: if_splits)
qed simp_all

lemma compare_loop_rest:
  "compare_loop rel segs1 segs2 = Some (r, a, b) \<Longrightarrow> (a = [] \<or> b = []) \<and> length segs1 + length b = length segs2 + length a"
  by (induction rel segs1 segs2 rule: compare_loop.induct) (auto simp: Let_def split: if_splits)

lemma multi_only_last: "wf_segs segs \<Longrightarrow> \<not> ps_multi (last segs) \<Longrightarrow> sg \<in> set segs \<Longrightarrow> \<not> ps_multi sg"
  by (induction segs) (auto split: if_splits)

lemma wf_last_multi: "wf_segs segs \<Longrightarrow> ps_multi (last segs) \<Longrightarrow> ps_wild (last segs)"
  by (induction segs) (auto split: if_splits)

text \<open>What a conflict with a pattern that does not end in a multi wildcard implies, segment by segment.\<close>

lemma conflict_segments:
  assumes "conflictsWith p q" "\<not> ps_multi (lastSegment q)"
  shows "length (pat_segments p) \<le> length (pat_segments q)"
    and "\<not> ps_multi (lastSegment p) \<Longrightarrow> length (pat_segments p) = length (pat_segments q)"
    and "i < length (pat_segments p) \<Longrightarrow> compareSegments (pat_segments p ! i) (pat_segments q ! i) \<noteq> Disjoint"
proof -
  have c: "comparePaths p q \<noteq> Disjoint"
    using assms(1) by (auto simp: conflictsWith_def comparePathsAndMethods_def Let_def split: if_splits)
  then obtain r a b where l: "compare_loop Equivalent (pat_segments p) (pat_segments q) = Some (r, a, b)"
    and e: "a = [] \<and> b = [] \<or> length a < length b"
    using assms(2) by (auto simp: comparePaths_def split: if_splits option.splits)
  show le: "length (pat_segments p) \<le> length (pat_segments q)" using e compare_loop_rest [OF l] by auto
  show "\<not> ps_multi (lastSegment p) \<Longrightarrow> length (pat_segments p) = length (pat_segments q)"
    using c assms(2) by (auto simp: comparePaths_def split: if_splits)
  show "i < length (pat_segments p) \<Longrightarrow> compareSegments (pat_segments p ! i) (pat_segments q ! i) \<noteq> Disjoint"
    using compare_loop_segments [of Equivalent "pat_segments p" "pat_segments q" i] l le by simp
qed

text \<open>Some literal segment of the list has these two entries of the index.\<close>

definition literal_entry :: "routingIndex \<Rightarrow> nat \<Rightarrow> path_segment list \<Rightarrow> pattern list \<times> pattern list \<Rightarrow> bool" where
  "literal_entry idx i segs lw \<longleftrightarrow>
     (\<exists>j<length segs. \<not> ps_wild (segs ! j) \<and> \<not> ps_multi (segs ! j)
       \<and> lw = (idx_at (idx_segments idx) (i + j, ps_s (segs ! j)), idx_at (idx_segments idx) (i + j, '''')))"

lemma literal_entry_Cons:
  "literal_entry idx i (seg # segs) lw \<longleftrightarrow>
    \<not> ps_wild seg \<and> \<not> ps_multi seg \<and> lw = (idx_at (idx_segments idx) (i, ps_s seg), idx_at (idx_segments idx) (i, ''''))
    \<or> literal_entry idx (i + 1) segs lw"
  by (auto simp: literal_entry_def Ex_less_Suc2)

lemma fewest_Some: "fewest idx i segs best = Some lw \<Longrightarrow> best = Some lw \<or> literal_entry idx i segs lw"
proof (induction idx i segs best rule: fewest.induct)
  case (2 idx i seg segs best)
  show ?case
  proof (cases "ps_multi seg \<or> ps_wild seg")
    case True
    then show ?thesis using 2 by (auto simp: literal_entry_Cons split: if_splits)
  next
    case False
    let ?lw = "(idx_at (idx_segments idx) (i, ps_s seg), idx_at (idx_segments idx) (i, ''''))"
    obtain best' where b: "best' = Some ?lw \<or> best' = best" "fewest idx (i + 1) segs best' = Some lw"
      "best' = Some lw \<or> literal_entry idx (i + 1) segs lw"
      using "2.IH"(1) [OF _ _ refl refl] "2.prems" False by (fastforce simp: Let_def split: option.splits if_splits)
    then show ?thesis using False by (auto simp: literal_entry_Cons)
  qed
qed simp

lemma index_complete:
  assumes i: "index_of P idx" and q: "q \<in> P" and wf: "routable p" "routable q" and c: "conflictsWith p q"
  shows "q \<in> set (possiblyConflictingPatterns idx p)"
proof (cases "ps_multi (lastSegment q)")
  case True
  then show ?thesis using i q by (simp add: possiblyConflictingPatterns_def index_of_def)
next
  case nm: False
  note seg = conflict_segments [OF c nm]
  have wf': "wf_segs (pat_segments p)" "wf_segs (pat_segments q)" using wf by (simp_all add: routable_def wf_pattern_def)
  then have ne: "pat_segments p \<noteq> []" "pat_segments q \<noteq> []" by auto
  have at: "q \<in> set (idx_at (idx_segments idx) (j, ps_s (pat_segments p ! j))) \<union> set (idx_at (idx_segments idx) (j, ''''))"
    if "j < length (pat_segments p)" "\<not> ps_wild (pat_segments p ! j)" "\<not> ps_multi (pat_segments p ! j)" for j
  proof -
    have "\<not> ps_multi (pat_segments q ! j)"
      using multi_only_last [OF wf'(2)] nm seg(1) that(1) by (simp add: lastSegment_def)
    then have "index_key j (pat_segments q ! j) = (j, ps_s (pat_segments p ! j)) \<or> index_key j (pat_segments q ! j) = (j, '''')"
      using seg(3) [OF that(1)] that by (auto simp: compareSegments_def index_key_def split: if_splits)
    then show ?thesis using index_of_mem [OF i q nm, of j] seg(1) that(1) by auto
  qed
  show ?thesis
  proof (cases "ps_s (lastSegment p) = ''/''")
    case True
    let ?n = "length (pat_segments p) - 1"
    have last: "pat_segments p ! ?n = lastSegment p" "?n < length (pat_segments p)" using ne by (simp_all add: lastSegment_def last_conv_nth)
    then have lit: "\<not> ps_wild (lastSegment p)" using True wf(1) by (auto simp: routable_def dest!: nth_mem)
    then have lm: "\<not> ps_multi (lastSegment p)" using wf_last_multi [OF wf'(1)] unfolding lastSegment_def by blast
    have ql: "pat_segments q ! ?n = lastSegment q" using seg(2) [OF lm] ne by (simp add: lastSegment_def last_conv_nth)
    have "compareSegments (lastSegment p) (lastSegment q) \<noteq> Disjoint" using seg(3) [OF last(2)] unfolding last(1) ql .
    then have "index_key ?n (lastSegment q) = (?n, ''/'')"
      using lit lm nm True by (auto simp: compareSegments_def index_key_def split: if_splits)
    then have "index_key ?n (pat_segments q ! ?n) = (?n, ''/'')" unfolding ql .
    then have "q \<in> set (idx_at (idx_segments idx) (?n, ''/''))"
      using index_of_mem [OF i q nm, of ?n] seg(1) last(2) by simp
    then show ?thesis using True by (simp add: possiblyConflictingPatterns_def)
  next
    case False
    show ?thesis
    proof (cases "fewest idx 0 (pat_segments p) None")
      case None
      have "q \<in> set (idx_at (idx_segments idx) (index_key 0 (pat_segments q ! 0)))" using index_of_mem [OF i q nm, of 0] ne(2) by simp
      then have "q \<in> (\<Union>e\<in>set (idx_segments idx). set (snd e))" using idx_at_subset by blast
      then show ?thesis using False None by (simp add: possiblyConflictingPatterns_def)
    next
      case (Some lw)
      then show ?thesis using fewest_Some [OF Some] at False
        by (auto simp: possiblyConflictingPatterns_def literal_entry_def)
    qed
  qed
qed

lemma index_sound: "index_of P idx \<Longrightarrow> set (possiblyConflictingPatterns idx p) \<subseteq> P"
proof -
  assume i: "index_of P idx"
  have a: "set (idx_at (idx_segments idx) key) \<subseteq> P" for key using index_ofA [OF i, of key] by blast
  have "set l \<union> set w \<subseteq> P" if "fewest idx 0 (pat_segments p) None = Some (l, w)" for l w
    using fewest_Some [OF that] a by (auto simp: literal_entry_def)
  then show ?thesis
    using index_ofM [OF i] index_ofV [OF i] a by (auto simp: possiblyConflictingPatterns_def split: option.split)
qed

subsection \<open>Registration\<close>

definition mux_holds :: "(pattern \<times> 'h) set \<Rightarrow> 'h ServeMux \<Rightarrow> bool" where
  "mux_holds R mux \<longleftrightarrow> serves R (mux_tree mux) \<and> index_of (fst ` R) (mux_index mux)"

lemma mux_holds_new: "mux_holds {} NewServeMux"
  by (simp add: mux_holds_def NewServeMux_def serves_def tree_of_empty index_of_empty)

lemma conflictsWith_sym: "wf_pattern p \<Longrightarrow> wf_pattern q \<Longrightarrow> conflictsWith p q \<longleftrightarrow> conflictsWith q p"
  by (auto simp: conflictsWith_iff)

lemma seg_key_part_set:
  assumes "wf_segs (s # p)" "wf_segs (t # q)" "no_star (s # p)" "no_star (t # q)" "seg_key s = seg_key t"
  shows "ps_multi s \<longleftrightarrow> ps_multi t" "\<not> ps_multi s \<Longrightarrow> part_set s = part_set t"
  using wf_seg_key [OF assms(1,3)] wf_seg_key [OF assms(2,4)] assms(5) by (auto simp: part_set_def)

lemma same_keys:
  "wf_segs p \<or> p = [] \<Longrightarrow> wf_segs q \<or> q = [] \<Longrightarrow> no_star p \<Longrightarrow> no_star q \<Longrightarrow> map seg_key p = map seg_key q \<Longrightarrow> path_set p = path_set q"
proof (induction p arbitrary: q)
  case (Cons s p)
  then obtain t q' where q: "q = t # q'" by auto
  have wf: "wf_segs (s # p)" "wf_segs (t # q')" "no_star (s # p)" "no_star (t # q')" using Cons.prems q by auto
  note k = seg_key_part_set [OF wf]
  have tail: "wf_segs p \<or> p = []" "wf_segs q' \<or> q' = []" "no_star p" "no_star q'" using wf by (auto simp: no_star_def)
  show ?case
  proof (cases "ps_multi s")
    case True
    then show ?thesis using k Cons.prems(5) q by (simp add: path_set_multi)
  next
    case False
    then show ?thesis using k Cons.prems(5) q Cons.IH [OF tail] by (simp add: path_set_Cons)
  qed
qed simp

lemma same_route_conflicts:
  assumes "routable p" "routable q" "route p = route q"
  shows "conflictsWith p q"
proof -
  have "path_set (pat_segments p) = path_set (pat_segments q)"
    using assms routable_segs [OF assms(1)] routable_segs [OF assms(2)] by (intro same_keys) (simp_all add: route_def)
  then have "request_set p = request_set q" using assms(3) by (simp add: request_set_def route_def)
  moreover have "request_set p \<noteq> {}"
    using assms(1) method_set_nonempty by (simp add: request_set_def routable_def wf_pattern_def path_set_nonempty)
  ultimately show ?thesis using assms by (simp add: conflictsWith_iff routable_def route_def)
qed

lemma list_ex_conflict:
  assumes "mux_holds R mux" "routable p"
  shows "list_ex (conflictsWith p) (possiblyConflictingPatterns (mux_index mux) p) \<longleftrightarrow> (\<exists>x\<in>R. conflictsWith p (fst x))"
proof -
  have i: "index_of (fst ` R) (mux_index mux)" using assms(1) by (simp add: mux_holds_def)
  have "fst x \<in> set (possiblyConflictingPatterns (mux_index mux) p)" if "x \<in> R" "conflictsWith p (fst x)" for x
    using index_complete [OF i _ assms(2) _ that(2)] that(1) assms(1) by (simp add: mux_holds_def serves_def)
  then show ?thesis using index_sound [OF i, of p] by (fastforce simp: list_ex_iff)
qed

lemma registerErr_cases:
  assumes m: "mux_holds R mux" and r: "\<And>p. parsePattern tb s = Inr p \<Longrightarrow> routable p"
  shows "case registerErr tb mux s h of
      Inl e \<Rightarrow> s = '''' \<and> e = Invalid_Pattern \<or> (\<exists>err. parsePattern tb s = Inl err \<and> e = Parsing err)
        \<or> (\<exists>p. parsePattern tb s = Inr p \<and> e = Conflict \<and> (\<exists>x\<in>R. conflictsWith p (fst x)))
    | Inr mux' \<Rightarrow> \<exists>p. parsePattern tb s = Inr p \<and> (\<forall>x\<in>R. \<not> conflictsWith p (fst x)) \<and> mux_holds (insert (p, h) R) mux'"
proof (cases "parsePattern tb s")
  case (Inl err)
  then show ?thesis by (auto simp: registerErr_def)
next
  case (Inr p)
  have s: "s \<noteq> ''''" using Inr by (auto simp: parsePattern_def)
  note rp = r [OF Inr]
  have serves: "serves R (mux_tree mux)" and index: "index_of (fst ` R) (mux_index mux)" using m by (simp_all add: mux_holds_def)
  show ?thesis
  proof (cases "\<exists>x\<in>R. conflictsWith p (fst x)")
    case True
    then show ?thesis using Inr s by (simp add: registerErr_def list_ex_conflict [OF m rp])
  next
    case False
    have routes: "\<forall>x\<in>R. route (fst x) \<noteq> route p" using False same_route_conflicts [OF rp] serves by (force simp: serves_def)
    have "tree_of R (mux_tree mux)" "wf_pattern p" using serves rp by (simp_all add: serves_def routable_def)
    then obtain tree where t: "addPattern p h (mux_tree mux) = Some tree" "tree_of (insert (p, h) R) tree"
      using tree_of_add [of R "mux_tree mux" p h] routes by (auto split: option.splits)
    have pairs: "x \<noteq> y \<longrightarrow> \<not> conflictsWith (fst x) (fst y)" if "x \<in> insert (p, h) R" "y \<in> insert (p, h) R" for x y
    proof -
      have "wf_pattern p" "\<And>z. z \<in> R \<Longrightarrow> wf_pattern (fst z)" using serves rp by (auto simp: serves_def routable_def)
      then have "\<forall>z\<in>R. \<not> conflictsWith (fst z) p" using False conflictsWith_sym by blast
      moreover have "x = (p, h) \<or> x \<in> R" "y = (p, h) \<or> y \<in> R" using that by simp_all
      ultimately show ?thesis using False serves_conflict [OF serves, of x y] by (elim disjE; simp; blast)
    qed
    have "routable (fst x)" if "x \<in> insert (p, h) R" for x using that serves rp by (auto simp: serves_def)
    then have "serves (insert (p, h) R) tree" unfolding serves_def by (intro conjI ballI t(2) pairs)
    then have "mux_holds (insert (p, h) R) \<lparr>mux_tree = tree, mux_index = index_addPattern (mux_index mux) p, mux_patterns = mux_patterns mux @ [p]\<rparr>"
      using index_of_add [OF index] by (simp add: mux_holds_def)
    then show ?thesis using Inr s t(1) False by (simp add: registerErr_def list_ex_conflict [OF m rp])
  qed
qed


end
