(* ===== verification/Http_Find.thy ===== *)
theory Http_Find
  imports Http_Mux_Spec
begin

text \<open>
  The whole answer of \<open>findHandler\<close> for a mux whose patterns have no trailing slash and no multi wildcard, such as the one of the service: the
  most specific pattern that handles the request, else the sorted list of the methods that would be handled, else nothing.
\<close>

subsection \<open>Every node has each key once\<close>

definition tidy_node :: "'h routingNode \<Rightarrow> bool" where
  "tidy_node n \<longleftrightarrow> distinct (map fst (nd_children n)) \<and> '''' \<notin> fst ` set (nd_children n)"

definition tidy :: "'h routingNode \<Rightarrow> bool" where
  "tidy n \<longleftrightarrow> (\<forall>ks c. node_at (Some n) ks = Some c \<longrightarrow> tidy_node c)"

lemma tidy_iff: "tidy n \<longleftrightarrow> tidy_node n \<and> (\<forall>k c. findChild k n = Some c \<longrightarrow> tidy c)"
proof
  assume t: "tidy n"
  have "tidy_node n" using t by (auto simp: tidy_def dest: spec [of _ "[]"])
  moreover have "tidy c" if "findChild k n = Some c" for k c
    unfolding tidy_def
  proof (intro allI impI)
    fix ks d
    assume "node_at (Some c) ks = Some d"
    then have "node_at (Some n) (k # ks) = Some d" using that by simp
    then show "tidy_node d" using t unfolding tidy_def by blast
  qed
  ultimately show "tidy_node n \<and> (\<forall>k c. findChild k n = Some c \<longrightarrow> tidy c)" by blast
next
  assume d: "tidy_node n \<and> (\<forall>k c. findChild k n = Some c \<longrightarrow> tidy c)"
  show "tidy n" unfolding tidy_def
  proof (intro allI impI)
    fix ks c
    assume c: "node_at (Some n) ks = Some c"
    show "tidy_node c"
    proof (cases ks)
      case Nil
      then show ?thesis using c d by simp
    next
      case (Cons k ks')
      then obtain n' where "findChild k n = Some n'" "node_at (Some n') ks' = Some c" using c by (cases "findChild k n") auto
      then show ?thesis using d unfolding tidy_def by blast
    qed
  qed
qed

lemma tidy_empty: "tidy emptyNode"
  by (subst tidy_iff) (simp add: emptyNode_def findChild_def tidy_node_def)

lemma tidy_child: "tidy n \<Longrightarrow> tidy (child k n)"
  by (cases "findChild k n") (simp_all add: child_def tidy_empty tidy_iff [of n])

lemma tidy_addChild:
  assumes "addChild k f n = Some n'" "tidy n" "\<And>c c'. tidy c \<Longrightarrow> f c = Some c' \<Longrightarrow> tidy c'"
  shows "tidy n'"
proof -
  obtain c where c: "f (child k n) = Some c" and n': "n' = (if k = '''' then Node (nd_leaf n) (nd_children n) (Some c)
      else Node (nd_leaf n) (AList.update k c (nd_children n)) (nd_empty n))"
    using assms(1) by (auto simp: addChild_def child_def [symmetric] split: option.splits)
  have tc: "tidy c" using assms(3) [OF tidy_child [OF assms(2)] c] .
  have n: "distinct (map fst (nd_children n))" "'''' \<notin> fst ` set (nd_children n)" "findChild k' n = Some d \<Longrightarrow> tidy d" for k' d
    using assms(2) tidy_iff [of n] by (auto simp: tidy_node_def)
  have "distinct (map fst (nd_children n'))" "'''' \<notin> fst ` set (nd_children n')"
    using n(1,2) by (simp_all add: n' distinct_update dom_update)
  moreover have "tidy d" if "findChild k' n' = Some d" for k' d
    using that n(3) [of k' d] tc by (auto simp: n' findChild_def update_conv' split: if_splits)
  ultimately show ?thesis using tidy_iff [of n'] unfolding tidy_node_def by blast
qed

lemma tidy_set: "set_leaf p h c = Some c' \<Longrightarrow> tidy c \<Longrightarrow> tidy c'"
  using tidy_iff [of c] tidy_iff [of c'] by (auto simp: set_leaf_def findChild_def tidy_node_def split: if_splits)

lemma tidy_addSegments: "addSegments segs p h c = Some c' \<Longrightarrow> tidy c \<Longrightarrow> tidy c'"
proof (induction segs arbitrary: c c')
  case Nil
  then show ?case by (simp add: tidy_set)
next
  case (Cons sg segs)
  then show ?case
    using tidy_addChild [of "''*''" "set_leaf p h" c c'] tidy_addChild [of "''''" "addSegments segs p h" c c']
      tidy_addChild [of "ps_s sg" "addSegments segs p h" c c'] tidy_set [of p h] by (auto split: if_splits)
qed

lemma tidy_addPattern: "addPattern p h rt = Some rt' \<Longrightarrow> tidy rt \<Longrightarrow> tidy rt'"
  unfolding addPattern_def
  by (erule tidy_addChild, assumption, erule tidy_addChild, assumption, erule tidy_addSegments, assumption)

lemma tidy_registerErr: "registerErr tb mux s h = Inr mux' \<Longrightarrow> tidy (mux_tree mux) \<Longrightarrow> tidy (mux_tree mux')"
  by (auto simp: registerErr_def split: if_splits sum.splits option.splits intro: tidy_addPattern)

lemma tidy_children:
  assumes "tidy n"
  shows "(m, c) \<in> set (nd_children n) \<longleftrightarrow> m \<noteq> '''' \<and> findChild m n = Some c"
  using assms tidy_iff [of n] by (force simp: findChild_def tidy_node_def)

subsection \<open>Paths with a trailing slash\<close>

definition plain :: "(pattern \<times> 'h) set \<Rightarrow> bool" where
  "plain R \<longleftrightarrow> (\<forall>x\<in>R. \<forall>sg\<in>set (pat_segments (fst x)). \<not> ps_multi sg \<and> (ps_wild sg \<or> ps_s sg \<noteq> ''/''))"

lemma cands_slash:
  "(ks, cs, None) \<in> set (cands path) \<Longrightarrow> path \<noteq> '''' \<Longrightarrow> last path = CHR ''/'' \<Longrightarrow> ks \<noteq> [] \<and> last ks = ''/''"
proof (induction path arbitrary: ks cs rule: cands.induct)
  case (1 path)
  show ?case
  proof (cases "path = ''/''")
    case True
    then show ?thesis using 1(3) by (auto simp: cands.simps [of "''/''"] cands.simps [of "[]"] firstSegment_def)
  next
    case False
    let ?i = "length (takeWhile (\<lambda>c. c \<noteq> CHR ''/'') (tl path))"
    have rest: "snd (firstSegment path) = drop ?i (tl path)" using False by (simp add: firstSegment_def Let_def)
    have tl: "tl path \<noteq> []" "last (tl path) = CHR ''/''" using 1(4,5) False by (cases path; auto split: if_splits)+
    then have "CHR ''/'' \<in> set (tl path)" using last_in_set [OF tl(1)] by simp
    then have "0 < length (dropWhile (\<lambda>c. c \<noteq> CHR ''/'') (tl path))" by (auto simp: dropWhile_eq_Nil_conv)
    moreover have "length (tl path) = ?i + length (dropWhile (\<lambda>c. c \<noteq> CHR ''/'') (tl path))"
      by (metis length_append takeWhile_dropWhile_id)
    ultimately have "?i < length (tl path)" by linarith
    then have r: "snd (firstSegment path) \<noteq> ''''" "last (snd (firstSegment path)) = CHR ''/''" using tl by (simp_all add: rest last_drop)
    have tail: "ks' \<noteq> [] \<and> last ks' = ''/''" if "(ks', cs', None) \<in> set (cands (snd (firstSegment path)))" for ks' cs'
      using 1(1) [OF 1(4) that r] .
    from 1(3) 1(4) show ?thesis using tail by (auto simp: cands.simps [of path] split: if_splits)
  qed
qed

lemma attempt_No_Match_leaf:
  assumes "serves R rt" "e \<in> set (cands path)" "leaf_at (Some rt) (h # m # fst e) = None"
  shows "attempt (node_at (Some rt) [h, m]) [] e = No_Match"
proof (cases "attempt (node_at (Some rt) [h, m]) [] e")
  case (Matched p g vs)
  obtain ks cs v where e: "e = (ks, cs, v)" by (cases e)
  have "leaf_at (Some rt) (h # m # ks) = Some (p, g)" using Matched unfolding e attempt_Matched leaf_at_route by blast
  then show ?thesis using assms(3) by (simp add: e)
next
  case Match_Panic
  then show ?thesis using no_panic [OF assms(1,2)] by blast
qed

lemma plain_slash:
  assumes s: "serves R rt" and p: "plain R" and path: "path \<noteq> ''''" "last path = CHR ''/''" and e: "e \<in> set (cands path)"
  shows "attempt (node_at (Some rt) [h, m]) [] e = No_Match"
proof (rule attempt_No_Match_leaf [OF s e])
  obtain ks cs v where ks: "e = (ks, cs, v)" by (cases e)
  have "last ks = ''/'' \<and> ks \<noteq> [] \<or> last ks = ''*'' \<and> ks \<noteq> []"
    using cands_slash [of ks cs path] cands_multi_key [of ks cs "the v" path] e path unfolding ks by (cases v) auto
  moreover have t: "tree_of R rt" using s by (simp add: serves_def)
  moreover have "last ks \<noteq> ''/'' \<and> last ks \<noteq> ''*''" if x: "x \<in> R" "route (fst x) = h # m # ks" and ne: "ks \<noteq> []" for x
  proof -
    have k: "ks = map seg_key (pat_segments (fst x))" using x(2) by (simp add: route_def)
    then have l: "last ks = seg_key (last (pat_segments (fst x)))" "last (pat_segments (fst x)) \<in> set (pat_segments (fst x))"
      using ne by (simp_all add: last_map)
    then show ?thesis
      using p x(1) s routable_segs [of "fst x"] by (auto simp: plain_def serves_def seg_key_def no_star_def)
  qed
  ultimately show "leaf_at (Some rt) (h # m # fst e) = None" unfolding tree_of_free [OF t] ks by auto
qed

subsection \<open>The answer of the search\<close>

lemma search_registered:
  assumes "serves R rt" "search rt host method path = Matched p h vs"
  shows "(p, h) \<in> R"
proof -
  obtain h0 m0 ks cs m where "attempt (node_at (Some rt) [h0, m0]) [] (ks, cs, m) = Matched p h vs"
    using search_hit [OF assms(2)] by (metis match_result.distinct(1) prod_cases3)
  then have "leaf_at (Some rt) (h0 # m0 # ks) = Some (p, h)" unfolding attempt_Matched leaf_at_route by blast
  then show ?thesis using tree_of_leaf assms(1) by (metis serves_def)
qed

lemma search_no_panic: "serves R rt \<Longrightarrow> search rt host method path \<noteq> Match_Panic"
  using search_hit [of rt host "method" "path" Match_Panic] no_panic by (metis in_set_conv_decomp match_result.distinct(3))

lemma plain_slash_search:
  "serves R rt \<Longrightarrow> plain R \<Longrightarrow> path \<noteq> '''' \<Longrightarrow> last path = CHR ''/'' \<Longrightarrow> search rt host method path = No_Match"
  unfolding search_def first_hit_No_Match using plain_slash by blast

lemma plain_matchOrRedirect:
  assumes s: "serves R (mux_tree mux)" and p: "plain R"
  shows "matchOrRedirect mux host method path u = (search (mux_tree mux) host method path, None)"
proof (cases "search (mux_tree mux) host method path")
  case No_Match
  then show ?thesis
    using plain_slash_search [OF s p, of "path @ ''/''" host "method"] by (simp add: matchOrRedirect_def match_search exactMatch_def Let_def)
next
  case (Matched q h vs)
  have "(q, h) \<in> R" by (rule search_registered [OF s Matched])
  moreover from this have "pat_segments q \<noteq> []" using s by (auto simp: serves_def routable_def wf_pattern_def)
  ultimately have "\<not> ps_multi (lastSegment q)" using p by (force simp: plain_def lastSegment_def)
  then show ?thesis using Matched by (simp add: matchOrRedirect_def match_search exactMatch_def)
next
  case Match_Panic
  then show ?thesis using search_no_panic [OF s] by blast
qed

subsection \<open>The methods that are allowed\<close>

lemma matching_keys_Some:
  assumes "\<And>m c. (m, c) \<in> set cs \<Longrightarrow> matchPath (Some c) path [] \<noteq> Match_Panic"
  shows "matching_keys cs path = Some {m. \<exists>c. (m, c) \<in> set cs \<and> matchPath (Some c) path [] \<noteq> No_Match}"
  using assms
proof (induction cs)
  case (Cons x cs)
  obtain m c where x: "x = (m, c)" by fastforce
  have IH: "matching_keys cs path = Some {m. \<exists>c. (m, c) \<in> set cs \<and> matchPath (Some c) path [] \<noteq> No_Match}"
    using Cons.IH Cons.prems by (metis list.set_intros(2))
  have "matchPath (Some c) path [] \<noteq> Match_Panic" using Cons.prems x by auto
  then show ?case unfolding x matching_keys.simps IH by (cases "matchPath (Some c) path []") auto
qed simp

lemma matchingMethodsPath_Some:
  assumes s: "serves R rt" and t: "tidy rt"
  shows "matchingMethodsPath (findChild host rt) path
    = Some {m. m \<noteq> '''' \<and> first_hit (attempt (node_at (Some rt) [host, m]) []) (cands path) \<noteq> No_Match}"
proof (cases "findChild host rt")
  case None
  have "first_hit (attempt (None :: 'a routingNode option) []) (cands path) = No_Match"
    unfolding first_hit_No_Match by (auto simp: attempt_def)
  then show ?thesis using None by (simp add: matchingMethodsPath_def)
next
  case (Some n)
  have tn: "tidy n" using t Some tidy_iff by blast
  have n: "node_at (Some rt) [host, m] = findChild m n" for m using Some by simp
  have "first_hit (attempt (findChild m n) []) (cands path) \<noteq> Match_Panic" for m
    using no_panic [OF s] first_hit_split [of "attempt (findChild m n) []" "cands path" Match_Panic]
    unfolding n [symmetric] by (metis in_set_conv_decomp match_result.distinct(3))
  then have "matching_keys (nd_children n) path = Some {m. \<exists>c. (m, c) \<in> set (nd_children n) \<and> matchPath (Some c) path [] \<noteq> No_Match}"
    by (intro matching_keys_Some) (metis matchPath_first_hit tidy_children [OF tn])
  moreover have "(\<exists>c. (m, c) \<in> set (nd_children n) \<and> matchPath (Some c) path [] \<noteq> No_Match)
      \<longleftrightarrow> m \<noteq> '''' \<and> first_hit (attempt (node_at (Some rt) [host, m]) []) (cands path) \<noteq> No_Match" for m
    unfolding n tidy_children [OF tn] matchPath_first_hit [symmetric] by (cases "findChild m n") auto
  ultimately show ?thesis using Some by (simp add: matchingMethodsPath_def)
qed

text \<open>A method has a hit for some pattern of the host.\<close>

lemma method_hit:
  assumes s: "serves R rt" and good: "good_path path" and host: "host' \<in> set (hosts_of host)"
  shows "first_hit (attempt (node_at (Some rt) [host', m]) []) (cands path) \<noteq> No_Match
    \<longleftrightarrow> (\<exists>(q, g)\<in>R. pat_host q = host' \<and> pat_method q = m \<and> path_parts path \<in> path_set (pat_segments q))"
proof
  assume "first_hit (attempt (node_at (Some rt) [host', m]) []) (cands path) \<noteq> No_Match"
  then obtain e where e: "e \<in> set (cands path)" "attempt (node_at (Some rt) [host', m]) [] e \<noteq> No_Match"
    unfolding first_hit_No_Match by blast
  obtain ks cs v where ks: "e = (ks, cs, v)" by (cases e)
  obtain p h vs where "attempt (node_at (Some rt) [host', m]) [] e = Matched p h vs"
    using e(2) no_panic [OF s e(1)] by (cases "attempt (node_at (Some rt) [host', m]) [] e") auto
  moreover have "m \<in> set (methods_of m)" by (simp add: methods_of_def)
  ultimately show "\<exists>(q, g)\<in>R. pat_host q = host' \<and> pat_method q = m \<and> path_parts path \<in> path_set (pat_segments q)"
    using hit_handles [OF s e(1) [unfolded ks] good host _ , of m m p h vs] unfolding ks by (auto simp: handles_def request_set_def)
next
  assume "\<exists>(q, g)\<in>R. pat_host q = host' \<and> pat_method q = m \<and> path_parts path \<in> path_set (pat_segments q)"
  then obtain q g where q: "(q, g) \<in> R" "pat_host q = host'" "pat_method q = m" "path_parts path \<in> path_set (pat_segments q)" by blast
  then have "handles q host' m path" by (simp add: handles_def request_set_def method_set_mem)
  then obtain cs v where "(map seg_key (pat_segments q), cs, v) \<in> set (cands path)"
    "attempt (node_at (Some rt) [host', m]) [] (map seg_key (pat_segments q), cs, v) = Matched q g (captures (pat_segments q) path)"
    using handles_hit [OF s q(1) _ good, of host' m] q(2,3) by metis
  then show "first_hit (attempt (node_at (Some rt) [host', m]) []) (cands path) \<noteq> No_Match"
    unfolding first_hit_No_Match by (metis match_result.distinct(1))
qed

definition mux_ok :: "(pattern \<times> 'h) set \<Rightarrow> 'h ServeMux \<Rightarrow> bool" where
  "mux_ok R mux \<longleftrightarrow> mux_holds R mux \<and> finite R \<and> tidy (mux_tree mux)"

lemma mux_ok_new: "mux_ok {} NewServeMux"
proof -
  have "tidy (mux_tree NewServeMux)" by (simp add: NewServeMux_def tidy_empty)
  then show ?thesis by (simp add: mux_ok_def mux_holds_new)
qed

lemma mux_ok_register:
  assumes "mux_ok R mux" "parsePattern tb s = Inr p" "routable p" "\<forall>x\<in>R. \<not> conflictsWith p (fst x)"
  shows "\<exists>mux'. registerErr tb mux s h = Inr mux' \<and> mux_ok (insert (p, h) R) mux'"
proof -
  have m: "mux_holds R mux" using assms(1) by (simp add: mux_ok_def)
  have r: "routable q" if "parsePattern tb s = Inr q" for q using that assms(2,3) by simp
  have s: "s \<noteq> ''''" using assms(2) by (auto simp: parsePattern_def)
  note c = registerErr_cases [OF m, of tb s h, OF r]
  obtain mux' where "registerErr tb mux s h = Inr mux'" "mux_holds (insert (p, h) R) mux'"
  proof (cases "registerErr tb mux s h")
    case (Inl e)
    then show ?thesis using c s assms(2,4) by auto
  next
    case (Inr mux')
    then show ?thesis using c that assms(2) by auto
  qed
  then show ?thesis using tidy_registerErr [of tb mux s h mux'] assms(1) by (auto simp: mux_ok_def)
qed

definition route_methods :: "(pattern \<times> 'h) set \<Rightarrow> string \<Rightarrow> string \<Rightarrow> string set" where
  "route_methods R host path =
     {m. m \<noteq> '''' \<and> (\<exists>x\<in>R. pat_host (fst x) = host \<and> pat_method (fst x) = m \<and> path_parts path \<in> path_set (pat_segments (fst x)))}"

definition with_head :: "string set \<Rightarrow> string set" where
  "with_head S = (if ''GET'' \<in> S then insert ''HEAD'' S else S)"

definition allowed_methods :: "(pattern \<times> 'h) set \<Rightarrow> string \<Rightarrow> string \<Rightarrow> string set" where
  "allowed_methods R host path = {m. \<exists>x\<in>R. handles (fst x) host m path}"

lemma matchingMethods_plain:
  assumes ok: "mux_ok R mux" and p: "plain R" and good: "good_path path"
  shows "matchingMethods mux host path = Some (sorted_list_of_set (with_head (route_methods R host path \<union> route_methods R '''' path)))"
proof -
  have s: "serves R (mux_tree mux)" and t: "tidy (mux_tree mux)" using ok by (simp_all add: mux_ok_def mux_holds_def)
  have nd: "nd_empty (mux_tree mux) = findChild '''' (mux_tree mux)" by (simp add: findChild_def)
  have hit: "matchingMethodsPath (findChild h (mux_tree mux)) path = Some (route_methods R h path)" if "h \<in> set (hosts_of host)" for h
    unfolding matchingMethodsPath_Some [OF s t] method_hit [OF s good that] route_methods_def by (simp add: split_beta)
  have "first_hit (attempt (node_at (Some (mux_tree mux)) [h, m]) []) (cands (path @ ''/'')) = No_Match" for h m
    unfolding first_hit_No_Match using plain_slash [OF s p, of "path @ ''/''"] by simp
  then have none: "matchingMethodsPath (findChild h (mux_tree mux)) (path @ ''/'') = Some {}" for h
    by (simp add: matchingMethodsPath_Some [OF s t])
  have hosts: "'''' \<in> set (hosts_of host)" "host \<in> set (hosts_of host)" by (simp_all add: hosts_of_def)
  have "tree_matchingMethods (mux_tree mux) host path {} = Some (with_head (route_methods R host path \<union> route_methods R '''' path))"
    unfolding tree_matchingMethods_def nd hit [OF hosts(1)] hit [OF hosts(2)] by (simp add: with_head_def Let_def)
  moreover have "tree_matchingMethods (mux_tree mux) host (path @ ''/'') S = Some (with_head S)" for S
    unfolding tree_matchingMethods_def nd none by (simp add: with_head_def Let_def)
  ultimately show ?thesis by (simp add: matchingMethods_def with_head_def)
qed

lemma allowed_methods_eq:
  assumes "\<forall>(q, g)\<in>R. \<not> handles q host method path"
  shows "with_head (route_methods R host path \<union> route_methods R '''' path) = allowed_methods R host path"
proof -
  let ?S = "route_methods R host path \<union> route_methods R '''' path"
  have ne: "pat_method (fst x) \<noteq> ''''"
    if "x \<in> R" "pat_host (fst x) = '''' \<or> pat_host (fst x) = host" "path_parts path \<in> path_set (pat_segments (fst x))" for x
    using that assms by (auto simp: handles_def request_set_def method_set_mem)
  have S: "m \<in> ?S \<longleftrightarrow> (\<exists>x\<in>R. (pat_host (fst x) = '''' \<or> pat_host (fst x) = host) \<and> pat_method (fst x) = m \<and> path_parts path \<in> path_set (pat_segments (fst x)))"
    for m using ne by (auto simp: route_methods_def)
  have A: "m \<in> allowed_methods R host path \<longleftrightarrow> m \<in> ?S \<or> m = ''HEAD'' \<and> ''GET'' \<in> ?S" for m
    unfolding S allowed_methods_def handles_def request_set_def using ne by (auto simp: method_set_mem)
  show ?thesis by (rule set_eqI) (simp only: A with_head_def insert_iff split: if_split, blast)
qed

lemma finite_allowed: "finite R \<Longrightarrow> finite (with_head (route_methods R host path \<union> route_methods R '''' path))"
proof -
  assume "finite R"
  then have "finite ((\<lambda>x. pat_method (fst x)) ` R)" by simp
  moreover have "with_head (route_methods R host path \<union> route_methods R '''' path) \<subseteq> insert ''HEAD'' ((\<lambda>x. pat_method (fst x)) ` R)"
    by (auto simp: with_head_def route_methods_def image_iff)
  ultimately show ?thesis by (meson finite_insert finite_subset)
qed

lemma findHandler_clean:
  assumes ok: "mux_ok R mux" and p: "plain R" and r: "rq_Method r \<noteq> ''CONNECT''"
    and path: "EscapedPath (rq_URL r) = path" "cleanPath path = path" "good_path path" and host: "stripHostPort (rq_Host r) = host"
  shows "case findHandler mux r of
      Found_Handler h p vs \<Rightarrow> (p, h) \<in> R \<and> handles p host (rq_Method r) path \<and> vs = captures (pat_segments p) path
        \<and> (\<forall>(q, g)\<in>R. handles q host (rq_Method r) path \<longrightarrow> takes_precedence p q)
    | Method_Not_Allowed ms \<Rightarrow> (\<forall>(q, g)\<in>R. \<not> handles q host (rq_Method r) path)
        \<and> allowed_methods R host path \<noteq> {} \<and> ms = sorted_list_of_set (allowed_methods R host path)
    | No_Handler \<Rightarrow> allowed_methods R host path = {}
    | _ \<Rightarrow> False"
proof -
  have s: "serves R (mux_tree mux)" using ok by (simp add: mux_ok_def mux_holds_def)
  let ?n = "search (mux_tree mux) host (rq_Method r) path"
  have f: "findHandler mux r = no_match_found mux host path ?n"
    using r path host search_no_panic [OF s]
    by (simp add: findHandler_def plain_matchOrRedirect [OF s p] Let_def split: match_result.split)
  note n = search_serves [OF s path(3), of host "rq_Method r"]
  show ?thesis
  proof (cases ?n)
    case No_Match
    then have none: "\<forall>(q, g)\<in>R. \<not> handles q host (rq_Method r) path" using n by simp
    note m = matchingMethods_plain [OF ok p path(3), of host, unfolded allowed_methods_eq [OF none]]
    have "finite (allowed_methods R host path)"
      using finite_allowed [of R host path] ok unfolding allowed_methods_eq [OF none] by (simp add: mux_ok_def)
    then show ?thesis using none No_Match unfolding f no_match_found_def by (auto simp: m card_gt_0_iff)
  next
    case (Matched p h vs)
    then show ?thesis using n by (simp add: f no_match_found_def)
  next
    case Match_Panic
    then show ?thesis using search_no_panic [OF s] by blast
  qed
qed

lemma findHandler_unclean:
  assumes ok: "mux_ok R mux" and p: "plain R" and r: "rq_Method r \<noteq> ''CONNECT''"
    and path: "cleanPath (EscapedPath (rq_URL r)) \<noteq> EscapedPath (rq_URL r)"
  shows "findHandler mux r = Redirect_Handler \<lparr>url_Host = '''', url_Path = cleanPath (EscapedPath (rq_URL r)), url_RawPath = '''', url_RawQuery = url_RawQuery (rq_URL r)\<rparr>"
proof -
  have s: "serves R (mux_tree mux)" using ok by (simp add: mux_ok_def mux_holds_def)
  show ?thesis using r path search_no_panic [OF s]
    by (simp add: findHandler_def plain_matchOrRedirect [OF s p] Let_def split: match_result.split)
qed


end
