(* ===== verification/Atomic_Write.thy ===== *)
theory Atomic_Write
  imports Store
begin

text \<open>
  \<open>atomicWriteJSON\<close> one system call at a time. The states between the calls are what a crash can leave; the relation lets every
  call fail and every write stop after any number of bytes. Each complete run of \<open>atomicWriteJSON\<close> is a sequence
  of these steps.
\<close>

datatype write_pc = Write_Start | Writing nat | Write_Closed | Write_Cleanup | Write_Done | Write_Failed

type_synonym write_state = "write_pc \<times> file_system"

inductive write_step :: "string \<Rightarrow> string \<Rightarrow> write_state \<Rightarrow> write_state \<Rightarrow> bool" for final b where
  create: "\<not> fs_is_dir fs (final @ ''.tmp'') \<Longrightarrow>
    write_step final b (Write_Start, fs) (Writing 0, fs_put fs (final @ ''.tmp'') '''')"
| create_fails: "write_step final b (Write_Start, fs) (Write_Failed, fs)"
| write_some: "k \<le> m \<Longrightarrow> m \<le> length b \<Longrightarrow>
    write_step final b (Writing k, fs) (Writing m, fs_put fs (final @ ''.tmp'') (take m b))"
| write_fails: "write_step final b (Writing k, fs) (Write_Failed, fs)"
| close: "write_step final b (Writing (length b), fs) (Write_Closed, fs)"
| rename: "fs_lookup fs (final @ ''.tmp'') = Some c \<Longrightarrow> \<not> fs_is_dir fs final \<Longrightarrow>
    write_step final b (Write_Closed, fs) (Write_Done, fs_put (fs_delete fs (final @ ''.tmp'')) final c)"
| rename_fails: "write_step final b (Write_Closed, fs) (Write_Cleanup, fs)"
| remove: "write_step final b (Write_Cleanup, fs) (Write_Failed, fs_delete fs (final @ ''.tmp''))"
| remove_fails: "write_step final b (Write_Cleanup, fs) (Write_Failed, fs)"

inductive_cases write_step_start: "write_step final b (Write_Start, fs) s"
inductive_cases write_step_done: "write_step final b (Write_Done, fs) s"

abbreviation write_steps :: "string \<Rightarrow> string \<Rightarrow> write_state \<Rightarrow> write_state \<Rightarrow> bool" where
  "write_steps final b \<equiv> (write_step final b)\<^sup>*\<^sup>*"

text \<open>The file is the old one until the rename, and the temporary file holds a prefix of the new bytes.\<close>

definition write_outcome :: "file_system \<Rightarrow> string \<Rightarrow> string \<Rightarrow> bool \<Rightarrow> file_system \<Rightarrow> bool" where
  "write_outcome fs final b finished fs' \<longleftrightarrow> fs_dirs fs' = fs_dirs fs \<and> (fs_ok fs \<longrightarrow> fs_ok fs')
     \<and> (\<forall>p. p \<noteq> final \<longrightarrow> p \<noteq> final @ ''.tmp'' \<longrightarrow> fs_lookup fs' p = fs_lookup fs p)
     \<and> fs_lookup fs' final = (if finished then Some b else fs_lookup fs final)"

fun tmp_holds :: "string \<Rightarrow> write_pc \<Rightarrow> string option \<Rightarrow> bool" where
  "tmp_holds b (Writing k) c = (c = Some (take k b))"
| "tmp_holds b Write_Closed c = (c = Some b)"
| "tmp_holds b Write_Done c = (c = None)"
| "tmp_holds b pc c = True"

lemma write_step_inv:
  assumes "write_step final b (pc, fs1) (pc', fs2)" "write_outcome fs final b (pc = Write_Done) fs1" "tmp_holds b pc (fs_lookup fs1 (final @ ''.tmp''))"
  shows "write_outcome fs final b (pc' = Write_Done) fs2 \<and> tmp_holds b pc' (fs_lookup fs2 (final @ ''.tmp''))"
  using assms by (cases rule: write_step.cases) (auto simp: write_outcome_def)

lemma write_steps_outcome:
  assumes "write_steps final b (Write_Start, fs) (pc, fs')"
  shows "write_outcome fs final b (pc = Write_Done) fs'" "tmp_holds b pc (fs_lookup fs' (final @ ''.tmp''))"
proof -
  have "write_outcome fs final b (fst st = Write_Done) (snd st) \<and> tmp_holds b (fst st) (fs_lookup (snd st) (final @ ''.tmp''))"
    if "write_steps final b (Write_Start, fs) st" for st
    using that
  proof (induction rule: rtranclp_induct)
    case base
    then show ?case by (simp add: write_outcome_def)
  next
    case (step y z)
    then show ?case using write_step_inv [of final b "fst y" "snd y" "fst z" "snd z" fs] by simp
  qed
  from this [OF assms] show "write_outcome fs final b (pc = Write_Done) fs'" "tmp_holds b pc (fs_lookup fs' (final @ ''.tmp''))" by simp_all
qed

subsection \<open>Complete runs\<close>

lemma fs_put_twice: "fs_put (fs_put fs p a) p b = fs_put fs p b"
  by (simp add: fs_put_def update_triv)

lemma WriteFile_steps:
  assumes w: "os_WriteFile env fs (final @ ''.tmp'') b = (fs', err)"
  shows "write_steps final b (Write_Start, fs) (if err = None then Write_Closed else Write_Failed, fs')"
proof -
  let ?tmp = "final @ ''.tmp''"
  show ?thesis
  proof (cases "fs_is_dir fs ?tmp \<or> os_fault env Sys_Create ?tmp \<noteq> None")
    case True
    then have "fs' = fs" "err \<noteq> None"
      using w by (cases "fs_is_dir fs ?tmp"; cases "os_fault env Sys_Create ?tmp"; auto simp: os_WriteFile_def)+
    then show ?thesis using write_step.create_fails [of final b fs] by auto
  next
    case False
    have c: "write_step final b (Write_Start, fs) (Writing 0, fs_put fs ?tmp '''')" using False by (intro write_step.create) simp
    have wr: "write_step final b (Writing 0, fs_put fs ?tmp '''') (Writing m, fs_put fs ?tmp (take m b))" if "m \<le> length b" for m
      using write_step.write_some [of 0 m b final "fs_put fs ?tmp ''''"] that by (simp add: fs_put_twice)
    show ?thesis
    proof (cases "os_fault env Sys_Write ?tmp")
      case (Some e)
      define m where "m = min (os_done env ?tmp) (length b)"
      have "take (os_done env ?tmp) b = take m b" by (simp add: m_def min_def)
      then have "os_WriteFile env fs ?tmp b = (fs_put fs ?tmp (take m b), Some e)" using False Some by (simp add: os_WriteFile_def)
      then have "fs' = fs_put fs ?tmp (take m b)" "err \<noteq> None" using w by simp_all
      moreover have "write_steps final b (Write_Start, fs) (Write_Failed, fs_put fs ?tmp (take m b))"
      proof -
        have "m \<le> length b" by (simp add: m_def)
        then have "write_steps final b (Write_Start, fs) (Writing m, fs_put fs ?tmp (take m b))"
          using c wr by (auto intro: converse_rtranclp_into_rtranclp)
        then show ?thesis using write_step.write_fails by (rule rtranclp.rtrancl_into_rtrancl)
      qed
      ultimately show ?thesis by auto
    next
      case None
      have e: "fs' = fs_put fs ?tmp b" "err = os_fault env Sys_Close ?tmp" using w False None by (auto simp: os_WriteFile_def split: option.splits)
      have "write_steps final b (Write_Start, fs) (Writing (length b), fs_put fs ?tmp b)"
        using c wr [of "length b"] by (auto intro: converse_rtranclp_into_rtranclp)
      then show ?thesis
        using e write_step.close [of final b "fs_put fs ?tmp b"] write_step.write_fails [of final b "length b" "fs_put fs ?tmp b"]
        by (auto intro: rtranclp.rtrancl_into_rtrancl)
    qed
  qed
qed

lemma atomicWriteJSON_steps:
  assumes m: "MarshalIndent v '''' ''  '' = Inr b" and w: "atomicWriteJSON env fs dir name v = (fs', err)"
    and final: "final = filepath_Join [dir, name]"
  shows "write_steps final b (Write_Start, fs) (if err = None then Write_Done else Write_Failed, fs')"
proof -
  obtain fs1 e1 where w1: "os_WriteFile env fs (final @ ''.tmp'') b = (fs1, e1)" by fastforce
  note s1 = WriteFile_steps [OF w1]
  show ?thesis
  proof (cases e1)
    case (Some e)
    then have "fs' = fs1" "err \<noteq> None" using w m w1 by (auto simp: atomicWriteJSON_def final [symmetric])
    then show ?thesis using s1 Some by auto
  next
    case None
    have s2: "write_steps final b (Write_Start, fs) (Write_Closed, fs1)" using s1 None by simp
    then have t: "fs_lookup fs1 (final @ ''.tmp'') = Some b" using write_steps_outcome(2) by fastforce
    show ?thesis
    proof (cases "os_Rename env fs1 (final @ ''.tmp'') final")
      case (Pair fs2 e2)
      show ?thesis
      proof (cases e2)
        case None
        have "fs2 = fs_put (fs_delete fs1 (final @ ''.tmp'')) final b" "\<not> fs_is_dir fs1 final"
          using Pair None t by (auto simp: os_Rename_def split: if_splits option.splits)
        moreover have "fs' = fs2" "err = None" using w m w1 \<open>e1 = None\<close> Pair None by (auto simp: atomicWriteJSON_def final [symmetric])
        ultimately show ?thesis using s2 write_step.rename [OF t] by (auto intro: rtranclp.rtrancl_into_rtrancl)
      next
        case (Some e)
        have "fs2 = fs1" using Pair Some t by (auto simp: os_Rename_def split: if_splits option.splits)
        then have f: "fs' = fst (os_Remove env fs1 (final @ ''.tmp''))" "err \<noteq> None"
          using w m w1 \<open>e1 = None\<close> Pair Some by (auto simp: atomicWriteJSON_def final [symmetric])
        have "write_step final b (Write_Cleanup, fs1) (Write_Failed, fs')"
          using f(1) write_step.remove [of final b fs1] write_step.remove_fails [of final b fs1] by (auto simp: os_Remove_def split: option.splits)
        moreover have "write_steps final b (Write_Start, fs) (Write_Cleanup, fs1)"
          using s2 write_step.rename_fails [of final b fs1] by (rule rtranclp.rtrancl_into_rtrancl)
        ultimately show ?thesis using f(2) by (auto intro: rtranclp.rtrancl_into_rtrancl)
      qed
    qed
  qed
qed

lemma atomicWriteJSON_outcome:
  assumes "MarshalIndent v '''' ''  '' = Inr b" "atomicWriteJSON env fs dir name v = (fs', err)" "final = filepath_Join [dir, name]"
  shows "write_outcome fs final b (err = None) fs'"
  using write_steps_outcome(1) [OF atomicWriteJSON_steps [OF assms]] by (cases err) simp_all

text \<open>A write succeeds when the kernel refuses none of its calls and neither path is a directory.\<close>

lemma atomicWriteJSON_succeeds:
  assumes "MarshalIndent v '''' ''  '' = Inr b" "final = filepath_Join [dir, name]"
    "quiet env final" "quiet env (final @ ''.tmp'')" "\<not> fs_is_dir fs final" "\<not> fs_is_dir fs (final @ ''.tmp'')"
  shows "snd (atomicWriteJSON env fs dir name v) = None"
  using assms by (simp add: atomicWriteJSON_def os_WriteFile_def os_Rename_def quiet_def Let_def)

end
