(* ===== verification/Store_Files.thy ===== *)
theory Store_Files
  imports Atomic_Write
begin

text \<open>
  What one record file does: writing it changes at most the file and its temporary companion, reading it back gives the record, and the paths of
  different records differ. The laws that the two kinds of record share are the locale \<open>record_codec\<close>.
\<close>

subsection \<open>Paths of records\<close>

definition record_path :: "string \<Rightarrow> string \<Rightarrow> string \<Rightarrow> string" where
  "record_path dir pre name = dir_part dir @ pre @ name @ ''.json''"

definition record_prefix :: "string \<Rightarrow> bool" where
  "record_prefix pre \<longleftrightarrow> pre \<in> {''recipe_'', ''cycle_''}"

lemma record_prefix_chars:
  assumes "record_prefix pre"
  shows "pre \<noteq> []" "list_all literal_char pre" "CHR ''/'' \<notin> set pre" "CHR ''.'' \<notin> set pre"
  using assms by (auto simp: record_prefix_def literal_char_def)

lemma checkName_sep: "checkName name = Inr () \<Longrightarrow> CHR ''/'' \<notin> set name"
  using name_bytes [of name] by (auto simp: checkName_def list_all_iff name_byte_def name_rune_def byte_def split: if_splits)

lemma checkName_string: "checkName name = Inr () \<Longrightarrow> name_string name"
  by (auto simp: checkName_def nameRe_MatchString_def name_string_def split: if_splits)

lemma file_name_record:
  assumes "record_prefix pre" "CHR ''/'' \<notin> set name"
  shows "file_name (pre @ name @ ''.json'')"
  using record_prefix_chars [OF assms(1)] assms(2) by (auto simp: file_name_def append_eq_Cons_conv)

lemma Join_record:
  "record_prefix pre \<Longrightarrow> CHR ''/'' \<notin> set name \<Longrightarrow> filepath_Join [dir, pre @ name @ ''.json''] = record_path dir pre name"
  using Join_file [OF file_name_record] by (simp add: record_path_def)

lemma record_path_inject:
  assumes "record_prefix pre" "record_prefix pre'"
  shows "record_path dir pre n = record_path dir pre' n' \<longleftrightarrow> pre = pre' \<and> n = n'"
  using assms by (auto simp: record_path_def record_prefix_def)

lemma record_path_tmp: "record_path dir pre n \<noteq> record_path dir pre' n' @ ''.tmp''"
proof
  assume "record_path dir pre n = record_path dir pre' n' @ ''.tmp''"
  then have "rev (record_path dir pre n) = rev (record_path dir pre' n' @ ''.tmp'')" by simp
  then show False by (simp add: record_path_def)
qed

subsection \<open>The laws of a kind of record\<close>

definition same_shape :: "go_struct \<Rightarrow> go_struct \<Rightarrow> bool" where
  "same_shape = list_all2 (\<lambda>(k, v) (k', w). k = k' \<and> same_kind v w)"

text \<open>The record that a file holds, as \<open>readJSONFile\<close> would decode it.\<close>

definition stored :: "string \<Rightarrow> go_struct \<Rightarrow> (go_struct \<Rightarrow> 'r) \<Rightarrow> string \<Rightarrow> file_system \<Rightarrow> string \<Rightarrow> 'r option" where
  "stored pre v0 dec dir fs name =
     (case fs_lookup fs (record_path dir pre name) of
        None \<Rightarrow> None
      | Some b \<Rightarrow> (case Unmarshal b v0 of (None, v) \<Rightarrow> Some (dec v) | (Some e, v) \<Rightarrow> None))"

text \<open>Every file of a kind in the directory holds a valid record under its own name.\<close>

definition files_ok :: "string \<Rightarrow> ('r \<Rightarrow> go_struct) \<Rightarrow> 'r \<Rightarrow> ('r \<Rightarrow> string) \<Rightarrow> ('r \<Rightarrow> bool) \<Rightarrow> string \<Rightarrow> file_system \<Rightarrow> bool" where
  "files_ok pre enc zero key valid dir fs \<longleftrightarrow> (\<forall>n b. CHR ''/'' \<notin> set n \<longrightarrow> fs_lookup fs (record_path dir pre n) = Some b \<longrightarrow>
     checkName n = Inr () \<and> (\<exists>r. Unmarshal b (enc zero) = (None, enc r) \<and> valid r \<and> key r = n))"

locale record_codec =
  fixes pre :: string and enc :: "'r \<Rightarrow> go_struct" and dec :: "go_struct \<Rightarrow> 'r" and zero :: 'r
    and key :: "'r \<Rightarrow> string" and valid :: "'r \<Rightarrow> bool"
  assumes prefix: "record_prefix pre"
    and dec_enc: "dec (enc r) = r"
    and shape: "same_shape (enc zero) (enc r)"
    and plain: "valid r \<Longrightarrow> checkName (key r) = Inr () \<Longrightarrow> plain_struct (enc r)"
begin

lemma codec:
  assumes "valid r" "checkName (key r) = Inr ()"
  obtains b where "MarshalIndent (json_struct (enc r)) '''' ''  '' = Inr b" "Unmarshal b (enc zero) = (None, enc r)"
  using Unmarshal_MarshalIndent [OF plain [OF assms]] shape [of r] by (auto simp: same_shape_def)

abbreviation save :: "os_env \<Rightarrow> file_system \<Rightarrow> string \<Rightarrow> 'r \<Rightarrow> file_system \<times> go_error option" where
  "save env fs dir r \<equiv> atomicWriteJSON env fs dir (pre @ key r @ ''.json'') (json_struct (enc r))"

text \<open>What a write of the file of \<open>r\<close> leaves, finished or not.\<close>

definition outcome :: "file_system \<Rightarrow> string \<Rightarrow> 'r \<Rightarrow> bool \<Rightarrow> file_system \<Rightarrow> bool" where
  "outcome fs dir r finished fs' \<longleftrightarrow> (\<exists>b. Unmarshal b (enc zero) = (None, enc r)
     \<and> write_outcome fs (record_path dir pre (key r)) b finished fs')"

lemma steps_outcome:
  assumes r: "valid r" "checkName (key r) = Inr ()" and b: "MarshalIndent (json_struct (enc r)) '''' ''  '' = Inr b"
    and w: "write_steps (record_path dir pre (key r)) b (Write_Start, fs) (pc, fs')"
  shows "outcome fs dir r (pc = Write_Done) fs'"
  using codec [OF r] b write_steps_outcome(1) [OF w] unfolding outcome_def by (metis sum.inject(2))

lemma save_outcome:
  assumes r: "valid r" "checkName (key r) = Inr ()" and w: "save env fs dir r = (fs', err)"
  shows "outcome fs dir r (err = None) fs'"
proof -
  obtain b where b: "MarshalIndent (json_struct (enc r)) '''' ''  '' = Inr b" "Unmarshal b (enc zero) = (None, enc r)"
    using codec [OF r] .
  have "write_outcome fs (record_path dir pre (key r)) b (err = None) fs'"
    by (rule atomicWriteJSON_outcome [OF b(1) w Join_record [OF prefix checkName_sep [OF r(2)], symmetric]])
  then show ?thesis using b(2) by (auto simp: outcome_def)
qed

lemma outcome_lookup:
  assumes "outcome fs dir r finished fs'" "record_prefix pre'"
  shows "pre' \<noteq> pre \<or> n \<noteq> key r \<or> \<not> finished \<Longrightarrow> fs_lookup fs' (record_path dir pre' n) = fs_lookup fs (record_path dir pre' n)"
    and "finished \<Longrightarrow> \<exists>b. fs_lookup fs' (record_path dir pre (key r)) = Some b \<and> Unmarshal b (enc zero) = (None, enc r)"
proof -
  obtain b where b: "Unmarshal b (enc zero) = (None, enc r)" "write_outcome fs (record_path dir pre (key r)) b finished fs'"
    using assms(1) by (auto simp: outcome_def)
  show "fs_lookup fs' (record_path dir pre' n) = fs_lookup fs (record_path dir pre' n)" if n: "pre' \<noteq> pre \<or> n \<noteq> key r \<or> \<not> finished"
  proof (cases "pre' = pre \<and> n = key r")
    case True
    then show ?thesis using n b(2) by (simp add: write_outcome_def)
  next
    case False
    then have "record_path dir pre' n \<noteq> record_path dir pre (key r)" using record_path_inject [OF assms(2) prefix] by auto
    then show ?thesis using b(2) record_path_tmp by (simp add: write_outcome_def)
  qed
  show "finished \<Longrightarrow> \<exists>b. fs_lookup fs' (record_path dir pre (key r)) = Some b \<and> Unmarshal b (enc zero) = (None, enc r)"
    using b by (simp add: write_outcome_def)
qed

lemma outcome_stored:
  assumes "outcome fs dir r finished fs'"
  shows "stored pre (enc zero) dec dir fs' = (if finished then (stored pre (enc zero) dec dir fs)(key r \<mapsto> r) else stored pre (enc zero) dec dir fs)"
proof
  fix n
  show "stored pre (enc zero) dec dir fs' n
    = (if finished then (stored pre (enc zero) dec dir fs)(key r \<mapsto> r) else stored pre (enc zero) dec dir fs) n"
    using outcome_lookup(1) [OF assms prefix, of n] outcome_lookup(2) [OF assms prefix] by (cases "n = key r \<and> finished") (auto simp: stored_def dec_enc)
qed

lemma outcome_files_ok:
  assumes o: "outcome fs dir r finished fs'" and r: "valid r" "checkName (key r) = Inr ()" and ok: "files_ok pre enc zero key valid dir fs"
  shows "files_ok pre enc zero key valid dir fs'"
  unfolding files_ok_def
proof (intro allI impI)
  fix n b
  assume n: "CHR ''/'' \<notin> set n" and b: "fs_lookup fs' (record_path dir pre n) = Some b"
  show "checkName n = Inr () \<and> (\<exists>r. Unmarshal b (enc zero) = (None, enc r) \<and> valid r \<and> key r = n)"
  proof (cases "n = key r \<and> finished")
    case True
    then show ?thesis using outcome_lookup(2) [OF o prefix] b r by auto
  next
    case False
    then have "fs_lookup fs (record_path dir pre n) = Some b" using outcome_lookup(1) [OF o prefix, of n] b by auto
    then show ?thesis using ok n by (auto simp: files_ok_def)
  qed
qed

text \<open>A record that was saved is what the next read returns, whatever else the directory holds.\<close>

lemma save_read:
  assumes r: "valid r" "checkName (key r) = Inr ()" and w: "save env fs dir r = (fs', None)" and q: "quiet env' (record_path dir pre (key r))"
  shows "readJSONFile env' fs' dir (pre @ key r @ ''.json'') (enc zero) = (None, enc r)"
proof -
  obtain b where "fs_lookup fs' (record_path dir pre (key r)) = Some b" "Unmarshal b (enc zero) = (None, enc r)"
    using outcome_lookup(2) [OF save_outcome [OF r w] prefix] by auto
  then show ?thesis
    using q Join_record [OF prefix checkName_sep [OF r(2)], of dir] by (simp add: readJSONFile_def os_ReadFile_def quiet_def)
qed

lemma save_succeeds:
  assumes r: "valid r" "checkName (key r) = Inr ()"
    and q: "quiet env (record_path dir pre (key r))" "quiet env (record_path dir pre (key r) @ ''.tmp'')"
    and d: "\<not> fs_is_dir fs (record_path dir pre (key r))" "\<not> fs_is_dir fs (record_path dir pre (key r) @ ''.tmp'')"
  shows "\<exists>fs'. save env fs dir r = (fs', None)"
proof -
  obtain b where b: "MarshalIndent (json_struct (enc r)) '''' ''  '' = Inr b" using codec [OF r] by blast
  have "snd (save env fs dir r) = None"
    by (rule atomicWriteJSON_succeeds [OF b Join_record [OF prefix checkName_sep [OF r(2)], symmetric] q d])
  then show ?thesis by (metis prod.collapse)
qed

lemma read_stored:
  assumes "CHR ''/'' \<notin> set n" "quiet env (record_path dir pre n)" "\<not> fs_is_dir fs (record_path dir pre n)"
  shows "readJSONFile env fs dir (pre @ n @ ''.json'') (enc zero) =
    (case fs_lookup fs (record_path dir pre n) of
       None \<Rightarrow> (Some ErrNotExist, enc zero)
     | Some b \<Rightarrow> (case Unmarshal b (enc zero) of (Some e, v) \<Rightarrow> (Some (Json_Parse (pre @ n @ ''.json'') e), v) | (None, v) \<Rightarrow> (None, v)))"
  using assms Join_record [OF prefix assms(1), of dir] Base_dir [OF file_name_record [OF prefix assms(1)], of dir]
  by (simp add: readJSONFile_def os_ReadFile_def quiet_def record_path_def split: option.splits prod.splits)

end

subsection \<open>Listing\<close>

context record_codec
begin

lemma prefix_le: "(p @ xs :: string) \<le> p @ ys \<longleftrightarrow> xs \<le> ys"
  by (induction p) auto

lemma sorted_prefix: "sorted (map (\<lambda>x. p @ f x :: string) xs) \<longleftrightarrow> sorted (map f xs)"
  by (simp add: sorted_map prefix_le)

lemma record_path_clean: "CHR ''/'' \<notin> set n \<Longrightarrow> Clean (record_path dir pre n) = record_path dir pre n"
  using Clean_idem [of "path_join [dir, pre @ n @ ''.json'']"] Join_record [OF prefix, of n dir] Clean_idem [of "pre @ n @ ''.json''"]
  by (cases "dir = ''''") (auto simp: filepath_Join_def record_prefix_chars [OF prefix] split: if_splits)

lemma distinct_records:
  assumes ok: "fs_ok fs" and nd: "\<And>n. CHR ''/'' \<notin> set n \<Longrightarrow> \<not> fs_is_dir fs (record_path dir pre n)"
  shows "distinct (filter (\<lambda>n. \<exists>mid. n = pre @ mid @ ''.json'') (dir_names fs (Clean dir)))"
proof -
  define C where "C p \<longleftrightarrow> file_name (filepath_Base p) \<and> filepath_Join [Clean dir, filepath_Base p] = p" for p
  define P where "P n \<longleftrightarrow> (\<exists>mid. n = pre @ mid @ ''.json'')" for n
  have e: "dir_names fs (Clean dir) = map filepath_Base (filter C (map fst (fs_files fs))) @ map filepath_Base (filter C (fs_dirs fs))"
    by (simp add: dir_names_def C_def [abs_def])
  have no: "\<not> P (filepath_Base p)" if p: "C p" "p \<in> set (fs_dirs fs)" for p
  proof
    assume "P (filepath_Base p)"
    then obtain mid where m: "filepath_Base p = pre @ mid @ ''.json''" by (auto simp: P_def)
    have "CHR ''/'' \<notin> set mid" "p = record_path dir pre mid"
      using p(1) m Join_file [of "filepath_Base p" "Clean dir"] by (auto simp: C_def file_name_def record_path_def dir_part_Clean)
    then show False using nd [of mid] p(2) by (simp add: fs_is_dir_def record_path_clean)
  qed
  have "inj_on filepath_Base {p. C p}" by (rule inj_onI) (metis C_def mem_Collect_eq)
  then have "distinct (map filepath_Base (filter C (map fst (fs_files fs))))"
    using ok by (auto simp: distinct_map fs_ok_def intro: inj_on_subset)
  moreover have "filter P (map filepath_Base (filter C (fs_dirs fs))) = []" using no by (auto simp: filter_empty_conv)
  ultimately show ?thesis unfolding e P_def [symmetric] by simp
qed

lemma read_all_stored:
  assumes "\<And>n. n \<in> set ns \<Longrightarrow> \<exists>b r. fs_lookup fs (record_path dir pre n) = Some b \<and> Unmarshal b (enc zero) = (None, enc r)"
    "\<And>p. quiet env p"
  shows "map dec (read_all env fs (enc zero) (map (record_path dir pre) ns)) = map (\<lambda>n. the (stored pre (enc zero) dec dir fs n)) ns"
  using assms(1)
proof (induction ns)
  case (Cons n ns)
  obtain b r where "fs_lookup fs (record_path dir pre n) = Some b" "Unmarshal b (enc zero) = (None, enc r)" using Cons(2) [of n] by auto
  then show ?case using Cons assms(2) by (simp add: readJSONFile_def os_ReadFile_def quiet_def stored_def dec_enc)
qed simp

lemma list_stored:
  assumes ok: "fs_ok fs" "files_ok pre enc zero key valid dir fs" and nd: "\<And>n. CHR ''/'' \<notin> set n \<Longrightarrow> \<not> fs_is_dir fs (record_path dir pre n)"
    and dir: "\<not> hasMeta (Clean dir)" "fs_is_dir fs dir" and q: "\<And>p. quiet env p"
  shows "\<exists>ns files. Glob env fs (filepath_Join [dir, pre @ ''*'' @ ''.json'']) = Inr files
    \<and> map dec (read_all env fs (enc zero) (sort files)) = map (\<lambda>n. the (stored pre (enc zero) dec dir fs n)) ns
    \<and> distinct ns \<and> sorted (map (\<lambda>n. n @ ''.json'') ns)
    \<and> set ns = {n. checkName n = Inr () \<and> stored pre (enc zero) dec dir fs n \<noteq> None}"
proof -
  define P where "P n \<longleftrightarrow> (\<exists>mid. n = pre @ mid @ ''.json'')" for n
  define xs where "xs = filter P (sort (dir_names fs (Clean dir)))"
  have lit: "list_all literal_char ''.json''" by (simp add: literal_char_def)
  have g: "Glob env fs (filepath_Join [dir, pre @ ''*'' @ ''.json'']) = Inr (map ((@) (dir_part dir)) xs)"
    using Glob_star [OF record_prefix_chars(2) [OF prefix] lit record_prefix_chars(1) [OF prefix] _ record_prefix_chars(3) [OF prefix] _ dir q]
    by (simp add: xs_def P_def [abs_def])
  have "\<exists>ns. xs = map (\<lambda>m. pre @ m @ ''.json'') ns" unfolding ex_map_conv by (auto simp: xs_def P_def)
  then obtain ns where xs: "xs = map (\<lambda>m. pre @ m @ ''.json'') ns" by blast
  have files: "map ((@) (dir_part dir)) xs = map (record_path dir pre) ns" by (simp add: xs record_path_def)
  have "sorted xs" by (simp add: xs_def sorted_filter [of id, simplified])
  then have srt: "sorted (map (\<lambda>n. n @ ''.json'') ns)" unfolding xs by (simp add: sorted_prefix)
  then have "sorted (map (record_path dir pre) ns)"
    using sorted_prefix [of "dir_part dir @ pre" "\<lambda>n. n @ ''.json''" ns] by (simp add: record_path_def [abs_def])
  then have sf: "sort (map ((@) (dir_part dir)) xs) = map (record_path dir pre) ns" by (simp add: files sorted_sort_id)
  have "distinct (filter P (dir_names fs (Clean dir)))" using distinct_records [OF ok(1) nd] by (simp add: P_def [abs_def])
  then have "distinct xs" by (simp add: xs_def filter_sort)
  then have dist: "distinct ns" unfolding xs by (rule distinct_map [THEN iffD1, THEN conjunct1])
  have mem: "n \<in> set ns \<longleftrightarrow> CHR ''/'' \<notin> set n \<and> fs_lookup fs (record_path dir pre n) \<noteq> None" for n
  proof -
    have "n \<in> set ns \<longleftrightarrow> pre @ n @ ''.json'' \<in> set xs" unfolding xs by auto
    also have "\<dots> \<longleftrightarrow> file_name (pre @ n @ ''.json'') \<and> record_path dir pre n \<in> dom (fs_lookup fs) \<union> set (fs_dirs fs)"
      by (auto simp: xs_def P_def dir_names_iff dir_part_Clean record_path_def)
    also have "\<dots> \<longleftrightarrow> CHR ''/'' \<notin> set n \<and> fs_lookup fs (record_path dir pre n) \<noteq> None"
      using file_name_record [OF prefix, of n] nd [of n] record_path_clean [of n dir] by (auto simp: file_name_def fs_is_dir_def)
    finally show ?thesis .
  qed
  have st: "\<exists>b r. fs_lookup fs (record_path dir pre n) = Some b \<and> Unmarshal b (enc zero) = (None, enc r)" "checkName n = Inr ()"
    if n: "n \<in> set ns" for n using n ok(2) mem by (fastforce simp: files_ok_def)+
  have "set ns = {n. checkName n = Inr () \<and> stored pre (enc zero) dec dir fs n \<noteq> None}"
    using mem st checkName_sep by (fastforce simp: stored_def split: option.splits)
  then show ?thesis
    using read_all_stored [of ns fs dir env] st(1) q g sf srt dist
    by (intro exI [of _ ns] exI [of _ "map ((@) (dir_part dir)) xs"]) simp
qed

lemma list_map:
  assumes ok: "fs_ok fs" "files_ok pre enc zero key valid dir fs" and nd: "\<And>n. CHR ''/'' \<notin> set n \<Longrightarrow> \<not> fs_is_dir fs (record_path dir pre n)"
    and dir: "\<not> hasMeta (Clean dir)" "fs_is_dir fs dir" and q: "\<And>p. quiet env p"
    and m: "m = (\<lambda>n. if checkName n = Inr () then stored pre (enc zero) dec dir fs n else None)"
  obtains ns files where "Glob env fs (filepath_Join [dir, pre @ ''*'' @ ''.json'']) = Inr files"
    "map dec (read_all env fs (enc zero) (sort files)) = map (\<lambda>n. the (m n)) ns"
    "distinct ns" "sorted (map (\<lambda>n. n @ ''.json'') ns)" "set ns = dom m"
proof -
  obtain ns files where l: "Glob env fs (filepath_Join [dir, pre @ ''*'' @ ''.json'']) = Inr files"
    "map dec (read_all env fs (enc zero) (sort files)) = map (\<lambda>n. the (stored pre (enc zero) dec dir fs n)) ns"
    "distinct ns" "sorted (map (\<lambda>n. n @ ''.json'') ns)"
    "set ns = {n. checkName n = Inr () \<and> stored pre (enc zero) dec dir fs n \<noteq> None}"
    using list_stored [OF ok nd dir q] by blast
  have "map (\<lambda>n. the (stored pre (enc zero) dec dir fs n)) ns = map (\<lambda>n. the (m n)) ns"
    by (rule map_cong [OF refl]) (use l(5) m in simp)
  moreover have "set ns = dom m" using l(5) m by (auto simp: dom_def)
  ultimately show thesis using that [of files ns] l by (simp only: simp_thms)
qed

end

end
