(* ===== verification/Store_Spec.thy ===== *)
theory Store_Spec
  imports Store_Files
begin

text \<open>
  The contract of the store: two finite maps from names to valid records, one of recipes and one of cycles. The laws of record files hold for both
  kinds (interpretations of \<open>record_codec\<close>); saving updates one map at one name or nothing, reading and
  listing give what the maps hold.
\<close>

subsection \<open>Both kinds of record obey the laws\<close>

lemma Recipe_Validate_ok:
  "Recipe_Validate r = Inr () \<longleftrightarrow> TrimSpace (rcp_Name r) \<noteq> [] \<and> Known (rcp_Type r) \<and> pos_finite (rcp_H r)
     \<and> pos_finite (rcp_Beta r) \<and> valof (rcp_Beta r) < 360"
  by (auto simp: Recipe_Validate_def le_iff_valof pos_finite_def)

lemma Known_name_string:
  assumes "Known t"
  shows "name_string t"
proof -
  have "key_ok Cosine" "key_ok Cycloid" "key_ok Parabolic" by code_simp+
  then show ?thesis using assms key_ok_name by (auto simp: Known_def)
qed

lemma pos_finite_finite: "pos_finite x \<Longrightarrow> is_finite x"
  by (simp add: pos_finite_def)

lemma CycleRecord_Validate_ok:
  "CycleRecord_Validate r = Inr () \<Longrightarrow> TrimSpace (cyc_Name r) \<noteq> [] \<and> config_ok (ToConfig r 1)"
  by (auto simp: CycleRecord_Validate_def Config_Validate_ok ToConfig_def split: if_splits)

lemma recipe_keys: "list_all key_ok (map fst (recipe_struct r))" "distinct (map fst (recipe_struct r))"
proof -
  have "list_all key_ok [''name'', ''type'', ''h'', ''beta_deg'']" by code_simp
  then show "list_all key_ok (map fst (recipe_struct r))" by (simp add: recipe_struct_def)
qed (simp add: recipe_struct_def)

lemma cycle_keys: "list_all key_ok (map fst (cycle_struct r))" "distinct (map fst (cycle_struct r))"
proof -
  have "list_all key_ok [''name'', ''h'', ''rise_law'', ''return_law'', ''rise_angle_deg'', ''outer_dwell_deg'', ''return_angle_deg'',
    ''inner_dwell_deg'']" by code_simp
  then show "list_all key_ok (map fst (cycle_struct r))" by (simp add: cycle_struct_def)
qed (simp add: cycle_struct_def)

interpretation recipe: record_codec "''recipe_''" recipe_struct recipe_of zero_recipe rcp_Name "\<lambda>r. Recipe_Validate r = Inr ()"
proof
  show "record_prefix ''recipe_''" by (simp add: record_prefix_def)
  show "recipe_of (recipe_struct r) = r" for r
    by (simp add: recipe_of_def recipe_struct_def string_field_def float_field_def get_field_def)
  show "same_shape (recipe_struct zero_recipe) (recipe_struct r)" for r
    by (simp add: same_shape_def recipe_struct_def)
  show "plain_struct (recipe_struct r)" if "Recipe_Validate r = Inr ()" "checkName (rcp_Name r) = Inr ()" for r
    using that recipe_keys [of r] checkName_string Known_name_string pos_finite_finite
    by (simp add: plain_struct_def Recipe_Validate_ok recipe_struct_def)
qed

interpretation cycle: record_codec "''cycle_''" cycle_struct cycle_record_of zero_cycle cyc_Name "\<lambda>r. CycleRecord_Validate r = Inr ()"
proof
  show "record_prefix ''cycle_''" by (simp add: record_prefix_def)
  show "cycle_record_of (cycle_struct r) = r" for r
    by (simp add: cycle_record_of_def cycle_struct_def string_field_def float_field_def get_field_def)
  show "same_shape (cycle_struct zero_cycle) (cycle_struct r)" for r
    by (simp add: same_shape_def cycle_struct_def)
  show "plain_struct (cycle_struct r)" if "CycleRecord_Validate r = Inr ()" "checkName (cyc_Name r) = Inr ()" for r
    using CycleRecord_Validate_ok [OF that(1)] cycle_keys [of r] checkName_string [OF that(2)] Known_name_string pos_finite_finite
    by (simp add: plain_struct_def cycle_struct_def config_ok_def ToConfig_def)
qed

subsection \<open>The maps and the invariant\<close>

definition recipes :: "store \<Rightarrow> file_system \<Rightarrow> string \<Rightarrow> recipe option" where
  "recipes s fs n =
     (if checkName n = Inr () then stored ''recipe_'' (recipe_struct zero_recipe) recipe_of (st_dir s) fs n else None)"

definition cycles :: "store \<Rightarrow> file_system \<Rightarrow> string \<Rightarrow> cycle_record option" where
  "cycles s fs n =
     (if checkName n = Inr () then stored ''cycle_'' (cycle_struct zero_cycle) cycle_record_of (st_dir s) fs n else None)"

text \<open>The paths that saving a record may write: the record file and its temporary companion.\<close>

definition record_files :: "store \<Rightarrow> string \<Rightarrow> string \<Rightarrow> string set" where
  "record_files s pre n = {record_path (st_dir s) pre n, record_path (st_dir s) pre n @ ''.tmp''}"

text \<open>
  The invariant of the data directory: every recipe or cycle file holds a valid record under its own name, and no
  record file or temporary file is a directory.
\<close>

definition store_ok :: "store \<Rightarrow> file_system \<Rightarrow> bool" where
  "store_ok s fs \<longleftrightarrow> fs_ok fs
     \<and> files_ok ''recipe_'' recipe_struct zero_recipe rcp_Name (\<lambda>r. Recipe_Validate r = Inr ()) (st_dir s) fs
     \<and> files_ok ''cycle_'' cycle_struct zero_cycle cyc_Name (\<lambda>r. CycleRecord_Validate r = Inr ()) (st_dir s) fs
     \<and> (\<forall>pre n p. record_prefix pre \<longrightarrow> CHR ''/'' \<notin> set n \<longrightarrow> p \<in> record_files s pre n \<longrightarrow> \<not> fs_is_dir fs p)"

lemma stored_cong:
  "(\<And>n. fs_lookup fs' (record_path dir pre n) = fs_lookup fs (record_path dir pre n)) \<Longrightarrow>
   stored pre v0 dec dir fs' = stored pre v0 dec dir fs"
  by (simp add: stored_def fun_eq_iff)

lemma files_ok_cong:
  "(\<And>n. fs_lookup fs' (record_path dir pre n) = fs_lookup fs (record_path dir pre n)) \<Longrightarrow>
   files_ok pre enc zero key valid dir fs \<Longrightarrow> files_ok pre enc zero key valid dir fs'"
  by (simp add: files_ok_def)

lemma is_dir_cong: "fs_dirs fs' = fs_dirs fs \<Longrightarrow> fs_is_dir fs' = fs_is_dir fs"
  by (simp add: fs_is_dir_def fun_eq_iff)

lemma SaveRecipe_rejects:
  assumes "\<not> (Recipe_Validate r = Inr () \<and> checkName (rcp_Name r) = Inr ())"
  shows "\<exists>e. SaveRecipe env s fs r = (fs, Some e)"
  using assms by (auto simp: SaveRecipe_def split: sum.splits)

lemma SaveCycle_rejects:
  assumes "\<not> (CycleRecord_Validate r = Inr () \<and> checkName (cyc_Name r) = Inr ())"
  shows "\<exists>e. SaveCycle env s fs r = (fs, Some e)"
  using assms by (auto simp: SaveCycle_def split: sum.splits)

lemma recipe_outcome:
  assumes o: "recipe.outcome fs (st_dir s) r finished fs'" and r: "Recipe_Validate r = Inr ()" "checkName (rcp_Name r) = Inr ()"
  shows "recipes s fs' = (if finished then (recipes s fs)(rcp_Name r \<mapsto> r) else recipes s fs)" "cycles s fs' = cycles s fs"
    "store_ok s fs \<Longrightarrow> store_ok s fs'" "p \<notin> record_files s ''recipe_'' (rcp_Name r) \<Longrightarrow> fs_lookup fs' p = fs_lookup fs p"
    "fs_dirs fs' = fs_dirs fs"
proof -
  have other: "fs_lookup fs' (record_path (st_dir s) ''cycle_'' n) = fs_lookup fs (record_path (st_dir s) ''cycle_'' n)" for n
    by (rule recipe.outcome_lookup(1) [OF o cycle.prefix]) simp
  have w: "fs_dirs fs' = fs_dirs fs" "fs_ok fs \<Longrightarrow> fs_ok fs'" "p \<notin> record_files s ''recipe_'' (rcp_Name r) \<Longrightarrow> fs_lookup fs' p = fs_lookup fs p"
    using o by (auto simp: recipe.outcome_def write_outcome_def record_files_def)
  show "recipes s fs' = (if finished then (recipes s fs)(rcp_Name r \<mapsto> r) else recipes s fs)"
    using r(2) by (auto simp: recipes_def recipe.outcome_stored [OF o] fun_eq_iff)
  show "cycles s fs' = cycles s fs" by (rule ext) (simp add: cycles_def stored_cong [OF other])
  show "store_ok s fs \<Longrightarrow> store_ok s fs'"
    using w(2) recipe.outcome_files_ok [OF o r] is_dir_cong [OF w(1)] by (auto simp: store_ok_def intro: files_ok_cong [OF other])
  show "p \<notin> record_files s ''recipe_'' (rcp_Name r) \<Longrightarrow> fs_lookup fs' p = fs_lookup fs p" by (rule w(3))
  show "fs_dirs fs' = fs_dirs fs" by (rule w(1))
qed

lemma SaveRecipe_outcome:
  assumes w: "SaveRecipe env s fs r = (fs', err)"
  obtains "fs' = fs" "err \<noteq> None"
  | "Recipe_Validate r = Inr ()" "checkName (rcp_Name r) = Inr ()" "recipe.outcome fs (st_dir s) r (err = None) fs'"
proof (cases "Recipe_Validate r = Inr () \<and> checkName (rcp_Name r) = Inr ()")
  case False
  then show ?thesis using SaveRecipe_rejects [OF False, of env s fs] w that(1) by auto
next
  case True
  then have r: "Recipe_Validate r = Inr ()" "checkName (rcp_Name r) = Inr ()" by auto
  show ?thesis using that(2) [OF r recipe.save_outcome [OF r]] w r by (simp add: SaveRecipe_def)
qed

lemma SaveRecipe_refines:
  assumes w: "SaveRecipe env s fs r = (fs', err)"
  shows "recipes s fs' = (if err = None then (recipes s fs)(rcp_Name r \<mapsto> r) else recipes s fs)" "cycles s fs' = cycles s fs"
    "store_ok s fs \<Longrightarrow> store_ok s fs'" "p \<notin> record_files s ''recipe_'' (rcp_Name r) \<Longrightarrow> fs_lookup fs' p = fs_lookup fs p"
    "fs_dirs fs' = fs_dirs fs" "err = None \<Longrightarrow> Recipe_Validate r = Inr () \<and> checkName (rcp_Name r) = Inr ()"
proof -
  have "(recipes s fs' = (if err = None then (recipes s fs)(rcp_Name r \<mapsto> r) else recipes s fs) \<and> cycles s fs' = cycles s fs)
    \<and> (store_ok s fs \<longrightarrow> store_ok s fs') \<and> (p \<notin> record_files s ''recipe_'' (rcp_Name r) \<longrightarrow> fs_lookup fs' p = fs_lookup fs p)
    \<and> fs_dirs fs' = fs_dirs fs \<and> (err = None \<longrightarrow> Recipe_Validate r = Inr () \<and> checkName (rcp_Name r) = Inr ())"
  proof (cases rule: SaveRecipe_outcome [OF w])
    case 2
    show ?thesis using recipe_outcome [OF 2(3,1,2)] 2(1,2) by (intro conjI impI)
  qed auto
  then show "recipes s fs' = (if err = None then (recipes s fs)(rcp_Name r \<mapsto> r) else recipes s fs)" "cycles s fs' = cycles s fs"
    "store_ok s fs \<Longrightarrow> store_ok s fs'" "p \<notin> record_files s ''recipe_'' (rcp_Name r) \<Longrightarrow> fs_lookup fs' p = fs_lookup fs p"
    "fs_dirs fs' = fs_dirs fs" "err = None \<Longrightarrow> Recipe_Validate r = Inr () \<and> checkName (rcp_Name r) = Inr ()"
    by blast+
qed

lemma cycle_outcome:
  assumes o: "cycle.outcome fs (st_dir s) r finished fs'" and r: "CycleRecord_Validate r = Inr ()" "checkName (cyc_Name r) = Inr ()"
  shows "cycles s fs' = (if finished then (cycles s fs)(cyc_Name r \<mapsto> r) else cycles s fs)" "recipes s fs' = recipes s fs"
    "store_ok s fs \<Longrightarrow> store_ok s fs'" "p \<notin> record_files s ''cycle_'' (cyc_Name r) \<Longrightarrow> fs_lookup fs' p = fs_lookup fs p"
    "fs_dirs fs' = fs_dirs fs"
proof -
  have other: "fs_lookup fs' (record_path (st_dir s) ''recipe_'' n) = fs_lookup fs (record_path (st_dir s) ''recipe_'' n)" for n
    by (rule cycle.outcome_lookup(1) [OF o recipe.prefix]) simp
  have w: "fs_dirs fs' = fs_dirs fs" "fs_ok fs \<Longrightarrow> fs_ok fs'" "p \<notin> record_files s ''cycle_'' (cyc_Name r) \<Longrightarrow> fs_lookup fs' p = fs_lookup fs p"
    using o by (auto simp: cycle.outcome_def write_outcome_def record_files_def)
  show "cycles s fs' = (if finished then (cycles s fs)(cyc_Name r \<mapsto> r) else cycles s fs)"
    using r(2) by (auto simp: cycles_def cycle.outcome_stored [OF o] fun_eq_iff)
  show "recipes s fs' = recipes s fs" by (rule ext) (simp add: recipes_def stored_cong [OF other])
  show "store_ok s fs \<Longrightarrow> store_ok s fs'"
    using w(2) cycle.outcome_files_ok [OF o r] is_dir_cong [OF w(1)] by (auto simp: store_ok_def intro: files_ok_cong [OF other])
  show "p \<notin> record_files s ''cycle_'' (cyc_Name r) \<Longrightarrow> fs_lookup fs' p = fs_lookup fs p" by (rule w(3))
  show "fs_dirs fs' = fs_dirs fs" by (rule w(1))
qed

lemma SaveCycle_outcome:
  assumes w: "SaveCycle env s fs r = (fs', err)"
  obtains "fs' = fs" "err \<noteq> None"
  | "CycleRecord_Validate r = Inr ()" "checkName (cyc_Name r) = Inr ()" "cycle.outcome fs (st_dir s) r (err = None) fs'"
proof (cases "CycleRecord_Validate r = Inr () \<and> checkName (cyc_Name r) = Inr ()")
  case False
  then show ?thesis using SaveCycle_rejects [OF False, of env s fs] w that(1) by auto
next
  case True
  then have r: "CycleRecord_Validate r = Inr ()" "checkName (cyc_Name r) = Inr ()" by auto
  show ?thesis using that(2) [OF r cycle.save_outcome [OF r]] w r by (simp add: SaveCycle_def)
qed

lemma SaveCycle_refines:
  assumes w: "SaveCycle env s fs r = (fs', err)"
  shows "cycles s fs' = (if err = None then (cycles s fs)(cyc_Name r \<mapsto> r) else cycles s fs)" "recipes s fs' = recipes s fs"
    "store_ok s fs \<Longrightarrow> store_ok s fs'" "p \<notin> record_files s ''cycle_'' (cyc_Name r) \<Longrightarrow> fs_lookup fs' p = fs_lookup fs p"
    "fs_dirs fs' = fs_dirs fs" "err = None \<Longrightarrow> CycleRecord_Validate r = Inr () \<and> checkName (cyc_Name r) = Inr ()"
proof -
  have "(cycles s fs' = (if err = None then (cycles s fs)(cyc_Name r \<mapsto> r) else cycles s fs) \<and> recipes s fs' = recipes s fs)
    \<and> (store_ok s fs \<longrightarrow> store_ok s fs') \<and> (p \<notin> record_files s ''cycle_'' (cyc_Name r) \<longrightarrow> fs_lookup fs' p = fs_lookup fs p)
    \<and> fs_dirs fs' = fs_dirs fs \<and> (err = None \<longrightarrow> CycleRecord_Validate r = Inr () \<and> checkName (cyc_Name r) = Inr ())"
  proof (cases rule: SaveCycle_outcome [OF w])
    case 2
    show ?thesis using cycle_outcome [OF 2(3,1,2)] 2(1,2) by (intro conjI impI)
  qed auto
  then show "cycles s fs' = (if err = None then (cycles s fs)(cyc_Name r \<mapsto> r) else cycles s fs)" "recipes s fs' = recipes s fs"
    "store_ok s fs \<Longrightarrow> store_ok s fs'" "p \<notin> record_files s ''cycle_'' (cyc_Name r) \<Longrightarrow> fs_lookup fs' p = fs_lookup fs p"
    "fs_dirs fs' = fs_dirs fs" "err = None \<Longrightarrow> CycleRecord_Validate r = Inr () \<and> checkName (cyc_Name r) = Inr ()"
    by blast+
qed

subsection \<open>Reading\<close>

lemma recipe_file:
  assumes "store_ok s fs" "checkName n = Inr ()" "fs_lookup fs (record_path (st_dir s) ''recipe_'' n) = Some b"
  shows "\<exists>r. Unmarshal b (recipe_struct zero_recipe) = (None, recipe_struct r) \<and> Recipe_Validate r = Inr () \<and> rcp_Name r = n"
  using assms checkName_sep [OF assms(2)] by (auto simp: store_ok_def files_ok_def)

lemma recipes_valid:
  "store_ok s fs \<Longrightarrow> recipes s fs n = Some r \<Longrightarrow> Recipe_Validate r = Inr () \<and> rcp_Name r = n \<and> checkName n = Inr ()"
  using recipe_file [of s fs n] by (fastforce simp: recipes_def stored_def recipe.dec_enc split: if_splits option.splits)

lemma GetRecipe_stored:
  assumes "store_ok s fs" "quiet env (record_path (st_dir s) ''recipe_'' n)"
  shows "GetRecipe env s fs n =
    (case checkName n of Inl e \<Rightarrow> Inl e
     | Inr _ \<Rightarrow> (case recipes s fs n of None \<Rightarrow> Inl (Not_Found Recipe_Kind n ErrNotFound) | Some r \<Rightarrow> Inr r))"
proof (cases "checkName n")
  case (Inr u)
  then have c: "checkName n = Inr ()" by simp
  then have nd: "\<not> fs_is_dir fs (record_path (st_dir s) ''recipe_'' n)"
    using assms(1) checkName_sep recipe.prefix by (auto simp: store_ok_def record_files_def)
  show ?thesis
    using recipe.read_stored [OF checkName_sep [OF c] assms(2) nd] recipe_file [OF assms(1) c] c
    by (cases "fs_lookup fs (record_path (st_dir s) ''recipe_'' n)") (auto simp: GetRecipe_def recipes_def stored_def recipe.dec_enc)
qed (simp add: GetRecipe_def)

lemma cycle_file:
  assumes "store_ok s fs" "checkName n = Inr ()" "fs_lookup fs (record_path (st_dir s) ''cycle_'' n) = Some b"
  shows "\<exists>r. Unmarshal b (cycle_struct zero_cycle) = (None, cycle_struct r) \<and> CycleRecord_Validate r = Inr () \<and> cyc_Name r = n"
  using assms checkName_sep [OF assms(2)] by (auto simp: store_ok_def files_ok_def)

lemma cycles_valid:
  "store_ok s fs \<Longrightarrow> cycles s fs n = Some r \<Longrightarrow> CycleRecord_Validate r = Inr () \<and> cyc_Name r = n \<and> checkName n = Inr ()"
  using cycle_file [of s fs n] by (fastforce simp: cycles_def stored_def cycle.dec_enc split: if_splits option.splits)

lemma GetCycle_stored:
  assumes "store_ok s fs" "quiet env (record_path (st_dir s) ''cycle_'' n)"
  shows "GetCycle env s fs n =
    (case checkName n of Inl e \<Rightarrow> Inl e
     | Inr _ \<Rightarrow> (case cycles s fs n of None \<Rightarrow> Inl (Not_Found Cycle_Kind n ErrNotFound) | Some r \<Rightarrow> Inr r))"
proof (cases "checkName n")
  case (Inr u)
  then have c: "checkName n = Inr ()" by simp
  then have nd: "\<not> fs_is_dir fs (record_path (st_dir s) ''cycle_'' n)"
    using assms(1) checkName_sep cycle.prefix by (auto simp: store_ok_def record_files_def)
  show ?thesis
    using cycle.read_stored [OF checkName_sep [OF c] assms(2) nd] cycle_file [OF assms(1) c] c
    by (cases "fs_lookup fs (record_path (st_dir s) ''cycle_'' n)") (auto simp: GetCycle_def cycles_def stored_def cycle.dec_enc)
qed (simp add: GetCycle_def)

subsection \<open>Frame\<close>

lemma record_files_dir:
  assumes "record_prefix pre" "CHR ''/'' \<notin> set n" "p \<in> record_files s pre n"
  shows "\<exists>f. file_name f \<and> p = dir_part (st_dir s) @ f"
proof -
  have f: "file_name (pre @ n @ ''.json'')" "file_name ((pre @ n @ ''.json'') @ ''.tmp'')"
    using file_name_record [OF assms(1,2)] by (auto simp: file_name_def append_eq_Cons_conv)
  then show ?thesis using assms(3) by (auto simp: record_files_def record_path_def)
qed

lemma SaveRecipe_frame:
  assumes w: "SaveRecipe env s fs r = (fs', err)" and p: "fs_lookup fs' p \<noteq> fs_lookup fs p"
  shows "(\<exists>f. file_name f \<and> p = dir_part (st_dir s) @ f) \<and> p \<in> record_files s ''recipe_'' (rcp_Name r)"
proof (cases "Recipe_Validate r = Inr () \<and> checkName (rcp_Name r) = Inr ()")
  case True
  then have "CHR ''/'' \<notin> set (rcp_Name r)" using checkName_sep by blast
  moreover have "p \<in> record_files s ''recipe_'' (rcp_Name r)" using SaveRecipe_refines(4) [OF w] p by blast
  ultimately show ?thesis using record_files_dir [OF recipe.prefix] by blast
next
  case False
  then show ?thesis using SaveRecipe_rejects [OF False, of env s fs] w p by auto
qed

lemma SaveCycle_frame:
  assumes w: "SaveCycle env s fs r = (fs', err)" and p: "fs_lookup fs' p \<noteq> fs_lookup fs p"
  shows "(\<exists>f. file_name f \<and> p = dir_part (st_dir s) @ f) \<and> p \<in> record_files s ''cycle_'' (cyc_Name r)"
proof (cases "CycleRecord_Validate r = Inr () \<and> checkName (cyc_Name r) = Inr ()")
  case True
  then have "CHR ''/'' \<notin> set (cyc_Name r)" using checkName_sep by blast
  moreover have "p \<in> record_files s ''cycle_'' (cyc_Name r)" using SaveCycle_refines(4) [OF w] p by blast
  ultimately show ?thesis using record_files_dir [OF cycle.prefix] by blast
next
  case False
  then show ?thesis using SaveCycle_rejects [OF False, of env s fs] w p by auto
qed

subsection \<open>A sample directory\<close>

definition sample_store :: store where
  "sample_store = \<lparr>st_dir = ''data''\<rparr>"

definition sample_fs :: file_system where
  "sample_fs = \<lparr>fs_files = [], fs_dirs = [''data'']\<rparr>"

definition sample_recipe :: recipe where
  "sample_recipe = \<lparr>rcp_Name = ''cycloid-lift'', rcp_Type = ''cycloid'', rcp_H = f64 10, rcp_Beta = f64 60\<rparr>"

definition sample_cycle :: cycle_record where
  "sample_cycle = \<lparr>cyc_Name = ''c1'', cyc_H = f64 10, cyc_RiseLaw = ''cycloid'', cyc_ReturnLaw = ''parabolic'', cyc_RiseAngle = f64 60,
     cyc_OuterDwell = f64 0, cyc_ReturnAngle = f64 120, cyc_InnerDwell = f64 180\<rparr>"

lemma sample_names: "checkName ''cycloid-lift'' = Inr ()" "checkName ''c1'' = Inr ()"
  "TrimSpace ''cycloid-lift'' \<noteq> ''''" "TrimSpace ''c1'' \<noteq> ''''"
  by code_simp+

lemma sample_values: "is_finite (f64 10)" "valof (f64 10) = 10" "is_finite (f64 60)" "valof (f64 60) = 60" "is_finite (f64 0)" "valof (f64 0) = 0"
  "is_finite (f64 120)" "valof (f64 120) = 120" "is_finite (f64 180)" "valof (f64 180) = 180" "is_finite (f64 1)" "valof (f64 1) = 1"
  using f64_exact [of 10] f64_exact [of 60] f64_exact [of 0] f64_exact [of 120] f64_exact [of 180] f64_exact [of 1] by simp_all

lemma sample_recipe_valid: "Recipe_Validate sample_recipe = Inr ()" "checkName (rcp_Name sample_recipe) = Inr ()"
  by (simp_all add: Recipe_Validate_ok sample_recipe_def sample_names sample_values Known_def law_names pos_finite_def)

lemma sample_cycle_valid: "CycleRecord_Validate sample_cycle = Inr ()" "checkName (cyc_Name sample_cycle) = Inr ()"
proof -
  have "CycleRecord_Validate sample_cycle = Inr ()" by code_simp
  then show "CycleRecord_Validate sample_cycle = Inr ()" .
qed (simp add: sample_cycle_def sample_names)

lemma not_dir_sample: "file_name f \<Longrightarrow> \<not> fs_is_dir sample_fs (''data/'' @ f)"
proof -
  assume f: "file_name f"
  have d: "Clean ''data'' = ''data''" "dir_part ''data'' = ''data/''" by code_simp+
  have "Clean (''data/'' @ f) = ''data/'' @ f"
    using Clean_idem [of "path_join [''data'', f]"] Join_file [OF f, of "''data''"] d by (simp add: filepath_Join_def)
  then show ?thesis using f by (auto simp: fs_is_dir_def sample_fs_def file_name_def)
qed

lemma sample_ok: "store_ok sample_store sample_fs"
proof -
  have d: "dir_part ''data'' = ''data/''" by code_simp
  have "\<not> fs_is_dir sample_fs p" if "record_prefix pre" "CHR ''/'' \<notin> set n" "p \<in> record_files sample_store pre n" for pre n p
    using record_files_dir [OF that] not_dir_sample d by (auto simp: sample_store_def)
  then show ?thesis
    by (auto simp: store_ok_def files_ok_def fs_ok_def sample_fs_def fs_lookup_def)
qed

lemma quiet_no_faults [simp]: "quiet no_faults p"
  by (simp add: quiet_def no_faults_def)

subsection \<open>Properties of the store\<close>

text \<open>
  Claim C13. The store implements two maps from names to records. Whatever the kernel does, \<open>SaveRecipe\<close> either reports success and the map
  of recipes is updated at the name of the record, which is then valid, or it reports an error and the map is as before; the map of cycles never
  changes. The invariant \<open>store_ok\<close> is kept and no file other than the record file and its
  temporary companion is touched, both of which lie directly in the data directory. The same holds for \<open>SaveCycle\<close>
  with the roles exchanged.
\<close>

theorem store_refines_maps:
  "(SaveRecipe env s fs r = (fs', err) \<longrightarrow>
      recipes s fs' = (if err = None then (recipes s fs)(rcp_Name r \<mapsto> r) else recipes s fs)
      \<and> cycles s fs' = cycles s fs \<and> (store_ok s fs \<longrightarrow> store_ok s fs')
      \<and> (err = None \<longrightarrow> Recipe_Validate r = Inr ())
      \<and> (\<forall>p. fs_lookup fs' p \<noteq> fs_lookup fs p \<longrightarrow>
           (\<exists>f. file_name f \<and> p = dir_part (st_dir s) @ f) \<and> p \<in> record_files s ''recipe_'' (rcp_Name r)))
   \<and> (SaveCycle env s fs c = (fs', err) \<longrightarrow>
      cycles s fs' = (if err = None then (cycles s fs)(cyc_Name c \<mapsto> c) else cycles s fs)
      \<and> recipes s fs' = recipes s fs \<and> (store_ok s fs \<longrightarrow> store_ok s fs')
      \<and> (err = None \<longrightarrow> CycleRecord_Validate c = Inr ())
      \<and> (\<forall>p. fs_lookup fs' p \<noteq> fs_lookup fs p \<longrightarrow>
           (\<exists>f. file_name f \<and> p = dir_part (st_dir s) @ f) \<and> p \<in> record_files s ''cycle_'' (cyc_Name c)))"
proof (rule conjI; rule impI)
  assume w: "SaveRecipe env s fs r = (fs', err)"
  show "recipes s fs' = (if err = None then (recipes s fs)(rcp_Name r \<mapsto> r) else recipes s fs)
      \<and> cycles s fs' = cycles s fs \<and> (store_ok s fs \<longrightarrow> store_ok s fs')
      \<and> (err = None \<longrightarrow> Recipe_Validate r = Inr ())
      \<and> (\<forall>p. fs_lookup fs' p \<noteq> fs_lookup fs p \<longrightarrow>
           (\<exists>f. file_name f \<and> p = dir_part (st_dir s) @ f) \<and> p \<in> record_files s ''recipe_'' (rcp_Name r))"
    using SaveRecipe_refines(1,2,3,6) [OF w] SaveRecipe_frame [OF w] by simp
next
  assume w: "SaveCycle env s fs c = (fs', err)"
  show "cycles s fs' = (if err = None then (cycles s fs)(cyc_Name c \<mapsto> c) else cycles s fs)
      \<and> recipes s fs' = recipes s fs \<and> (store_ok s fs \<longrightarrow> store_ok s fs')
      \<and> (err = None \<longrightarrow> CycleRecord_Validate c = Inr ())
      \<and> (\<forall>p. fs_lookup fs' p \<noteq> fs_lookup fs p \<longrightarrow>
           (\<exists>f. file_name f \<and> p = dir_part (st_dir s) @ f) \<and> p \<in> record_files s ''cycle_'' (cyc_Name c))"
    using SaveCycle_refines(1,2,3,6) [OF w] SaveCycle_frame [OF w] by simp
qed

lemma SaveRecipe_succeeds:
  assumes "store_ok s fs" "Recipe_Validate r = Inr ()" "checkName (rcp_Name r) = Inr ()"
    "\<And>p. p \<in> record_files s ''recipe_'' (rcp_Name r) \<Longrightarrow> quiet env p"
  shows "\<exists>fs'. SaveRecipe env s fs r = (fs', None)"
proof -
  have "\<not> fs_is_dir fs p" if "p \<in> record_files s ''recipe_'' (rcp_Name r)" for p
    using assms(1) that recipe.prefix checkName_sep [OF assms(3)] unfolding store_ok_def by blast
  then show ?thesis using recipe.save_succeeds [OF assms(2,3)] assms by (simp add: SaveRecipe_def record_files_def)
qed

lemma SaveCycle_succeeds:
  assumes "store_ok s fs" "CycleRecord_Validate r = Inr ()" "checkName (cyc_Name r) = Inr ()"
    "\<And>p. p \<in> record_files s ''cycle_'' (cyc_Name r) \<Longrightarrow> quiet env p"
  shows "\<exists>fs'. SaveCycle env s fs r = (fs', None)"
proof -
  have "\<not> fs_is_dir fs p" if "p \<in> record_files s ''cycle_'' (cyc_Name r)" for p
    using assms(1) that cycle.prefix checkName_sep [OF assms(3)] unfolding store_ok_def by blast
  then show ?thesis using cycle.save_succeeds [OF assms(2,3)] assms by (simp add: SaveCycle_def record_files_def)
qed

lemma SaveRecipe_GetRecipe:
  assumes "SaveRecipe env s fs r = (fs', None)" "quiet env' (record_path (st_dir s) ''recipe_'' (rcp_Name r))"
  shows "GetRecipe env' s fs' (rcp_Name r) = Inr r"
proof -
  have r: "Recipe_Validate r = Inr ()" "checkName (rcp_Name r) = Inr ()" using SaveRecipe_refines(6) [OF assms(1)] by auto
  then show ?thesis using recipe.save_read [OF r _ assms(2)] assms(1) by (simp add: SaveRecipe_def GetRecipe_def recipe.dec_enc)
qed

lemma SaveCycle_GetCycle:
  assumes "SaveCycle env s fs r = (fs', None)" "quiet env' (record_path (st_dir s) ''cycle_'' (cyc_Name r))"
  shows "GetCycle env' s fs' (cyc_Name r) = Inr r"
proof -
  have r: "CycleRecord_Validate r = Inr ()" "checkName (cyc_Name r) = Inr ()" using SaveCycle_refines(6) [OF assms(1)] by auto
  then show ?thesis using cycle.save_read [OF r _ assms(2)] assms(1) by (simp add: SaveCycle_def GetCycle_def cycle.dec_enc)
qed

lemma sample_saved:
  obtains fs' where "SaveRecipe no_faults sample_store sample_fs sample_recipe = (fs', None)"
  using SaveRecipe_succeeds [OF sample_ok sample_recipe_valid] quiet_no_faults by blast

theorem store_refines_maps_witness:
  "\<exists>fs'. SaveRecipe no_faults sample_store sample_fs sample_recipe = (fs', None) \<and> store_ok sample_store fs'
     \<and> recipes sample_store fs' ''cycloid-lift'' = Some sample_recipe"
proof -
  obtain fs' where w: "SaveRecipe no_faults sample_store sample_fs sample_recipe = (fs', None)" by (rule sample_saved)
  show ?thesis
    using store_refines_maps [of no_faults sample_store sample_fs sample_recipe fs' None, THEN conjunct1, THEN mp, OF w] w sample_ok
    by (auto simp: sample_recipe_def)
qed

text \<open>
  Claim C12. Round trip through the file system: after a save that reports success, reading the name returns the very record, every float bit for
  bit, whatever the directory held before and whatever happened during the save, as long as the kernel does not refuse the read. This composes
  the encoder, the indentation, the float formatting and parsing, the scanner and the decoder.
\<close>

theorem save_get_roundtrip:
  "(SaveRecipe env s fs r = (fs', None) \<and> quiet env' (record_path (st_dir s) ''recipe_'' (rcp_Name r)) \<longrightarrow>
      GetRecipe env' s fs' (rcp_Name r) = Inr r)
   \<and> (SaveCycle env s fs c = (fs', None) \<and> quiet env' (record_path (st_dir s) ''cycle_'' (cyc_Name c)) \<longrightarrow>
      GetCycle env' s fs' (cyc_Name c) = Inr c)"
  using SaveRecipe_GetRecipe SaveCycle_GetCycle by blast

theorem save_get_roundtrip_witness:
  "\<exists>fs'. SaveRecipe no_faults sample_store sample_fs sample_recipe = (fs', None)
     \<and> GetRecipe no_faults sample_store fs' ''cycloid-lift'' = Inr sample_recipe"
proof -
  obtain fs' where w: "SaveRecipe no_faults sample_store sample_fs sample_recipe = (fs', None)" by (rule sample_saved)
  show ?thesis
    using save_get_roundtrip [of no_faults sample_store sample_fs sample_recipe fs' no_faults, THEN conjunct1] w
    by (auto simp: sample_recipe_def)
qed

text \<open>
  Claim C29. A save gets through: in a directory that satisfies the invariant, saving a valid record under an acceptable name succeeds when
  the kernel refuses no call on the record file and its temporary companion. Encoding never fails on a valid record.
\<close>

theorem save_available:
  "(store_ok s fs \<and> Recipe_Validate r = Inr () \<and> checkName (rcp_Name r) = Inr ()
      \<and> (\<forall>p \<in> record_files s ''recipe_'' (rcp_Name r). quiet env p) \<longrightarrow> (\<exists>fs'. SaveRecipe env s fs r = (fs', None)))
   \<and> (store_ok s fs \<and> CycleRecord_Validate c = Inr () \<and> checkName (cyc_Name c) = Inr ()
      \<and> (\<forall>p \<in> record_files s ''cycle_'' (cyc_Name c). quiet env p) \<longrightarrow> (\<exists>fs'. SaveCycle env s fs c = (fs', None)))"
  using SaveRecipe_succeeds SaveCycle_succeeds by blast

theorem save_available_witness:
  "\<exists>fs'. SaveCycle no_faults sample_store sample_fs sample_cycle = (fs', None)"
  using save_available [of sample_store sample_fs sample_recipe no_faults sample_cycle] sample_ok sample_cycle_valid by simp

text \<open>
  Claim C28. What reading returns in a directory that satisfies the invariant: the error of \<open>checkName\<close> for an unacceptable name, an error that wraps
  \<open>ErrNotFound\<close> exactly when the map has no record of the name, and otherwise the record, which is valid and carries
  that name. No other error occurs as long as the kernel does not refuse the read; in particular no record file fails to parse.
\<close>

theorem get_exact:
  "(store_ok s fs \<and> quiet env (record_path (st_dir s) ''recipe_'' n) \<longrightarrow>
     (case GetRecipe env s fs n of
        Inl e \<Rightarrow> checkName n = Inl e \<or> checkName n = Inr () \<and> recipes s fs n = None \<and> errors_Is e ErrNotFound
      | Inr r \<Rightarrow> recipes s fs n = Some r \<and> Recipe_Validate r = Inr () \<and> rcp_Name r = n))
   \<and> (store_ok s fs \<and> quiet env (record_path (st_dir s) ''cycle_'' n) \<longrightarrow>
     (case GetCycle env s fs n of
        Inl e \<Rightarrow> checkName n = Inl e \<or> checkName n = Inr () \<and> cycles s fs n = None \<and> errors_Is e ErrNotFound
      | Inr r \<Rightarrow> cycles s fs n = Some r \<and> CycleRecord_Validate r = Inr () \<and> cyc_Name r = n))"
  by (auto simp: GetRecipe_stored GetCycle_stored recipes_valid cycles_valid split: sum.splits option.splits)

theorem get_exact_witness:
  "case GetRecipe no_faults sample_store sample_fs ''cycloid-lift'' of
     Inl e \<Rightarrow> errors_Is e ErrNotFound | Inr r \<Rightarrow> False"
proof -
  have "recipes sample_store sample_fs ''cycloid-lift'' = None" by (simp add: recipes_def stored_def fs_lookup_def sample_fs_def)
  then show ?thesis
    using get_exact [of sample_store sample_fs no_faults "''cycloid-lift''"] sample_ok sample_names
    by (auto split: sum.splits)
qed

text \<open>
  The files are sorted by name. That is the order of the record names when none of them continues another with a character up to the dot,
  which the names of letters, digits and underscores never do.
\<close>

definition name_ordered :: "string set \<Rightarrow> bool" where
  "name_ordered N \<longleftrightarrow> (\<forall>a\<in>N. \<forall>b\<in>N. \<forall>c rest. b = a @ c # rest \<longrightarrow> CHR ''.'' < c)"

lemma file_order:
  assumes "a @ ''.json'' \<le> b @ ''.json''" "\<And>c rest. a = b @ c # rest \<Longrightarrow> CHR ''.'' < c"
  shows "a \<le> b"
  using assms
proof (induction a arbitrary: b)
  case (Cons x a)
  show ?case
  proof (cases b)
    case Nil
    then have "CHR ''.'' < x" using Cons.prems(2) [of x a] by simp
    then show ?thesis using Cons.prems(1) Nil by (auto dest: less_asym)
  next
    case b: (Cons y b')
    show ?thesis using Cons.prems(1) Cons.IH [of b'] Cons.prems(2) by (auto simp: b)
  qed
qed simp

lemma sorted_by_name: "sorted (map (\<lambda>n. n @ ''.json'') ns) \<Longrightarrow> name_ordered (set ns) \<Longrightarrow> sorted ns"
proof (induction ns)
  case (Cons n ns)
  have "n \<le> m" if "m \<in> set ns" for m
    by (rule file_order) (use Cons.prems that in \<open>auto simp: name_ordered_def\<close>)
  moreover have "name_ordered (set ns)" using Cons.prems(2) by (simp add: name_ordered_def)
  ultimately show ?case using Cons by simp
qed simp

text \<open>What a listing is: the records of the map, each once, in the order of the file names.\<close>

lemma listed:
  assumes a: "store_ok s fs" "fs_is_dir fs (st_dir s)" "\<not> hasMeta (Clean (st_dir s))" and q: "\<And>p. quiet env p"
  shows "\<exists>ns. ListRecipes env s fs = Inr (map (\<lambda>n. the (recipes s fs n)) ns) \<and> distinct ns
        \<and> sorted (map (\<lambda>n. n @ ''.json'') ns) \<and> set ns = dom (recipes s fs)"
    and "\<exists>ns. ListCycles env s fs = Inr (map (\<lambda>n. the (cycles s fs n)) ns) \<and> distinct ns
        \<and> sorted (map (\<lambda>n. n @ ''.json'') ns) \<and> set ns = dom (cycles s fs)"
proof -
  have nd: "\<not> fs_is_dir fs (record_path (st_dir s) pre n)" if "record_prefix pre" "CHR ''/'' \<notin> set n" for pre n
    using a(1) that unfolding store_ok_def record_files_def by blast
  have ok: "fs_ok fs" "files_ok ''recipe_'' recipe_struct zero_recipe rcp_Name (\<lambda>r. Recipe_Validate r = Inr ()) (st_dir s) fs"
    "files_ok ''cycle_'' cycle_struct zero_cycle cyc_Name (\<lambda>r. CycleRecord_Validate r = Inr ()) (st_dir s) fs"
    using a(1) by (simp_all add: store_ok_def)
  obtain ns files where "Glob env fs (filepath_Join [st_dir s, ''recipe_'' @ ''*'' @ ''.json'']) = Inr files"
    "map recipe_of (read_all env fs (recipe_struct zero_recipe) (sort files)) = map (\<lambda>n. the (recipes s fs n)) ns"
    and ns: "distinct ns" "sorted (map (\<lambda>n. n @ ''.json'') ns)" "set ns = dom (recipes s fs)"
    by (rule recipe.list_map [OF ok(1,2) nd [OF recipe.prefix] a(3,2) q, of "recipes s fs"]) (simp_all add: recipes_def fun_eq_iff)
  then have "ListRecipes env s fs = Inr (map (\<lambda>n. the (recipes s fs n)) ns)" by (simp add: ListRecipes_def)
  then show "\<exists>ns. ListRecipes env s fs = Inr (map (\<lambda>n. the (recipes s fs n)) ns) \<and> distinct ns
        \<and> sorted (map (\<lambda>n. n @ ''.json'') ns) \<and> set ns = dom (recipes s fs)" using ns by blast
  obtain ns files where "Glob env fs (filepath_Join [st_dir s, ''cycle_'' @ ''*'' @ ''.json'']) = Inr files"
    "map cycle_record_of (read_all env fs (cycle_struct zero_cycle) (sort files)) = map (\<lambda>n. the (cycles s fs n)) ns"
    and ns: "distinct ns" "sorted (map (\<lambda>n. n @ ''.json'') ns)" "set ns = dom (cycles s fs)"
    by (rule cycle.list_map [OF ok(1,3) nd [OF cycle.prefix] a(3,2) q, of "cycles s fs"]) (simp_all add: cycles_def fun_eq_iff)
  then have "ListCycles env s fs = Inr (map (\<lambda>n. the (cycles s fs n)) ns)" by (simp add: ListCycles_def)
  then show "\<exists>ns. ListCycles env s fs = Inr (map (\<lambda>n. the (cycles s fs n)) ns) \<and> distinct ns
        \<and> sorted (map (\<lambda>n. n @ ''.json'') ns) \<and> set ns = dom (cycles s fs)" using ns by blast
qed

text \<open>
  Claim C27. Listing returns every stored record exactly once and nothing else, and in the order of the names when no stored name continues another one with a
  character up to the dot (space, hyphen, dot and a few more). It needs a store with its invariant, a data directory whose path has no character that is special in
  file patterns, and a kernel that refuses nothing.
\<close>

theorem list_exact:
  "store_ok s fs \<and> fs_is_dir fs (st_dir s) \<and> \<not> hasMeta (Clean (st_dir s)) \<and> (\<forall>p. quiet env p) \<longrightarrow>
     (\<exists>ns. ListRecipes env s fs = Inr (map (\<lambda>n. the (recipes s fs n)) ns) \<and> distinct ns \<and> set ns = dom (recipes s fs)
        \<and> (name_ordered (dom (recipes s fs)) \<longrightarrow> sorted ns))
     \<and> (\<exists>ns. ListCycles env s fs = Inr (map (\<lambda>n. the (cycles s fs n)) ns) \<and> distinct ns \<and> set ns = dom (cycles s fs)
        \<and> (name_ordered (dom (cycles s fs)) \<longrightarrow> sorted ns))"
  using listed [of s fs env] sorted_by_name by metis

text \<open>Two recipes, saved in the order opposite to that of their names; and two that are listed in the order opposite to that of their names.\<close>

definition named_recipe :: "string \<Rightarrow> recipe" where
  "named_recipe n = sample_recipe\<lparr>rcp_Name := n\<rparr>"

lemma two_saved:
  assumes "checkName m = Inr ()" "checkName n = Inr ()"
  obtains fs fs' where "SaveRecipe no_faults sample_store sample_fs (named_recipe m) = (fs, None)"
    "SaveRecipe no_faults sample_store fs (named_recipe n) = (fs', None)"
    "store_ok sample_store fs' \<and> fs_is_dir fs' (st_dir sample_store) \<and> \<not> hasMeta (Clean (st_dir sample_store))"
    "recipes sample_store fs' = [m \<mapsto> named_recipe m, n \<mapsto> named_recipe n]"
proof -
  have v: "Recipe_Validate (named_recipe k) = Inr ()" "checkName (rcp_Name (named_recipe k)) = Inr ()" if "checkName k = Inr ()" for k
    using sample_recipe_valid(1) that by (auto simp: named_recipe_def Recipe_Validate_ok checkName_def split: if_splits)
  obtain fs where w: "SaveRecipe no_faults sample_store sample_fs (named_recipe m) = (fs, None)"
    using SaveRecipe_succeeds [OF sample_ok v [OF assms(1)]] quiet_no_faults by blast
  have ok: "store_ok sample_store fs" using SaveRecipe_refines(3) [OF w] sample_ok by blast
  obtain fs' where w': "SaveRecipe no_faults sample_store fs (named_recipe n) = (fs', None)"
    using SaveRecipe_succeeds [OF ok v [OF assms(2)]] quiet_no_faults by blast
  have d: "fs_is_dir sample_fs (st_dir sample_store)" "\<not> hasMeta (Clean (st_dir sample_store))" by code_simp+
  have "fs_is_dir fs' (st_dir sample_store)"
    using d(1) is_dir_cong [OF SaveRecipe_refines(5) [OF w]] is_dir_cong [OF SaveRecipe_refines(5) [OF w']] by simp
  moreover have "recipes sample_store sample_fs = Map.empty" by (rule ext) (simp add: recipes_def stored_def fs_lookup_def sample_fs_def)
  then have "recipes sample_store fs' = [m \<mapsto> named_recipe m, n \<mapsto> named_recipe n]"
    using SaveRecipe_refines(1) [OF w] SaveRecipe_refines(1) [OF w'] by (simp add: named_recipe_def)
  ultimately show thesis using that w w' SaveRecipe_refines(3) [OF w' ok] d(2) by blast
qed

theorem list_exact_witness:
  "\<exists>fs fs'. SaveRecipe no_faults sample_store sample_fs (named_recipe ''cycloid-lift'') = (fs, None)
     \<and> SaveRecipe no_faults sample_store fs (named_recipe ''c1'') = (fs', None)
     \<and> ListRecipes no_faults sample_store fs' = Inr [named_recipe ''c1'', named_recipe ''cycloid-lift'']"
proof -
  obtain fs fs' where w: "SaveRecipe no_faults sample_store sample_fs (named_recipe ''cycloid-lift'') = (fs, None)"
    "SaveRecipe no_faults sample_store fs (named_recipe ''c1'') = (fs', None)"
    and ok: "store_ok sample_store fs' \<and> fs_is_dir fs' (st_dir sample_store) \<and> \<not> hasMeta (Clean (st_dir sample_store))"
    and r: "recipes sample_store fs' = [''cycloid-lift'' \<mapsto> named_recipe ''cycloid-lift'', ''c1'' \<mapsto> named_recipe ''c1'']"
    by (rule two_saved [OF sample_names(1,2)])
  then obtain ns where ns: "ListRecipes no_faults sample_store fs' = Inr (map (\<lambda>n. the (recipes sample_store fs' n)) ns)" "distinct ns"
    "set ns = {''c1'', ''cycloid-lift''}" "name_ordered {''c1'', ''cycloid-lift''} \<longrightarrow> sorted ns"
    using list_exact [of sample_store fs' no_faults, THEN mp, THEN conjunct1] quiet_no_faults by (auto simp: insert_commute)
  have "name_ordered {''c1'', ''cycloid-lift''}" by (auto simp: name_ordered_def)
  then have "ns = [''c1'', ''cycloid-lift'']" using ns by (intro sorted_distinct_set_unique) auto
  then show ?thesis using w ns(1) r by auto
qed

theorem listed_out_of_order:
  "\<exists>fs fs'. SaveRecipe no_faults sample_store sample_fs (named_recipe ''a'') = (fs, None)
     \<and> SaveRecipe no_faults sample_store fs (named_recipe ''a-b'') = (fs', None)
     \<and> ListRecipes no_faults sample_store fs' = Inr [named_recipe ''a-b'', named_recipe ''a'']"
proof -
  have c: "checkName ''a'' = Inr ()" "checkName ''a-b'' = Inr ()" by code_simp+
  obtain fs fs' where w: "SaveRecipe no_faults sample_store sample_fs (named_recipe ''a'') = (fs, None)"
    "SaveRecipe no_faults sample_store fs (named_recipe ''a-b'') = (fs', None)"
    and ok: "store_ok sample_store fs' \<and> fs_is_dir fs' (st_dir sample_store) \<and> \<not> hasMeta (Clean (st_dir sample_store))"
    and r: "recipes sample_store fs' = [''a'' \<mapsto> named_recipe ''a'', ''a-b'' \<mapsto> named_recipe ''a-b'']"
    by (rule two_saved [OF c])
  then obtain ns where ns: "ListRecipes no_faults sample_store fs' = Inr (map (\<lambda>n. the (recipes sample_store fs' n)) ns)" "distinct ns"
    "set ns = {''a'', ''a-b''}" "sorted (map (\<lambda>n. n @ ''.json'') ns)"
    using listed(1) [of sample_store fs' no_faults] quiet_no_faults by (auto simp: insert_commute)
  have "map (\<lambda>n. n @ ''.json'') ns = [''a-b.json'', ''a.json'']" using ns by (intro sorted_distinct_set_unique) (auto simp: distinct_map inj_on_def)
  then have "ns = [''a-b'', ''a'']" by auto
  then show ?thesis using w ns(1) r by auto
qed

end
