(* ===== verification/Json_Valid.thy ===== *)
theory Json_Valid
  imports Json_Round_Trip
begin

text \<open>
  What the encoder writes is JSON: the text of any value of finite floats, whatever bytes its strings hold, passes the state machine of the scanner, the
  one that \<open>json.Valid\<close> and the decoder run. A value that is encoded inside a value leaves the scanner as a literal does: in a state that expects
  the punctuation after it.
\<close>

subsection \<open>Literals\<close>

text \<open>The bytes of a string between its quotes are plain or escapes.\<close>

lemma hexdigit_hex_char: "n < 16 \<Longrightarrow> hexdigit (hex_char n)"
proof -
  have "list_all (\<lambda>n. hexdigit (hex_char n)) [0..<16]" by code_simp
  then show "n < 16 \<Longrightarrow> hexdigit (hex_char n)" by (simp add: list_all_iff)
qed

lemma hexdigit_zero: "hexdigit (CHR ''0'')" "hexdigit (CHR ''2'')" "hexdigit (CHR ''f'')" "hexdigit (CHR ''d'')"
  by code_simp+

lemma escape_steps:
  "scan_step (mk InString ps) (CHR 0x5C) = (mk InStringEsc ps, scanContinue)"
  "scan_step (mk InStringEsc ps) (CHR ''u'') = (mk InStringEscU ps, scanContinue)"
  "c \<in> {CHR ''b'', CHR ''f'', CHR ''n'', CHR ''r'', CHR ''t'', CHR 0x5C, CHR ''/'', CHR 0x22} \<Longrightarrow>
     scan_step (mk InStringEsc ps) c = (mk InString ps, scanContinue)"
  "hexdigit c \<Longrightarrow> scan_step (mk InStringEscU ps) c = (mk InStringEscU1 ps, scanContinue)"
  "hexdigit c \<Longrightarrow> scan_step (mk InStringEscU1 ps) c = (mk InStringEscU12 ps, scanContinue)"
  "hexdigit c \<Longrightarrow> scan_step (mk InStringEscU12 ps) c = (mk InStringEscU123 ps, scanContinue)"
  "hexdigit c \<Longrightarrow> scan_step (mk InStringEscU123 ps) c = (mk InString ps, scanContinue)"
  by (auto simp: scan_step_def stateInString_def stateInStringEsc_def stateInStringEscU_def stateInStringEscU1_def
      stateInStringEscU12_def stateInStringEscU123_def)

lemma continues_short:
  "c \<in> {CHR ''b'', CHR ''f'', CHR ''n'', CHR ''r'', CHR ''t'', CHR 0x5C, CHR ''/'', CHR 0x22} \<Longrightarrow> continues InString [CHR 0x5C, c] InString"
  by (rule continues_Cons [where st' = InStringEsc], rule escape_steps(1), rule continues_Cons [where st' = InString], erule escape_steps(3)) simp

lemma continues_hex:
  assumes "hexdigit a" "hexdigit b" "hexdigit c" "hexdigit d"
  shows "continues InString [CHR 0x5C, CHR ''u'', a, b, c, d] InString"
  using assms
  by (intro continues_Cons [OF escape_steps(1)] continues_Cons [OF escape_steps(2)] continues_Cons [OF escape_steps(4)]
      continues_Cons [OF escape_steps(5)] continues_Cons [OF escape_steps(6)] continues_Cons [OF escape_steps(7)]) simp_all

lemma continues_plain: "list_all plain_byte s \<Longrightarrow> continues InString s InString"
  by (rule continues_loop) (simp add: scan_plain list_all_iff)

lemma nibble_less: "n < 256 \<Longrightarrow> drop_bit 4 n < 16" "n AND 15 < (16::nat)" for n :: nat
proof -
  show "n < 256 \<Longrightarrow> drop_bit 4 n < 16" by (simp add: drop_bit_eq_div)
  have "n AND mask 4 = n mod 2 ^ 4" by (simp only: take_bit_eq_mask [symmetric] take_bit_eq_mod)
  then have "n AND 15 = n mod 16" by (simp add: mask_eq_exp_minus_1)
  then show "n AND 15 < (16::nat)" by simp
qed

lemma hex_nibbles: "hexdigit (hex_char (drop_bit 4 (byte b)))" "hexdigit (hex_char (n AND 0xF))"
  using nibble_less [of "byte b"] nibble_less(2) [of n] by (intro hexdigit_hex_char; simp)+

lemma continues_escape_byte: "continues InString (escape_byte b) InString"
  unfolding escape_byte_def by (auto intro!: continues_short continues_hex hex_nibbles hexdigit_zero)

lemma continues_string_body: "continues InString (string_body html s) InString"
proof (induction html s rule: string_body.induct)
  case (1 html src)
  show ?case
  proof (cases "src = []")
    case True
    then show ?thesis by (simp add: string_body.simps)
  next
    case ne: False
    show ?thesis
    proof (cases "byte (hd src) < RuneSelf")
      case True
      have p: "plain_byte (hd src)" if "htmlSafeSet (byte (hd src)) \<or> \<not> html \<and> safeSet (byte (hd src))"
        using that by (auto simp: plain_byte_def htmlSafeSet_def safeSet_def byte_def)
      have "continues InString [hd src] InString" if "htmlSafeSet (byte (hd src)) \<or> \<not> html \<and> safeSet (byte (hd src))"
        using p [OF that] by (intro continues_plain) simp
      then show ?thesis
        using 1(1,2) [OF ne refl True] ne True continues_append [of InString "[hd src]" InString]
          continues_append [OF continues_escape_byte]
        by (simp add: string_body.simps [of html src] Let_def)
    next
      case False
      obtain c size where d: "DecodeRuneInString (take 4 src) = (c, size)" by fastforce
      note d' = d [unfolded Decode_take4]
      have rest: "continues InString (string_body html (drop size src)) InString"
        using 1(3-5) [OF ne refl False, of "(c, size)" c size] d by metis
      have hex: "continues InString [CHR 0x5C, CHR ''u'', CHR ''f'', CHR ''f'', CHR ''f'', CHR ''d''] InString"
        "continues InString [CHR 0x5C, CHR ''u'', CHR ''2'', CHR ''0'', CHR ''2'', hex_char (c AND 15)] InString"
        by (intro continues_hex hexdigit_zero hex_nibbles)+
      have plain: "continues InString (take size src) InString" if "\<not> (c = RuneError \<and> size = 1)"
      proof (rule continues_plain)
        have "2 \<le> size \<and> size \<le> length src \<and> (\<forall>i < size. 0x80 \<le> byte (src ! i))"
          using Decode_cases [OF ne d'] that False ne by (auto simp: RuneSelf_def hd_conv_nth)
        then show "list_all plain_byte (take size src)"
          by (auto simp: list_all_length plain_byte_def byte_def nth_append)
      qed
      show ?thesis
        using ne False rest hex [THEN continues_append] plain [THEN continues_append]
        by (auto simp: string_body.simps [of html src] d)
    qed
  qed
qed

lemma continues_field_name: "list_all plain_byte s \<Longrightarrow> continues InString (appendHTMLEscape s) InString"
proof (induction s rule: appendHTMLEscape.induct)
  case (2 c src)
  have p: "continues InString [c] InString" using 2(4) by (intro continues_plain) simp
  have "list_all plain_byte (drop 2 src)" using 2(4) by (auto simp: list_all_iff dest: in_set_dropD)
  then show ?case
    using 2 continues_append [OF p] continues_append [OF continues_hex [OF hexdigit_zero(1,1) hex_nibbles(1) hex_nibbles(2)]]
      continues_append [OF continues_hex [OF hexdigit_zero(2,1,2) hex_nibbles(2)]]
    by simp
qed simp

lemma token_string:
  assumes "continues InString s InString" "st \<in> {BeginValue, BeginString, BeginStringOrEmpty}"
  shows "token st (quoted s)"
proof -
  have "continues InString [CHR 0x22] EndValue"
    by (rule continues_Cons [where st' = EndValue]) (simp_all add: scan_step_def stateInString_def)
  then have c: "continues InString (s @ [CHR 0x22]) EndValue" by (rule continues_append [OF assms(1)])
  have e: "ends_value EndValue" by (simp add: ends_value_def scan_step_def)
  have f: "scan_step (mk st ps) (CHR 0x22) = (mk InString ps, scanBeginLiteral)" for ps
    using assms(2) by (auto simp: scan_step_def stateBeginValue_def stateBeginString_def stateBeginStringOrEmpty_def isSpace_def)
  have "quoted s = CHR 0x22 # (s @ [CHR 0x22])" by (simp add: quoted_def)
  then show ?thesis by (rule tokenI [OF _ _ f c e]) simp
qed

lemma token_appendString: "st \<in> {BeginValue, BeginString, BeginStringOrEmpty} \<Longrightarrow> token st (appendString s html)"
  using token_string [OF continues_string_body] by (simp add: appendString_def quoted_def)

lemma token_words: "token BeginValue ''null''" "token BeginValue (boolEncoder b)"
proof -
  have e: "ends_value EndValue" by (simp add: ends_value_def scan_step_def)
  have n: "continues StN ''ull'' EndValue" "continues StT ''rue'' EndValue" "continues StF ''alse'' EndValue"
    by (simp_all add: continues_def scan_step_def expect_def stateN_def stateNu_def stateNul_def stateT_def stateTr_def stateTru_def
        stateF_def stateFa_def stateFal_def stateFals_def)
  have s: "scan_step (mk BeginValue ps) (CHR ''n'') = (mk StN ps, scanBeginLiteral)"
    "scan_step (mk BeginValue ps) (CHR ''t'') = (mk StT ps, scanBeginLiteral)"
    "scan_step (mk BeginValue ps) (CHR ''f'') = (mk StF ps, scanBeginLiteral)" for ps
    by (simp_all add: scan_step_def stateBeginValue_def isSpace_def)
  show "token BeginValue ''null''" by (rule tokenI [OF refl _ s(1) n(1) e]) simp
  show "token BeginValue (boolEncoder b)"
  proof (cases b)
    case True
    then show ?thesis unfolding boolEncoder_def if_P [OF True] by (intro tokenI [OF refl _ s(2) n(2) e]) simp
  next
    case False
    then show ?thesis unfolding boolEncoder_def if_not_P [OF False] by (intro tokenI [OF refl _ s(3) n(3) e]) simp
  qed
qed

subsection \<open>Numbers\<close>

lemma dec_string_ok: "num_ok (dec_string n) [] None"
proof -
  have "dec_string 0 = ''0''" by code_simp
  then show ?thesis using dec_string_head [of n] by (cases "n = 0") (auto simp: num_ok_def is_digit_def byte_def)
qed

lemma token_AppendInt: "token BeginValue (AppendInt i)"
proof -
  have "AppendInt i = num_text (i < 0) (dec_string (nat \<bar>i\<bar>)) [] None" by (simp add: AppendInt_def num_text_def)
  then show ?thesis using token_number [OF dec_string_ok] by simp
qed

lemma token_floatEncoder:
  assumes "floatEncoder x = Inr t"
  shows "token BeginValue t"
proof -
  have "is_finite x" using assms f64_classes [of x] by (auto simp: floatEncoder_def split: if_splits)
  then obtain t' where "floatEncoder x = Inr t'" "reads_as t' x" using floatEncoder_reads by blast
  then show ?thesis using assms token_number unfolding reads_as_def by auto
qed

subsection \<open>A value inside a value\<close>

text \<open>The states after a complete value, and the texts that the scanner takes as one value with up to \<open>d\<close> levels of nesting.\<close>

definition after :: "parse_state list \<Rightarrow> scanner \<Rightarrow> bool" where
  "after ps s \<longleftrightarrow> (\<exists>st. ends_value st \<and> s = mk st ps) \<or> ps = [] \<and> s = end_state"

definition value_at :: "nat \<Rightarrow> string \<Rightarrow> bool" where
  "value_at d t \<longleftrightarrow> t \<noteq> [] \<and> \<not> isSpace (hd t) \<and> hd t \<noteq> CHR '']''
     \<and> (\<forall>ps. length ps + d \<le> maxNestingDepth \<longrightarrow>
         (\<exists>s. after ps s \<and> (\<forall>rest. checkValid_from (mk BeginValue ps) (t @ rest) = checkValid_from s rest)))"

lemma value_atE:
  assumes "value_at d t" "length ps + d \<le> maxNestingDepth"
  obtains s where "after ps s" "\<And>rest. checkValid_from (mk BeginValue ps) (t @ rest) = checkValid_from s rest"
  using assms unfolding value_at_def by blast

lemma after_pushed: "after (p # ps) s \<longleftrightarrow> (\<exists>st. ends_value st \<and> s = mk st (p # ps))"
  by (auto simp: after_def)

lemma ends_EndValue: "ends_value EndValue"
  by (simp add: ends_value_def scan_step_def)

lemma after_pop: "after ps (popParseState (mk st (p # ps)))"
  using ends_EndValue by (auto simp: after_def popParseState_def Let_def)

lemma token_value:
  assumes "token BeginValue t"
  shows "value_at d t"
proof -
  obtain c cs st1 where t: "t = c # cs" "c \<notin> {CHR ''{'', CHR ''['', CHR '','', CHR '':'', CHR ''}'', CHR '']''}"
    and b: "\<And>ps. scan_step (mk BeginValue ps) c = (mk st1 ps, scanBeginLiteral)"
    using assms unfolding token_def by auto
  have "\<not> isSpace c" using b [of "[]"] by (auto simp: scan_step_def stateBeginValue_def)
  moreover obtain st' where "ends_value st'" "\<And>ps rest. checkValid_from (mk BeginValue ps) (t @ rest) = checkValid_from (mk st' ps) rest"
    using checkValid_token [OF assms] by blast
  ultimately show ?thesis using t unfolding value_at_def after_def by (intro conjI allI impI) fastforce+
qed

text \<open>The steps of the punctuation.\<close>

lemma open_steps:
  assumes "length ps < maxNestingDepth"
  shows "scan_step (mk BeginValue ps) (CHR ''{'') = (mk BeginStringOrEmpty (parseObjectKey # ps), scanBeginObject)"
    "scan_step (mk BeginValue ps) (CHR ''['') = (mk BeginValueOrEmpty (parseArrayValue # ps), scanBeginArray)"
  using assms by (simp_all add: scan_step_def stateBeginValue_def isSpace_def pushParseState_def)

lemma empty_steps:
  "scan_step (mk BeginStringOrEmpty (p # ps)) (CHR ''}'')
     = (popParseState (mk BeginStringOrEmpty (parseObjectValue # ps)), scanEndObject)"
  "scan_step (mk BeginValueOrEmpty (parseArrayValue # ps)) (CHR '']'')
     = (popParseState (mk BeginValueOrEmpty (parseArrayValue # ps)), scanEndArray)"
  by (simp_all add: scan_step_def stateBeginStringOrEmpty_def stateBeginValueOrEmpty_def stateEndValue_def isSpace_def)

lemma close_steps:
  assumes "ends_value st"
  shows "scan_step (mk st (parseObjectValue # ps)) (CHR ''}'') = (popParseState (mk st (parseObjectValue # ps)), scanEndObject)"
    "scan_step (mk st (parseObjectValue # ps)) (CHR '','') = (mk BeginString (parseObjectKey # ps), scanObjectValue)"
    "scan_step (mk st (parseObjectKey # ps)) (CHR '':'') = (mk BeginValue (parseObjectValue # ps), scanObjectKey)"
    "scan_step (mk st (parseArrayValue # ps)) (CHR '']'') = (popParseState (mk st (parseArrayValue # ps)), scanEndArray)"
    "scan_step (mk st (parseArrayValue # ps)) (CHR '','') = (mk BeginValue (parseArrayValue # ps), scanArrayValue)"
  using assms by (simp_all add: ends_value_def stateEndValue_def isSpace_def)

lemma value_or_empty:
  assumes "value_at d t"
  shows "checkValid_from (mk BeginValueOrEmpty ps) (t @ rest) = checkValid_from (mk BeginValue ps) (t @ rest)"
proof -
  obtain c cs where t: "t = c # cs" "\<not> isSpace c" "c \<noteq> CHR '']''" using assms by (cases t) (auto simp: value_at_def)
  then have "scan_step (mk BeginValueOrEmpty ps) c = scan_step (mk BeginValue ps) c"
    by (simp add: scan_step_def stateBeginValueOrEmpty_def stateBeginValue_def scan_fail_def pushParseState_def)
  then show ?thesis by (simp add: t)
qed

subsection \<open>Values of structs, maps and slices\<close>

text \<open>A value with at most \<open>n\<close> levels of nesting whose field names need no escape, as the field names of Go structs do.\<close>

primrec fits :: "nat \<Rightarrow> json_val \<Rightarrow> bool" where
  "fits 0 v = (case v of JStruct fs \<Rightarrow> False | JMap kvs \<Rightarrow> False | JArray vs \<Rightarrow> False | _ \<Rightarrow> True)"
| "fits (Suc n) v =
     (case v of
        JStruct fs \<Rightarrow> list_all (\<lambda>(k, omit, w). list_all plain_byte k \<and> fits n w) fs
      | JMap kvs \<Rightarrow> list_all (\<lambda>(k, w). fits n w) kvs
      | JArray vs \<Rightarrow> list_all (fits n) vs
      | _ \<Rightarrow> True)"

lemma member_run:
  assumes "token st q" "value_at d b" "length ps + d < maxNestingDepth"
  obtains s where "after (parseObjectValue # ps) s"
    "\<And>rest. checkValid_from (mk st (parseObjectKey # ps)) (q @ '':'' @ b @ rest) = checkValid_from s rest"
proof -
  obtain st' where st': "ends_value st'" "\<And>ps rest. checkValid_from (mk st ps) (q @ rest) = checkValid_from (mk st' ps) rest"
    using checkValid_token [OF assms(1)] by blast
  obtain s where s: "after (parseObjectValue # ps) s"
    "\<And>rest. checkValid_from (mk BeginValue (parseObjectValue # ps)) (b @ rest) = checkValid_from s rest"
    using assms(2,3) by (auto elim!: value_atE [where ps = "parseObjectValue # ps"])
  show thesis by (rule that [OF s(1)]) (simp add: st'(2) close_steps [OF st'(1)] s(2))
qed

lemma field_key: "list_all plain_byte k \<Longrightarrow> st \<in> {BeginString, BeginStringOrEmpty} \<Longrightarrow> token st (quoted (appendHTMLEscape k))"
  by (rule token_string [OF continues_field_name]) auto

lemma struct_tail:
  assumes "structEncoder (CHR '','') fs = Inr b" "after (parseObjectValue # ps) s" "length ps + d < maxNestingDepth"
    "\<forall>(k, omit, w) \<in> set fs. list_all plain_byte k \<and> (\<forall>t. reflectValue w = Inr t \<longrightarrow> value_at d t)"
  shows "\<exists>s'. after ps s' \<and> (\<forall>rest. checkValid_from s (b @ rest) = checkValid_from s' rest)"
  using assms
proof (induction fs arbitrary: b s)
  case Nil
  obtain st where st: "ends_value st" "s = mk st (parseObjectValue # ps)" using Nil(2) by (auto simp: after_pushed)
  then show ?case using Nil(1) by (intro exI [of _ "popParseState (mk st (parseObjectValue # ps))"]) (auto simp: after_pop close_steps)
next
  case (Cons f fs)
  obtain k omit w where f: "f = (k, omit, w)" by (cases f) auto
  show ?case
  proof (cases "omit \<and> isEmptyValue w")
    case True
    then have "structEncoder (CHR '','') fs = Inr b" using Cons(2) f by simp
    from Cons(1) [OF this Cons(3,4)] show ?thesis using Cons(5) by simp
  next
    case False
    obtain t rest' where t: "reflectValue w = Inr t" "structEncoder (CHR '','') fs = Inr rest'"
      and b: "b = '','' @ nameEscHTML k @ t @ rest'"
      using Cons(2) False f by (auto simp: result_bind_def split: sum.splits)
    have k: "list_all plain_byte k" "value_at d t" using Cons(5) f t(1) by auto
    obtain st where st: "ends_value st" "s = mk st (parseObjectValue # ps)" using Cons(3) by (auto simp: after_pushed)
    have "token BeginString (quoted (appendHTMLEscape k))" using field_key k(1) by simp
    then obtain s1 where s1: "after (parseObjectValue # ps) s1"
      "\<And>rest. checkValid_from (mk BeginString (parseObjectKey # ps)) (quoted (appendHTMLEscape k) @ '':'' @ t @ rest) = checkValid_from s1 rest"
      using member_run [OF _ k(2) Cons(4)] by blast
    have "\<exists>s'. after ps s' \<and> (\<forall>rest. checkValid_from s1 (rest' @ rest) = checkValid_from s' rest)"
      by (rule Cons(1) [OF t(2) s1(1) Cons(4)]) (use Cons(5) in simp)
    moreover have "checkValid_from s (b @ rest) = checkValid_from s1 (rest' @ rest)" for rest
      using s1(2) [of "rest' @ rest"] by (simp add: b st(2) close_steps [OF st(1)] nameEscHTML_def quoted_def)
    ultimately show ?thesis by simp
  qed
qed

lemma struct_hd: "structEncoder (CHR ''{'') fs = Inr b \<Longrightarrow> b \<noteq> [] \<and> hd b = CHR ''{''"
  by (induction fs) (auto simp: result_bind_def split: if_splits sum.splits)

lemma struct_run:
  assumes "structEncoder (CHR ''{'') fs = Inr b" "length ps + d < maxNestingDepth"
    "\<forall>(k, omit, w) \<in> set fs. list_all plain_byte k \<and> (\<forall>t. reflectValue w = Inr t \<longrightarrow> value_at d t)"
  shows "\<exists>s. after ps s \<and> (\<forall>rest. checkValid_from (mk BeginValue ps) (b @ rest) = checkValid_from s rest)"
  using assms(1,3)
proof (induction fs)
  case Nil
  have o: "length ps < maxNestingDepth" using assms(2) by simp
  show ?case using Nil(1) open_steps [OF o] empty_steps(1)
    by (auto intro!: exI [of _ "popParseState (mk BeginStringOrEmpty (parseObjectValue # ps))"] after_pop)
next
  case (Cons f fs)
  have o: "length ps < maxNestingDepth" using assms(2) by simp
  obtain k omit w where f: "f = (k, omit, w)" by (cases f) auto
  show ?case
  proof (cases "omit \<and> isEmptyValue w")
    case True
    then have "structEncoder (CHR ''{'') fs = Inr b" using Cons(2) f by simp
    from Cons(1) [OF this] show ?thesis using Cons(3) by simp
  next
    case False
    obtain t rest' where t: "reflectValue w = Inr t" "structEncoder (CHR '','') fs = Inr rest'"
      and b: "b = ''{'' @ nameEscHTML k @ t @ rest'"
      using Cons(2) False f by (auto simp: result_bind_def split: sum.splits)
    have k: "list_all plain_byte k" "value_at d t" using Cons(3) f t(1) by auto
    have "token BeginStringOrEmpty (quoted (appendHTMLEscape k))" using field_key k(1) by simp
    then obtain s1 where s1: "after (parseObjectValue # ps) s1"
      "\<And>rest. checkValid_from (mk BeginStringOrEmpty (parseObjectKey # ps)) (quoted (appendHTMLEscape k) @ '':'' @ t @ rest) = checkValid_from s1 rest"
      using member_run [OF _ k(2) assms(2)] by blast
    have "\<exists>s'. after ps s' \<and> (\<forall>rest. checkValid_from s1 (rest' @ rest) = checkValid_from s' rest)"
      by (rule struct_tail [OF t(2) s1(1) assms(2)]) (use Cons(3) in simp)
    moreover have "checkValid_from (mk BeginValue ps) (b @ rest) = checkValid_from s1 (rest' @ rest)" for rest
      using s1(2) [of "rest' @ rest"] by (simp add: b open_steps [OF o] nameEscHTML_def quoted_def)
    ultimately show ?thesis by (simp add: b)
  qed
qed

lemma map_tail:
  assumes "mapEncoder False kvs = Inr b" "after (parseObjectValue # ps) s" "length ps + d < maxNestingDepth"
    "\<forall>(k, w) \<in> set kvs. \<forall>t. reflectValue w = Inr t \<longrightarrow> value_at d t"
  shows "\<exists>s'. after ps s' \<and> (\<forall>rest. checkValid_from s (b @ ''}'' @ rest) = checkValid_from s' rest)"
  using assms
proof (induction kvs arbitrary: b s)
  case Nil
  obtain st where st: "ends_value st" "s = mk st (parseObjectValue # ps)" using Nil(2) by (auto simp: after_pushed)
  then show ?case using Nil(1) by (intro exI [of _ "popParseState (mk st (parseObjectValue # ps))"]) (auto simp: after_pop close_steps)
next
  case (Cons f kvs)
  obtain k w where f: "f = (k, w)" by fastforce
  obtain t rest' where t: "reflectValue w = Inr t" "mapEncoder False kvs = Inr rest'"
    and b: "b = '','' @ appendString k True @ '':'' @ t @ rest'"
    using Cons(2) f by (auto simp: result_bind_def split: sum.splits)
  have v: "value_at d t" using Cons(5) f t(1) by simp
  obtain st where st: "ends_value st" "s = mk st (parseObjectValue # ps)" using Cons(3) by (auto simp: after_pushed)
  have "token BeginString (appendString k True)" by (rule token_appendString) simp
  then obtain s1 where s1: "after (parseObjectValue # ps) s1"
    "\<And>rest. checkValid_from (mk BeginString (parseObjectKey # ps)) (appendString k True @ '':'' @ t @ rest) = checkValid_from s1 rest"
    using member_run [OF _ v Cons(4)] by blast
  have "\<exists>s'. after ps s' \<and> (\<forall>rest. checkValid_from s1 (rest' @ ''}'' @ rest) = checkValid_from s' rest)"
    by (rule Cons(1) [OF t(2) s1(1) Cons(4)]) (use Cons(5) in simp)
  moreover have "checkValid_from s (b @ ''}'' @ rest) = checkValid_from s1 (rest' @ ''}'' @ rest)" for rest
    using s1(2) [of "rest' @ ''}'' @ rest"] by (simp add: b st(2) close_steps [OF st(1)])
  ultimately show ?case by simp
qed

lemma map_run:
  assumes "mapEncoder True kvs = Inr b" "length ps + d < maxNestingDepth"
    "\<forall>(k, w) \<in> set kvs. \<forall>t. reflectValue w = Inr t \<longrightarrow> value_at d t"
  shows "\<exists>s. after ps s \<and> (\<forall>rest. checkValid_from (mk BeginValue ps) (''{'' @ b @ ''}'' @ rest) = checkValid_from s rest)"
proof (cases kvs)
  case Nil
  have o: "length ps < maxNestingDepth" using assms(2) by simp
  show ?thesis using assms(1) Nil open_steps [OF o] empty_steps(1)
    by (auto intro!: exI [of _ "popParseState (mk BeginStringOrEmpty (parseObjectValue # ps))"] after_pop)
next
  case (Cons f kvs')
  have o: "length ps < maxNestingDepth" using assms(2) by simp
  obtain k w where f: "f = (k, w)" by fastforce
  obtain t rest' where t: "reflectValue w = Inr t" "mapEncoder False kvs' = Inr rest'"
    and b: "b = appendString k True @ '':'' @ t @ rest'"
    using assms(1) f Cons by (auto simp: result_bind_def split: sum.splits)
  have v: "value_at d t" using assms(3) f t(1) Cons by simp
  have "token BeginStringOrEmpty (appendString k True)" by (rule token_appendString) simp
  then obtain s1 where s1: "after (parseObjectValue # ps) s1"
    "\<And>rest. checkValid_from (mk BeginStringOrEmpty (parseObjectKey # ps)) (appendString k True @ '':'' @ t @ rest) = checkValid_from s1 rest"
    using member_run [OF _ v assms(2)] by blast
  have "\<exists>s'. after ps s' \<and> (\<forall>rest. checkValid_from s1 (rest' @ ''}'' @ rest) = checkValid_from s' rest)"
    by (rule map_tail [OF t(2) s1(1) assms(2)]) (use assms(3) Cons in simp)
  moreover have "checkValid_from (mk BeginValue ps) (''{'' @ b @ ''}'' @ rest) = checkValid_from s1 (rest' @ ''}'' @ rest)" for rest
    using s1(2) [of "rest' @ ''}'' @ rest"] by (simp add: b open_steps [OF o])
  ultimately show ?thesis by simp
qed

lemma array_tail:
  assumes "arrayEncoder False vs = Inr b" "after (parseArrayValue # ps) s" "length ps + d < maxNestingDepth"
    "\<forall>w \<in> set vs. \<forall>t. reflectValue w = Inr t \<longrightarrow> value_at d t"
  shows "\<exists>s'. after ps s' \<and> (\<forall>rest. checkValid_from s (b @ '']'' @ rest) = checkValid_from s' rest)"
  using assms
proof (induction vs arbitrary: b s)
  case Nil
  obtain st where st: "ends_value st" "s = mk st (parseArrayValue # ps)" using Nil(2) by (auto simp: after_pushed)
  then show ?case using Nil(1) by (intro exI [of _ "popParseState (mk st (parseArrayValue # ps))"]) (auto simp: after_pop close_steps)
next
  case (Cons w vs)
  obtain t rest' where t: "reflectValue w = Inr t" "arrayEncoder False vs = Inr rest'" and b: "b = '','' @ t @ rest'"
    using Cons(2) by (auto simp: result_bind_def split: sum.splits)
  have v: "value_at d t" "length (parseArrayValue # ps) + d \<le> maxNestingDepth" using Cons(4,5) t(1) by simp_all
  obtain st where st: "ends_value st" "s = mk st (parseArrayValue # ps)" using Cons(3) by (auto simp: after_pushed)
  obtain s1 where s1: "after (parseArrayValue # ps) s1"
    "\<And>rest. checkValid_from (mk BeginValue (parseArrayValue # ps)) (t @ rest) = checkValid_from s1 rest"
    by (rule value_atE [OF v]) blast
  have "\<exists>s'. after ps s' \<and> (\<forall>rest. checkValid_from s1 (rest' @ '']'' @ rest) = checkValid_from s' rest)"
    by (rule Cons(1) [OF t(2) s1(1) Cons(4)]) (use Cons(5) in simp)
  moreover have "checkValid_from s (b @ '']'' @ rest) = checkValid_from s1 (rest' @ '']'' @ rest)" for rest
    using s1(2) [of "rest' @ '']'' @ rest"] by (simp add: b st(2) close_steps [OF st(1)])
  ultimately show ?case by simp
qed

lemma array_run:
  assumes "arrayEncoder True vs = Inr b" "length ps + d < maxNestingDepth"
    "\<forall>w \<in> set vs. \<forall>t. reflectValue w = Inr t \<longrightarrow> value_at d t"
  shows "\<exists>s. after ps s \<and> (\<forall>rest. checkValid_from (mk BeginValue ps) (''['' @ b @ '']'' @ rest) = checkValid_from s rest)"
proof (cases vs)
  case Nil
  have o: "length ps < maxNestingDepth" using assms(2) by simp
  show ?thesis using assms(1) Nil open_steps [OF o] empty_steps(2)
    by (auto intro!: exI [of _ "popParseState (mk BeginValueOrEmpty (parseArrayValue # ps))"] after_pop)
next
  case (Cons w vs')
  have o: "length ps < maxNestingDepth" using assms(2) by simp
  obtain t rest' where t: "reflectValue w = Inr t" "arrayEncoder False vs' = Inr rest'" and b: "b = t @ rest'"
    using assms(1) Cons by (auto simp: result_bind_def split: sum.splits)
  have v: "value_at d t" "length (parseArrayValue # ps) + d \<le> maxNestingDepth" using assms(2,3) t(1) Cons by simp_all
  obtain s1 where s1: "after (parseArrayValue # ps) s1"
    "\<And>rest. checkValid_from (mk BeginValue (parseArrayValue # ps)) (t @ rest) = checkValid_from s1 rest"
    by (rule value_atE [OF v]) blast
  have "\<exists>s'. after ps s' \<and> (\<forall>rest. checkValid_from s1 (rest' @ '']'' @ rest) = checkValid_from s' rest)"
    by (rule array_tail [OF t(2) s1(1) assms(2)]) (use assms(3) Cons in simp)
  moreover have "checkValid_from (mk BeginValue ps) (''['' @ b @ '']'' @ rest) = checkValid_from s1 (rest' @ '']'' @ rest)" for rest
    using s1(2) [of "rest' @ '']'' @ rest"] value_or_empty [OF v(1)] by (simp add: b open_steps [OF o])
  ultimately show ?thesis by simp
qed

lemma token_literal: "fits 0 v \<Longrightarrow> reflectValue v = Inr t \<Longrightarrow> token BeginValue t"
  by (cases v) (auto simp: token_words token_appendString token_AppendInt intro: token_floatEncoder)

lemma reflectValue_value_at: "fits n v \<Longrightarrow> reflectValue v = Inr t \<Longrightarrow> value_at n t"
proof (induction n arbitrary: v t)
  case 0
  then show ?case using token_literal token_value by blast
next
  case (Suc n)
  have room: "length ps + n < maxNestingDepth" if "length ps + Suc n \<le> maxNestingDepth" for ps :: "parse_state list" using that by simp
  show ?case
  proof (cases v)
    case (JStruct fs)
    then have e: "structEncoder (CHR ''{'') fs = Inr t" using Suc(3) by simp
    have "\<exists>s. after ps s \<and> (\<forall>rest. checkValid_from (mk BeginValue ps) (t @ rest) = checkValid_from s rest)"
      if "length ps + Suc n \<le> maxNestingDepth" for ps
      by (rule struct_run [OF e room [OF that]]) (use Suc(1,2) JStruct in \<open>auto simp: list_all_iff\<close>)
    then show ?thesis using struct_hd [OF e] by (auto simp: value_at_def isSpace_def)
  next
    case (JMap kvs)
    then obtain b where b: "mapEncoder True (sort_key fst kvs) = Inr b" "t = ''{'' @ b @ ''}''"
      using Suc(3) by (auto simp: result_bind_def split: sum.splits)
    have "\<exists>s. after ps s \<and> (\<forall>rest. checkValid_from (mk BeginValue ps) (''{'' @ b @ ''}'' @ rest) = checkValid_from s rest)"
      if "length ps + Suc n \<le> maxNestingDepth" for ps
      by (rule map_run [OF b(1) room [OF that]]) (use Suc(1,2) JMap in \<open>auto simp: list_all_iff\<close>)
    then show ?thesis by (auto simp: value_at_def isSpace_def b(2))
  next
    case (JArray vs)
    then obtain b where b: "arrayEncoder True vs = Inr b" "t = ''['' @ b @ '']''"
      using Suc(3) by (auto simp: result_bind_def split: sum.splits)
    have "\<exists>s. after ps s \<and> (\<forall>rest. checkValid_from (mk BeginValue ps) (''['' @ b @ '']'' @ rest) = checkValid_from s rest)"
      if "length ps + Suc n \<le> maxNestingDepth" for ps
      by (rule array_run [OF b(1) room [OF that]]) (use Suc(1,2) JArray in \<open>auto simp: list_all_iff\<close>)
    then show ?thesis by (auto simp: value_at_def isSpace_def b(2))
  qed (use token_value [OF token_literal [OF _ Suc(3)]] in simp_all)
qed

subsection \<open>The encoder writes valid JSON\<close>

text \<open>Every float of the value is finite; what Go leaves out for \<open>omitempty\<close> is zero or empty and so never in the way.\<close>

fun finite_json :: "json_val \<Rightarrow> bool" where
  "finite_json (JFloat x) = is_finite x"
| "finite_json (JStruct fs) = list_all (\<lambda>(k, omit, w). finite_json w) fs"
| "finite_json (JMap kvs) = list_all (\<lambda>(k, w). finite_json w) kvs"
| "finite_json (JArray vs) = list_all finite_json vs"
| "finite_json v = True"

lemma empty_finite: "isEmptyValue v \<Longrightarrow> finite_json v"
proof (cases v)
  case (JFloat x)
  then show "isEmptyValue v \<Longrightarrow> finite_json v" using f64_classes [of x]
    by (auto simp: feq_def is_inf_def is_nan_def is_finite_def f64_skey_def f64_key_def zero_float64_def split: if_splits)
qed auto

lemma floatEncoder_finite: "(\<exists>t. floatEncoder x = Inr t) \<longleftrightarrow> is_finite x"
  using f64_classes [of x] floatEncoder_reads [of x] by (auto simp: floatEncoder_def f64_class_defs)

lemma bind_some: "(\<exists>c. result_bind r f = Inr c) \<longleftrightarrow> (\<exists>b. r = Inr b \<and> (\<exists>c. f b = Inr c))"
  by (cases r) auto

lemma encode_finite:
  "(\<exists>t. reflectValue v = Inr t) \<longleftrightarrow> finite_json v"
  "(\<exists>t. structEncoder next fs = Inr t) \<longleftrightarrow> list_all (\<lambda>(k, omit, w). finite_json w) fs"
  "(\<exists>t. mapEncoder first kvs = Inr t) \<longleftrightarrow> list_all (\<lambda>(k, w). finite_json w) kvs"
  "(\<exists>t. arrayEncoder first vs = Inr t) \<longleftrightarrow> list_all finite_json vs"
proof (induction v and "next" fs and first kvs and first vs rule: reflectValue_structEncoder_mapEncoder_arrayEncoder.induct)
  case (7 kvs)
  then show ?case by (auto simp: bind_some list_all_iff)
next
  case (10 "next" name omit v fs)
  then show ?case using empty_finite by (auto simp: bind_some)
qed (auto simp: bind_some floatEncoder_finite)

lemma after_eof:
  assumes "after [] s"
  shows "checkValid_from s [CHR 0x0A] = None" "checkValid_from s [] = None"
proof -
  have "checkValid_from s [CHR 0x0A] = None \<and> checkValid_from s [] = None"
  proof (cases "s = end_state")
    case True
    then show ?thesis by (simp add: scan_step_def stateEndTop_def isSpace_def scan_eof_def)
  next
    case False
    then obtain st where "ends_value st" "s = mk st []" using assms by (auto simp: after_def)
    then have "scan_step s (CHR 0x0A) = (end_state, scanEnd)" "scan_step s (CHR '' '') = (end_state, scanEnd)" "sc_err s = None" "\<not> sc_endTop s"
      by (auto simp: ends_value_def stateEndValue_def stateEndTop_def isSpace_def)
    then show ?thesis by (simp add: scan_eof_def)
  qed
  then show "checkValid_from s [CHR 0x0A] = None" "checkValid_from s [] = None" by simp_all
qed

lemma Encode_text:
  assumes "fits n v" "n \<le> maxNestingDepth"
  shows "if finite_json v then \<exists>t. Marshal v = Inr t \<and> Encode v = Inr (t @ [CHR 0x0A]) \<and> Valid t \<and> Valid (t @ [CHR 0x0A])
    else \<exists>e. Marshal v = Inl e \<and> Encode v = Inl e"
proof (cases "finite_json v")
  case True
  then obtain t where t: "reflectValue v = Inr t" using encode_finite(1) by blast
  have d: "length [] + n \<le> maxNestingDepth" using assms(2) by simp
  obtain s where s: "after [] s" "\<And>rest. checkValid_from (mk BeginValue []) (t @ rest) = checkValid_from s rest"
    by (rule value_atE [OF reflectValue_value_at [OF assms(1) t] d]) blast
  have b: "scan_reset = mk BeginValue []" by (simp add: scan_reset_def)
  have "Valid t" "Valid (t @ [CHR 0x0A])"
    using s(2) [of "[]"] s(2) [of "[CHR 0x0A]"] after_eof [OF s(1)] by (simp_all add: Valid_def checkValid_def b)
  then show ?thesis using True t by (simp add: Marshal_def Encode_def)
next
  case False
  then obtain e where "reflectValue v = Inl e" using encode_finite(1) [of v] by (cases "reflectValue v") auto
  then show ?thesis using False by (simp add: Marshal_def Encode_def)
qed

text \<open>
  Claim C37. Whatever the encoder writes is valid JSON: the encoding of a value fails exactly when a float in it is infinite or not a number, and otherwise its text, with the newline
  of \<open>Encode\<close> or without, passes the scanner that \<open>json.Valid\<close> runs. The strings in it may hold any bytes; the value must not nest deeper than the scanner allows,
  and the names of its fields must hold no quote, backslash or control character, as the field names of Go structs do.
\<close>

theorem Encode_valid:
  assumes "fits n v" "n \<le> maxNestingDepth"
  shows "if finite_json v then \<exists>t. Marshal v = Inr t \<and> Encode v = Inr (t @ [CHR 0x0A]) \<and> Valid t \<and> Valid (t @ [CHR 0x0A])
    else \<exists>e. Marshal v = Inl e \<and> Encode v = Inl e"
  by (rule Encode_text [OF assms])

text \<open>A struct with a string of a quote, a control character and a byte that is not UTF-8, and a slice of a number and \<open>null\<close>; and one with an infinite number.\<close>

definition sample_value :: "float64 \<Rightarrow> json_val" where
  "sample_value x = JStruct [(''a<b'', False, JString [CHR 0x22, CHR 0x01, CHR 0xFF]), (''xs'', True, JArray [JFloat x, JNull])]"

theorem Encode_valid_witness:
  "(\<exists>t. Encode (sample_value 1) = Inr t \<and> Valid t) \<and> (\<exists>e. Encode (sample_value (f64_inf False)) = Inl e)"
proof -
  have f: "fits (Suc (Suc 0)) (sample_value x)" for x by (simp add: sample_value_def plain_byte_def byte_def)
  have m: "Suc (Suc 0) \<le> maxNestingDepth" by (simp add: maxNestingDepth_def)
  have "\<not> is_finite (f64_inf False)" by (simp add: f64_inf_def is_finite_def)
  then have "finite_json (sample_value 1)" "\<not> finite_json (sample_value (f64_inf False))" by (simp_all add: sample_value_def)
  then show ?thesis using Encode_valid [OF f m, of 1] Encode_valid [OF f m, of "f64_inf False"] by auto
qed

end
