(* ===== verification/Json_Finite.thy ===== *)
theory Json_Finite
  imports Json_Valid
begin

text \<open>
  What the decoder stores in a float field is a finite number, whatever the data: the text it passes to \<open>ParseFloat\<close> has only the characters of decimal numbers, so
  it is neither a special value nor hexadecimal, and a number out of range is an error.
\<close>

subsection \<open>The text of a number\<close>

lemma number_char_lower:
  "number_char c \<Longrightarrow> lower c \<noteq> 0x78 \<and> lower c \<noteq> byte (CHR ''i'') \<and> lower c \<noteq> byte (CHR ''n'')"
proof -
  let ?P = "\<lambda>b. b OR 0x20 \<noteq> 0x78 \<and> b OR 0x20 \<noteq> byte (CHR ''i'') \<and> b OR 0x20 \<noteq> byte (CHR ''n'')"
  have "list_all ?P ([0x30..<0x3A] @ map byte ''.eE+-'')" by code_simp
  moreover assume "number_char c"
  then have "byte c \<in> set ([0x30..<0x3A] @ map byte ''.eE+-'')"
    unfolding set_append set_upt by (auto simp: number_char_def is_digit_def)
  ultimately have "?P (byte c)" unfolding list_all_iff by blast
  then show ?thesis by (simp add: lower_def)
qed

lemma special_number:
  assumes "list_all number_char s"
  shows "special s = None"
proof (cases s)
  case (Cons c cs)
  have inf: "special_inf neg k t = None" if "list_all number_char t" for neg k t
  proof (cases t)
    case (Cons d ds)
    then have "lower d \<noteq> byte (CHR ''i'')" using that number_char_lower by simp
    then have "commonPrefixLenIgnoreCase t ''infinity'' = 0"
      using Cons that by (auto simp: Let_def number_char_def is_digit_def byte_def)
    then show ?thesis by (simp add: special_inf_def)
  qed (simp add: special_inf_def)
  have "c \<noteq> CHR ''i'' \<and> c \<noteq> CHR ''I'' \<and> c \<noteq> CHR ''n'' \<and> c \<noteq> CHR ''N''"
    using assms Cons by (auto simp: number_char_def is_digit_def byte_def)
  then show ?thesis using assms Cons inf by (simp add: special_def)
qed (simp add: special_def)

lemma read_number_decimal:
  assumes "list_all number_char s" "read_number n s = Some (m, e, neg, trunc, hex, i)"
  shows "\<not> hex"
proof -
  define t where "t = (if is_sign (hd s) then tl s else s)"
  have "list_all number_char t" using assms(1) by (cases s) (auto simp: t_def)
  then have "\<not> (2 < length t \<and> t ! 0 = CHR ''0'' \<and> lower (t ! 1) = 0x78)"
    using number_char_lower [of "t ! 1"] by (auto simp: list_all_length)
  moreover have "hex = (2 < length t \<and> t ! 0 = CHR ''0'' \<and> lower (t ! 1) = 0x78)"
    using assms(2) unfolding read_number_def t_def [symmetric]
    by (auto simp: Let_def split: if_splits prod.splits option.splits)
  ultimately show ?thesis by simp
qed

lemma round_not_nan: "0 \<le> p \<Longrightarrow> 0 < q \<Longrightarrow> \<not> is_nan (f64_round s p q e)"
proof -
  assume pq: "0 \<le> p" "0 < q"
  consider "rnd (of_int p / of_int q * 2 powi e) < f64_limit" | "p = 0" | "0 < p" "f64_limit \<le> rnd (of_int p / of_int q * 2 powi e)"
    using pq by fastforce
  then show "\<not> is_nan (f64_round s p q e)"
  proof cases
    case 1
    then show ?thesis using f64_round_finite(1) [OF pq] by simp
  next
    case 2
    then show ?thesis by (simp add: f64_round_def is_nan_def)
  next
    case 3
    then show ?thesis using f64_round_overflow [OF _ pq(2)] by (simp add: f64_inf_def is_nan_def)
  qed
qed

lemma ParseFloat_finite:
  assumes "list_all number_char s" "ParseFloat s = (x, None)"
  shows "is_finite x"
proof -
  have sp: "special s = None" by (rule special_number [OF assms(1)])
  obtain f n where a: "atof64 s = (f, n, None)" "x = f"
    using assms(2) by (auto simp: ParseFloat_def Let_def split: prod.splits if_splits)
  obtain m e neg trunc hex i where r: "readFloat s = Some (m, e, neg, trunc, hex, i)"
    using a(1) sp by (auto simp: atof64_def split: option.splits)
  have "\<not> hex" using read_number_decimal [OF assms(1)] r unfolding readFloat_def by blast
  then obtain m' e' neg' trunc' hex' i' where d: "read_number (length s) s = Some (m', e', neg', trunc', hex', i')"
    and f: "f = dec_round neg' m' e'" "\<not> is_inf f"
    using a(1) sp r by (auto simp: atof64_def Let_def split: option.splits prod.splits if_splits)
  have "\<not> is_nan f" unfolding f(1) dec_round_def using round_not_nan by simp
  then show ?thesis using f(2) f64_classes [of f] a(2) by blast
qed

subsection \<open>Structs of finite numbers\<close>

fun finite_field :: "field_val \<Rightarrow> bool" where
  "finite_field (VFloat x) = is_finite x"
| "finite_field (VPtrFloat (Some x)) = is_finite x"
| "finite_field v = True"

definition finite_struct :: "go_struct \<Rightarrow> bool" where
  "finite_struct st \<longleftrightarrow> list_all (\<lambda>(k, v). finite_field v) st"

lemma finite_allocated: "finite_field v \<Longrightarrow> finite_field (allocated v)"
  by (cases v rule: allocated.cases) auto

lemma finite_null: "finite_field v \<Longrightarrow> finite_field (store_null v)"
  by (cases v) auto

lemma finite_string: "finite_field v \<Longrightarrow> store_string s v = (e, w) \<Longrightarrow> finite_field w"
  by (cases v) auto

lemma finite_number:
  assumes "finite_field v" "list_all number_char s" "store_number s v = (e, w)"
  shows "finite_field w"
  using assms(1,3) ParseFloat_finite [OF assms(2)]
  by (cases v) (auto simp: parsed_float_def split: sum.splits prod.splits option.splits)

text \<open>The text of a literal that begins like a number has only characters of numbers.\<close>

lemma rescan_number:
  assumes "rescanLiteral d = (d', item)" "hd item = CHR ''-'' \<or> is_digit (hd item)"
  shows "list_all number_char item"
proof -
  have i: "item = ds_last d # take (literal_span (ds_last d) (ds_rest d)) (ds_rest d)"
    using assms(1) by (auto simp: rescanLiteral_def Let_def split: list.splits prod.splits)
  then have c: "ds_last d = CHR ''-'' \<or> is_digit (ds_last d)" using assms(2) by simp
  then have "ds_last d \<noteq> CHR 0x22" by (auto simp: is_digit_def byte_def)
  then have "literal_span (ds_last d) (ds_rest d) = length (takeWhile number_char (ds_rest d))" using c by (auto simp: literal_span_def)
  then have "item = ds_last d # takeWhile number_char (ds_rest d)" using i by (simp add: takeWhile_eq_take [symmetric])
  moreover have "number_char (ds_last d)" using c by (auto simp: number_char_def)
  ultimately show ?thesis using set_takeWhileD [of _ number_char "ds_rest d"] by (auto simp: list_all_iff)
qed

lemma literal_finite:
  assumes "rescanLiteral d = (d', item)" "finite_field v" "literalStore item v = Inr (e, w)"
  shows "finite_field w"
proof -
  have "finite_field w" if "hd item = CHR ''-'' \<or> is_digit (hd item)" "store_number item (allocated v) = (e, w)"
    using finite_number [OF finite_allocated [OF assms(2)] rescan_number [OF assms(1) that(1)] that(2)] .
  then show ?thesis
    using assms(2,3) finite_allocated [OF assms(2)] finite_null [OF assms(2)] finite_string [OF finite_allocated [OF assms(2)]]
    by (auto simp: literalStore_def Let_def split: if_splits option.splits)
qed

lemma json_value_finite:
  assumes "json_value d (Some v) = Inr (d', Some w)" "finite_field v"
  shows "finite_field w"
  using assms literal_finite [OF _ assms(2)] finite_allocated
  by (auto simp: json_value_def composite_value_def literal_value_def Let_def result_bind_eq_Inr split: if_splits prod.splits)

lemma object_member_finite:
  assumes "object_member d st = Inr (d', st', again)" "finite_struct st"
  shows "finite_struct st' \<and> map fst st' = map fst st"
proof -
  have key: "finite_field (get_field st n)" if "find_field st key = Some n" for key n
  proof -
    have in_set: "find P xs = Some x \<Longrightarrow> x \<in> set xs" for P and xs :: go_struct and x by (auto simp: find_Some_iff)
    have "n \<in> fst ` set st" using that in_set by (auto simp: find_field_def split: option.splits dest!: in_set intro: image_eqI [of _ fst, rotated])
    then obtain v where v: "(n, v) \<in> set st" by auto
    obtain w where "map_of st n = Some w" using weak_map_of_SomeI [OF v] by blast
    then have "(n, get_field st n) \<in> set st" by (simp add: get_field_def map_of_SomeD)
    then show ?thesis using assms(2) by (auto simp: finite_struct_def list_all_iff)
  qed
  have set: "finite_struct (set_field st n w)" if "finite_field w" for n w
    using assms(2) that by (auto simp: finite_struct_def set_field_def list_all_iff split: if_splits)
  have names: "map fst (set_field st n w) = map fst st" for n w by (induction st) (auto simp: set_field_def)
  show ?thesis
    using assms json_value_finite key set names
    by (fastforce simp: object_member_def Let_def result_bind_eq_Inr split: if_splits prod.splits option.splits)
qed

lemma object_loop_finite: "object_loop d st = Inr (d', st') \<Longrightarrow> finite_struct st \<Longrightarrow> finite_struct st' \<and> map fst st' = map fst st"
proof (induction d st rule: object_loop.induct)
  case (1 d st)
  obtain d1 st1 again where m: "object_member d st = Inr (d1, st1, again)"
    using 1(2) by (auto simp: object_loop.simps [of d st] split: sum.splits)
  note f = object_member_finite [OF m 1(3)]
  show ?case
  proof (cases again)
    case True
    then show ?thesis using 1(1) [OF m refl refl] 1(2) f m by (simp add: object_loop.simps [of d st])
  next
    case False
    then show ?thesis using 1(2) f m by (simp add: object_loop.simps [of d st])
  qed
qed

lemma unmarshal_finite:
  assumes "unmarshal disallow data st = (e, st')" "finite_struct st"
  shows "finite_struct st' \<and> map fst st' = map fst st"
proof -
  have "finite_struct st1 \<and> map fst st1 = map fst st" if "top_value d st = Inr (d1, st1)" for d d1 st1
    using that object_loop_finite [OF _ assms(2)] assms(2)
    by (fastforce simp: top_value_def Let_def result_bind_eq_Inr split: if_splits prod.splits)
  then show ?thesis using assms by (auto simp: unmarshal_def split: sum.splits prod.splits)
qed

lemma decoded_finite:
  assumes "finite_struct st"
  shows "Decode body st = (e, st') \<Longrightarrow> finite_struct st' \<and> map fst st' = map fst st"
    "Unmarshal body st = (e, st') \<Longrightarrow> finite_struct st' \<and> map fst st' = map fst st"
  using unmarshal_finite [OF _ assms] assms by (auto simp: Decode_def Unmarshal_def split: sum.splits option.splits)

end
