(* ===== verification/Cycle_Point.thy ===== *)
theory Cycle_Point
  imports Cycle_Build
begin

text \<open>
  Evaluation of a cycle: which segment \<open>locate\<close> chooses, what \<open>Point\<close> returns on each kind of segment, and
  the grid of \<open>Curve\<close>.
\<close>

subsection \<open>Finding the segment\<close>

lemma find_Some_member: "find P xs = Some x \<Longrightarrow> x \<in> set xs \<and> P x"
  by (induction xs) (auto split: if_splits)

lemma find_None_iff': "find P xs = None \<longleftrightarrow> (\<forall>x \<in> set xs. \<not> P x)"
  by (induction xs) auto

lemma locate_member:
  assumes "seg_All b \<noteq> []"
  shows "\<exists>sg \<in> set (seg_All b). locate b theta = Inr sg"
  using assms find_Some_member [of _ "seg_All b"] last_in_set [of "seg_All b"]
  by (fastforce simp: locate_def index_last Let_def split: option.splits)

lemma locate_interval:
  assumes "config_ok c" "is_finite theta" "0 \<le> valof theta" "valof theta < 360" "valof theta < valof (angle_total c)"
  defines "b \<equiv> \<lparr>seg_All = cycle_segs c, TotalAngle = angle_total c\<rparr>"
  shows "\<exists>sg \<in> set (cycle_segs c). locate b theta = Inr sg \<and> seg_Start sg \<le> theta \<and> theta \<le> seg_End sg
    \<and> (isDwell (seg_Kind sg) \<or> theta < seg_End sg
        \<and> (\<forall>d \<in> set (cycle_segs c). isDwell (seg_Kind d) \<longrightarrow> \<not> (seg_Start d \<le> theta \<and> theta \<le> seg_End d)))"
proof -
  let ?D = "\<lambda>sg. isDwell (seg_Kind sg) \<and> seg_Start sg \<le> theta \<and> theta \<le> seg_End sg"
  let ?M = "\<lambda>sg. seg_Start sg \<le> theta \<and> theta < seg_End sg"
  have n: "\<not> FullTurn \<le> theta" using assms(2,4) by (simp add: le_iff_valof)
  show ?thesis
  proof (cases "find ?D (cycle_segs c)")
    case (Some d)
    then show ?thesis using n find_Some_member [OF Some] by (auto simp: b_def locate_def Let_def)
  next
    case None
    have "\<exists>sg \<in> set (cycle_segs c). ?M sg"
      by (rule contiguous_covers [OF cycle_segs_contiguous [OF assms(1)]])
        (use segment_interval [OF assms(1)] assms(2-5) in auto)
    then obtain m where m: "find ?M (cycle_segs c) = Some m"
      using find_None_iff' [of ?M "cycle_segs c"] by (cases "find ?M (cycle_segs c)") auto
    have "theta \<le> seg_End m"
      using find_Some_member [OF m] segment_interval [OF assms(1)] assms(2) by (auto simp: le_iff_valof less_iff_valof)
    then show ?thesis using n None find_Some_member [OF m] m find_None_iff' [of ?D "cycle_segs c"]
      by (auto simp: b_def locate_def Let_def)
  qed
qed

text \<open>The outer dwell comes first among the dwells, so its whole closed interval belongs to it.\<close>

lemma locate_outer:
  assumes "config_ok c" "is_finite theta" "valof theta < 360" "0 < valof (OuterDwell c)"
    "valof (RiseAngle c) \<le> valof theta" "valof theta \<le> valof (pos2 c)"
  shows "locate \<lparr>seg_All = cycle_segs c, TotalAngle = t\<rparr> theta = Inr (outer_seg c)"
proof -
  have "is_finite (RiseAngle c)" "is_finite (pos2 c)"
    using assms(1) pos_bounds [OF assms(1)] by (simp_all add: config_ok_def pos_finite_def)
  then have "RiseAngle c \<le> theta" "theta \<le> RiseAngle c + OuterDwell c" "\<not> FullTurn \<le> theta"
    using assms by (simp_all add: le_iff_valof pos2_def [symmetric])
  then show ?thesis
    using assms(4) by (simp add: locate_def cycle_segs_def seg_defs isDwell_def Let_def)
qed

lemma locate_inner:
  assumes "config_ok c" "is_finite theta" "valof theta < 360" "0 < valof (InnerDwell c)"
    "valof (pos3 c) \<le> valof theta" "valof theta \<le> valof (angle_total c)" "valof (pos2 c) < valof theta"
  shows "locate \<lparr>seg_All = cycle_segs c, TotalAngle = t\<rparr> theta = Inr (inner_seg c)"
proof -
  note p = pos_bounds [OF assms(1)]
  have "pos3 c \<le> theta" "theta \<le> pos3 c + InnerDwell c" "\<not> FullTurn \<le> theta" "\<not> theta \<le> RiseAngle c + OuterDwell c"
    using assms p by (simp_all add: le_iff_valof pos2_def [symmetric] angle_total_eq [symmetric] pos_finite_def)
  then show ?thesis
    using assms(4) by (simp add: locate_def cycle_segs_def seg_defs isDwell_def Let_def)
qed

subsection \<open>The value at a point\<close>

text \<open>The motion of a segment at an angle: what the switch of \<open>Point\<close> computes.\<close>

definition seg_motion :: "config \<Rightarrow> segment \<Rightarrow> float64 \<Rightarrow> motion" where
  "seg_motion c sg theta =
     (if seg_Kind sg = ''outer_dwell'' then dwellMotion (cfg_H c) theta (theta / cfg_Omega c)
      else if seg_Kind sg = ''inner_dwell'' then dwellMotion 0 theta (theta / cfg_Omega c)
      else restore (law_at (seg_Law sg) ((theta - seg_Start sg) / seg_Beta sg) 0) (factor (seg_Spec sg))
             (seg_Spec sg) theta (seg_Start sg / cfg_Omega c) (seg_Kind sg = ''return''))"

lemma seg_motion_Theta [simp]: "m_Theta (seg_motion c sg theta) = theta"
  by (simp add: seg_motion_def dwellMotion_def)

definition clamp_theta :: "float64 \<Rightarrow> float64" where
  "clamp_theta theta = (if FullTurn < theta then FullTurn else theta)"

lemma Point_built:
  assumes "config_ok c" "\<not> theta < 0" "\<not> thetaMax < theta"
    "locate \<lparr>seg_All = cycle_segs c, TotalAngle = t\<rparr> (clamp_theta theta) = Inr sg" "sg \<in> set (cycle_segs c)"
  shows "Point \<lparr>seg_All = cycle_segs c, TotalAngle = t\<rparr> theta = Inr (seg_motion c sg (clamp_theta theta))"
proof -
  note v = motion_specs_valid [OF assms(1)]
  have o: "spec_Omega (seg_Spec (rise_seg c)) = cfg_Omega c" by (simp add: rise_seg_def)
  show ?thesis
    using assms(5)
  proof (cases rule: cycle_segs_cases)
    case rise
    then show ?thesis using assms v(1)
      by (simp add: Point_def clamp_theta_def [symmetric] o seg_motion_def Sample_valid Let_def) (simp add: rise_seg_def)
  next
    case outer
    then show ?thesis using assms
      by (simp add: Point_def clamp_theta_def [symmetric] o seg_motion_def Let_def) (simp add: outer_seg_def)
  next
    case ret
    then show ?thesis using assms v(2)
      by (simp add: Point_def clamp_theta_def [symmetric] o seg_motion_def Sample_valid Let_def) (simp add: return_seg_def)
  next
    case inner
    then show ?thesis using assms
      by (simp add: Point_def clamp_theta_def [symmetric] o seg_motion_def Let_def) (simp add: inner_seg_def)
  qed
qed

lemma Point_total:
  assumes "config_ok c" "\<not> theta < 0" "\<not> thetaMax < theta"
  shows "\<exists>sg \<in> set (cycle_segs c). locate \<lparr>seg_All = cycle_segs c, TotalAngle = t\<rparr> (clamp_theta theta) = Inr sg
    \<and> Point \<lparr>seg_All = cycle_segs c, TotalAngle = t\<rparr> theta = Inr (seg_motion c sg (clamp_theta theta))"
  using locate_member [of "\<lparr>seg_All = cycle_segs c, TotalAngle = t\<rparr>" "clamp_theta theta"] Point_built [OF assms]
  by auto

subsection \<open>The grid of a full turn\<close>

lemma thetaMax_value: "is_finite thetaMax" "360 < valof thetaMax"
  by (simp_all add: thetaMax_bits is_finite_def valof_def f64_mag_def f64_mant_def f64_expo_def power_int_minus)

lemma cycle_theta_value:
  assumes "2 \<le> n" "n \<le> MaxPoints" "0 \<le> i" "i \<le> n - 1"
  shows "is_finite (cycle_theta n i)" "valof (cycle_theta n i) = rnd (360 * of_int i / of_int (n - 1))"
    "0 \<le> valof (cycle_theta n i)" "valof (cycle_theta n i) \<le> 360"
proof -
  have f: "is_finite (f64 i)" "valof (f64 i) = of_int i" "is_finite (f64 (n - 1))"
    "valof (f64 (n - 1)) = of_int (n - 1)"
    using grid_int [of i] grid_int [of "n - 1"] assms by auto
  have e: "is_finite (f64 (360 * i))" "valof (f64 (360 * i)) = 360 * of_int i"
    using f64_exact [of "360 * i"] assms by (simp_all add: MaxPoints_def)
  have p: "is_finite (FullTurn * f64 i)" "valof (FullTurn * f64 i) = 360 * of_int i"
    using mul_exact [of FullTurn "f64 i" "f64 (360 * i)"] f e by simp_all
  have q: "0 \<le> 360 * real_of_int i / of_int (n - 1)" "360 * real_of_int i / of_int (n - 1) \<le> 360"
    using assms by (auto simp: divide_le_eq)
  show b: "is_finite (cycle_theta n i)" "0 \<le> valof (cycle_theta n i)" "valof (cycle_theta n i) \<le> 360"
    unfolding cycle_theta_def using div_bounds [of "FullTurn * f64 i" "f64 (n - 1)" 0 FullTurn] f p q assms by auto
  have "rnd (360 * of_int i / of_int (n - 1)) \<le> 360" "0 \<le> rnd (360 * of_int i / of_int (n - 1))"
    using q rnd_le_representable [of _ 360] rnd_nonneg representable_valof [of FullTurn] by auto
  then have "\<bar>rnd (360 * of_int i / of_int (n - 1))\<bar> < f64_limit" using valof_limit [OF FullTurn_value(1)] by simp
  then show "valof (cycle_theta n i) = rnd (360 * of_int i / of_int (n - 1))"
    unfolding cycle_theta_def using div_finite(2) [of "FullTurn * f64 i" "f64 (n - 1)"] f p assms by simp
qed

lemma cycle_theta_mono:
  assumes "2 \<le> n" "n \<le> MaxPoints" "0 \<le> i" "i \<le> j" "j \<le> n - 1"
  shows "cycle_theta n i \<le> cycle_theta n j"
proof -
  have "360 * real_of_int i / of_int (n - 1) \<le> 360 * of_int j / of_int (n - 1)"
    using assms by (intro divide_right_mono) auto
  then show ?thesis
    using cycle_theta_value(1,2) [of n i] cycle_theta_value(1,2) [of n j] assms by (simp add: le_iff_valof rnd_mono)
qed

lemma cycle_theta_first:
  assumes "2 \<le> n" "n \<le> MaxPoints"
  shows "cycle_theta n 0 = 0"
proof -
  have "FullTurn * f64 0 = 0" by code_simp
  then show ?thesis
    unfolding cycle_theta_def using grid_int [of "n - 1"] assms by (simp add: div_0_left)
qed

lemma cycle_theta_last:
  assumes "2 \<le> n" "n \<le> MaxPoints"
  shows "cycle_theta n (n - 1) = FullTurn"
proof -
  have "360 * real_of_int (n - 1) / of_int (n - 1) = 360"
    using assms(1) by (intro nonzero_mult_div_cancel_right) simp
  then have "valof (cycle_theta n (n - 1)) = 360"
    using cycle_theta_value(2) [of n "n - 1"] assms representable_valof [of FullTurn] by (simp del: of_int_diff)
  then show ?thesis by (intro valof_inject_pos) auto
qed

lemma cycle_theta_in_range:
  assumes "2 \<le> n" "n \<le> MaxPoints" "0 \<le> i" "i \<le> n - 1"
  shows "\<not> cycle_theta n i < 0" "\<not> thetaMax < cycle_theta n i" "clamp_theta (cycle_theta n i) = cycle_theta n i"
  using cycle_theta_value [OF assms] thetaMax_value by (simp_all add: less_iff_valof clamp_theta_def)

lemma cycle_sample_total:
  assumes "config_ok c" "2 \<le> n" "n \<le> MaxPoints" "0 \<le> i" "i \<le> n - 1"
  shows "\<exists>cs. cycle_sample \<lparr>seg_All = cycle_segs c, TotalAngle = t\<rparr> n i = Inr cs \<and> m_Theta (cs_Motion cs) = cycle_theta n i"
  using Point_total [OF assms(1) cycle_theta_in_range(1,2) [OF assms(2-5)], of t] cycle_theta_in_range(3) [OF assms(2-5)]
  by (auto simp: cycle_sample_def Let_def)

subsection \<open>Properties of the evaluation\<close>

text \<open>
  On the segments of a valid configuration, \<open>Point\<close> rejects exactly the angles below 0 and above
  360 degrees plus 1e-9, always with the range error; every other angle has a value, taken at the angle clamped to 360.
\<close>

theorem Point_domain:
  assumes "Build c = Inr b"
  shows "if theta < 0 \<or> thetaMax < theta then Point b theta = Inl Theta_Out_Of_Range
    else \<exists>m. Point b theta = Inr m \<and> m_Theta m = (if FullTurn < theta then FullTurn else theta)"
proof -
  note b = assms [unfolded Build_ok_iff]
  show ?thesis
    using Point_total [of c theta "angle_total c"] b Build_config_ok [OF assms]
    by (auto simp: clamp_theta_def Point_def)
qed

theorem Point_domain_witness:
  "\<exists>b. Build example_config = Inr b \<and> Point b (f64 (-1)) = Inl Theta_Out_Of_Range \<and> (\<exists>m. Point b (f64 90) = Inr m)"
proof -
  obtain b where b: "Build example_config = Inr b"
    using Build_valid Validate_total(2) [OF example_config_ok(1)] example_config_ok(2) by fastforce
  have "f64 (-1) < 0" "\<not> (f64 90 < 0 \<or> thetaMax < f64 90)" by code_simp+
  then show ?thesis using b Point_domain [OF b, of "f64 (-1)"] Point_domain [OF b, of "f64 90"] by auto
qed

text \<open>
  Claim C16. The value at an angle inside the turn: \<open>locate\<close> returns a segment that contains the angle; if any
  dwell contains it (its ends included) the answer is a dwell, with displacement \<open>h\<close> or 0 and zero
  velocity, acceleration and jerk, and time \<open>\<theta>/\<omega>\<close>; otherwise its angle, displacement, velocity, acceleration and jerk
  are those of the closed form of the rise or return segment that starts at or before the angle and ends after it. No claim is made of the
  time of a point of a rise or return.
\<close>

theorem Point_inside:
  assumes "Build c = Inr b" "is_finite theta" "0 \<le> valof theta" "valof theta < 360" "valof theta < valof (TotalAngle b)"
  shows "\<exists>sg \<in> set (seg_All b). locate b theta = Inr sg \<and> seg_Start sg \<le> theta \<and> theta \<le> seg_End sg
    \<and> (if \<exists>d \<in> set (seg_All b). isDwell (seg_Kind d) \<and> seg_Start d \<le> theta \<and> theta \<le> seg_End d
       then isDwell (seg_Kind sg) \<and> Point b theta = Inr \<lparr>m_Theta = theta, m_Time = theta / cfg_Omega c,
              m_S = (if seg_Kind sg = ''outer_dwell'' then cfg_H c else 0), m_V = 0, m_A = 0, m_J = 0\<rparr>
       else theta < seg_End sg \<and> seg_Kind sg \<in> {''rise'', ''return''}
         \<and> (\<exists>m. Point b theta = Inr m
              \<and> (\<forall>t. Sample (seg_Spec sg) (seg_Start sg) theta t (seg_Kind sg = ''return'') = Inr (m\<lparr>m_Time := t\<rparr>))))"
proof -
  have b: "b = \<lparr>seg_All = cycle_segs c, TotalAngle = angle_total c\<rparr>" and ok: "config_ok c"
    using assms(1) Build_config_ok by (auto simp: Build_ok_iff)
  have t: "\<not> theta < 0" "\<not> thetaMax < theta" "clamp_theta theta = theta"
    using assms(2-4) thetaMax_value by (simp_all add: less_iff_valof clamp_theta_def)
  obtain sg where sg: "sg \<in> set (cycle_segs c)" "locate b theta = Inr sg" "seg_Start sg \<le> theta" "theta \<le> seg_End sg"
    and k: "isDwell (seg_Kind sg) \<or> theta < seg_End sg
        \<and> (\<forall>d \<in> set (cycle_segs c). isDwell (seg_Kind d) \<longrightarrow> \<not> (seg_Start d \<le> theta \<and> theta \<le> seg_End d))"
    using locate_interval [OF ok assms(2-4)] assms(5) b by auto
  have p: "Point b theta = Inr (seg_motion c sg theta)"
    using Point_built [OF ok t(1,2), of "angle_total c" sg] sg(1,2) t(3) b by simp
  have m: "\<not> isDwell (seg_Kind sg) \<Longrightarrow> seg_Kind sg \<in> {''rise'', ''return''}
      \<and> (\<exists>m. Point b theta = Inr m
           \<and> (\<forall>t. Sample (seg_Spec sg) (seg_Start sg) theta t (seg_Kind sg = ''return'') = Inr (m\<lparr>m_Time := t\<rparr>)))"
    using sg(1) motion_specs_valid [OF ok] unfolding p
    by (cases rule: cycle_segs_cases) (simp_all add: seg_motion_def Sample_valid restore_def Let_def seg_defs isDwell_def)
  have d: "isDwell (seg_Kind sg) \<Longrightarrow> Point b theta = Inr \<lparr>m_Theta = theta, m_Time = theta / cfg_Omega c,
              m_S = (if seg_Kind sg = ''outer_dwell'' then cfg_H c else 0), m_V = 0, m_A = 0, m_J = 0\<rparr>"
    unfolding p by (auto simp: isDwell_def seg_motion_def dwellMotion_def)
  show ?thesis
  proof (cases "isDwell (seg_Kind sg)")
    case True
    then show ?thesis using sg d b by (intro bexI [of _ sg]) auto
  next
    case False
    then show ?thesis using sg m k b by (intro bexI [of _ sg]) auto
  qed
qed

theorem Point_inside_witness:
  "\<exists>b. Build example_config = Inr b \<and> (\<exists>sg \<in> set (seg_All b). locate b (f64 64) = Inr sg
     \<and> seg_Start sg \<le> f64 64 \<and> f64 64 \<le> seg_End sg)"
proof -
  have v: "Config_Validate example_config = Inr ()"
    using Validate_total(2) [OF example_config_ok(1)] example_config_ok(2) by simp
  let ?b = "\<lparr>seg_All = cycle_segs example_config, TotalAngle = angle_total example_config\<rparr>"
  have t: "360 - 1 < valof (angle_total example_config)"
  proof -
    have "(2::real) powi (-43) \<le> 2 powi (-2)" by (simp only: pow2_le_iff)
    moreover have "(2::real) powi (-2) = 1/4" by (simp add: power_int_minus)
    ultimately show ?thesis using total_error [OF example_config_ok(1)] example_config_ok(2) by linarith
  qed
  show ?thesis
    using Point_inside [OF Build_valid [OF v], of "f64 64"] Build_valid [OF v] t by (auto simp: example_values)
qed

text \<open>
  A dwell is flat: at every angle of the outer dwell, its ends included, the displacement is exactly
  the stroke; at every angle of the inner dwell that lies behind the outer one it is exactly 0; velocity,
  acceleration and jerk are exactly 0.
\<close>

theorem dwell_flat:
  assumes "Build c = Inr b" "d \<in> set (seg_All b)" "isDwell (seg_Kind d)"
    "is_finite theta" "valof theta < 360" "valof (seg_Start d) \<le> valof theta" "valof theta \<le> valof (seg_End d)"
    "seg_Kind d = ''inner_dwell'' \<Longrightarrow> valof (RiseAngle c + OuterDwell c) < valof theta"
  shows "\<exists>m. Point b theta = Inr m \<and> m_S m = (if seg_Kind d = ''outer_dwell'' then cfg_H c else 0)
    \<and> m_V m = 0 \<and> m_A m = 0 \<and> m_J m = 0"
proof -
  have b: "b = \<lparr>seg_All = cycle_segs c, TotalAngle = angle_total c\<rparr>" and ok: "config_ok c"
    using assms(1) Build_config_ok by (auto simp: Build_ok_iff)
  have d: "d \<in> set (cycle_segs c)" using assms(2) b by simp
  have "0 \<le> valof theta" using segment_interval(3) [OF ok d] assms(6) by simp
  then have t: "\<not> theta < 0" "\<not> thetaMax < theta" "clamp_theta theta = theta"
    using assms(4,5) thetaMax_value by (simp_all add: less_iff_valof clamp_theta_def)
  have "locate b theta = Inr d"
    using d
  proof (cases rule: cycle_segs_cases)
    case outer
    then show ?thesis unfolding b using assms(4-7)
      by (simp add: locate_outer [OF ok]) (simp add: outer_seg_def pos2_def locate_outer [OF ok])
  next
    case inner
    have "valof (pos2 c) < valof theta" using assms(8) inner by (simp add: inner_seg_def pos2_def)
    then show ?thesis unfolding b using assms(4-7) inner
      by (simp add: locate_inner [OF ok] inner_seg_def angle_total_eq)
  qed (use assms(3) in \<open>auto simp: seg_defs isDwell_def\<close>)
  then have "Point b theta = Inr (seg_motion c d theta)"
    using Point_built [OF ok t(1,2), of "angle_total c" d] d t(3) b by simp
  then show ?thesis using assms(3) by (auto simp: isDwell_def seg_motion_def dwellMotion_def)
qed

lemma example_valid: "Config_Validate example_config = Inr ()"
  using Validate_total(2) [OF example_config_ok(1)] example_config_ok(2) by simp

theorem dwell_flat_witness:
  "\<exists>b m. Build example_config = Inr b \<and> Point b (f64 64) = Inr m \<and> m_S m = f64 16 \<and> m_V m = 0"
proof -
  let ?c = example_config
  let ?b = "\<lparr>seg_All = cycle_segs ?c, TotalAngle = angle_total ?c\<rparr>"
  have d: "outer_seg ?c \<in> set (seg_All ?b)"
    by (simp add: cycle_segs_def) (simp add: example_config_def example_values)
  have v: "seg_Start (outer_seg ?c) = f64 64" "seg_Kind (outer_seg ?c) = ''outer_dwell''"
    "seg_End (outer_seg ?c) = f64 64 + f64 32" "cfg_H ?c = f64 16"
    by (simp_all add: outer_seg_def example_config_def)
  have e: "valof (f64 64) \<le> valof (f64 64 + f64 32)"
    using sum_pos(2) [of "f64 64" "f64 32"] by (simp add: example_values pos_finite_def)
  have "\<exists>m. Point ?b (f64 64) = Inr m \<and> m_S m = (if seg_Kind (outer_seg ?c) = ''outer_dwell'' then cfg_H ?c else 0)
    \<and> m_V m = 0 \<and> m_A m = 0 \<and> m_J m = 0"
    by (rule dwell_flat [OF Build_valid [OF example_valid] d])
      (use e in \<open>simp_all add: v isDwell_def example_values\<close>)
  then show ?thesis using Build_valid [OF example_valid] v(2,4) by auto
qed

lemma Segments_Curve_built:
  assumes b: "Build c = Inr b" and p: "points \<le> MaxPoints"
  obtains g where "Segments_Curve b points = Inr (map g [0..<nat (max 2 points)])"
    "\<And>i. i < nat (max 2 points) \<Longrightarrow> cycle_sample b (max 2 points) (int i) = Inr (g i)"
    "\<And>i. i < nat (max 2 points) \<Longrightarrow> m_Theta (cs_Motion (g i)) = cycle_theta (max 2 points) (int i)"
proof -
  have b: "b = \<lparr>seg_All = cycle_segs c, TotalAngle = angle_total c\<rparr>" and ok: "config_ok c"
    using b Build_config_ok by (auto simp: Build_ok_iff)
  define n where "n = max 2 points"
  have n: "2 \<le> n" "n \<le> MaxPoints" "(if points < MinPoints then MinPoints else points) = n"
    using p by (auto simp: n_def MinPoints_def MaxPoints_def)
  have "\<exists>x. cycle_sample b n (int i) = Inr x \<and> m_Theta (cs_Motion x) = cycle_theta n (int i)" if "i < nat n" for i
    using cycle_sample_total [OF ok n(1,2), of "int i" "angle_total c"] that n(1) b by auto
  then obtain g where g: "\<And>i. i < nat n \<Longrightarrow> cycle_sample b n (int i) = Inr (g i)"
    "\<And>i. i < nat n \<Longrightarrow> m_Theta (cs_Motion (g i)) = cycle_theta n (int i)"
    by metis
  have "Segments_Curve b points = Inr (map g [0..<nat n])"
    using n result_map_Inr [of "[0..<nat n]" "\<lambda>i. cycle_sample b n (int i)" g] g(1)
    by (simp add: Segments_Curve_def Let_def)
  then show thesis using that g unfolding n_def by blast
qed

text \<open>
  Claim C30. The grid of a full turn: on a built cycle \<open>Curve\<close> fails only for more than \<open>MaxPoints\<close> points;
  otherwise it returns \<open>max 2 points\<close> samples, the first at exactly 0 and the last at exactly 360 degrees, angles
  never decreasing, each sample being the value of \<open>Point\<close> at its angle under the name of the segment
  \<open>locate\<close> finds there.
\<close>

theorem Segments_Curve_correct:
  assumes "Build c = Inr b"
  shows "case Segments_Curve b points of
     Inl e \<Rightarrow> e = Too_Many_Points \<and> 200001 < points
   | Inr cs \<Rightarrow> points \<le> 200001 \<and> length cs = nat (max 2 points)
       \<and> m_Theta (cs_Motion (cs ! 0)) = 0 \<and> m_Theta (cs_Motion (last cs)) = f64 360
       \<and> sorted_wrt (\<lambda>x y. m_Theta (cs_Motion x) \<le> m_Theta (cs_Motion y)) cs
       \<and> list_all (\<lambda>x. Point b (m_Theta (cs_Motion x)) = Inr (cs_Motion x)
           \<and> (\<exists>sg. locate b (m_Theta (cs_Motion x)) = Inr sg \<and> cs_Segment x = seg_Kind sg)) cs"
proof (cases "points \<le> MaxPoints")
  case False
  then show ?thesis by (simp add: Segments_Curve_def Let_def MaxPoints_def MinPoints_def)
next
  case True
  define n where "n = max 2 points"
  have n: "2 \<le> n" "n \<le> MaxPoints" using True by (auto simp: n_def MaxPoints_def)
  obtain g where r: "Segments_Curve b points = Inr (map g [0..<nat n])"
    and g: "\<And>i. i < nat n \<Longrightarrow> cycle_sample b n (int i) = Inr (g i)"
    "\<And>i. i < nat n \<Longrightarrow> m_Theta (cs_Motion (g i)) = cycle_theta n (int i)"
    using Segments_Curve_built [OF assms True] unfolding n_def by blast
  have s: "Point b (m_Theta (cs_Motion (g i))) = Inr (cs_Motion (g i))
      \<and> (\<exists>sg. locate b (m_Theta (cs_Motion (g i))) = Inr sg \<and> cs_Segment (g i) = seg_Kind sg)" if "i < nat n" for i
    using g(1) [OF that] unfolding g(2) [OF that]
    by (cases "g i") (auto simp: cycle_sample_def Let_def result_bind_eq_Inr)
  have l: "last (map g [0..<nat n]) = g (nat (n - 1))"
    using n(1) by (subst last_conv_nth) (auto simp: nat_diff_distrib)
  have "sorted_wrt (\<lambda>x y. m_Theta (cs_Motion x) \<le> m_Theta (cs_Motion y)) (map g [0..<nat n])"
    using cycle_theta_mono [OF n(1,2)] by (auto simp: sorted_wrt_iff_nth_less g(2))
  moreover have "list_all (\<lambda>x. Point b (m_Theta (cs_Motion x)) = Inr (cs_Motion x)
      \<and> (\<exists>sg. locate b (m_Theta (cs_Motion x)) = Inr sg \<and> cs_Segment x = seg_Kind sg)) (map g [0..<nat n])"
    using s by (auto simp: list_all_iff)
  moreover have "m_Theta (cs_Motion (g 0)) = 0" "m_Theta (cs_Motion (g (nat (n - 1)))) = f64 360"
    using g(2) [of 0] g(2) [of "nat (n - 1)"] n cycle_theta_first [OF n(1,2)] cycle_theta_last [OF n(1,2)]
    by (simp_all add: FullTurn_def)
  moreover have "0 < nat n" using n(1) by simp
  ultimately show ?thesis unfolding r using True l by (simp add: MaxPoints_def n_def)
qed

theorem Segments_Curve_correct_witness:
  "\<exists>b. Build example_config = Inr b \<and> (case Segments_Curve b 361 of Inl e \<Rightarrow> False | Inr cs \<Rightarrow> length cs = 361)"
  using Segments_Curve_correct [OF Build_valid [OF example_valid], of 361] Build_valid [OF example_valid]
  by (auto split: sum.splits)

end
