(* ===== verification/Cycle_Joints.thy ===== *)
theory Cycle_Joints
  imports Cycle_Point Stroke
begin

text \<open>
  The joints of a cycle: \<open>Discontinuities\<close> always succeeds on a built cycle and lists every joint; when
  the angles are multiples of \<open>2 ^ -43\<close> degrees no sum is rounded, and then there is no displacement
  jump and every change of sign of a parabolic acceleration is detected.
\<close>

subsection \<open>One-sided values\<close>

abbreviation cycle_of :: "config \<Rightarrow> segments" where
  "cycle_of c \<equiv> \<lparr>seg_All = cycle_segs c, TotalAngle = angle_total c\<rparr>"

text \<open>The displacement a segment starts from and the one it leads to.\<close>

definition seg_from :: "config \<Rightarrow> segment \<Rightarrow> float64" where
  "seg_from c sg = (if seg_Kind sg = ''rise'' \<or> seg_Kind sg = ''inner_dwell'' then 0 else cfg_H c)"

definition seg_to :: "config \<Rightarrow> segment \<Rightarrow> float64" where
  "seg_to c sg = (if seg_Kind sg = ''rise'' \<or> seg_Kind sg = ''outer_dwell'' then cfg_H c else 0)"

definition side_motion :: "config \<Rightarrow> segment \<Rightarrow> float64 \<Rightarrow> float64 \<Rightarrow> motion" where
  "side_motion c sg theta side =
     (if isDwell (seg_Kind sg) then seg_motion c sg theta
      else restore (law_at (seg_Law sg) ((theta - seg_Start sg) / seg_Beta sg) side) (factor (seg_Spec sg))
             (seg_Spec sg) theta (seg_Start sg / cfg_Omega c) (seg_Kind sg = ''return''))"

lemma sideMotion_built:
  assumes "config_ok c" "sg \<in> set (cycle_segs c)"
  shows "sideMotion (cycle_of c) sg theta side = Inr (side_motion c sg theta side)"
proof -
  note v = motion_specs_valid [OF assms(1)]
  have o: "spec_Omega (seg_Spec (rise_seg c)) = cfg_Omega c" by (simp add: rise_seg_def)
  show ?thesis
    using assms(2)
  proof (cases rule: cycle_segs_cases)
    case rise
    then show ?thesis using v(1)
      by (simp add: sideMotion_def o side_motion_def SampleSide_valid Let_def) (simp add: rise_seg_def isDwell_def)
  next
    case outer
    then show ?thesis
      by (simp add: sideMotion_def o side_motion_def seg_motion_def Let_def) (simp add: outer_seg_def isDwell_def)
  next
    case ret
    then show ?thesis using v(2)
      by (simp add: sideMotion_def o side_motion_def SampleSide_valid Let_def) (simp add: return_seg_def isDwell_def)
  next
    case inner
    then show ?thesis
      by (simp add: sideMotion_def o side_motion_def seg_motion_def Let_def) (simp add: inner_seg_def isDwell_def)
  qed
qed

lemma motion_seg_spec:
  assumes "config_ok c" "sg \<in> set (cycle_segs c)" "\<not> isDwell (seg_Kind sg)"
  shows "spec_valid (seg_Spec sg)" "spec_Type (seg_Spec sg) = seg_Law sg" "spec_Beta (seg_Spec sg) = seg_Beta sg"
    "spec_H (seg_Spec sg) = cfg_H c" "pos_finite (seg_Beta sg)" "valof (seg_Beta sg) < 360"
    "seg_Kind sg = ''rise'' \<or> seg_Kind sg = ''return''"
proof -
  have s: "sg = rise_seg c \<or> sg = return_seg c"
    using assms(2,3) by (cases rule: cycle_segs_cases) (auto simp: seg_defs isDwell_def)
  show v: "spec_valid (seg_Spec sg)" using s motion_specs_valid [OF assms(1)] by auto
  show e: "spec_Type (seg_Spec sg) = seg_Law sg" "spec_Beta (seg_Spec sg) = seg_Beta sg"
    "spec_H (seg_Spec sg) = cfg_H c" "seg_Kind sg = ''rise'' \<or> seg_Kind sg = ''return''"
    using s by (auto simp: seg_defs)
  show "pos_finite (seg_Beta sg)" "valof (seg_Beta sg) < 360" using v e by (auto simp: spec_valid_def)
qed

lemma side_S_start:
  assumes "config_ok c" "sg \<in> set (cycle_segs c)"
  shows "m_S (side_motion c sg (seg_Start sg) side) = seg_from c sg"
proof (cases "isDwell (seg_Kind sg)")
  case True
  then show ?thesis by (auto simp: side_motion_def seg_motion_def dwellMotion_def seg_from_def isDwell_def)
next
  case False
  note m = motion_seg_spec [OF assms False] and i = segment_interval [OF assms]
  show ?thesis
    using stroke_start [OF m(1) i(1)] False m(7)
    by (auto simp: side_motion_def seg_from_def m(2-4) simp del: restore_rise restore_return)
qed

lemma side_S_end:
  assumes "config_ok c" "sg \<in> set (cycle_segs c)" "isDwell (seg_Kind sg) \<or> 1 \<le> (theta - seg_Start sg) / seg_Beta sg"
  shows "m_S (side_motion c sg theta side) = seg_to c sg"
proof (cases "isDwell (seg_Kind sg)")
  case True
  then show ?thesis by (auto simp: side_motion_def seg_motion_def dwellMotion_def seg_to_def isDwell_def)
next
  case False
  note m = motion_seg_spec [OF assms(1,2) False]
  have "1 \<le> (theta - seg_Start sg) / seg_Beta sg" using assms(3) False by simp
  then show ?thesis
    using stroke_end [OF m(1)] False m(7)
    by (auto simp: side_motion_def seg_to_def m(2-4) simp del: restore_rise restore_return)
qed

subsection \<open>The list of joints\<close>

definition boundary_of :: "config \<Rightarrow> segment \<times> segment \<Rightarrow> joint" where
  "boundary_of c lr = \<lparr>LeftSegment = seg_Kind (fst lr), RightSegment = seg_Kind (snd lr),
     joint_Seam = Join (seg_End (fst lr)) ''boundary''
       (side_motion c (fst lr) (seg_End (fst lr)) (f64 1)) (side_motion c (snd lr) (seg_Start (snd lr)) (f64 (-1)))\<rparr>"

definition switch_of :: "config \<Rightarrow> segment \<Rightarrow> joint" where
  "switch_of c sg = (let theta = seg_Start sg + seg_Beta sg / f64 2 in
     \<lparr>LeftSegment = seg_Kind sg, RightSegment = seg_Kind sg,
      joint_Seam = Join theta ''switch'' (side_motion c sg theta (f64 (-1))) (side_motion c sg theta (f64 1))\<rparr>)"

definition cyclic_of :: "config \<Rightarrow> joint" where
  "cyclic_of c = (let l = last (cycle_segs c); r = rise_seg c in
     \<lparr>LeftSegment = seg_Kind l, RightSegment = seg_Kind r,
      joint_Seam = Join FullTurn ''cyclic'' (side_motion c l FullTurn (f64 1)) (side_motion c r 0 (f64 (-1)))\<rparr>)"

lemma zip_tl_members: "(l, r) \<in> set (zip xs (tl xs)) \<Longrightarrow> l \<in> set xs \<and> r \<in> set xs"
  by (cases xs) (auto dest: set_zip_leftD set_zip_rightD)

lemma parabolic_not_dwell:
  assumes "sg \<in> set (cycle_segs c)" "seg_Law sg = Parabolic"
  shows "\<not> isDwell (seg_Kind sg)"
  using assms by (cases rule: cycle_segs_cases) (auto simp: seg_defs isDwell_def law_names)

lemma switch_joint_built:
  assumes "config_ok c" "sg \<in> set (cycle_segs c)" "seg_Law sg = Parabolic"
  shows "switch_joint (cycle_of c) sg = Inr (switch_of c sg)"
proof -
  note d = parabolic_not_dwell [OF assms(2,3)]
  note m = motion_seg_spec [OF assms(1,2) d]
  have o: "spec_Omega (seg_Spec (rise_seg c)) = cfg_Omega c" by (simp add: rise_seg_def)
  show ?thesis
    using d by (simp add: switch_joint_def o SampleSide_valid [OF m(1)] switch_of_def side_motion_def m(2,3) Let_def)
qed

lemma Discontinuities_built:
  assumes "config_ok c"
  shows "Discontinuities (cycle_of c)
    = Inr (map (boundary_of c) (zip (cycle_segs c) (tl (cycle_segs c)))
        @ map (switch_of c) (filter (\<lambda>sg. seg_Law sg = Parabolic) (cycle_segs c)) @ [cyclic_of c])"
proof -
  have b: "result_map (boundary_joint (cycle_of c)) (zip (cycle_segs c) (tl (cycle_segs c)))
      = Inr (map (boundary_of c) (zip (cycle_segs c) (tl (cycle_segs c))))"
    by (rule result_map_Inr)
      (auto simp: boundary_joint_def boundary_of_def sideMotion_built [OF assms] dest!: zip_tl_members)
  have s: "result_map (switch_joint (cycle_of c)) (filter (\<lambda>sg. seg_Law sg = Parabolic) (cycle_segs c))
      = Inr (map (switch_of c) (filter (\<lambda>sg. seg_Law sg = Parabolic) (cycle_segs c)))"
    by (rule result_map_Inr) (auto simp: switch_joint_built [OF assms])
  have r: "rise_seg c \<in> set (cycle_segs c)" by (simp add: cycle_segs_def)
  have "cyclic_joint (cycle_of c) = Inr (cyclic_of c)"
    by (simp add: cyclic_joint_def cyclic_of_def index_last sideMotion_built [OF assms] r Let_def)
  then show ?thesis using b s by (simp add: Discontinuities_def)
qed

subsection \<open>Displacement across the joints\<close>

lemma seg_to_next:
  assumes "(l, r) \<in> set (zip (cycle_segs c) (tl (cycle_segs c)))"
  shows "seg_to c l = seg_from c r"
  using assms by (auto simp: cycle_segs_def seg_to_def seg_from_def seg_defs split: if_splits)

lemma seg_to_last: "seg_to c (last (cycle_segs c)) = 0"
  by (simp add: cycle_segs_last seg_to_def seg_defs)

lemma seg_to_finite: "config_ok c \<Longrightarrow> is_finite (seg_to c sg)"
  by (simp add: seg_to_def config_ok_def pos_finite_def)

text \<open>A segment reaches its end when the difference of its rounded ends is not below its angle.\<close>

definition reaches :: "segment \<Rightarrow> float64 \<Rightarrow> bool" where
  "reaches sg theta \<longleftrightarrow> isDwell (seg_Kind sg) \<or> 1 \<le> (theta - seg_Start sg) / seg_Beta sg"

lemma boundary_no_jump:
  assumes "config_ok c" "(l, r) \<in> set (zip (cycle_segs c) (tl (cycle_segs c)))" "reaches l (seg_End l)"
  shows "\<not> SJump (joint_Seam (boundary_of c (l, r)))"
proof -
  have m: "l \<in> set (cycle_segs c)" "r \<in> set (cycle_segs c)" using zip_tl_members [OF assms(2)] by auto
  show ?thesis
    using side_S_end [OF assms(1) m(1) assms(3) [unfolded reaches_def]] side_S_start [OF assms(1) m(2)]
      seg_to_next [OF assms(2)] seg_to_finite [OF assms(1), of l]
    by (auto simp: boundary_of_def intro!: Join_cont(1))
qed

lemma cyclic_no_jump:
  assumes "config_ok c" "reaches (last (cycle_segs c)) FullTurn"
  shows "\<not> SJump (joint_Seam (cyclic_of c))"
proof -
  have r: "rise_seg c \<in> set (cycle_segs c)" by (simp add: cycle_segs_def)
  have "m_S (side_motion c (rise_seg c) 0 side) = 0" for side
    using side_S_start [OF assms(1) r, of side] by (simp add: seg_from_def rise_seg_def)
  then show ?thesis
    using side_S_end [OF assms(1) last_in_set [OF cycle_segs_not_Nil] assms(2) [unfolded reaches_def]] seg_to_last [of c]
    by (auto simp: cyclic_of_def Let_def intro!: Join_cont(1))
qed

lemma switch_finite:
  assumes "config_ok c" "sg \<in> set (cycle_segs c)" "\<not> isDwell (seg_Kind sg)"
  shows "is_finite ((seg_Start sg + seg_Beta sg / f64 2) - seg_Start sg)"
proof -
  note m = motion_seg_spec [OF assms] and i = segment_interval [OF assms(1,2)] and p = pos_bounds [OF assms(1)]
  note b = pos_finiteD [OF m(5)]
  let ?h = "seg_Beta sg / f64 2"
  have h: "is_finite ?h" "0 \<le> valof ?h" "valof ?h \<le> 360"
    using div_bounds [of "seg_Beta sg" "f64 2" 0 FullTurn] b m(6) by (simp_all add: small_ints)
  have s: "0 \<le> valof (seg_Start sg)" "valof (seg_Start sg) \<le> 1440" using i p(9) by linarith+
  have a: "is_finite (seg_Start sg + ?h)" "0 \<le> valof (seg_Start sg + ?h)" "valof (seg_Start sg + ?h) \<le> 1800"
    using sum_error(1) [OF i(1) h(1)] f64_ge_0 [OF i(1) h(1)] sum_le [OF i(1) h(1), of 1800] s h by auto
  show ?thesis using diff_error(1) [OF a(1) i(1)] a s by auto
qed

lemma switch_no_jump:
  assumes "config_ok c" "sg \<in> set (cycle_segs c)" "seg_Law sg = Parabolic"
  shows "\<not> SJump (joint_Seam (switch_of c sg))"
proof -
  note d = parabolic_not_dwell [OF assms(2,3)]
  note m = motion_seg_spec [OF assms(1,2) d]
  have n: "\<not> is_nan (((seg_Start sg + seg_Beta sg / f64 2) - seg_Start sg) / seg_Beta sg)"
    by (rule div_not_nan [OF switch_finite [OF assms(1,2) d] m(5)])
  have h: "pos_finite (spec_H (seg_Spec sg))" using m(1) by (simp add: spec_valid_def)
  show ?thesis
    using d parabolic_S [OF n h] by (auto simp: switch_of_def side_motion_def assms(3) Let_def
        simp del: restore_rise restore_return intro!: Join_cont(1))
qed

lemma no_jump:
  assumes "config_ok c" "\<forall>sg \<in> set (cycle_segs c). reaches sg (seg_End sg)" "reaches (last (cycle_segs c)) FullTurn"
  shows "\<exists>js. Discontinuities (cycle_of c) = Inr js \<and> \<not> HasDisplacementJump js"
  using assms zip_tl_members boundary_no_jump [OF assms(1)] switch_no_jump [OF assms(1)] cyclic_no_jump [OF assms(1,3)]
  by (fastforce simp: Discontinuities_built [OF assms(1)] HasDisplacementJump_def)

subsection \<open>Angles on a dyadic grid\<close>

text \<open>Multiples of \<open>2 ^ e\<close>; below 512 and with \<open>e = -44\<close> they are all floating-point numbers.\<close>

definition on_grid :: "int \<Rightarrow> real \<Rightarrow> bool" where
  "on_grid e x \<longleftrightarrow> (\<exists>k::int. x = of_int k * 2 powi e)"

lemma on_grid_0 [simp]: "on_grid e 0"
  by (auto simp: on_grid_def intro: exI [of _ 0])

lemma on_grid_add: "on_grid e x \<Longrightarrow> on_grid e y \<Longrightarrow> on_grid e (x + y)"
  unfolding on_grid_def by (metis of_int_add distrib_right)

lemma on_grid_half: "on_grid e x \<Longrightarrow> on_grid (e - 1) (x / 2)"
  unfolding on_grid_def by (auto simp: pow2_diff)

lemma on_grid_finer: "on_grid e x \<Longrightarrow> on_grid (e - 1) x"
proof -
  assume "on_grid e x"
  then obtain k where "x = of_int k * 2 powi e" by (auto simp: on_grid_def)
  then have "x = of_int (2 * k) * 2 powi (e - 1)" by (simp add: pow2_diff)
  then show ?thesis unfolding on_grid_def by blast
qed

lemma on_grid_int: "e \<le> 0 \<Longrightarrow> on_grid e (of_int i)"
proof -
  assume e: "e \<le> 0"
  have "of_int i = of_int (i * 2 ^ nat (- e)) * (2::real) powi e"
    using e pow2_add [of "- e" e] pow2_nat [of "- e"] by simp
  then show ?thesis unfolding on_grid_def by blast
qed

lemma on_grid_representable:
  assumes "on_grid (-44) x" "\<bar>x\<bar> \<le> 512"
  shows "representable x"
proof -
  obtain k where k: "x = of_int k * 2 powi (-44)" using assms(1) by (auto simp: on_grid_def)
  have "\<bar>real_of_int k\<bar> * 2 powi (-44) \<le> 512" using assms(2) by (simp add: k abs_mult)
  then have "\<bar>real_of_int k\<bar> \<le> 2 ^ 53" by (simp add: power_int_minus field_simps)
  then have "real_of_int \<bar>k\<bar> \<le> of_int (2 ^ 53)" by simp
  then have "\<bar>k\<bar> \<le> 2 ^ 53" by (simp only: of_int_le_iff)
  then show ?thesis unfolding representable_def k by (intro exI [of _ k] exI [of _ "-44"]) simp
qed

lemma grid_add_exact:
  assumes "is_finite x" "is_finite y" "on_grid (-44) (valof x)" "on_grid (-44) (valof y)" "\<bar>valof x + valof y\<bar> \<le> 512"
  shows "is_finite (x + y)" "valof (x + y) = valof x + valof y"
  using sum_error [OF assms(1,2)] assms(5) on_grid_representable [OF on_grid_add [OF assms(3,4)]] by auto

definition grid_config :: "config \<Rightarrow> bool" where
  "grid_config c \<longleftrightarrow> config_ok c \<and> real_total c = 360
     \<and> on_grid (-43) (valof (RiseAngle c)) \<and> on_grid (-43) (valof (OuterDwell c))
     \<and> on_grid (-43) (valof (ReturnAngle c)) \<and> on_grid (-43) (valof (InnerDwell c))"

lemma grid_positions:
  assumes "grid_config c"
  shows "on_grid (-43) (valof (pos2 c))" "valof (pos2 c) = valof (RiseAngle c) + valof (OuterDwell c)"
    "on_grid (-43) (valof (pos3 c))" "valof (pos3 c) = valof (pos2 c) + valof (ReturnAngle c)"
    "valof (angle_total c) = 360" "valof (pos3 c) + valof (InnerDwell c) = 360"
proof -
  note g = assms [unfolded grid_config_def]
  note k = conjunct1 [OF g, unfolded config_ok_def pos_finite_def]
  have fine: "on_grid (-43) x \<Longrightarrow> on_grid (-44) x" for x using on_grid_finer [of "-43" x] by simp
  have t: "valof (RiseAngle c) + valof (OuterDwell c) + valof (ReturnAngle c) + valof (InnerDwell c) = 360"
    using g by (simp add: real_total_def)
  have p2: "is_finite (pos2 c)" "valof (pos2 c) = valof (RiseAngle c) + valof (OuterDwell c)"
    unfolding pos2_def using k g t by (auto intro!: grid_add_exact fine)
  show g2: "on_grid (-43) (valof (pos2 c))" using p2 g by (auto intro: on_grid_add)
  have p3: "is_finite (pos3 c)" "valof (pos3 c) = valof (pos2 c) + valof (ReturnAngle c)"
    using grid_add_exact [OF p2(1) _ fine [OF g2] fine, of "ReturnAngle c"] p2(2) k g t
    by (simp_all add: pos3_def)
  show g3: "on_grid (-43) (valof (pos3 c))" using p3 g g2 by (auto intro: on_grid_add)
  show "valof (pos3 c) + valof (InnerDwell c) = 360" using p2 p3 t by simp
  then show "valof (angle_total c) = 360"
    unfolding angle_total_eq using grid_add_exact(2) [OF p3(1) _ fine [OF g3] fine, of "InnerDwell c"] k g by simp
  show "valof (pos2 c) = valof (RiseAngle c) + valof (OuterDwell c)" "valof (pos3 c) = valof (pos2 c) + valof (ReturnAngle c)"
    by (fact p2 p3)+
qed

lemma reaches_exact:
  assumes "is_finite theta" "is_finite (seg_Start sg)" "pos_finite (seg_Beta sg)"
    "valof theta = valof (seg_Start sg) + valof (seg_Beta sg)"
  shows "reaches sg theta"
proof -
  note b = pos_finiteD [OF assms(3)]
  have "theta - seg_Start sg = seg_Beta sg"
    using sub_exact [of theta "seg_Start sg" "seg_Beta sg"] assms b by (intro valof_inject_pos) auto
  then have "(theta - seg_Start sg) / seg_Beta sg = 1" using b by (simp add: div_self)
  then show ?thesis by (simp add: reaches_def le_iff_valof)
qed

lemma grid_segment:
  assumes "grid_config c" "sg \<in> set (cycle_segs c)"
  shows "valof (seg_End sg) = valof (seg_Start sg) + valof (seg_Beta sg)"
    "on_grid (-43) (valof (seg_Start sg))" "on_grid (-43) (valof (seg_Beta sg))" "valof (seg_End sg) \<le> 360"
proof -
  note g = grid_positions [OF assms(1)] and c = assms(1) [unfolded grid_config_def]
  have ok: "config_ok c" using c by simp
  have r: "0 + RiseAngle c = RiseAngle c" using ok by (simp add: config_ok_def zero_add_pos)
  have "valof (seg_End sg) = valof (seg_Start sg) + valof (seg_Beta sg)
      \<and> on_grid (-43) (valof (seg_Start sg)) \<and> on_grid (-43) (valof (seg_Beta sg))"
    using assms(2)
  proof (cases rule: cycle_segs_cases)
    case rise
    then show ?thesis using c by (simp add: seg_defs r)
  next
    case outer
    then show ?thesis using c g by (simp add: seg_defs pos2_def [symmetric])
  next
    case ret
    then show ?thesis using c g by (simp add: seg_defs pos3_def [symmetric])
  next
    case inner
    then show ?thesis using c g by (simp add: seg_defs angle_total_eq [symmetric])
  qed
  then show "valof (seg_End sg) = valof (seg_Start sg) + valof (seg_Beta sg)"
    "on_grid (-43) (valof (seg_Start sg))" "on_grid (-43) (valof (seg_Beta sg))" by auto
  show "valof (seg_End sg) \<le> 360" using segment_interval(5) [OF ok assms(2)] g by simp
qed

lemma grid_reaches:
  assumes "grid_config c" "sg \<in> set (cycle_segs c)"
  shows "reaches sg (seg_End sg)"
proof (cases "isDwell (seg_Kind sg)")
  case True
  then show ?thesis by (simp add: reaches_def)
next
  case False
  have ok: "config_ok c" using assms(1) by (simp add: grid_config_def)
  show ?thesis
    using segment_interval [OF ok assms(2)] motion_seg_spec(5) [OF ok assms(2) False] grid_segment(1) [OF assms]
    by (intro reaches_exact) auto
qed

lemma grid_reaches_turn:
  assumes "grid_config c"
  shows "reaches (last (cycle_segs c)) FullTurn"
proof (cases "0 < valof (InnerDwell c)")
  case True
  then show ?thesis by (simp add: reaches_def cycle_segs_last inner_seg_def isDwell_def)
next
  case False
  note g = grid_positions [OF assms]
  have ok: "config_ok c" using assms by (simp add: grid_config_def)
  have "valof (InnerDwell c) = 0" using ok False by (simp add: config_ok_def)
  then have "valof FullTurn = valof (pos2 c) + valof (ReturnAngle c)" using g by simp
  then show ?thesis
    using False ok pos_bounds [OF ok]
    by (simp add: cycle_segs_last) (intro reaches_exact, simp_all add: return_seg_def config_ok_def pos_finite_def)
qed

subsection \<open>The switch point on the grid\<close>

text \<open>Opposite accelerations are told apart whichever of the two is the positive one.\<close>

lemma approxEqual_opposite_abs:
  assumes "is_finite x" "is_finite y" "valof y = - valof x" "2 powi (-38) \<le> \<bar>valof x\<bar>" "\<bar>valof x\<bar> \<le> 2 powi 1022"
  shows "\<not> approxEqual x y (math_Max (math_Abs x) (math_Abs y))"
proof (cases "0 < valof x")
  case True
  then show ?thesis using approxEqual_opposite [OF assms(1-3)] assms(4,5) by simp
next
  case False
  let ?s = "\<lambda>x y. math_Max (math_Abs x) (math_Abs y)"
  have n: "\<not> approxEqual y x (?s y x)"
    using approxEqual_opposite [OF assms(2,1)] assms(3-5) False by simp
  have r: "rnd (valof x - valof y) = 2 * valof x" "rnd (valof y - valof x) = - (2 * valof x)"
    using representable_double [of "valof x"] rnd_minus [of "2 * valof x"] assms(3) by simp_all
  have l: "\<bar>2 * valof x\<bar> < f64_limit"
    using rnd_limit [of "2 * valof x"] representable_double [of "valof x"] assms(5) by simp
  have d: "is_finite (x - y)" "is_finite (y - x)" "valof (y - x) = - valof (x - y)"
    using sub_finite [OF assms(1,2)] sub_finite [OF assms(2,1)] r l by (simp_all add: abs_minus_cancel)
  note s = Abs_scale [OF assms(1,2)] Abs_scale [OF assms(2,1)]
  have e: "?s x y = ?s y x"
  proof (rule valof_inject_pos)
    show "valof (?s x y) = valof (?s y x)" using s by (simp add: max.commute)
    have "(0::real) < 2 powi (-38)" by simp
    then show "0 < valof (?s x y)" using s assms(4) by linarith
  qed
  have "0 \<le> valof (?s x y)" using s by simp
  then show ?thesis
    using n d tolerance_value [OF s(1)] by (simp add: approxEqual_def Let_def le_iff_valof e)
qed

lemma grid_switch_T:
  assumes "grid_config c" "sg \<in> set (cycle_segs c)" "\<not> isDwell (seg_Kind sg)"
  shows "((seg_Start sg + seg_Beta sg / f64 2) - seg_Start sg) / seg_Beta sg = half_f"
proof -
  have ok: "config_ok c" using assms(1) by (simp add: grid_config_def)
  note g = grid_segment [OF assms(1,2)] and i = segment_interval [OF ok assms(2)] and m = motion_seg_spec [OF ok assms(2,3)]
  note b = pos_finiteD [OF m(5)]
  obtain k :: int where k: "valof (seg_Beta sg) = of_int k * 2 powi (-43)" using g(3) by (auto simp: on_grid_def)
  then have "0 < k" using b(2) by (simp add: zero_less_mult_iff)
  then have "1 * 2 powi (-43) \<le> valof (seg_Beta sg)" unfolding k by (intro mult_right_mono) auto
  moreover have "(2::real) powi (-1021) \<le> 2 powi (-43)" by (simp only: pow2_le_iff)
  ultimately have lo: "2 powi (-1021) \<le> valof (seg_Beta sg)" by linarith
  note h = halve_exact [OF b(1) lo]
  let ?h = "seg_Beta sg / f64 2"
  have a: "is_finite (seg_Start sg + ?h)" "valof (seg_Start sg + ?h) = valof (seg_Start sg) + valof ?h"
    using grid_add_exact [OF i(1) h(1)] on_grid_finer [OF g(2)] on_grid_half [OF g(3)] h(2) i(3) b(2) g(1,4)
    by simp_all
  have "(seg_Start sg + ?h) - seg_Start sg = ?h"
    using sub_exact [OF a(1) i(1) h(1)] a h b(2) by (intro valof_inject_pos) auto
  moreover have "?h / seg_Beta sg = half_f"
    using div_exact [of ?h "seg_Beta sg" half_f] h b by (intro valof_inject_pos) auto
  ultimately show ?thesis by simp
qed

lemma grid_switch_jump:
  assumes "grid_config c" "sg \<in> set (cycle_segs c)" "seg_Law sg = Parabolic"
    "is_finite (sc_v (factor (seg_Spec sg)) * f64 2)" "is_finite (sc_a (factor (seg_Spec sg)))"
    "2 powi (-40) \<le> valof (sc_a (factor (seg_Spec sg)))" "valof (sc_a (factor (seg_Spec sg))) \<le> 2 powi 1020"
  shows "SCont (joint_Seam (switch_of c sg))" "VCont (joint_Seam (switch_of c sg))" "\<not> ACont (joint_Seam (switch_of c sg))"
proof -
  have ok: "config_ok c" using assms(1) by (simp add: grid_config_def)
  note d = parabolic_not_dwell [OF assms(2,3)]
  note T = grid_switch_T [OF assms(1,2) d]
  note q = quadruple_signed [OF assms(5-7)]
  let ?r = "seg_Kind sg = ''return''" and ?f = "factor (seg_Spec sg)"
  define m where "m side = side_motion c sg (seg_Start sg + seg_Beta sg / f64 2) side" for side
  have mm: "m side = restore (law_at Parabolic half_f side) ?f (seg_Spec sg) (seg_Start sg + seg_Beta sg / f64 2)
      (seg_Start sg / cfg_Omega c) ?r" for side
    using d T assms(3) by (simp add: m_def side_motion_def)
  have j: "joint_Seam (switch_of c sg) = Join (seg_Start sg + seg_Beta sg / f64 2) ''switch'' (m (f64 (-1))) (m (f64 1))"
    by (simp add: switch_of_def m_def Let_def)
  show "SCont (joint_Seam (switch_of c sg))" using switch_no_jump [OF ok assms(2,3)] by (simp add: j)
  show "VCont (joint_Seam (switch_of c sg))"
    unfolding j by (rule Join_cont(2)) (cases ?r; simp add: mm law_at_half assms(4))+
  let ?a = "sc_a ?f * f64 4" and ?b = "sc_a ?f * f64 (-4)"
  have A: "m_A (m (f64 (-1))) = (if ?r then - ?a else ?a)" "m_A (m (f64 1)) = (if ?r then - ?b else ?b)"
    by (cases ?r; simp add: mm law_at_half side_signs)+
  have lim: "2 powi (-38) \<le> \<bar>valof (m_A (m (f64 (-1))))\<bar>" "\<bar>valof (m_A (m (f64 (-1))))\<bar> \<le> 2 powi 1022"
  proof -
    have "(0::real) < 2 powi (-38)" by simp
    then have "0 < valof ?a" using q(4) by linarith
    then have "\<bar>valof (m_A (m (f64 (-1))))\<bar> = valof ?a" by (simp only: A valof_uminus split: if_splits) simp
    then show "2 powi (-38) \<le> \<bar>valof (m_A (m (f64 (-1))))\<bar>" "\<bar>valof (m_A (m (f64 (-1))))\<bar> \<le> 2 powi 1022"
      using q(4,5) by simp_all
  qed
  have "\<not> approxEqual (m_A (m (f64 (-1)))) (m_A (m (f64 1)))
      (math_Max (math_Abs (m_A (m (f64 (-1))))) (math_Abs (m_A (m (f64 1)))))"
    by (rule approxEqual_opposite_abs [OF _ _ _ lim]) (cases ?r; use q in \<open>simp add: A valof_uminus\<close>)+
  then show "\<not> ACont (joint_Seam (switch_of c sg))" unfolding j by (simp add: Join_def Let_def)
qed

subsection \<open>Properties of the joints\<close>

text \<open>
  Claim C20. On a built cycle \<open>Discontinuities\<close> never fails and reports exactly the joints there are, in this order:
  one boundary joint between each two neighbouring segments, at the end angle of the left one; one
  switch joint per parabolic segment; and the closing joint at 360 degrees between the last segment and the first.
\<close>

theorem Discontinuities_complete:
  assumes "Build c = Inr b"
  shows "\<exists>js. Discontinuities b = Inr js
    \<and> map (\<lambda>j. (sm_Kind (joint_Seam j), LeftSegment j, RightSegment j)) js
      = map (\<lambda>(l, r). (''boundary'', seg_Kind l, seg_Kind r)) (zip (seg_All b) (tl (seg_All b)))
        @ map (\<lambda>sg. (''switch'', seg_Kind sg, seg_Kind sg)) (filter (\<lambda>sg. seg_Law sg = Parabolic) (seg_All b))
        @ [(''cyclic'', seg_Kind (last (seg_All b)), ''rise'')]
    \<and> map (\<lambda>j. sm_Theta (joint_Seam j)) js
      = map seg_End (butlast (seg_All b))
        @ map (\<lambda>sg. seg_Start sg + seg_Beta sg / f64 2) (filter (\<lambda>sg. seg_Law sg = Parabolic) (seg_All b))
        @ [f64 360]"
proof -
  have b: "b = cycle_of c" and ok: "config_ok c" using assms Build_config_ok by (auto simp: Build_ok_iff)
  have k: "map (\<lambda>j. (sm_Kind (joint_Seam j), LeftSegment j, RightSegment j)) (map (boundary_of c) ps)
      = map (\<lambda>(l, r). (''boundary'', seg_Kind l, seg_Kind r)) ps" for ps
    by (simp add: boundary_of_def split_beta)
  have "map seg_End (butlast xs) = map (\<lambda>lr. seg_End (fst lr)) (zip xs (tl xs))" for xs :: "segment list"
    by (rule nth_equalityI) (auto simp: nth_butlast nth_tl)
  then have t: "map (\<lambda>j. sm_Theta (joint_Seam j)) (map (boundary_of c) (zip xs (tl xs))) = map seg_End (butlast xs)" for xs
    by (simp add: boundary_of_def o_def)
  show ?thesis
    unfolding b Discontinuities_built [OF ok]
    using k t by (simp add: switch_of_def cyclic_of_def Let_def rise_seg_def FullTurn_def)
qed

theorem Discontinuities_complete_witness:
  "\<exists>b js. Build example_config = Inr b \<and> Discontinuities b = Inr js \<and> length js = 5"
proof -
  let ?c = example_config
  have b: "Build ?c = Inr (cycle_of ?c)" by (rule Build_valid [OF example_valid])
  have s: "map seg_Kind (cycle_segs ?c) = [''rise'', ''outer_dwell'', ''return'', ''inner_dwell'']"
    "map seg_Law (cycle_segs ?c) = [''cycloid'', '''', ''parabolic'', '''']"
    by (simp_all add: cycle_segs_def seg_defs) (simp_all add: example_config_def example_values)
  have n: "length (cycle_segs ?c) = 4" using arg_cong [OF s(1), of length] by simp
  have "length (filter (\<lambda>l. l = Parabolic) (map seg_Law (cycle_segs ?c))) = 1"
    unfolding s(2) by (simp add: law_names)
  then have f: "length (filter (\<lambda>sg. seg_Law sg = Parabolic) (cycle_segs ?c)) = 1"
    by (simp add: filter_map o_def)
  obtain js where js: "Discontinuities (cycle_of ?c) = Inr js"
    "map (\<lambda>j. sm_Theta (joint_Seam j)) js = map seg_End (butlast (cycle_segs ?c))
        @ map (\<lambda>sg. seg_Start sg + seg_Beta sg / f64 2) (filter (\<lambda>sg. seg_Law sg = Parabolic) (cycle_segs ?c)) @ [f64 360]"
    using Discontinuities_complete [OF b] by auto
  have "length js = 5" using arg_cong [OF js(2), of length] n f by simp
  then show ?thesis using b js(1) by blast
qed

text \<open>
  Claim C1. No displacement jump: a configuration with legal parameters whose four angles are multiples of
  \<open>2 ^ -43\<close> degrees (every whole number of degrees, for instance) and sum up to exactly 360 is accepted, and all of
  its joints, the closing one included, are reported continuous in displacement.
\<close>

theorem no_displacement_jump:
  assumes "config_ok c" "real_total c = 360"
    "\<forall>x \<in> {RiseAngle c, OuterDwell c, ReturnAngle c, InnerDwell c}. on_grid (-43) (valof x)"
  shows "\<exists>b js. Build c = Inr b \<and> Discontinuities b = Inr js \<and> \<not> HasDisplacementJump js
    \<and> valof (TotalAngle b) = 360"
proof -
  have g: "grid_config c" using assms by (simp add: grid_config_def)
  have "Config_Validate c = Inr ()" using Validate_total(2) [OF assms(1)] assms(2) by simp
  then have "Build c = Inr (cycle_of c)" by (rule Build_valid)
  then show ?thesis
    using no_jump [OF assms(1)] grid_reaches [OF g] grid_reaches_turn [OF g] grid_positions(5) [OF g] by fastforce
qed

lemma example_on_grid:
  "\<forall>x \<in> {RiseAngle example_config, OuterDwell example_config, ReturnAngle example_config, InnerDwell example_config}.
     on_grid (-43) (valof x)"
  using on_grid_int [of "-43" 64] on_grid_int [of "-43" 32] on_grid_int [of "-43" 128] on_grid_int [of "-43" 136]
  by (simp add: example_config_def example_values)

theorem no_displacement_jump_witness:
  "\<exists>b js. Build example_config = Inr b \<and> Discontinuities b = Inr js \<and> \<not> HasDisplacementJump js"
  using no_displacement_jump [OF example_config_ok example_on_grid] by blast

text \<open>
  Claim C19. The switch of the parabolic law is found: in every legal cycle whose four angles are multiples of \<open>2^-43\<close> degrees with sum exactly 360, each parabolic rise or
  return segment with a finite double velocity scale and an acceleration scale from \<open>2^-40\<close> to \<open>2^1020\<close> has a switch joint among the reported ones, continuous in displacement
  and velocity and discontinuous in acceleration. (Below about \<open>10^-12\<close> the absolute tolerance of the comparison hides the jump, so the claim does not hold there.)
\<close>

theorem parabolic_switch_reported:
  assumes "config_ok c" "real_total c = 360"
    "\<forall>x \<in> {RiseAngle c, OuterDwell c, ReturnAngle c, InnerDwell c}. on_grid (-43) (valof x)"
    "Build c = Inr b" "sg \<in> set (seg_All b)" "seg_Law sg = Parabolic"
    "is_finite (sc_v (factor (seg_Spec sg)) * f64 2)" "is_finite (sc_a (factor (seg_Spec sg)))"
    "2 powi (-40) \<le> valof (sc_a (factor (seg_Spec sg)))" "valof (sc_a (factor (seg_Spec sg))) \<le> 2 powi 1020"
  shows "\<exists>js. Discontinuities b = Inr js
    \<and> (\<exists>j \<in> set js. sm_Kind (joint_Seam j) = ''switch'' \<and> LeftSegment j = seg_Kind sg
         \<and> SCont (joint_Seam j) \<and> VCont (joint_Seam j) \<and> \<not> ACont (joint_Seam j))"
proof -
  have g: "grid_config c" using assms(1-3) by (simp add: grid_config_def)
  have b: "b = cycle_of c" using assms(4) by (simp add: Build_ok_iff)
  have m: "sg \<in> set (cycle_segs c)" using assms(5) b by simp
  have "switch_of c sg \<in> set (map (switch_of c) (filter (\<lambda>sg. seg_Law sg = Parabolic) (cycle_segs c)))"
    using m assms(6) by simp
  moreover have "sm_Kind (joint_Seam (switch_of c sg)) = ''switch''" "LeftSegment (switch_of c sg) = seg_Kind sg"
    by (simp_all add: switch_of_def Let_def)
  ultimately show ?thesis
    unfolding b Discontinuities_built [OF assms(1)] using grid_switch_jump [OF g m assms(6-10)] by fastforce
qed

theorem parabolic_switch_reported_witness:
  "\<exists>b js. Build example_config = Inr b \<and> Discontinuities b = Inr js
    \<and> (\<exists>j \<in> set js. sm_Kind (joint_Seam j) = ''switch'' \<and> LeftSegment j = ''return'' \<and> \<not> ACont (joint_Seam j))"
proof -
  let ?c = example_config
  have b: "Build ?c = Inr (cycle_of ?c)" by (rule Build_valid [OF example_valid])
  have m: "return_seg ?c \<in> set (seg_All (cycle_of ?c))" by (simp add: cycle_segs_def)
  have l: "seg_Law (return_seg ?c) = Parabolic" "seg_Kind (return_seg ?c) = ''return''"
    "seg_Spec (return_seg ?c) = \<lparr>spec_Type = ''parabolic'', spec_H = f64 16, spec_Beta = f64 128, spec_Omega = f64 64\<rparr>"
    by (simp_all add: return_seg_def) (simp_all add: example_config_def law_names)
  have f: "factor \<lparr>spec_Type = ''parabolic'', spec_H = f64 16, spec_Beta = f64 128, spec_Omega = f64 64\<rparr>
      = \<lparr>sc_v = f64 8, sc_a = f64 4, sc_j = f64 2\<rparr>"
    by code_simp
  have x: "is_finite (f64 8 * f64 2)" by code_simp
  have p: "(2::real) powi (-40) \<le> 2 powi 2" "(2::real) powi 2 \<le> 2 powi 1020" by (simp_all only: pow2_le_iff)
  have n: "(2::real) powi 2 = 4" by simp
  have "\<exists>js. Discontinuities (cycle_of ?c) = Inr js
    \<and> (\<exists>j \<in> set js. sm_Kind (joint_Seam j) = ''switch'' \<and> LeftSegment j = seg_Kind (return_seg ?c)
         \<and> SCont (joint_Seam j) \<and> VCont (joint_Seam j) \<and> \<not> ACont (joint_Seam j))"
    by (rule parabolic_switch_reported [OF example_config_ok example_on_grid b m l(1)])
      (use x p n in \<open>simp_all only: l f scales.select_convs small_ints\<close>)
  then show ?thesis using b l(2) by auto
qed

end
