(* ===== verification/Overflow.thy ===== *)
theory Overflow
  imports Cycle_Joints
begin

text \<open>
  When the arithmetic does not overflow. Magnitudes are bounded by powers of two, which every operation carries on exactly; the trigonometric
  polynomials get the crude bound \<open>2 ^ 120\<close>, which leaves room for every stroke, angle and speed between \<open>2 ^ -100\<close> and \<open>2 ^ 100\<close>: all values of the curves are
  then finite.
\<close>

subsection \<open>Magnitudes\<close>

definition mag_le :: "float64 \<Rightarrow> int \<Rightarrow> bool" where
  "mag_le x k \<longleftrightarrow> is_finite x \<and> \<bar>valof x\<bar> \<le> 2 powi k"

lemma mag_finite: "mag_le x k \<Longrightarrow> is_finite x"
  by (simp add: mag_le_def)

lemma mag_mono: "mag_le x k \<Longrightarrow> k \<le> m \<Longrightarrow> mag_le x m"
proof -
  assume "mag_le x k" "k \<le> m"
  moreover from this(2) have "(2::real) powi k \<le> 2 powi m" by simp
  ultimately show "mag_le x m" unfolding mag_le_def by (meson order_trans)
qed

lemma mag_zero: "mag_le 0 k"
  by (simp add: mag_le_def less_imp_le)

lemma mag_neg: "mag_le (- x) k \<longleftrightarrow> mag_le x k"
  by (simp add: mag_le_def valof_uminus)

lemma rnd_mag:
  assumes "\<bar>v\<bar> \<le> 2 powi k" "-1074 \<le> k" "k \<le> 1023"
  shows "\<bar>rnd v\<bar> \<le> 2 powi k" "\<bar>rnd v\<bar> < f64_limit"
proof -
  show b: "\<bar>rnd v\<bar> \<le> 2 powi k" unfolding rnd_abs [symmetric] using assms(1,2) by (intro rnd_le_representable representable_pow2)
  have "(2::real) powi k < f64_limit" using assms(3) by (simp add: pow2_less_limit)
  then show "\<bar>rnd v\<bar> < f64_limit" using b by linarith
qed

lemma mag_add:
  assumes "mag_le x k" "mag_le y l" "k < m" "l < m" "-1074 \<le> m" "m \<le> 1023"
  shows "mag_le (x + y) m" "mag_le (x - y) m"
proof -
  have m: "(2::real) powi m = 2 powi (m - 1) + 2 powi (m - 1)" using pow2_add [of "m - 1" 1] by simp
  have "(2::real) powi k \<le> 2 powi (m - 1)" "(2::real) powi l \<le> 2 powi (m - 1)" using assms(3,4) by simp_all
  then have b: "\<bar>valof x\<bar> \<le> 2 powi (m - 1)" "\<bar>valof y\<bar> \<le> 2 powi (m - 1)" using assms(1,2) unfolding mag_le_def by linarith+
  have f: "is_finite x" "is_finite y" using assms(1,2) by (simp_all add: mag_le_def)
  have "\<bar>valof x + valof y\<bar> \<le> 2 powi m" "\<bar>valof x - valof y\<bar> \<le> 2 powi m" unfolding m using b by linarith+
  note r = rnd_mag [OF this(1) assms(5,6)] rnd_mag [OF this(2) assms(5,6)]
  show "mag_le (x + y) m" using add_finite [OF f r(2)] r(1) by (simp add: mag_le_def)
  show "mag_le (x - y) m" using sub_finite [OF f r(4)] r(3) by (simp add: mag_le_def)
qed

lemma mag_mult:
  assumes "mag_le x k" "mag_le y l" "k + l \<le> m" "-1074 \<le> m" "m \<le> 1023"
  shows "mag_le (x * y) m"
proof -
  have f: "is_finite x" "is_finite y" using assms(1,2) by (simp_all add: mag_le_def)
  have "\<bar>valof x\<bar> * \<bar>valof y\<bar> \<le> 2 powi k * 2 powi l"
    using assms(1,2) by (intro mult_mono) (simp_all add: mag_le_def less_imp_le)
  also have "\<dots> \<le> 2 powi m" unfolding pow2_add [symmetric] using assms(3) by simp
  finally have "\<bar>valof x * valof y\<bar> \<le> 2 powi m" by (simp add: abs_mult)
  note r = rnd_mag [OF this assms(4,5)]
  show ?thesis using mul_finite [OF f r(2)] r(1) by (simp add: mag_le_def)
qed

lemma mag_divide:
  assumes "mag_le x k" "is_finite y" "2 powi l \<le> \<bar>valof y\<bar>" "k - l \<le> m" "-1074 \<le> m" "m \<le> 1023"
  shows "mag_le (x / y) m"
proof -
  have f: "is_finite x" "valof y \<noteq> 0" using assms(1,3) pow2_pos [of l] by (auto simp: mag_le_def)
  have "\<bar>valof x\<bar> / \<bar>valof y\<bar> \<le> 2 powi k / 2 powi l"
    using assms(1,3) by (intro frac_le) (simp_all add: mag_le_def less_imp_le)
  also have "\<dots> \<le> 2 powi m" unfolding pow2_diff [symmetric] using assms(4) by simp
  finally have "\<bar>valof x / valof y\<bar> \<le> 2 powi m" by simp
  note r = rnd_mag [OF this assms(5,6)]
  show ?thesis using div_finite [OF f(1) assms(2) f(2) r(2)] r(1) by (simp add: mag_le_def)
qed

text \<open>A float is bounded by its encoding: the exponent field and 1022.\<close>

lemma mag_bits:
  assumes "uint e < 2047" "uint e - 1022 \<le> m" "1 \<le> uint e"
  shows "mag_le (Float64 s e f) m"
proof -
  have e: "e \<noteq> 0" using assms(3) by auto
  have n: "e \<noteq> 2047" using assms(1) by auto
  have "valof (Float64 False e f) = of_int (2 ^ 52 + uint f) * 2 powi (uint e - 1075)"
    using e by (simp add: valof_def f64_mag_def f64_mant_def f64_expo_def)
  moreover have "2 ^ 52 + uint f \<le> 2 ^ 53" using less_imp_le [OF uint52(2) [of f]] by simp
  then have "real_of_int (2 ^ 52 + uint f) \<le> of_int (2 ^ 53)" by (simp only: of_int_le_iff)
  ultimately have "\<bar>valof (Float64 s e f)\<bar> \<le> of_int (2 ^ 53) * 2 powi (uint e - 1075)"
    by (simp add: abs_valof f64_mag_def f64_mant_def f64_expo_def e mult_right_mono less_imp_le)
  also have "\<dots> = 2 powi (uint e - 1022)" using pow2_add [of 53 "uint e - 1075"] by simp
  also have "\<dots> \<le> 2 powi m" using assms(2) by simp
  finally show ?thesis using n by (simp add: mag_le_def is_finite_def)
qed

lemma mag_int: "\<bar>i\<bar> \<le> 2 ^ n \<Longrightarrow> n \<le> 53 \<Longrightarrow> mag_le (f64 i) (int n)"
proof -
  assume a: "\<bar>i\<bar> \<le> 2 ^ n" "n \<le> 53"
  then have "(2::int) ^ n \<le> 2 ^ 53" by (intro power_increasing) auto
  then have f: "is_finite (f64 i)" "valof (f64 i) = of_int i" using f64_exact [of i] a(1) by linarith+
  have "\<bar>real_of_int i\<bar> \<le> of_int (2 ^ n)" using a(1) by (metis of_int_abs of_int_le_iff)
  then show "mag_le (f64 i) (int n)" using f by (simp add: mag_le_def power_int_def)
qed

subsection \<open>Sine and cosine\<close>

lemma uint64_bound:
  assumes "is_finite x" "0 \<le> valof x" "valof x \<le> of_int n" "n < 2 ^ 64"
  shows "uint (f64_to_uint64 x) \<le> n"
proof -
  define m where "m = (if 0 \<le> f64_expo x then f64_mant x * ipow2 (f64_expo x) else f64_mant x div ipow2 (- f64_expo x))"
  have v: "\<bar>valof x\<bar> = of_int (f64_mant x) * 2 powi f64_expo x" by (simp add: abs_valof f64_mag_def)
  have m0: "0 \<le> m" using ipow2_pos [of "f64_expo x"] ipow2_pos [of "- f64_expo x"]
    by (auto simp: m_def less_imp_le intro!: pos_imp_zdiv_nonneg_iff [THEN iffD2])
  have "real_of_int m \<le> \<bar>valof x\<bar>"
  proof (cases "0 \<le> f64_expo x")
    case True
    then show ?thesis by (simp add: m_def v ipow2_eq)
  next
    case False
    have "real_of_int (f64_mant x div ipow2 (- f64_expo x)) \<le> of_int (f64_mant x) / of_int (ipow2 (- f64_expo x))"
      by (rule real_of_int_div4)
    also have "\<dots> = \<bar>valof x\<bar>" using False by (simp add: v ipow2_eq power_int_minus divide_inverse)
    finally show ?thesis using False by (simp add: m_def)
  qed
  then have "real_of_int m \<le> of_int n" using assms(2,3) by linarith
  then have mn: "m \<le> n" by simp
  have "m = 0" if "fsign x"
  proof -
    have "valof x = 0" using assms(2) that fsign_pos [of x] by force
    then show "m = 0" using \<open>real_of_int m \<le> \<bar>valof x\<bar>\<close> m0 by simp
  qed
  then have "f64_to_uint64 x = of_int m" by (simp add: f64_to_uint64_def m_def [symmetric] Let_def)
  moreover have "uint (of_int m :: 64 word) = m" using m0 mn assms(4) by (simp add: word_of_int_inverse uint_word_of_int take_bit_int_eq_self)
  ultimately show ?thesis using mn by simp
qed

text \<open>The coefficients are at most 1.\<close>

lemma coef_mag:
  "i < 6 \<Longrightarrow> mag_le (sin_coef ! i) 0" "i < 6 \<Longrightarrow> mag_le (cos_coef ! i) 0"
  "mag_le PI4A 0" "mag_le PI4B 0" "mag_le PI4C 0" "mag_le half_f 0" "mag_le four_over_Pi 1"
proof -
  have "\<forall>x \<in> set sin_coef. mag_le x 0" unfolding sin_coef_bits by (simp add: mag_bits)
  moreover have "length sin_coef = 6" by (simp add: sin_coef_bits)
  ultimately show "i < 6 \<Longrightarrow> mag_le (sin_coef ! i) 0" by simp
  have "\<forall>x \<in> set cos_coef. mag_le x 0" unfolding cos_coef_bits by (simp add: mag_bits)
  moreover have "length cos_coef = 6" by (simp add: cos_coef_bits)
  ultimately show "i < 6 \<Longrightarrow> mag_le (cos_coef ! i) 0" by simp
  show "mag_le PI4A 0" "mag_le PI4B 0" "mag_le PI4C 0" "mag_le half_f 0" "mag_le four_over_Pi 1"
    by (simp_all add: PI4A_bits PI4B_bits PI4C_bits half_f_bits four_over_Pi_bits mag_bits)
qed

lemma mag_one: "mag_le 1 0"
  by (simp add: mag_le_def)

lemma poly_mag:
  assumes z: "mag_le z 9" "mag_le zz 18"
  shows "mag_le (sin_poly z zz) 135" "mag_le (cos_poly zz) 135"
proof -
  have horner: "mag_le (((((c0 * zz + c1) * zz + c2) * zz + c3) * zz + c4) * zz + c5) 95"
    if c: "mag_le c0 0" "mag_le c1 0" "mag_le c2 0" "mag_le c3 0" "mag_le c4 0" "mag_le c5 0" for c0 c1 c2 c3 c4 c5
  proof -
    have step: "mag_le (x * zz + y) (k + 19)" if "mag_le x k" "mag_le y 0" "0 \<le> k" "k \<le> 1000" for x y k
      using that by (intro mag_add(1) [OF mag_mult [OF that(1) z(2), of "k + 18"] that(2)]) simp_all
    have "mag_le (c0 * zz + c1) 19" using step [OF c(1,2)] by simp
    then have "mag_le ((c0 * zz + c1) * zz + c2) 38" using step [OF _ c(3)] by fastforce
    then have "mag_le (((c0 * zz + c1) * zz + c2) * zz + c3) 57" using step [OF _ c(4)] by fastforce
    then have "mag_le ((((c0 * zz + c1) * zz + c2) * zz + c3) * zz + c4) 76" using step [OF _ c(5)] by fastforce
    then show ?thesis using step [OF _ c(6)] by fastforce
  qed
  note s = horner [OF coef_mag(1,1,1,1,1,1), of 0 1 2 3 4 5] and c = horner [OF coef_mag(2,2,2,2,2,2), of 0 1 2 3 4 5]
  show "mag_le (sin_poly z zz) 135"
    unfolding sin_poly_def
    by (rule mag_add(1) [OF z(1) mag_mult [OF mag_mult [OF z, of 27] s, of 122]]) simp_all
  have "mag_le (1 - half_f * zz) 19" by (rule mag_add(2) [OF mag_one mag_mult [OF coef_mag(6) z(2), of 18]]) simp_all
  then show "mag_le (cos_poly zz) 135"
    unfolding cos_poly_def
    by (rule mag_add(1) [OF _ mag_mult [OF mag_mult [OF z(2,2), of 36] c, of 131]]) simp_all
qed

text \<open>The reduced argument of an argument up to 8: the octant is at most 16.\<close>

lemma octant_mag:
  assumes "mag_le x 3" "0 \<le> valof x"
  shows "mag_le (snd (trig_octant x)) 9"
proof -
  have x: "is_finite x" "valof x \<le> 8" using assms by (simp_all add: mag_le_def)
  have "is_finite reduceThreshold" "valof reduceThreshold = 2 ^ 29"
    unfolding reduceThreshold_def using f64_exact [of "2 ^ 29"] by simp_all
  then have small: "\<not> reduceThreshold \<le> x" using x by (simp add: le_iff_valof)
  define n where "n = uint (f64_to_uint64 (x * four_over_Pi))"
  have f: "is_finite four_over_Pi" "0 \<le> valof four_over_Pi" "valof four_over_Pi \<le> 2"
    using coef_mag(7) by (simp_all add: mag_le_def four_over_Pi_bits valof_def)
  have p: "0 \<le> valof x * valof four_over_Pi" "valof x * valof four_over_Pi \<le> 16"
    using assms(2) f x(2) mult_mono [of "valof x" 8 "valof four_over_Pi" 2] by simp_all
  have b16: "is_finite (f64 16)" "valof (f64 16) = 16" using f64_exact [of 16] by simp_all
  have "is_finite (x * four_over_Pi)" "0 \<le> valof (x * four_over_Pi)" "valof (x * four_over_Pi) \<le> of_int 16"
    using mul_bounds [of x four_over_Pi 0 "f64 16"] x f p b16 by simp_all
  then have n: "0 \<le> n" "n \<le> 16" using uint64_bound [of "x * four_over_Pi" 16] by (simp_all add: n_def)
  have y0: "mag_le (f64 n) 5" using mag_int [of n 5] n by simp
  have y: "mag_le y 6" if "y = f64 n \<or> y = f64 n + 1" for y
    using that mag_mono [OF y0, of 6] mag_add(1) [OF y0 mag_one, of 6] by auto
  have z: "mag_le (((x - y * PI4A) - y * PI4B) - y * PI4C) 9" if "mag_le y 6" for y
  proof -
    have q: "mag_le (y * PI4A) 6" "mag_le (y * PI4B) 6" "mag_le (y * PI4C) 6"
      using mag_mult [OF that coef_mag(3), of 6] mag_mult [OF that coef_mag(4), of 6] mag_mult [OF that coef_mag(5), of 6] by simp_all
    have "mag_le (x - y * PI4A) 7" by (rule mag_add(2) [OF assms(1) q(1)]) simp_all
    then have "mag_le ((x - y * PI4A) - y * PI4B) 8" by (rule mag_add(2) [OF _ q(2)]) simp_all
    then show ?thesis by (rule mag_add(2) [OF _ q(3)]) simp_all
  qed
  show ?thesis using small z [OF y] by (simp add: trig_octant_def Let_def n_def [symmetric])
qed

lemma sin_cos_mag:
  assumes "mag_le x 3"
  shows "mag_le (math_Sin x) 135" "mag_le (math_Cos x) 135"
proof -
  have fx: "is_finite x" using assms by (simp add: mag_le_def)
  then have nn: "\<not> is_nan x" "\<not> is_inf x" by simp_all
  have polys: "mag_le (sin_poly (snd (trig_octant y)) (snd (trig_octant y) * snd (trig_octant y))) 135
      \<and> mag_le (cos_poly (snd (trig_octant y) * snd (trig_octant y))) 135" if "mag_le y 3" "0 \<le> valof y" for y
  proof -
    note z = octant_mag [OF that]
    have "mag_le (snd (trig_octant y) * snd (trig_octant y)) 18" by (rule mag_mult [OF z z]) simp_all
    then show ?thesis using poly_mag [OF z] by simp
  qed
  have a: "mag_le (math_Abs x) 3" "0 \<le> valof (math_Abs x)" using assms by (simp_all add: mag_le_def)
  show "mag_le (math_Cos x) 135" using polys [OF a] nn
    by (auto simp: math_Cos_def mag_neg Let_def split: prod.split)
  define y where "y = (if x < 0 then - x else x)"
  have "mag_le y 3" "0 \<le> valof y" using assms fx by (auto simp: y_def mag_neg less_iff_valof valof_uminus)
  note p = polys [OF this]
  have s: "(if x < 0 then (- x, True) else (x, False)) = (y, x < 0)" by (simp add: y_def)
  show "mag_le (math_Sin x) 135" using p nn mag_mono [OF assms, of 135]
    unfolding math_Sin_def s by (auto simp: mag_neg Let_def split: prod.split)
qed

subsection \<open>The values of the laws\<close>

text \<open>A time that is a number is clamped to the unit interval, whatever its size.\<close>

lemma clampT_mag: "\<not> is_nan T \<Longrightarrow> mag_le (clampT T) 0"
proof -
  assume n: "\<not> is_nan T"
  consider "is_finite T" | "is_inf T" using n f64_classes [of T] by blast
  then show "mag_le (clampT T) 0"
  proof cases
    case 1
    then show ?thesis by (auto simp: clampT_def mag_le_def less_iff_valof)
  next
    case 2
    then have "T < 0 \<or> 1 < T"
      by (cases T) (auto simp: is_inf_def is_nan_def less_float64_def f64_lt_def f64_skey_def f64_key_def zero_float64_def one_float64_def)
    then show ?thesis using clampT_0 [of T] clampT_1 [of T] mag_zero mag_one by auto
  qed
qed

lemma law_const_mag:
  "mag_le math_Pi 2" "mag_le two_Pi 3" "mag_le Pi_half 1" "mag_le Pi2_half 3" "mag_le Pi3_half 4" "mag_le four_Pi2 6"
  "mag_le (f64 2) 1" "mag_le (f64 4) 2" "mag_le (f64 (-4)) 2"
  using mag_int [of 2 1] mag_int [of 4 2] mag_int [of "-4" 2]
  by (simp_all add: math_Pi_bits two_Pi_bits Pi_half_bits Pi2_half_bits Pi3_half_bits four_Pi2_bits mag_bits)

definition values_mag :: "law_values \<Rightarrow> bool" where
  "values_mag w \<longleftrightarrow> mag_le (val_Y w) 145 \<and> mag_le (val_Y1 w) 145 \<and> mag_le (val_Y2 w) 145 \<and> mag_le (val_Y3 w) 145"

lemma trig_laws_mag:
  assumes "mag_le T 0"
  shows "values_mag (evalCosine T)" "values_mag (evalCycloid T)"
proof -
  have p: "mag_le (math_Pi * T) 3" by (rule mag_mult [OF law_const_mag(1) assms]) simp_all
  note t = sin_cos_mag [OF p]
  have two: "is_finite (f64 2)" "2 powi 1 \<le> \<bar>valof (f64 2)\<bar>" by (simp_all add: small_ints)
  have "mag_le (1 - math_Cos (math_Pi * T)) 136" by (rule mag_add(2) [OF mag_one t(2)]) simp_all
  then have "mag_le ((1 - math_Cos (math_Pi * T)) / f64 2) 145" by (rule mag_divide [OF _ two]) simp_all
  moreover have "mag_le (Pi_half * math_Sin (math_Pi * T)) 145" by (rule mag_mult [OF law_const_mag(3) t(1)]) simp_all
  moreover have "mag_le (Pi2_half * math_Cos (math_Pi * T)) 145" by (rule mag_mult [OF law_const_mag(4) t(2)]) simp_all
  moreover have "mag_le (- Pi3_half * math_Sin (math_Pi * T)) 145"
    by (rule mag_mult [OF _ t(1), of _ 4]) (simp_all add: mag_neg law_const_mag(5))
  ultimately show "values_mag (evalCosine T)" by (simp add: values_mag_def evalCosine_def Let_def)
  have q: "mag_le (two_Pi * T) 3" by (rule mag_mult [OF law_const_mag(2) assms]) simp_all
  note u = sin_cos_mag [OF q]
  have tp: "is_finite two_Pi" "2 powi 1 \<le> \<bar>valof two_Pi\<bar>"
    by (simp_all add: two_Pi_bits is_finite_def valof_def f64_mag_def f64_mant_def f64_expo_def power_int_minus)
  have "mag_le (math_Sin (two_Pi * T) / two_Pi) 135" by (rule mag_divide [OF u(1) tp]) simp_all
  then have "mag_le (T - math_Sin (two_Pi * T) / two_Pi) 145" by (rule mag_add(2) [OF assms]) simp_all
  moreover have "mag_le (1 - math_Cos (two_Pi * T)) 145" by (rule mag_add(2) [OF mag_one u(2)]) simp_all
  moreover have "mag_le (two_Pi * math_Sin (two_Pi * T)) 145" by (rule mag_mult [OF law_const_mag(2) u(1)]) simp_all
  moreover have "mag_le (four_Pi2 * math_Cos (two_Pi * T)) 145" by (rule mag_mult [OF law_const_mag(6) u(2)]) simp_all
  ultimately show "values_mag (evalCycloid T)" by (simp add: values_mag_def evalCycloid_def Let_def)
qed

lemma parabolic_mag:
  assumes "mag_le T 0"
  shows "values_mag (evalParabolic T side)"
proof -
  have d: "mag_le (1 - T) 1" by (rule mag_add(2) [OF mag_one assms]) simp_all
  have quad: "mag_le (f64 2 * x * x) 3 \<and> mag_le (f64 4 * x) 145" if "mag_le x 1" for x
  proof -
    have "mag_le (f64 2 * x) 2" by (rule mag_mult [OF law_const_mag(7) that]) simp_all
    then have "mag_le (f64 2 * x * x) 3" by (rule mag_mult [OF _ that]) simp_all
    moreover have "mag_le (f64 4 * x) 145" by (rule mag_mult [OF law_const_mag(8) that]) simp_all
    ultimately show ?thesis by simp
  qed
  have "mag_le T 1" using mag_mono [OF assms] by simp
  note q = quad [OF this] quad [OF d]
  have h: "mag_le (1 - f64 2 * (1 - T) * (1 - T)) 145" by (rule mag_add(2) [OF mag_one conjunct1 [OF q(2)]]) simp_all
  have c: "mag_le (f64 2) 145" "mag_le (f64 4) 145" "mag_le (f64 (-4)) 145" "mag_le half_f 145"
    using mag_mono [OF law_const_mag(7)] mag_mono [OF law_const_mag(8)] mag_mono [OF law_const_mag(9)] mag_mono [OF coef_mag(6)] by simp_all
  have "mag_le (f64 2 * T * T) 145" using mag_mono [OF conjunct1 [OF q(1)], of 145] by simp
  then show ?thesis using q h c by (simp add: values_mag_def evalParabolic_def mag_zero Let_def)
qed

lemma law_at_mag: "\<not> is_nan T \<Longrightarrow> values_mag (law_at tp T side)"
  using trig_laws_mag parabolic_mag clampT_mag [of T] by (simp add: law_at_def)

lemma closed_peaks_mag: "ClosedPeaks tp = Inr p \<Longrightarrow> mag_le (peak_V1 p) 6 \<and> mag_le (peak_V2 p) 6 \<and> mag_le (peak_V3 p) 6"
  using mag_mono [OF law_const_mag(2), of 6] mag_mono [OF law_const_mag(3), of 6] mag_mono [OF law_const_mag(4), of 6]
    mag_mono [OF law_const_mag(5), of 6] mag_mono [OF law_const_mag(7), of 6] mag_mono [OF law_const_mag(8), of 6] law_const_mag(6)
  by (auto simp: ClosedPeaks_def mag_zero split: if_splits)

subsection \<open>The values of a curve\<close>

text \<open>Strokes up to \<open>2 ^ 100\<close>, speeds between \<open>2 ^ -100\<close> and \<open>2 ^ 100\<close>, angles of motion from \<open>2 ^ -100\<close>.\<close>

definition moderate :: "float64 \<Rightarrow> float64 \<Rightarrow> float64 \<Rightarrow> bool" where
  "moderate h beta omega \<longleftrightarrow> valof h \<le> 2 powi 100 \<and> 2 powi (-100) \<le> valof beta \<and> 2 powi (-100) \<le> valof omega \<and> valof omega \<le> 2 powi 100"

definition finite_motion :: "motion \<Rightarrow> bool" where
  "finite_motion m \<longleftrightarrow> is_finite (m_Theta m) \<and> is_finite (m_Time m) \<and> is_finite (m_S m) \<and> is_finite (m_V m) \<and> is_finite (m_A m) \<and> is_finite (m_J m)"

lemma pos_mag: "pos_finite x \<Longrightarrow> valof x \<le> 2 powi k \<Longrightarrow> mag_le x k"
  by (simp add: mag_le_def pos_finite_def)

lemma factor_mag:
  assumes "spec_valid s" "moderate (spec_H s) (spec_Beta s) (spec_Omega s)"
  shows "mag_le (spec_H s) 100" "mag_le (sc_v (factor s)) 300" "mag_le (sc_a (factor s)) 500" "mag_le (sc_j (factor s)) 700"
proof -
  note p = assms(1) [unfolded spec_valid_def]
  show h: "mag_le (spec_H s) 100" using p assms(2) by (intro pos_mag) (simp_all add: moderate_def)
  have om: "mag_le (spec_Omega s) 100" using p assms(2) by (intro pos_mag) (simp_all add: moderate_def)
  have b: "is_finite (spec_Beta s)" "2 powi (-100) \<le> \<bar>valof (spec_Beta s)\<bar>" using p assms(2) by (simp_all add: moderate_def pos_finite_def)
  have o': "mag_le (spec_Omega s / spec_Beta s) 200" by (rule mag_divide [OF om b]) simp_all
  have v: "mag_le (spec_H s * (spec_Omega s / spec_Beta s)) 300" by (rule mag_mult [OF h o']) simp_all
  have a: "mag_le (spec_H s * (spec_Omega s / spec_Beta s) * (spec_Omega s / spec_Beta s)) 500" by (rule mag_mult [OF v o']) simp_all
  have j: "mag_le (spec_H s * (spec_Omega s / spec_Beta s) * (spec_Omega s / spec_Beta s) * (spec_Omega s / spec_Beta s)) 700"
    by (rule mag_mult [OF a o']) simp_all
  show "mag_le (sc_v (factor s)) 300" "mag_le (sc_a (factor s)) 500" "mag_le (sc_j (factor s)) 700"
    using v a j by (simp_all add: factor_def Let_def)
qed

lemma restore_finite:
  assumes "spec_valid s" "moderate (spec_H s) (spec_Beta s) (spec_Omega s)" "\<not> is_nan T" "is_finite theta" "is_finite t"
  shows "finite_motion (restore (law_at tp T side) (factor s) s theta t r)"
proof -
  note f = factor_mag [OF assms(1,2)] and w = law_at_mag [OF assms(3), of tp side, unfolded values_mag_def]
  have s: "mag_le (spec_H s * val_Y (law_at tp T side)) 245" by (rule mag_mult [OF f(1) conjunct1 [OF w]]) simp_all
  have v: "mag_le (sc_v (factor s) * val_Y1 (law_at tp T side)) 445" by (rule mag_mult [OF f(2), of _ 145]) (use w in simp_all)
  have a: "mag_le (sc_a (factor s) * val_Y2 (law_at tp T side)) 645" by (rule mag_mult [OF f(3), of _ 145]) (use w in simp_all)
  have j: "mag_le (sc_j (factor s) * val_Y3 (law_at tp T side)) 845" by (rule mag_mult [OF f(4), of _ 145]) (use w in simp_all)
  have "mag_le (spec_H s - spec_H s * val_Y (law_at tp T side)) 246" by (rule mag_add(2) [OF f(1) s]) simp_all
  then show ?thesis using s v a j assms(4,5) mag_finite by (cases r) (simp_all add: finite_motion_def)
qed

lemma time_finite:
  assumes "is_finite x" "0 \<le> valof x" "valof x \<le> 1440" "pos_finite omega" "2 powi (-100) \<le> valof omega"
  shows "is_finite (x / omega)"
proof -
  have "mag_le x 11" using assms(1-3) by (simp add: mag_le_def)
  then have "mag_le (x / omega) 111"
    by (rule mag_divide [of _ _ _ "-100"]) (use assms(4,5) in \<open>simp_all add: pos_finite_def\<close>)
  then show ?thesis by (rule mag_finite)
qed

lemma half_angle:
  assumes "pos_finite b" "valof b < 360"
  shows "mag_le b 9" "mag_le (b / f64 2) 9"
proof -
  show b: "mag_le b 9" using assms by (simp add: mag_le_def pos_finite_def)
  show "mag_le (b / f64 2) 9" by (rule mag_divide [OF b, of _ 1]) (simp_all add: small_ints)
qed

text \<open>The lift: every point of the curve, the peaks and both sides of the internal seam.\<close>

lemma lift_finite:
  assumes "spec_valid s" "moderate (spec_H s) (spec_Beta s) (spec_Omega s)" "Curve s points = Inr (pts, p)" "InternalSeams s 0 = Inr js" "points \<le> MaxPoints"
  shows "\<forall>m \<in> set pts. finite_motion m" "is_finite (VMax p) \<and> is_finite (AMax p) \<and> is_finite (JMax p)"
    "\<forall>j \<in> set js. is_finite (sm_Theta j) \<and> finite_motion (sm_Left j) \<and> finite_motion (sm_Right j)"
proof -
  note v = assms(1) [unfolded spec_valid_def]
  have b: "pos_finite (spec_Beta s)" "valof (spec_Beta s) < 360" and om: "pos_finite (spec_Omega s)" "2 powi (-100) \<le> valof (spec_Omega s)"
    using v assms(2) by (simp_all add: moderate_def)
  define n where "n = max MinPoints points"
  have n: "2 \<le> n" "n \<le> MaxPoints" using assms(5) by (auto simp: n_def MinPoints_def MaxPoints_def)
  obtain p' where p': "Spec_ClosedPeaks s = Inr p'" and c: "Curve s points = Inr (map (\<lambda>i. curve_motion s n (int i)) [0..<nat n], p')"
    using Curve_valid [OF assms(1,5)] unfolding n_def by blast
  have pt: "finite_motion (curve_motion s n (int i))" if "i < nat n" for i
  proof -
    have i: "0 \<le> int i" "int i \<le> n - 1" using that by auto
    note T = grid_T_value [OF n i] and g = grid_scale [OF n i b(1)]
    have "\<not> is_nan (grid_T n (int i))" using T(1) by simp
    moreover have "is_finite (grid_T n (int i) * spec_Beta s / spec_Omega s)" using time_finite [OF g(1,2) _ om] g(3) b(2) by simp
    ultimately show ?thesis using restore_finite [OF assms(1,2)] g(1) by (simp add: curve_motion_def Let_def)
  qed
  then show "\<forall>m \<in> set pts. finite_motion m" using c assms(3) by auto
  obtain q where q: "ClosedPeaks (spec_Type s) = Inr q" using v ClosedPeaks_known by blast
  note f = factor_mag [OF assms(1,2)] and k = closed_peaks_mag [OF q]
  have "mag_le (sc_v (factor s) * peak_V1 q) 306" by (rule mag_mult [OF f(2), of _ 6]) (use k in simp_all)
  moreover have "mag_le (sc_a (factor s) * peak_V2 q) 506" by (rule mag_mult [OF f(3), of _ 6]) (use k in simp_all)
  moreover have "mag_le (sc_j (factor s) * peak_V3 q) 706" by (rule mag_mult [OF f(4), of _ 6]) (use k in simp_all)
  moreover have "p = p'" using c assms(3) by simp
  ultimately show "is_finite (VMax p) \<and> is_finite (AMax p) \<and> is_finite (JMax p)"
    using p' q mag_finite assms(1) by (auto simp: Spec_ClosedPeaks_def Let_def)
  have half: "mag_le (0 + spec_Beta s / f64 2) 10" by (rule mag_add(1) [OF mag_zero [of 9] half_angle(2) [OF b]]) simp_all
  have z: "is_finite (0 + spec_Beta s / f64 2)" "is_finite (half_f * spec_Beta s / spec_Omega s)"
  proof -
    show "is_finite (0 + spec_Beta s / f64 2)" by (rule mag_finite [OF half])
    have "mag_le (half_f * spec_Beta s) 9" by (rule mag_mult [OF coef_mag(6) half_angle(1) [OF b]]) simp_all
    then have "mag_le (half_f * spec_Beta s / spec_Omega s) 109"
      by (rule mag_divide [of _ _ _ "-100"]) (use om in \<open>simp_all add: pos_finite_def\<close>)
    then show "is_finite (half_f * spec_Beta s / spec_Omega s)" by (rule mag_finite)
  qed
  have d: "\<not> is_nan ((0 + spec_Beta s / f64 2 - 0) / spec_Beta s)"
  proof (rule div_not_nan [OF _ b(1)])
    have "mag_le (0 + spec_Beta s / f64 2 - 0) 11" by (rule mag_add(2) [OF half mag_zero [of 9]]) simp_all
    then show "is_finite (0 + spec_Beta s / f64 2 - 0)" by (rule mag_finite)
  qed
  show "\<forall>j \<in> set js. is_finite (sm_Theta j) \<and> finite_motion (sm_Left j) \<and> finite_motion (sm_Right j)"
    using assms(4) restore_finite [OF assms(1,2) d z] z(1) assms(1)
    by (auto simp: InternalSeams_def SampleSide_valid Join_def Let_def split: if_splits)
qed

text \<open>The cycle: every sample and both sides of every joint.\<close>

definition moderate_config :: "config \<Rightarrow> bool" where
  "moderate_config c \<longleftrightarrow> moderate (cfg_H c) (RiseAngle c) (cfg_Omega c) \<and> moderate (cfg_H c) (ReturnAngle c) (cfg_Omega c)"

lemma side_finite:
  assumes "config_ok c" "moderate_config c" "sg \<in> set (cycle_segs c)" "is_finite theta" "0 \<le> valof theta" "valof theta \<le> 1440"
  shows "finite_motion (side_motion c sg theta side)" "finite_motion (seg_motion c sg theta)"
proof -
  note i = segment_interval [OF assms(1,3)] and p = pos_bounds [OF assms(1)]
  have om: "pos_finite (cfg_Omega c)" "2 powi (-100) \<le> valof (cfg_Omega c)" "is_finite (cfg_H c)"
    using assms(1,2) by (auto simp: config_ok_def moderate_config_def moderate_def pos_finite_def)
  have t: "is_finite (theta / cfg_Omega c)" by (rule time_finite [OF assms(4-6) om(1,2)])
  have s: "is_finite (seg_Start sg / cfg_Omega c)" using time_finite [OF i(1,3) _ om(1,2)] i(4,5) p(9) by linarith
  have dwell: "finite_motion (seg_motion c sg theta)" if "isDwell (seg_Kind sg)"
    using that t assms(4) om(3) by (auto simp: seg_motion_def dwellMotion_def finite_motion_def isDwell_def)
  have motion: "finite_motion (restore (law_at (seg_Law sg) ((theta - seg_Start sg) / seg_Beta sg) side) (factor (seg_Spec sg))
      (seg_Spec sg) theta (seg_Start sg / cfg_Omega c) (seg_Kind sg = ''return''))" if d: "\<not> isDwell (seg_Kind sg)" for side
  proof -
    note m = motion_seg_spec [OF assms(1,3) d]
    have "sg = rise_seg c \<or> sg = return_seg c" using assms(3) d by (cases rule: cycle_segs_cases) (auto simp: seg_defs isDwell_def)
    then have mod: "moderate (spec_H (seg_Spec sg)) (spec_Beta (seg_Spec sg)) (spec_Omega (seg_Spec sg))"
      using assms(2) by (auto simp: moderate_config_def seg_defs)
    have "mag_le theta 11" "mag_le (seg_Start sg) 11" using assms(4-6) i p(9) by (simp_all add: mag_le_def)
    then have "mag_le (theta - seg_Start sg) 12" by (rule mag_add(2)) simp_all
    then have "\<not> is_nan ((theta - seg_Start sg) / seg_Beta sg)" using div_not_nan [OF mag_finite m(5)] by blast
    then show ?thesis by (rule restore_finite [OF m(1) mod _ assms(4) s])
  qed
  show "finite_motion (side_motion c sg theta side)" "finite_motion (seg_motion c sg theta)"
    using dwell motion by (auto simp: side_motion_def seg_motion_def isDwell_def)
qed

lemma Join_parts: "sm_Theta (Join t k l r) = t" "sm_Left (Join t k l r) = l" "sm_Right (Join t k l r) = r"
  by (simp_all add: Join_def Let_def)

lemma cycle_finite:
  assumes "Config_Validate c = Inr ()" "moderate_config c" "Segments_Curve (cycle_of c) points = Inr pts" "Discontinuities (cycle_of c) = Inr js" "points \<le> MaxPoints"
  shows "\<forall>x \<in> set pts. finite_motion (cs_Motion x)"
    "\<forall>j \<in> set js. is_finite (sm_Theta (joint_Seam j)) \<and> finite_motion (sm_Left (joint_Seam j)) \<and> finite_motion (sm_Right (joint_Seam j))"
proof -
  have ok: "config_ok c" using assms(1) by (simp add: Config_Validate_ok)
  note b = Build_valid [OF assms(1)] and p = pos_bounds [OF ok]
  define n where "n = max 2 points"
  have n: "2 \<le> n" "n \<le> MaxPoints" using assms(5) by (auto simp: n_def MaxPoints_def)
  obtain g where r: "Segments_Curve (cycle_of c) points = Inr (map g [0..<nat n])"
    and g: "\<And>i. i < nat n \<Longrightarrow> cycle_sample (cycle_of c) n (int i) = Inr (g i)" "\<And>i. i < nat n \<Longrightarrow> m_Theta (cs_Motion (g i)) = cycle_theta n (int i)"
    using Segments_Curve_built [OF b assms(5)] unfolding n_def by blast
  have "finite_motion (cs_Motion (g i))" if i: "i < nat n" for i
  proof -
    have th: "is_finite (cycle_theta n (int i))" "0 \<le> valof (cycle_theta n (int i))" "valof (cycle_theta n (int i)) \<le> 360"
      using cycle_theta_value [OF n, of "int i"] i by auto
    then have t: "\<not> cycle_theta n (int i) < 0" "\<not> thetaMax < cycle_theta n (int i)" "clamp_theta (cycle_theta n (int i)) = cycle_theta n (int i)"
      using thetaMax_value by (simp_all add: less_iff_valof clamp_theta_def)
    have "Point (cycle_of c) (cycle_theta n (int i)) = Inr (cs_Motion (g i))"
      using g(1) [OF i] by (cases "g i") (auto simp: cycle_sample_def Let_def result_bind_eq_Inr)
    then obtain sg where "sg \<in> set (cycle_segs c)" "cs_Motion (g i) = seg_motion c sg (cycle_theta n (int i))"
      using Point_total [OF ok t(1,2), of "angle_total c"] unfolding t(3) by auto
    then show ?thesis using side_finite(2) [OF ok assms(2) _ th(1,2)] th(3) by simp
  qed
  then show "\<forall>x \<in> set pts. finite_motion (cs_Motion x)" using r assms(3) by auto
  note side = side_finite(1) [OF ok assms(2)]
  have ends: "is_finite (seg_End sg)" "is_finite (seg_Start sg)" "finite_motion (side_motion c sg (seg_End sg) side)"
    "finite_motion (side_motion c sg (seg_Start sg) side)" if "sg \<in> set (cycle_segs c)" for sg side
    using side [OF that] segment_interval [OF ok that] p(9) by auto
  have turn: "finite_motion (side_motion c sg FullTurn side)" "finite_motion (side_motion c sg 0 side)" if "sg \<in> set (cycle_segs c)" for sg side
    using side [OF that, of FullTurn] side [OF that, of 0] by simp_all
  have switch: "is_finite (seg_Start sg + seg_Beta sg / f64 2)" "finite_motion (side_motion c sg (seg_Start sg + seg_Beta sg / f64 2) side)"
    if sg: "sg \<in> set (cycle_segs c)" "seg_Law sg = Parabolic" for sg side
  proof -
    note m = motion_seg_spec [OF ok sg(1) parabolic_not_dwell [OF sg]] and i = segment_interval [OF ok sg(1)]
    note bb = pos_finiteD [OF m(5)]
    have h: "is_finite (seg_Beta sg / f64 2)" "0 \<le> valof (seg_Beta sg / f64 2)" "valof (seg_Beta sg / f64 2) \<le> 180"
      using div_bounds [of "seg_Beta sg" "f64 2" 0 "f64 180"] f64_exact [of 180] bb m(6) by (simp_all add: small_ints)
    have e: "valof (seg_Start sg) \<le> 1080"
      using sg(1) p by (cases rule: cycle_segs_cases) (auto simp: seg_defs pos_finite_def)
    have a: "is_finite (seg_Start sg + seg_Beta sg / f64 2)" "0 \<le> valof (seg_Start sg + seg_Beta sg / f64 2)" "valof (seg_Start sg + seg_Beta sg / f64 2) \<le> 1440"
      using sum_error(1) [OF i(1) h(1)] f64_ge_0 [OF i(1) h(1)] sum_le [OF i(1) h(1), of 1440] i(3) h(2,3) e by auto
    show "is_finite (seg_Start sg + seg_Beta sg / f64 2)" "finite_motion (side_motion c sg (seg_Start sg + seg_Beta sg / f64 2) side)"
      using a side [OF sg(1) a] by auto
  qed
  have first: "rise_seg c \<in> set (cycle_segs c)" by (simp add: cycle_segs_def)
  show "\<forall>j \<in> set js. is_finite (sm_Theta (joint_Seam j)) \<and> finite_motion (sm_Left (joint_Seam j)) \<and> finite_motion (sm_Right (joint_Seam j))"
    using assms(4) Discontinuities_built [OF ok] ends switch turn first last_in_set [OF cycle_segs_not_Nil, of c]
    by (auto simp: boundary_of_def switch_of_def cyclic_of_def Join_parts Let_def dest!: zip_tl_members)
qed

end
