(* ===== verification/Handlers_Spec.thy ===== *)
theory Handlers_Spec
  imports Handlers Store_Spec Json_Finite Overflow
begin

text \<open>
  What the handlers promise: the exact response of the curve handlers on every branch, the agreement of the GET and POST forms, that every
  stored record can be drawn, and that saving through the API is the map update of the store with the response to match.
\<close>

subsection \<open>Error responses\<close>

text \<open>An error response always has a body: its map of a string and an integer cannot fail to encode.\<close>

lemma writeErr_body:
  "\<exists>b. Encode (JMap [(''error'', JString (ap_text env msg)), (''status'', JInt code)]) = Inr b \<and> writeErr env code msg
     = \<lparr>rs_Code = code, rs_Header = [(''Content-Type'', json_content_type)], rs_Body = b\<rparr> \<and> b \<noteq> []"
  by (simp add: writeErr_def writeJSON_def Encode_def Marshal_def)

lemma writeErr_code [simp]: "rs_Code (writeErr env code msg) = code"
  by (simp add: writeErr_def writeJSON_def)

lemma writeJSON_code [simp]: "rs_Code (writeJSON code v) = code"
  by (simp add: writeJSON_def)

lemma writeJSON_recode: "(writeJSON code v)\<lparr>rs_Code := code'\<rparr> = writeJSON code' v"
  by (simp add: writeJSON_def)

lemma recipeStoreError_code [simp]: "rs_Code (recipeStoreError env e) = (if errors_Is e ErrNotFound then 404 else 400)"
  by (simp add: recipeStoreError_def status_defs)

subsection \<open>The text of a response\<close>

text \<open>The body is JSON when every number in the value is finite, and empty otherwise: the error of \<open>Encode\<close> is dropped.\<close>

lemma writeJSON_body:
  assumes "fits n v" "n \<le> maxNestingDepth"
  shows "if finite_json v then Valid (rs_Body (writeJSON code v)) else rs_Body (writeJSON code v) = ''''"
  using Encode_text [OF assms] by (auto simp: writeJSON_def split: if_splits)

lemma fits_leaf [simp]: "fits n JNull" "fits n (JString s)" "fits n (JFloat x)" "fits n (JInt i)" "fits n (JBool b)"
  by (cases n; simp)+

lemma fits_compound:
  "fits (Suc n) (JStruct fs) \<longleftrightarrow> list_all (\<lambda>x. list_all plain_byte (fst x) \<and> fits n (snd (snd x))) fs"
  "fits (Suc n) (JMap kvs) \<longleftrightarrow> list_all (\<lambda>(k, w). fits n w) kvs"
  "fits (Suc n) (JArray vs) \<longleftrightarrow> list_all (fits n) vs"
  by (simp_all add: case_prod_unfold)

lemma nesting [simp]: "Suc (Suc (Suc (Suc 0))) \<le> maxNestingDepth"
  by (simp add: maxNestingDepth_def)

lemma nil_slice_json:
  "finite_json (nil_slice vs) \<longleftrightarrow> list_all finite_json vs" "fits (Suc n) (nil_slice vs) \<longleftrightarrow> list_all (fits n) vs"
  by (auto simp: nil_slice_def)

lemma motion_json:
  "finite_motion m \<longleftrightarrow> list_all (\<lambda>(k, omit, w). finite_json w) (motion_fields m)"
  "list_all (\<lambda>x. list_all plain_byte (fst x) \<and> fits n (snd (snd x))) (motion_fields m)"
  by (simp_all add: finite_motion_def motion_fields_def plain_byte_def byte_def)

lemma seam_json:
  "is_finite (sm_Theta s) \<Longrightarrow> finite_motion (sm_Left s) \<Longrightarrow> finite_motion (sm_Right s) \<Longrightarrow> list_all (\<lambda>(k, omit, w). finite_json w) (seam_fields s)"
  "list_all (\<lambda>x. list_all plain_byte (fst x) \<and> fits (Suc n) (snd (snd x))) (seam_fields s)"
  using motion_json by (simp_all add: seam_fields_def fits_compound plain_byte_def byte_def del: fits.simps)

lemmas json_shape = nil_slice_json motion_json seam_json(2) segment_json_def sample_json_def joint_json_def peaks_json_def list.pred_map comp_def list.pred_True
  fits_compound

lemma lift_fits: "fits (Suc (Suc (Suc (Suc 0)))) (liftResponse s pts p js)"
  by (simp add: liftResponse_def json_shape del: fits.simps) (simp add: list_all_iff plain_byte_def byte_def)

lemma cycle_fits: "fits (Suc (Suc (Suc (Suc 0)))) (cycleCurveResponse cfg b pts js)"
  by (simp add: cycleCurveResponse_def json_shape del: fits.simps) (simp add: list_all_iff plain_byte_def byte_def)

text \<open>A record as the body of a response. Its floats are finite when it is valid, and also when it is merely what the decoder made of a file.\<close>

lemma record_fits:
  "list_all (list_all plain_byte \<circ> fst) st \<Longrightarrow> fits (Suc 0) (json_struct st)"
proof -
  have f: "fits 0 (json_of v)" for v by (cases v) (auto split: option.split)
  assume "list_all (list_all plain_byte \<circ> fst) st"
  then show "fits (Suc 0) (json_struct st)"
    by (simp add: json_struct_def fits_compound(1) list.pred_map comp_def case_prod_unfold f del: fits.simps)
qed

lemma finite_struct_json: "finite_struct st \<Longrightarrow> finite_json (json_struct st)"
proof -
  have "finite_field v \<Longrightarrow> finite_json (json_of v)" for v by (cases v) (auto split: option.splits)
  then show "finite_struct st \<Longrightarrow> finite_json (json_struct st)"
    by (auto simp: json_struct_def finite_struct_def list_all_iff)
qed

lemma recipe_json_fits: "fits (Suc 0) (recipe_json r)"
  unfolding recipe_json_def by (rule record_fits) (simp add: recipe_struct_def plain_byte_def byte_def)

lemma cycle_json_fits: "fits (Suc 0) (cycle_json r)"
  unfolding cycle_json_def by (rule record_fits) (simp add: cycle_struct_def plain_byte_def byte_def)

lemma recipe_valid_finite: "Recipe_Validate r = Inr () \<Longrightarrow> finite_json (recipe_json r)"
  unfolding recipe_json_def
  by (rule finite_struct_json) (simp add: Recipe_Validate_ok pos_finite_def finite_struct_def recipe_struct_def)

lemma cycle_valid_finite: "CycleRecord_Validate r = Inr () \<Longrightarrow> finite_json (cycle_json r)"
  unfolding cycle_json_def
  by (rule finite_struct_json, drule CycleRecord_Validate_ok) (simp add: config_ok_def ToConfig_def pos_finite_def finite_struct_def cycle_struct_def)

lemma float_field_finite: "finite_struct st \<Longrightarrow> k \<in> set (map fst st) \<Longrightarrow> is_finite (float_field st k)"
proof -
  assume f: "finite_struct st" and k: "k \<in> set (map fst st)"
  then obtain v where v: "map_of st k = Some v" by (metis in_set_conv_nth map_of_eq_None_iff list.set_map not_None_eq)
  then have "finite_field v" using f map_of_SomeD [OF v] by (auto simp: finite_struct_def list_all_iff)
  then show "is_finite (float_field st k)" by (cases v) (simp_all add: float_field_def get_field_def v)
qed

lemma read_finite:
  assumes "readJSONFile os fs dir file v0 = (e, v)" "finite_struct v0"
  shows "finite_struct v \<and> map fst v = map fst v0"
  using assms decoded_finite(2) [OF assms(2)] by (fastforce simp: readJSONFile_def Let_def split: sum.splits prod.splits option.splits)

lemma recipe_read_finite:
  assumes "finite_struct v \<and> map fst v = map fst (recipe_struct zero_recipe)"
  shows "finite_json (recipe_json (recipe_of v))"
proof -
  have "''h'' \<in> set (map fst v)" "''beta_deg'' \<in> set (map fst v)" using assms by (simp_all add: recipe_struct_def)
  then have "is_finite (float_field v ''h'')" "is_finite (float_field v ''beta_deg'')" using assms by (simp_all only: float_field_finite)
  then show ?thesis unfolding recipe_json_def by (intro finite_struct_json) (simp add: finite_struct_def recipe_struct_def recipe_of_def)
qed

lemma cycle_read_finite:
  assumes "finite_struct v \<and> map fst v = map fst (cycle_struct zero_cycle)"
  shows "finite_json (cycle_json (cycle_record_of v))"
proof -
  have k: "map fst v = map fst (cycle_struct zero_cycle)" and f: "finite_struct v" using assms by blast+
  have "list_all (\<lambda>x. x \<in> set (map fst v)) [''h'', ''rise_angle_deg'', ''outer_dwell_deg'', ''return_angle_deg'', ''inner_dwell_deg'']"
    unfolding k by (simp add: cycle_struct_def)
  then have "list_all (\<lambda>x. is_finite (float_field v x)) [''h'', ''rise_angle_deg'', ''outer_dwell_deg'', ''return_angle_deg'', ''inner_dwell_deg'']"
    using float_field_finite [OF f] unfolding list_all_iff by blast
  then show ?thesis
    unfolding cycle_json_def by (intro finite_struct_json) (simp add: finite_struct_def cycle_struct_def cycle_record_of_def)
qed

lemma zero_finite: "finite_struct (recipe_struct zero_recipe)" "finite_struct (cycle_struct zero_cycle)"
  by (simp_all add: finite_struct_def recipe_struct_def zero_recipe_def cycle_struct_def zero_cycle_def)

lemma read_all_finite: "finite_struct v0 \<Longrightarrow> v \<in> set (read_all os fs v0 files) \<Longrightarrow> finite_struct v \<and> map fst v = map fst v0"
  by (induction files) (auto split: prod.splits option.splits dest: read_finite [OF sym])

text \<open>The bodies: a record, the list of records, an error.\<close>

lemma object_valid:
  assumes "fits (Suc 0) v" "finite_json v"
  shows "Valid (rs_Body (writeJSON code (JMap [(k, v)])))"
  using writeJSON_body [of "Suc (Suc 0)" "JMap [(k, v)]" code] assms by (simp add: maxNestingDepth_def del: fits.simps add: fits_compound)

lemma list_valid:
  assumes "list_all (fits (Suc 0)) vs" "list_all finite_json vs"
  shows "Valid (rs_Body (writeJSON code (JMap [(k, JArray vs)])))"
  using writeJSON_body [of "Suc (Suc (Suc 0))" "JMap [(k, JArray vs)]" code] assms by (simp add: maxNestingDepth_def del: fits.simps add: fits_compound)

lemma writeErr_valid: "Valid (rs_Body (writeErr env code msg))"
  using writeJSON_body [of "Suc 0"] by (simp add: writeErr_def maxNestingDepth_def)

lemma lift_body_valid:
  assumes "spec_valid s" "moderate (spec_H s) (spec_Beta s) (spec_Omega s)" "Curve s points = Inr (pts, p)" "InternalSeams s 0 = Inr js" "points \<le> MaxPoints"
  shows "list_all finite_motion pts" "Valid (rs_Body (writeJSON code (liftResponse s pts p js)))"
proof -
  have f: "is_finite (spec_H s)" "is_finite (spec_Beta s)" "is_finite (spec_Omega s)" using assms(1) by (simp_all add: spec_valid_def pos_finite_def)
  show m: "list_all finite_motion pts" using lift_finite(1) [OF assms] by (simp add: list_all_iff)
  have "list_all (\<lambda>j. list_all (\<lambda>(k, omit, w). finite_json w) (seam_fields j)) js"
    using lift_finite(3) [OF assms] seam_json(1) by (fastforce simp: list_all_iff)
  then have "finite_json (liftResponse s pts p js)"
    using f m [unfolded motion_json(1)] lift_finite(2) [OF assms] by (simp add: liftResponse_def json_shape)
  then show "Valid (rs_Body (writeJSON code (liftResponse s pts p js)))" using writeJSON_body [OF lift_fits nesting] by simp
qed

lemma config_finite:
  assumes "config_ok c"
  shows "is_finite (cfg_H c)" "is_finite (cfg_Omega c)" "is_finite (angle_total c)"
    "list_all (\<lambda>g. is_finite (seg_Start g) \<and> is_finite (seg_End g) \<and> is_finite (seg_Beta g)) (cycle_segs c)"
proof -
  show "is_finite (cfg_H c)" "is_finite (cfg_Omega c)" using assms by (simp_all add: config_ok_def pos_finite_def)
  show "is_finite (angle_total c)" using pos_bounds(7) [OF assms] by (simp add: pos_finite_def)
  have "is_finite (seg_Beta g)" if "g \<in> set (cycle_segs c)" for g
    using that assms by (cases rule: cycle_segs_cases) (auto simp: seg_defs config_ok_def pos_finite_def)
  then show "list_all (\<lambda>g. is_finite (seg_Start g) \<and> is_finite (seg_End g) \<and> is_finite (seg_Beta g)) (cycle_segs c)"
    using segment_interval(1,2) [OF assms] by (simp add: list_all_iff)
qed

lemma cycle_body_valid:
  assumes "Config_Validate c = Inr ()" "moderate_config c" "Segments_Curve (cycle_of c) points = Inr pts" "Discontinuities (cycle_of c) = Inr js" "points \<le> MaxPoints"
  shows "list_all (\<lambda>x. finite_motion (cs_Motion x)) pts" "Valid (rs_Body (writeJSON code (cycleCurveResponse c (cycle_of c) pts js)))"
proof -
  have ok: "config_ok c" using assms(1) by (simp add: Config_Validate_ok)

  show m: "list_all (\<lambda>x. finite_motion (cs_Motion x)) pts" using cycle_finite(1) [OF assms] by (simp add: list_all_iff)
  have "list_all (\<lambda>j. list_all (\<lambda>(k, omit, w). finite_json w) (seam_fields (joint_Seam j))) js"
    using cycle_finite(2) [OF assms] seam_json(1) by (fastforce simp: list_all_iff)
  then have "finite_json (cycleCurveResponse c (cycle_of c) pts js)"
    using config_finite [OF ok] m [unfolded motion_json(1)] by (simp add: cycleCurveResponse_def json_shape list_all_iff)
  then show "Valid (rs_Body (writeJSON code (cycleCurveResponse c (cycle_of c) pts js)))" using writeJSON_body [OF cycle_fits nesting] by simp
qed

subsection \<open>Curve handlers\<close>

lemma InternalSeams_valid:
  assumes "spec_valid s"
  shows "\<exists>js. InternalSeams s theta0 = Inr js"
  using assms by (simp add: InternalSeams_def SampleSide_valid Let_def)

lemma serveCycle_valid:
  assumes "Config_Validate cfg = Inr ()" "2 \<le> points" "points \<le> MaxPoints"
  obtains b pts js where "Build cfg = Inr b" "Segments_Curve b points = Inr pts" "length pts = nat points" "Discontinuities b = Inr js"
    "serveCycle env cfg points = writeJSON StatusOK (cycleCurveResponse cfg b pts js)"
proof -
  have ok: "config_ok cfg" using assms(1) by (simp add: Config_Validate_ok)
  have b: "Build cfg = Inr (cycle_of cfg)" by (rule Build_valid [OF assms(1)])
  obtain g where g: "Segments_Curve (cycle_of cfg) points = Inr (map g [0..<nat (max 2 points)])"
    by (rule Segments_Curve_built [OF b assms(3)])
  obtain js where js: "Discontinuities (cycle_of cfg) = Inr js" using Discontinuities_built [OF ok] by blast
  have k: "Known (RiseLaw cfg)" "Known (ReturnLaw cfg)" using ok by (auto simp: config_ok_def)
  have "serveCycle env cfg points = writeJSON StatusOK (cycleCurveResponse cfg (cycle_of cfg) (map g [0..<nat (max 2 points)]) js)"
    using assms(2) by (simp add: serveCycle_def assms(1) MinPoints_def k b g js)
  moreover have "length (map g [0..<nat (max 2 points)]) = nat points" using assms(2) by (simp add: max_def)
  ultimately show thesis using that b g js by blast
qed

lemma serveLift_valid:
  assumes "resolveSpec env fs req = Inr s" "Spec_Validate s = Inr ()" "2 \<le> lr_Points req" "lr_Points req \<le> MaxPoints"
  obtains pts p js where "Curve s (lr_Points req) = Inr (pts, p)" "length pts = nat (lr_Points req)" "InternalSeams s 0 = Inr js"
    "serveLift env fs req = writeJSON StatusOK (liftResponse s pts p js)"
proof -
  have v: "spec_valid s" using assms(2) by (simp add: Spec_Validate_ok)
  obtain p where p: "Curve s (lr_Points req) = Inr (map (\<lambda>i. curve_motion s (max MinPoints (lr_Points req)) (int i)) [0..<nat (max MinPoints (lr_Points req))], p)"
    using Curve_valid [OF v assms(4)] by blast
  obtain js where js: "InternalSeams s 0 = Inr js" using InternalSeams_valid [OF v] by blast
  show thesis
    using assms(3) by (intro that [OF p _ js]) (simp_all add: serveLift_def assms(1,2) MinPoints_def p js max_def)
qed

text \<open>
  Claim C8. The exact behaviour of the cycle curve behind both \<open>/cycle-curve\<close> handlers. The response is the validation error, the error for fewer than 2 or
  more than 200001 points, or the curve: then the segments, exactly the requested number of points and the joints are those of the cycle
  packages. The later error branches of the code, among them the only internal server error, are never taken.
\<close>

theorem serveCycle_exact:
  "case Config_Validate cfg of
     Inl e \<Rightarrow> serveCycle env cfg points = writeErr env 400 (Error_Text e)
   | Inr _ \<Rightarrow>
       if points < 2 then serveCycle env cfg points = writeErr env 400 Points_Too_Few
       else if 200001 < points then serveCycle env cfg points = writeErr env 400 (Error_Text Too_Many_Points)
       else \<exists>b pts js. Build cfg = Inr b \<and> Segments_Curve b points = Inr pts \<and> length pts = nat points \<and> Discontinuities b = Inr js
          \<and> serveCycle env cfg points = writeJSON 200 (cycleCurveResponse cfg b pts js)"
proof (cases "Config_Validate cfg")
  case (Inl e)
  then show ?thesis by (simp add: serveCycle_def status_defs)
next
  case (Inr u)
  then have v: "Config_Validate cfg = Inr ()" by simp
  then have ok: "config_ok cfg" by (simp add: Config_Validate_ok)
  consider "points < 2" | "200001 < points" | "2 \<le> points" "points \<le> MaxPoints" unfolding MaxPoints_def by linarith
  then show ?thesis
  proof cases
    case 1
    then show ?thesis using v by (simp add: serveCycle_def MinPoints_def status_defs)
  next
    case 2
    then have "Segments_Curve b points = Inl Too_Many_Points" for b by (simp add: Segments_Curve_def Let_def MaxPoints_def MinPoints_def)
    then show ?thesis
      using 2 v ok Build_valid [OF v] by (simp add: serveCycle_def MinPoints_def config_ok_def status_defs)
  next
    case 3
    then show ?thesis using v serveCycle_valid [OF v 3, of env] by (fastforce simp: MaxPoints_def status_defs)
  qed
qed

text \<open>
  Claim C9. The exact behaviour of the lift curve behind both \<open>/lift\<close> handlers: 404 exactly for an error that wraps \<open>ErrNotFound\<close>, 400 for the other errors of
  resolving the request, the validation error, the error for a bad number of points, or the curve with exactly the requested number of
  points, its peaks and its internal seams. A request that names a recipe together with a parameter of its own is always refused.
\<close>

theorem serveLift_exact:
  "(case resolveSpec env fs req of
     Inl e \<Rightarrow> serveLift env fs req = writeErr env (if errors_Is e ErrNotFound then 404 else 400) (Error_Text e)
   | Inr s \<Rightarrow>
       (case Spec_Validate s of
          Inl e \<Rightarrow> serveLift env fs req = writeErr env 400 (Error_Text e)
        | Inr _ \<Rightarrow>
            if lr_Points req < 2 then serveLift env fs req = writeErr env 400 Points_Too_Few
            else if 200001 < lr_Points req then serveLift env fs req = writeErr env 400 (Error_Text Too_Many_Points)
            else \<exists>pts p js. Curve s (lr_Points req) = Inr (pts, p) \<and> length pts = nat (lr_Points req) \<and> InternalSeams s 0 = Inr js
               \<and> serveLift env fs req = writeJSON 200 (liftResponse s pts p js)))
   \<and> (lr_Recipe req \<noteq> '''' \<and> (lr_Type req \<noteq> None \<or> lr_H req \<noteq> None \<or> lr_Beta req \<noteq> None) \<longrightarrow>
        resolveSpec env fs req = Inl Recipe_With_Params)"
proof (rule conjI)
  show "case resolveSpec env fs req of
     Inl e \<Rightarrow> serveLift env fs req = writeErr env (if errors_Is e ErrNotFound then 404 else 400) (Error_Text e)
   | Inr s \<Rightarrow>
       (case Spec_Validate s of
          Inl e \<Rightarrow> serveLift env fs req = writeErr env 400 (Error_Text e)
        | Inr _ \<Rightarrow>
            if lr_Points req < 2 then serveLift env fs req = writeErr env 400 Points_Too_Few
            else if 200001 < lr_Points req then serveLift env fs req = writeErr env 400 (Error_Text Too_Many_Points)
            else \<exists>pts p js. Curve s (lr_Points req) = Inr (pts, p) \<and> length pts = nat (lr_Points req) \<and> InternalSeams s 0 = Inr js
               \<and> serveLift env fs req = writeJSON 200 (liftResponse s pts p js))"
  proof (cases "resolveSpec env fs req")
    case (Inl e)
    then show ?thesis by (simp add: serveLift_def status_defs)
  next
    case r: (Inr s)
    show ?thesis
    proof (cases "Spec_Validate s")
      case (Inl e)
      then show ?thesis using r by (simp add: serveLift_def status_defs)
    next
      case (Inr u)
      then have v: "Spec_Validate s = Inr ()" by simp
      consider "lr_Points req < 2" | "200001 < lr_Points req" | "2 \<le> lr_Points req" "lr_Points req \<le> MaxPoints" unfolding MaxPoints_def by linarith
      then show ?thesis
      proof cases
        case 2
        then have "Curve s (lr_Points req) = Inl Too_Many_Points" using v by (simp add: Curve_def Let_def MaxPoints_def MinPoints_def)
        then show ?thesis using 2 r v by (simp add: serveLift_def MinPoints_def status_defs)
      next
        case 3
        then show ?thesis using r v serveLift_valid [OF r v 3] by (fastforce simp: MaxPoints_def status_defs)
      qed (use r v in \<open>simp add: serveLift_def MinPoints_def status_defs\<close>)
    qed
  qed
qed (simp add: resolveSpec_def)

definition sample_env :: api_env where
  "sample_env = \<lparr>ap_os = no_faults, ap_store = sample_store, ap_text = (\<lambda>_. ''error'')\<rparr>"

definition both_given :: liftRequest where
  "both_given = \<lparr>lr_Recipe = ''a'', lr_Type = None, lr_H = Some 1, lr_Beta = None, lr_Omega = 1, lr_Points = 2\<rparr>"

theorem serveLift_exact_witness:
  "resolveSpec sample_env sample_fs both_given = Inl Recipe_With_Params
   \<and> serveLift sample_env sample_fs both_given = writeErr sample_env 400 (Error_Text Recipe_With_Params)"
proof -
  note l = serveLift_exact [of sample_env sample_fs both_given]
  have r: "resolveSpec sample_env sample_fs both_given = Inl Recipe_With_Params" using l by (simp add: both_given_def)
  show ?thesis using l unfolding r by (simp only: sum.case errors_Is.simps) simp
qed

subsection \<open>The query of a curve\<close>

text \<open>The parameter \<open>points\<close> may be left out.\<close>

definition curve_query :: "string \<Rightarrow> string \<Rightarrow> float64 \<Rightarrow> int option \<Rightarrow> string" where
  "curve_query key name omega points =
     query_text ([(key, name), (''omega_deg_s'', FormatFloat omega (CHR ''f''))]
       @ (case points of None \<Rightarrow> [] | Some p \<Rightarrow> [(''points'', AppendInt p)]))"

lemma Atoi_AppendInt:
  assumes "- (2 ^ 63) \<le> p" "p < 2 ^ 63"
  shows "Atoi (AppendInt p) = (p, None)"
proof -
  let ?s = "dec_string (nat \<bar>p\<bar>)"
  have "is_digit (hd ?s)" using dec_string_digits [of "nat \<bar>p\<bar>"] dec_string_nonempty [of "nat \<bar>p\<bar>"] by (cases ?s) auto
  then have h: "\<not> is_sign (hd ?s)" "hd ?s \<noteq> CHR ''-''" by (auto simp: is_digit_def is_sign_def byte_def)
  have "int_syntax (AppendInt p) \<and> int_value (AppendInt p) = p"
  proof (cases "p < 0")
    case True
    then have s: "AppendInt p = CHR ''-'' # ?s" by (simp add: AppendInt_def)
    have "unsigned_part (CHR ''-'' # ?s) = ?s" by (simp add: unsigned_part_def is_sign_def byte_def)
    then show ?thesis using True unfolding s by (simp add: int_syntax_def int_value_def)
  next
    case False
    then have s: "AppendInt p = ?s" by (simp add: AppendInt_def)
    have "unsigned_part ?s = ?s" using h by (simp add: unsigned_part_def hd_conv_nth)
    then show ?thesis using False h unfolding s by (simp add: int_syntax_def int_value_def)
  qed
  then show ?thesis using Atoi_value [of "AppendInt p"] assms by (simp add: saturate_def)
qed

lemma AppendInt_nonempty: "AppendInt p \<noteq> []"
  by (simp add: AppendInt_def)

lemma curve_params_query:
  assumes q: "url_RawQuery u = curve_query key name omega points" and key: "key \<noteq> ''omega_deg_s''" "key \<noteq> ''points''"
    and omega: "pos_finite omega" and points: "\<And>p. points = Some p \<Longrightarrow> - (2 ^ 63) \<le> p \<and> p < 2 ^ 63"
  shows "Values_Get (URL_Query u) key = name"
    "curve_params (URL_Query u) = Inr (omega, case points of None \<Rightarrow> DefaultPoints | Some p \<Rightarrow> p)"
proof -
  have g: "Values_Get (URL_Query u) k
      = (case map_of ([(key, name), (''omega_deg_s'', FormatFloat omega (CHR ''f''))]
            @ (case points of None \<Rightarrow> [] | Some p \<Rightarrow> [(''points'', AppendInt p)])) k of
           None \<Rightarrow> '''' | Some v \<Rightarrow> v)" for k
    unfolding Values_Get_pairs q curve_query_def query_pairs_text by simp
  show "Values_Get (URL_Query u) key = name" by (simp add: g)
  have a: "Atoi (AppendInt p) = (p, None)" if "points = Some p" for p using Atoi_AppendInt points [OF that] by blast
  have f: "ParseFloat (FormatFloat omega (CHR ''f'')) = (omega, None)"
    using FormatFloat_f_reads [OF pos_finite_finite [OF omega]] by (auto simp: reads_as_def)
  have "\<not> omega \<le> 0" using omega by (simp add: pos_finite_def le_iff_valof)
  then show "curve_params (URL_Query u) = Inr (omega, case points of None \<Rightarrow> DefaultPoints | Some p \<Rightarrow> p)"
    using key a by (cases points) (simp_all add: curve_params_def g f AppendInt_nonempty Let_def)
qed

lemma checkName_nonempty: "checkName n = Inr () \<Longrightarrow> n \<noteq> ''''"
  by (auto simp: checkName_def TrimSpace_def)

lemma stored_spec_valid:
  assumes "Recipe_Validate r = Inr ()" "pos_finite omega"
  shows "Spec_Validate \<lparr>spec_Type = rcp_Type r, spec_H = rcp_H r, spec_Beta = rcp_Beta r, spec_Omega = omega\<rparr> = Inr ()"
  using assms by (simp add: Spec_Validate_ok spec_valid_def Recipe_Validate_ok)

lemma stored_config_valid:
  assumes "CycleRecord_Validate c = Inr ()" "pos_finite omega"
  shows "Config_Validate (ToConfig c omega) = Inr ()"
proof -
  have "Config_Validate (ToConfig c 1) = Inr ()" using assms(1) by (auto simp: CycleRecord_Validate_def ToConfig_def split: if_splits)
  then show ?thesis using assms(2) by (simp add: Config_Validate_ok config_ok_def ToConfig_def angle_total_def)
qed

text \<open>
  Claim C5. Every stored record of moderate size can be drawn: for each recipe or cycle in the store, each positive finite speed and each number of points from 2
  to 200001, the GET request whose query carries them in escaped form is answered with status 200 and the curve of exactly that record at
  exactly that speed; every number of the curve is finite and the body is valid JSON. Moderate means a stroke of at most \<open>2^100\<close>, a speed from \<open>2^-100\<close> to
  \<open>2^100\<close> and motion angles of at least \<open>2^-100\<close>: far beyond these a derivative overflows, and the code answers with status 200 and no body. The store must satisfy its
  invariant and the kernel must refuse nothing. The query passes through escaping, the printing and parsing of the float and of the integer, and the record
  through the file system.
\<close>

theorem stored_curves_available:
  assumes "store_ok (ap_store env) fs" "pos_finite omega" "2 \<le> points" "points \<le> 200001" "\<forall>p. quiet (ap_os env) p"
  shows "(recipes (ap_store env) fs n = Some r \<and> moderate (rcp_H r) (rcp_Beta r) omega
        \<and> url_RawQuery (rq_URL rq) = curve_query ''recipe'' n omega (Some points) \<longrightarrow>
      (\<exists>pts p js. let s = \<lparr>spec_Type = rcp_Type r, spec_H = rcp_H r, spec_Beta = rcp_Beta r, spec_Omega = omega\<rparr> in
         Curve s points = Inr (pts, p) \<and> length pts = nat points \<and> list_all finite_motion pts \<and> InternalSeams s 0 = Inr js
         \<and> liftCurveGET env fs rq = writeJSON 200 (liftResponse s pts p js) \<and> Valid (rs_Body (liftCurveGET env fs rq))))
    \<and> (cycles (ap_store env) fs n = Some c \<and> moderate_config (ToConfig c omega)
        \<and> url_RawQuery (rq_URL rq) = curve_query ''cycle'' n omega (Some points) \<longrightarrow>
      (\<exists>b pts js. Build (ToConfig c omega) = Inr b \<and> Segments_Curve b points = Inr pts \<and> length pts = nat points
         \<and> list_all (\<lambda>x. finite_motion (cs_Motion x)) pts \<and> Discontinuities b = Inr js
         \<and> cycleCurveGET env fs rq = writeJSON 200 (cycleCurveResponse (ToConfig c omega) b pts js) \<and> Valid (rs_Body (cycleCurveGET env fs rq))))"
proof (intro conjI impI; elim conjE)
  have pts: "points \<le> MaxPoints" using assms(4) by (simp add: MaxPoints_def)
  have word: "- (2 ^ 63) \<le> p \<and> p < 2 ^ 63" if "Some points = Some p" for p using that assms(3,4) by simp
  {
    assume r: "recipes (ap_store env) fs n = Some r" and mod: "moderate (rcp_H r) (rcp_Beta r) omega"
      and q: "url_RawQuery (rq_URL rq) = curve_query ''recipe'' n omega (Some points)"
    define s where "s = \<lparr>spec_Type = rcp_Type r, spec_H = rcp_H r, spec_Beta = rcp_Beta r, spec_Omega = omega\<rparr>"
    define req where "req = \<lparr>lr_Recipe = n, lr_Type = None, lr_H = None, lr_Beta = None, lr_Omega = omega, lr_Points = points\<rparr>"
    have n: "checkName n = Inr ()" using r by (auto simp: recipes_def split: if_splits)
    have "GetRecipe (ap_os env) (ap_store env) fs n = Inr r" using GetRecipe_stored assms(1,5) n r by simp
    then have rs: "resolveSpec env fs req = Inr s" using checkName_nonempty [OF n] by (simp add: resolveSpec_def req_def s_def)
    have v: "Spec_Validate s = Inr ()" using stored_spec_valid recipes_valid [OF assms(1) r] assms(2) by (simp add: s_def)
    have l: "liftCurveGET env fs rq = serveLift env fs req"
      using curve_params_query [OF q _ _ assms(2) word] checkName_nonempty [OF n] by (simp add: liftCurveGET_def req_def)
    obtain pts p js where c: "Curve s points = Inr (pts, p)" "length pts = nat points" "InternalSeams s 0 = Inr js"
      "serveLift env fs req = writeJSON 200 (liftResponse s pts p js)"
      using serveLift_valid [OF rs v] assms(3) pts by (auto simp: req_def status_defs)
    have "spec_valid s" "moderate (spec_H s) (spec_Beta s) (spec_Omega s)" using v mod by (simp_all add: Spec_Validate_ok s_def)
    then show "\<exists>pts p js. let s = \<lparr>spec_Type = rcp_Type r, spec_H = rcp_H r, spec_Beta = rcp_Beta r, spec_Omega = omega\<rparr> in
         Curve s points = Inr (pts, p) \<and> length pts = nat points \<and> list_all finite_motion pts \<and> InternalSeams s 0 = Inr js
         \<and> liftCurveGET env fs rq = writeJSON 200 (liftResponse s pts p js) \<and> Valid (rs_Body (liftCurveGET env fs rq))"
      using lift_body_valid [OF _ _ c(1,3) pts] c l unfolding Let_def s_def [symmetric] by auto
  next
    assume c: "cycles (ap_store env) fs n = Some c" and mod: "moderate_config (ToConfig c omega)"
      and q: "url_RawQuery (rq_URL rq) = curve_query ''cycle'' n omega (Some points)"
    have n: "checkName n = Inr ()" using c by (auto simp: cycles_def split: if_splits)
    have g: "GetCycle (ap_os env) (ap_store env) fs n = Inr c" using GetCycle_stored assms(1,5) n c by simp
    have v: "Config_Validate (ToConfig c omega) = Inr ()" using stored_config_valid cycles_valid [OF assms(1) c] assms(2) by simp
    have l: "cycleCurveGET env fs rq = serveCycle env (ToConfig c omega) points"
      using curve_params_query [OF q _ _ assms(2) word] checkName_nonempty [OF n] by (simp add: cycleCurveGET_def g)
    have b: "Build (ToConfig c omega) = Inr (cycle_of (ToConfig c omega))" by (rule Build_valid [OF v])
    obtain pts js where d: "Segments_Curve (cycle_of (ToConfig c omega)) points = Inr pts" "length pts = nat points"
      "Discontinuities (cycle_of (ToConfig c omega)) = Inr js"
      "serveCycle env (ToConfig c omega) points = writeJSON 200 (cycleCurveResponse (ToConfig c omega) (cycle_of (ToConfig c omega)) pts js)"
      using serveCycle_valid [OF v assms(3) pts, of env] b by (metis StatusOK_def sum.inject(2))
    then show "\<exists>b pts js. Build (ToConfig c omega) = Inr b \<and> Segments_Curve b points = Inr pts \<and> length pts = nat points
         \<and> list_all (\<lambda>x. finite_motion (cs_Motion x)) pts \<and> Discontinuities b = Inr js
         \<and> cycleCurveGET env fs rq = writeJSON 200 (cycleCurveResponse (ToConfig c omega) b pts js) \<and> Valid (rs_Body (cycleCurveGET env fs rq))"
      using cycle_body_valid [OF v mod d(1,3) pts] b l by auto
  }
qed

definition sample_body :: string where
  "sample_body = ''{'' @ quoted ''name'' @ '':'' @ quoted ''cycloid-lift'' @ '','' @ quoted ''type'' @ '':'' @ quoted ''cycloid''
     @ '','' @ quoted ''h'' @ '':10,'' @ quoted ''beta_deg'' @ '':60}''"

lemma sample_decoded: "Decode sample_body (recipe_struct zero_recipe) = (None, recipe_struct sample_recipe)"
  by code_simp

definition sample_request :: "string \<Rightarrow> string \<Rightarrow> string \<Rightarrow> request" where
  "sample_request method query body = \<lparr>rq_Method = method, rq_RequestURI = ''/'', rq_ProtoAtLeast11 = True, rq_Host = ''localhost'',
     rq_URL = \<lparr>url_Host = '''', url_Path = ''/'', url_RawPath = '''', url_RawQuery = query\<rparr>, rq_Body = body\<rparr>"

lemma sample_env_simps [simp]: "ap_os sample_env = no_faults" "ap_store sample_env = sample_store"
  by (simp_all add: sample_env_def)

theorem stored_curves_available_witness:
  "\<exists>fs. SaveRecipe no_faults sample_store sample_fs sample_recipe = (fs, None)
     \<and> rs_Code (liftCurveGET sample_env fs (sample_request ''GET'' (curve_query ''recipe'' ''cycloid-lift'' (f64 60) (Some 361)) '''')) = 200
     \<and> Valid (rs_Body (liftCurveGET sample_env fs (sample_request ''GET'' (curve_query ''recipe'' ''cycloid-lift'' (f64 60) (Some 361)) '''')))"
proof -
  let ?q = "sample_request ''GET'' (curve_query ''recipe'' ''cycloid-lift'' (f64 60) (Some 361)) ''''"
  obtain fs where w: "SaveRecipe no_faults sample_store sample_fs sample_recipe = (fs, None)" by (rule sample_saved)
  have ok: "store_ok (ap_store sample_env) fs" "recipes (ap_store sample_env) fs ''cycloid-lift'' = Some sample_recipe"
    using SaveRecipe_refines(1,3) [OF w] sample_ok by (simp_all add: sample_recipe_def)
  have o: "pos_finite (f64 60)" by (simp add: pos_finite_def sample_values)
  have "moderate (rcp_H sample_recipe) (rcp_Beta sample_recipe) (f64 60)" by (simp add: moderate_def sample_recipe_def sample_values power_int_minus)
  then obtain v where "liftCurveGET sample_env fs ?q = writeJSON 200 v" "Valid (rs_Body (liftCurveGET sample_env fs ?q))"
    using stored_curves_available [OF ok(1) o, of 361 "''cycloid-lift''" sample_recipe ?q, THEN conjunct1, THEN mp] ok(2)
    unfolding Let_def by (fastforce simp: sample_request_def)
  then show ?thesis using w by auto
qed

subsection \<open>GET and POST agree\<close>

text \<open>
  Claim C26. The two forms of a curve request agree: a POST whose body decodes to a name that is not empty, a positive finite speed and a number of points that fits
  64 bits gets the response of the GET with these three in its query, where the query leaves the number of points out when the body gives zero or none. For the lift
  the body must give nothing else (else it is refused); for the cycle the other fields of the body count for nothing. (The claim does not cover a query with zero
  points written out: the POST takes zero for the default, the GET refuses it.)
\<close>

theorem get_post_agree:
  assumes "name \<noteq> ''''" "pos_finite omega" "- (2 ^ 63) \<le> points" "points < 2 ^ 63"
    and "given = (if points = 0 then None else Some points)"
  shows "(Decode (rq_Body post) lift_struct0 = (None, v) \<and> url_RawQuery (rq_URL get) = curve_query ''recipe'' name omega given
        \<and> liftRequest_of v = \<lparr>lr_Recipe = name, lr_Type = None, lr_H = None, lr_Beta = None, lr_Omega = omega, lr_Points = points\<rparr> \<longrightarrow>
      liftCurvePOST env fs post = liftCurveGET env fs get)
    \<and> (Decode (rq_Body post) cycle_curve_struct0 = (None, v) \<and> url_RawQuery (rq_URL get) = curve_query ''cycle'' name omega given
        \<and> cr_Cycle (cycleCurveRequest_of v) = name \<and> cfg_Omega (cr_Config (cycleCurveRequest_of v)) = omega
        \<and> cr_Points (cycleCurveRequest_of v) = points \<longrightarrow>
      cycleCurvePOST env fs post = cycleCurveGET env fs get)"
proof (intro conjI impI; elim conjE)
  have "- (2 ^ 63) \<le> p \<and> p < 2 ^ 63" if "given = Some p" for p using that assms(3-5) by (simp split: if_splits)
  note c = curve_params_query [OF _ _ _ assms(2) this] and g = assms(5)
  {
    assume "Decode (rq_Body post) lift_struct0 = (None, v)" "url_RawQuery (rq_URL get) = curve_query ''recipe'' name omega given"
      "liftRequest_of v = \<lparr>lr_Recipe = name, lr_Type = None, lr_H = None, lr_Beta = None, lr_Omega = omega, lr_Points = points\<rparr>"
    then show "liftCurvePOST env fs post = liftCurveGET env fs get"
      using c [of "rq_URL get" "''recipe''" name] assms(1) by (simp add: liftCurvePOST_def liftCurveGET_def decode_def g)
  next
    assume "Decode (rq_Body post) cycle_curve_struct0 = (None, v)" "url_RawQuery (rq_URL get) = curve_query ''cycle'' name omega given"
      "cr_Cycle (cycleCurveRequest_of v) = name" "cfg_Omega (cr_Config (cycleCurveRequest_of v)) = omega"
      "cr_Points (cycleCurveRequest_of v) = points"
    then show "cycleCurvePOST env fs post = cycleCurveGET env fs get"
      using c [of "rq_URL get" "''cycle''" name] assms(1)
      by (simp add: cycleCurvePOST_def cycleCurveGET_def decode_def g Let_def split: sum.split)
  }
qed

definition lift_body :: string where
  "lift_body = ''{'' @ quoted ''recipe'' @ '':'' @ quoted ''a'' @ '','' @ quoted ''omega_deg_s'' @ '':60}''"

definition lift_struct1 :: go_struct where
  "lift_struct1 = [(''recipe'', VString ''a''), (''type'', VPtrString None), (''h'', VPtrFloat None),
     (''beta_deg'', VPtrFloat None), (''omega_deg_s'', VFloat (f64 60)), (''points'', VInt 0)]"

lemma lift_decoded: "Decode lift_body lift_struct0 = (None, lift_struct1)"
  by code_simp

theorem get_post_agree_witness:
  "liftCurvePOST sample_env sample_fs (sample_request ''POST'' '''' lift_body)
     = liftCurveGET sample_env sample_fs (sample_request ''GET'' (curve_query ''recipe'' ''a'' (f64 60) None) '''')"
proof -
  have o: "pos_finite (f64 60)" by (simp add: pos_finite_def sample_values)
  note d = lift_decoded and
    g = get_post_agree [of "''a''" "f64 60" 0 None "sample_request ''POST'' '''' lift_body" lift_struct1
      "sample_request ''GET'' (curve_query ''recipe'' ''a'' (f64 60) None) ''''" sample_env sample_fs, OF _ o, THEN conjunct1, THEN mp]
  show ?thesis
    by (rule g) (simp_all add: sample_request_def d lift_struct1_def liftRequest_of_def string_field_def ptr_string_field_def ptr_float_field_def
      float_field_def int_field_def get_field_def)
qed

end
