(* ===== verification/Record_Api.thy ===== *)
theory Record_Api
  imports Handlers_Spec
begin

text \<open>
  What the handlers and the start-up code rely on when they use the store: a keyed store of one kind of record, with the laws of saving and
  getting. The clients are verified once against the laws: the handler that decodes, validates, saves and answers, the one that gets,
  and the seeding of a record that must not overwrite. Recipes and cycle records are the two interpretations.
\<close>

locale keyed_store =
  fixes save :: "os_env \<Rightarrow> file_system \<Rightarrow> 'r \<Rightarrow> file_system \<times> go_error option"
    and get :: "os_env \<Rightarrow> file_system \<Rightarrow> string \<Rightarrow> (go_error, 'r) result"
    and view :: "file_system \<Rightarrow> string \<Rightarrow> 'r option"
    and inv :: "file_system \<Rightarrow> bool"
    and validate :: "'r \<Rightarrow> (go_error, unit) result"
    and key :: "'r \<Rightarrow> string"
    and kind :: record_kind
    and files :: "string \<Rightarrow> string set"
  assumes save_view: "save os fs r = (fs', err) \<Longrightarrow> view fs' = (if err = None then (view fs)(key r \<mapsto> r) else view fs)"
    and save_inv: "save os fs r = (fs', err) \<Longrightarrow> inv fs \<Longrightarrow> inv fs'"
    and save_valid: "save os fs r = (fs', None) \<Longrightarrow> validate r = Inr () \<and> checkName (key r) = Inr ()"
    and save_available: "inv fs \<Longrightarrow> validate r = Inr () \<Longrightarrow> checkName (key r) = Inr () \<Longrightarrow> (\<And>p. p \<in> files (key r) \<Longrightarrow> quiet os p) \<Longrightarrow>
          \<exists>fs'. save os fs r = (fs', None)"
    and save_get: "save os fs r = (fs', None) \<Longrightarrow> (\<And>p. p \<in> files (key r) \<Longrightarrow> quiet os' p) \<Longrightarrow> get os' fs' (key r) = Inr r"
    and get_view: "inv fs \<Longrightarrow> (\<And>p. p \<in> files n \<Longrightarrow> quiet os p) \<Longrightarrow> get os fs n =
          (case checkName n of Inl e \<Rightarrow> Inl e
           | Inr _ \<Rightarrow> (case view fs n of None \<Rightarrow> Inl (Not_Found kind n ErrNotFound) | Some r \<Rightarrow> Inr r))"
    and view_valid: "inv fs \<Longrightarrow> view fs n = Some r \<Longrightarrow> validate r = Inr () \<and> key r = n"
begin

text \<open>The POST handler of a kind of record, the GET handler, and the seeding of a record.\<close>

definition post :: "go_struct \<Rightarrow> (go_struct \<Rightarrow> 'r) \<Rightarrow> string \<Rightarrow> ('r \<Rightarrow> json_val) \<Rightarrow> api_env \<Rightarrow> file_system \<Rightarrow> request \<Rightarrow> file_system \<times> response" where
  "post zero dec label json env fs r =
     (case decode env r zero of
        Inl resp \<Rightarrow> (fs, resp)
      | Inr v \<Rightarrow>
          (case validate (dec v) of
             Inl err \<Rightarrow> (fs, writeErr env 400 (Error_Text err))
           | Inr _ \<Rightarrow>
               (case save (ap_os env) fs (dec v) of
                  (fs, Some err) \<Rightarrow> (fs, writeErr env 400 (Error_Text err))
                | (fs, None) \<Rightarrow> (fs, writeJSON 201 (JMap [(label, json (dec v))])))))"

definition fetch :: "string \<Rightarrow> ('r \<Rightarrow> json_val) \<Rightarrow> api_env \<Rightarrow> file_system \<Rightarrow> string \<Rightarrow> response" where
  "fetch label json env fs name =
     (case get (ap_os env) fs name of
        Inl err \<Rightarrow> writeErr env (if errors_Is err ErrNotFound then 404 else 400) (Error_Text err)
      | Inr r \<Rightarrow> writeJSON 200 (JMap [(label, json r)]))"

definition ensure :: "os_env \<Rightarrow> file_system \<Rightarrow> 'r \<Rightarrow> file_system \<times> go_error option" where
  "ensure os fs r =
     (case get os fs (key r) of
        Inr _ \<Rightarrow> (fs, None)
      | Inl err \<Rightarrow> if \<not> errors_Is err ErrNotFound then (fs, Some err) else save os fs r)"

lemma post_cases:
  assumes "post zero dec label json env fs r = (fs', resp)"
  obtains (saved) v where "Decode (rq_Body r) zero = (None, v)" "save (ap_os env) fs (dec v) = (fs', None)"
      "resp = writeJSON 201 (JMap [(label, json (dec v))])"
    | (refused) "rs_Code resp = 400" "fs' = fs"
    | (failed) v err where "save (ap_os env) fs (dec v) = (fs', Some err)" "rs_Code resp = 400"
proof -
  obtain e v where d: "Decode (rq_Body r) zero = (e, v)" by fastforce
  show thesis
  proof (cases e)
    case (Some err)
    then show thesis using assms d by (intro refused) (auto simp: post_def decode_def StatusBadRequest_def)
  next
    case None
    show thesis
    proof (cases "validate (dec v)")
      case (Inl err)
      then show thesis using assms d None by (intro refused) (auto simp: post_def decode_def)
    next
      case (Inr u)
      obtain fs1 err where s: "save (ap_os env) fs (dec v) = (fs1, err)" by fastforce
      show thesis
      proof (cases err)
        case (Some e')
        then show thesis using assms d None Inr s by (intro failed) (auto simp: post_def decode_def)
      next
        case n: None
        then show thesis using assms d None Inr s by (intro saved) (auto simp: post_def decode_def)
      qed
    qed
  qed
qed

lemma post_correct:
  assumes p: "post zero dec label json env fs r = (fs', resp)"
  shows "rs_Code resp = 201 \<Longrightarrow> \<exists>v. Decode (rq_Body r) zero = (None, v) \<and> validate (dec v) = Inr () \<and> view fs' = (view fs)(key (dec v) \<mapsto> dec v)
        \<and> (\<forall>env'. (\<forall>p \<in> files (key (dec v)). quiet (ap_os env') p) \<longrightarrow> fetch label json env' fs' (key (dec v)) = resp\<lparr>rs_Code := 200\<rparr>)"
    and "rs_Code resp \<noteq> 201 \<Longrightarrow> rs_Code resp = 400 \<and> view fs' = view fs"
    and "inv fs \<Longrightarrow> inv fs'"
proof -
  have "(rs_Code resp = 201 \<longrightarrow> (\<exists>v. Decode (rq_Body r) zero = (None, v) \<and> validate (dec v) = Inr () \<and> view fs' = (view fs)(key (dec v) \<mapsto> dec v)
        \<and> (\<forall>env'. (\<forall>p \<in> files (key (dec v)). quiet (ap_os env') p) \<longrightarrow> fetch label json env' fs' (key (dec v)) = resp\<lparr>rs_Code := 200\<rparr>)))
     \<and> (rs_Code resp \<noteq> 201 \<longrightarrow> rs_Code resp = 400 \<and> view fs' = view fs) \<and> (inv fs \<longrightarrow> inv fs')"
    using p
  proof (cases rule: post_cases)
    case (saved v)
    have "fetch label json env' fs' (key (dec v)) = resp\<lparr>rs_Code := 200\<rparr>" if "\<forall>p \<in> files (key (dec v)). quiet (ap_os env') p" for env'
      using save_get [OF saved(2), of "ap_os env'"] that saved(3) by (simp add: fetch_def writeJSON_recode)
    then show ?thesis using saved save_view [OF saved(2)] save_valid [OF saved(2)] save_inv [OF saved(2)] by auto
  next
    case (failed v err)
    then show ?thesis using save_view [OF failed(1)] save_inv [OF failed(1)] by simp
  qed simp
  then show "rs_Code resp = 201 \<Longrightarrow> \<exists>v. Decode (rq_Body r) zero = (None, v) \<and> validate (dec v) = Inr () \<and> view fs' = (view fs)(key (dec v) \<mapsto> dec v)
        \<and> (\<forall>env'. (\<forall>p \<in> files (key (dec v)). quiet (ap_os env') p) \<longrightarrow> fetch label json env' fs' (key (dec v)) = resp\<lparr>rs_Code := 200\<rparr>)"
    "rs_Code resp \<noteq> 201 \<Longrightarrow> rs_Code resp = 400 \<and> view fs' = view fs" "inv fs \<Longrightarrow> inv fs'"
    by blast+
qed

lemma post_available:
  assumes "inv fs" "Decode (rq_Body r) zero = (None, v)" "validate (dec v) = Inr ()" "checkName (key (dec v)) = Inr ()"
    "\<And>p. p \<in> files (key (dec v)) \<Longrightarrow> quiet (ap_os env) p"
  shows "rs_Code (snd (post zero dec label json env fs r)) = 201"
  using save_available [OF assms(1,3,4,5)] assms(2,3) by (auto simp: post_def decode_def)

lemma ensure_correct:
  assumes e: "ensure os fs r = (fs', err)" and i: "inv fs" and q: "\<And>p. p \<in> files (key r) \<Longrightarrow> quiet os p"
    and r: "validate r = Inr ()" "checkName (key r) = Inr ()"
  shows "err = None" "view fs' = (view fs)(key r \<mapsto> case view fs (key r) of Some r0 \<Rightarrow> r0 | None \<Rightarrow> r)" "inv fs'"
    "view fs (key r) \<noteq> None \<Longrightarrow> fs' = fs"
proof -
  have "err = None \<and> view fs' = (view fs)(key r \<mapsto> case view fs (key r) of Some r0 \<Rightarrow> r0 | None \<Rightarrow> r) \<and> inv fs'
    \<and> (view fs (key r) \<noteq> None \<longrightarrow> fs' = fs)"
  proof (cases "view fs (key r)")
    case None
    obtain fs1 where s: "save os fs r = (fs1, None)" using save_available [OF i r q] by blast
    then show ?thesis using e None get_view [OF i q] r(2) save_view [OF s] save_inv [OF s i] by (simp add: ensure_def)
  next
    case (Some r0)
    then show ?thesis using e get_view [OF i q] r(2) i by (auto simp: ensure_def)
  qed
  then show "err = None" "view fs' = (view fs)(key r \<mapsto> case view fs (key r) of Some r0 \<Rightarrow> r0 | None \<Rightarrow> r)" "inv fs'"
    "view fs (key r) \<noteq> None \<Longrightarrow> fs' = fs"
    by blast+
qed

end

subsection \<open>Recipes and cycle records\<close>

interpretation recipe_store: keyed_store "\<lambda>os. SaveRecipe os s" "\<lambda>os. GetRecipe os s" "recipes s" "store_ok s" Recipe_Validate rcp_Name Recipe_Kind
  "record_files s ''recipe_''" for s
proof
  fix os fs fs' r err
  assume w: "SaveRecipe os s fs r = (fs', err)"
  show "recipes s fs' = (if err = None then (recipes s fs)(rcp_Name r \<mapsto> r) else recipes s fs)" by (rule SaveRecipe_refines(1) [OF w])
  show "store_ok s fs \<Longrightarrow> store_ok s fs'" by (rule SaveRecipe_refines(3) [OF w])
next
  fix os fs fs' r
  assume w: "SaveRecipe os s fs r = (fs', None)"
  show "Recipe_Validate r = Inr () \<and> checkName (rcp_Name r) = Inr ()" by (rule SaveRecipe_refines(6) [OF w refl])
  show "\<And>os'. (\<And>p. p \<in> record_files s ''recipe_'' (rcp_Name r) \<Longrightarrow> quiet os' p) \<Longrightarrow> GetRecipe os' s fs' (rcp_Name r) = Inr r"
    by (rule SaveRecipe_GetRecipe [OF w]) (simp add: record_files_def)
next
  fix os fs n
  assume i: "store_ok s fs" and q: "\<And>p. p \<in> record_files s ''recipe_'' n \<Longrightarrow> quiet os p"
  show "GetRecipe os s fs n = (case checkName n of Inl e \<Rightarrow> Inl e
      | Inr _ \<Rightarrow> (case recipes s fs n of None \<Rightarrow> Inl (Not_Found Recipe_Kind n ErrNotFound) | Some r \<Rightarrow> Inr r))"
    by (rule GetRecipe_stored [OF i]) (rule q, simp add: record_files_def)
qed (use SaveRecipe_succeeds recipes_valid in blast)+

interpretation cycle_store: keyed_store "\<lambda>os. SaveCycle os s" "\<lambda>os. GetCycle os s" "cycles s" "store_ok s" CycleRecord_Validate cyc_Name Cycle_Kind
  "record_files s ''cycle_''" for s
proof
  fix os fs fs' r err
  assume w: "SaveCycle os s fs r = (fs', err)"
  show "cycles s fs' = (if err = None then (cycles s fs)(cyc_Name r \<mapsto> r) else cycles s fs)" by (rule SaveCycle_refines(1) [OF w])
  show "store_ok s fs \<Longrightarrow> store_ok s fs'" by (rule SaveCycle_refines(3) [OF w])
next
  fix os fs fs' r
  assume w: "SaveCycle os s fs r = (fs', None)"
  show "CycleRecord_Validate r = Inr () \<and> checkName (cyc_Name r) = Inr ()" by (rule SaveCycle_refines(6) [OF w refl])
  show "\<And>os'. (\<And>p. p \<in> record_files s ''cycle_'' (cyc_Name r) \<Longrightarrow> quiet os' p) \<Longrightarrow> GetCycle os' s fs' (cyc_Name r) = Inr r"
    by (rule SaveCycle_GetCycle [OF w]) (simp add: record_files_def)
next
  fix os fs n
  assume i: "store_ok s fs" and q: "\<And>p. p \<in> record_files s ''cycle_'' n \<Longrightarrow> quiet os p"
  show "GetCycle os s fs n = (case checkName n of Inl e \<Rightarrow> Inl e
      | Inr _ \<Rightarrow> (case cycles s fs n of None \<Rightarrow> Inl (Not_Found Cycle_Kind n ErrNotFound) | Some r \<Rightarrow> Inr r))"
    by (rule GetCycle_stored [OF i]) (rule q, simp add: record_files_def)
qed (use SaveCycle_succeeds cycles_valid in blast)+

text \<open>The handlers of the code are these clients.\<close>

lemma handlers_post:
  "putRecipe env fs r = recipe_store.post (ap_store env) (recipe_struct zero_recipe) recipe_of ''recipe'' recipe_json env fs r"
  "putCycle env fs r = cycle_store.post (ap_store env) (cycle_struct zero_cycle) cycle_record_of ''cycle'' cycle_json env fs r"
  unfolding putRecipe_def putCycle_def recipe_store.post_def cycle_store.post_def Let_def status_defs by (rule refl)+

lemma handlers_fetch:
  "getRecipe env fs name = recipe_store.fetch (ap_store env) ''recipe'' recipe_json env fs name"
  "getCycle env fs name = cycle_store.fetch (ap_store env) ''cycle'' cycle_json env fs name"
  by (simp_all add: getRecipe_def getCycle_def recipeStoreError_def recipe_store.fetch_def cycle_store.fetch_def status_defs split: sum.split)

lemma putRecipe_correct:
  assumes p: "putRecipe env fs r = (fs', resp)"
  shows "rs_Code resp = 201 \<Longrightarrow> \<exists>v. Decode (rq_Body r) (recipe_struct zero_recipe) = (None, v) \<and> Recipe_Validate (recipe_of v) = Inr ()
          \<and> recipes (ap_store env) fs' = (recipes (ap_store env) fs)(rcp_Name (recipe_of v) \<mapsto> recipe_of v)
          \<and> ((\<forall>p. quiet (ap_os env) p) \<longrightarrow> getRecipe env fs' (rcp_Name (recipe_of v)) = resp\<lparr>rs_Code := 200\<rparr>)"
    and "rs_Code resp \<noteq> 201 \<Longrightarrow> rs_Code resp = 400 \<and> recipes (ap_store env) fs' = recipes (ap_store env) fs"
    and "cycles (ap_store env) fs' = cycles (ap_store env) fs" and "store_ok (ap_store env) fs \<Longrightarrow> store_ok (ap_store env) fs'"
proof -
  note p' = p [unfolded handlers_post]
  note c = recipe_store.post_correct [OF p']
  show "rs_Code resp = 201 \<Longrightarrow> \<exists>v. Decode (rq_Body r) (recipe_struct zero_recipe) = (None, v) \<and> Recipe_Validate (recipe_of v) = Inr ()
          \<and> recipes (ap_store env) fs' = (recipes (ap_store env) fs)(rcp_Name (recipe_of v) \<mapsto> recipe_of v)
          \<and> ((\<forall>p. quiet (ap_os env) p) \<longrightarrow> getRecipe env fs' (rcp_Name (recipe_of v)) = resp\<lparr>rs_Code := 200\<rparr>)"
    using c(1) unfolding handlers_fetch by blast
  show "rs_Code resp \<noteq> 201 \<Longrightarrow> rs_Code resp = 400 \<and> recipes (ap_store env) fs' = recipes (ap_store env) fs" by (rule c(2))
  show "cycles (ap_store env) fs' = cycles (ap_store env) fs"
    using p' by (cases rule: recipe_store.post_cases) (auto dest: SaveRecipe_refines(2))
  show "store_ok (ap_store env) fs \<Longrightarrow> store_ok (ap_store env) fs'" by (rule c(3))
qed

lemma putCycle_correct:
  assumes p: "putCycle env fs r = (fs', resp)"
  shows "rs_Code resp = 201 \<Longrightarrow> \<exists>v. Decode (rq_Body r) (cycle_struct zero_cycle) = (None, v) \<and> CycleRecord_Validate (cycle_record_of v) = Inr ()
          \<and> cycles (ap_store env) fs' = (cycles (ap_store env) fs)(cyc_Name (cycle_record_of v) \<mapsto> cycle_record_of v)
          \<and> ((\<forall>p. quiet (ap_os env) p) \<longrightarrow> getCycle env fs' (cyc_Name (cycle_record_of v)) = resp\<lparr>rs_Code := 200\<rparr>)"
    and "rs_Code resp \<noteq> 201 \<Longrightarrow> rs_Code resp = 400 \<and> cycles (ap_store env) fs' = cycles (ap_store env) fs"
    and "recipes (ap_store env) fs' = recipes (ap_store env) fs" and "store_ok (ap_store env) fs \<Longrightarrow> store_ok (ap_store env) fs'"
proof -
  note p' = p [unfolded handlers_post]
  note c = cycle_store.post_correct [OF p']
  show "rs_Code resp = 201 \<Longrightarrow> \<exists>v. Decode (rq_Body r) (cycle_struct zero_cycle) = (None, v) \<and> CycleRecord_Validate (cycle_record_of v) = Inr ()
          \<and> cycles (ap_store env) fs' = (cycles (ap_store env) fs)(cyc_Name (cycle_record_of v) \<mapsto> cycle_record_of v)
          \<and> ((\<forall>p. quiet (ap_os env) p) \<longrightarrow> getCycle env fs' (cyc_Name (cycle_record_of v)) = resp\<lparr>rs_Code := 200\<rparr>)"
    using c(1) unfolding handlers_fetch by blast
  show "rs_Code resp \<noteq> 201 \<Longrightarrow> rs_Code resp = 400 \<and> cycles (ap_store env) fs' = cycles (ap_store env) fs" by (rule c(2))
  show "recipes (ap_store env) fs' = recipes (ap_store env) fs"
    using p' by (cases rule: cycle_store.post_cases) (auto dest: SaveCycle_refines(2))
  show "store_ok (ap_store env) fs \<Longrightarrow> store_ok (ap_store env) fs'" by (rule c(3))
qed

text \<open>
  Claim C4. Saving through the API. A POST to \<open>/recipes\<close> or \<open>/cycles\<close> answers 201 or 400. With 201 the body decoded to a valid record, the map of the store has exactly
  that record under its name and no other change, and a later GET of the name returns the body of the POST response byte for byte. With 400
  the maps are unchanged. The other kind of record and the invariant of the directory are not touched.
\<close>

theorem post_handlers_correct:
  "(putRecipe env fs r = (fs', resp) \<longrightarrow>
      (rs_Code resp = 201 \<longrightarrow> (\<exists>v. Decode (rq_Body r) (recipe_struct zero_recipe) = (None, v) \<and> Recipe_Validate (recipe_of v) = Inr ()
          \<and> recipes (ap_store env) fs' = (recipes (ap_store env) fs)(rcp_Name (recipe_of v) \<mapsto> recipe_of v)
          \<and> ((\<forall>p. quiet (ap_os env) p) \<longrightarrow> getRecipe env fs' (rcp_Name (recipe_of v)) = resp\<lparr>rs_Code := 200\<rparr>)))
      \<and> (rs_Code resp \<noteq> 201 \<longrightarrow> rs_Code resp = 400 \<and> recipes (ap_store env) fs' = recipes (ap_store env) fs)
      \<and> cycles (ap_store env) fs' = cycles (ap_store env) fs \<and> (store_ok (ap_store env) fs \<longrightarrow> store_ok (ap_store env) fs'))
   \<and> (putCycle env fs r = (fs', resp) \<longrightarrow>
      (rs_Code resp = 201 \<longrightarrow> (\<exists>v. Decode (rq_Body r) (cycle_struct zero_cycle) = (None, v) \<and> CycleRecord_Validate (cycle_record_of v) = Inr ()
          \<and> cycles (ap_store env) fs' = (cycles (ap_store env) fs)(cyc_Name (cycle_record_of v) \<mapsto> cycle_record_of v)
          \<and> ((\<forall>p. quiet (ap_os env) p) \<longrightarrow> getCycle env fs' (cyc_Name (cycle_record_of v)) = resp\<lparr>rs_Code := 200\<rparr>)))
      \<and> (rs_Code resp \<noteq> 201 \<longrightarrow> rs_Code resp = 400 \<and> cycles (ap_store env) fs' = cycles (ap_store env) fs)
      \<and> recipes (ap_store env) fs' = recipes (ap_store env) fs \<and> (store_ok (ap_store env) fs \<longrightarrow> store_ok (ap_store env) fs'))"
  using putRecipe_correct [of env fs r fs' resp] putCycle_correct [of env fs r fs' resp] by blast

lemma recipe_of_sample [simp]: "recipe_of (recipe_struct r) = r"
  by (rule recipe.dec_enc)

theorem post_handlers_correct_witness:
  "\<exists>fs resp. putRecipe sample_env sample_fs (sample_request ''POST'' '''' sample_body) = (fs, resp) \<and> rs_Code resp = 201
     \<and> getRecipe sample_env fs ''cycloid-lift'' = resp\<lparr>rs_Code := 200\<rparr>"
proof -
  let ?r = "sample_request ''POST'' '''' sample_body"
  obtain fs resp where p: "putRecipe sample_env sample_fs ?r = (fs, resp)" by fastforce
  have d: "Decode (rq_Body ?r) (recipe_struct zero_recipe) = (None, recipe_struct sample_recipe)"
    by (simp add: sample_request_def sample_decoded)
  have "rs_Code (snd (putRecipe sample_env sample_fs ?r)) = 201"
    unfolding handlers_post
    by (rule recipe_store.post_available [OF _ d]) (simp_all add: sample_ok sample_recipe_valid)
  then have "rs_Code resp = 201" by (simp add: p)
  moreover have "rcp_Name sample_recipe = ''cycloid-lift''" by (simp add: sample_recipe_def)
  ultimately show ?thesis
    using post_handlers_correct [of sample_env sample_fs ?r fs resp, THEN conjunct1] p d by auto
qed

end
