(* ===== verification/Store_Crash.thy ===== *)
theory Store_Crash
  imports Store_Spec
begin

text \<open>
  Histories of the data directory: sequences of saves, any of which may be cut short by a crash between two system calls or in the
  middle of a write. The mutex keeps saves from overlapping, so a history is a sequence.
\<close>

inductive store_step :: "store \<Rightarrow> file_system \<Rightarrow> file_system \<Rightarrow> bool" for s where
  save_recipe: "SaveRecipe env s fs r = (fs', err) \<Longrightarrow> store_step s fs fs'"
| save_cycle: "SaveCycle env s fs c = (fs', err) \<Longrightarrow> store_step s fs fs'"
| crash_recipe: "Recipe_Validate r = Inr () \<Longrightarrow> checkName (rcp_Name r) = Inr () \<Longrightarrow>
    MarshalIndent (json_struct (recipe_struct r)) '''' ''  '' = Inr b \<Longrightarrow>
    write_steps (filepath_Join [st_dir s, ''recipe_'' @ rcp_Name r @ ''.json'']) b (Write_Start, fs) (pc, fs') \<Longrightarrow> store_step s fs fs'"
| crash_cycle: "CycleRecord_Validate c = Inr () \<Longrightarrow> checkName (cyc_Name c) = Inr () \<Longrightarrow>
    MarshalIndent (json_struct (cycle_struct c)) '''' ''  '' = Inr b \<Longrightarrow>
    write_steps (filepath_Join [st_dir s, ''cycle_'' @ cyc_Name c @ ''.json'']) b (Write_Start, fs) (pc, fs') \<Longrightarrow> store_step s fs fs'"

lemma crash_recipe_outcome:
  assumes "Recipe_Validate r = Inr ()" "checkName (rcp_Name r) = Inr ()" "MarshalIndent (json_struct (recipe_struct r)) '''' ''  '' = Inr b"
    "write_steps (filepath_Join [st_dir s, ''recipe_'' @ rcp_Name r @ ''.json'']) b (Write_Start, fs) (pc, fs')"
  shows "recipe.outcome fs (st_dir s) r (pc = Write_Done) fs'"
  using assms recipe.steps_outcome Join_record [OF recipe.prefix checkName_sep [OF assms(2)]] by simp

lemma crash_cycle_outcome:
  assumes "CycleRecord_Validate c = Inr ()" "checkName (cyc_Name c) = Inr ()" "MarshalIndent (json_struct (cycle_struct c)) '''' ''  '' = Inr b"
    "write_steps (filepath_Join [st_dir s, ''cycle_'' @ cyc_Name c @ ''.json'']) b (Write_Start, fs) (pc, fs')"
  shows "cycle.outcome fs (st_dir s) c (pc = Write_Done) fs'"
  using assms cycle.steps_outcome Join_record [OF cycle.prefix checkName_sep [OF assms(2)]] by simp

text \<open>A step either changes no record or sets one record of one kind.\<close>

lemma store_step_cases:
  assumes "store_step s fs fs'"
  shows "(store_ok s fs \<longrightarrow> store_ok s fs')
    \<and> ((recipes s fs' = recipes s fs \<or> (\<exists>r. recipes s fs' = (recipes s fs)(rcp_Name r \<mapsto> r))) \<and> cycles s fs' = cycles s fs
       \<or> recipes s fs' = recipes s fs \<and> (\<exists>c. cycles s fs' = (cycles s fs)(cyc_Name c \<mapsto> c)))"
  using assms
proof cases
  case (save_recipe env r err)
  then show ?thesis using SaveRecipe_refines(1,2,3) [OF save_recipe] by (cases err) auto
next
  case (save_cycle env c err)
  then show ?thesis using SaveCycle_refines(1,2,3) [OF save_cycle] by (cases err) auto
next
  case (crash_recipe r b pc)
  show ?thesis
    using recipe_outcome(1,2,3) [OF crash_recipe_outcome [OF crash_recipe] crash_recipe(1,2)] by (cases "pc = Write_Done") auto
next
  case (crash_cycle c b pc)
  show ?thesis
    using cycle_outcome(1,2,3) [OF crash_cycle_outcome [OF crash_cycle] crash_cycle(1,2)] by (cases "pc = Write_Done") auto
qed

lemma store_step_dom:
  "store_step s fs fs' \<Longrightarrow> dom (recipes s fs) \<subseteq> dom (recipes s fs') \<and> dom (cycles s fs) \<subseteq> dom (cycles s fs')"
  using store_step_cases [of s fs fs'] by auto

text \<open>
  Claim C6. Crash atomicity of a save. However far a save of a recipe has come when the process dies, a restarted store finds either the old or the
  new map of recipes, never a broken or partial record, and the same cycles; the new map is there as soon as the
  rename is done. A complete save is one of these runs, with any errors the kernel may return.
\<close>

theorem save_crash_atomic:
  "Recipe_Validate r = Inr () \<and> checkName (rcp_Name r) = Inr () \<and> MarshalIndent (json_struct (recipe_struct r)) '''' ''  '' = Inr b \<longrightarrow>
     (write_steps (filepath_Join [st_dir s, ''recipe_'' @ rcp_Name r @ ''.json'']) b (Write_Start, fs) (pc, fs') \<longrightarrow>
        recipes s fs' = (if pc = Write_Done then (recipes s fs)(rcp_Name r \<mapsto> r) else recipes s fs)
        \<and> cycles s fs' = cycles s fs \<and> (store_ok s fs \<longrightarrow> store_ok s fs'))
     \<and> (SaveRecipe env s fs r = (fs', err) \<longrightarrow>
        write_steps (filepath_Join [st_dir s, ''recipe_'' @ rcp_Name r @ ''.json'']) b (Write_Start, fs)
          (if err = None then Write_Done else Write_Failed, fs'))"
proof (intro impI conjI)
  assume a: "Recipe_Validate r = Inr () \<and> checkName (rcp_Name r) = Inr () \<and> MarshalIndent (json_struct (recipe_struct r)) '''' ''  '' = Inr b"
  then have r: "Recipe_Validate r = Inr ()" "checkName (rcp_Name r) = Inr ()" "MarshalIndent (json_struct (recipe_struct r)) '''' ''  '' = Inr b"
    by auto
  {
    assume w: "write_steps (filepath_Join [st_dir s, ''recipe_'' @ rcp_Name r @ ''.json'']) b (Write_Start, fs) (pc, fs')"
    note o = recipe_outcome [OF crash_recipe_outcome [OF r w] r(1,2)]
    show "recipes s fs' = (if pc = Write_Done then (recipes s fs)(rcp_Name r \<mapsto> r) else recipes s fs)" by (rule o(1))
    show "cycles s fs' = cycles s fs" by (rule o(2))
    show "store_ok s fs \<Longrightarrow> store_ok s fs'" by (rule o(3))
  }
  assume "SaveRecipe env s fs r = (fs', err)"
  then show "write_steps (filepath_Join [st_dir s, ''recipe_'' @ rcp_Name r @ ''.json'']) b (Write_Start, fs)
          (if err = None then Write_Done else Write_Failed, fs')"
    using atomicWriteJSON_steps [OF r(3) _ refl, of env fs "st_dir s"] r(1,2) by (simp add: SaveRecipe_def)
qed

lemma sample_bytes:
  obtains b where "MarshalIndent (json_struct (recipe_struct sample_recipe)) '''' ''  '' = Inr b"
  using recipe.codec [OF sample_recipe_valid] by blast

text \<open>The file has been created and nothing written yet.\<close>

theorem save_crash_atomic_witness:
  "\<exists>b. write_steps ''data/recipe_cycloid-lift.json'' b (Write_Start, sample_fs)
       (Writing 0, fs_put sample_fs ''data/recipe_cycloid-lift.json.tmp'' '''')
     \<and> recipes sample_store (fs_put sample_fs ''data/recipe_cycloid-lift.json.tmp'' '''') = recipes sample_store sample_fs"
proof -
  obtain b where b: "MarshalIndent (json_struct (recipe_struct sample_recipe)) '''' ''  '' = Inr b" by (rule sample_bytes)
  have p: "filepath_Join [st_dir sample_store, ''recipe_'' @ rcp_Name sample_recipe @ ''.json''] = ''data/recipe_cycloid-lift.json''" by code_simp
  have "\<not> fs_is_dir sample_fs ''data/recipe_cycloid-lift.json.tmp''" by code_simp
  then have w: "write_steps ''data/recipe_cycloid-lift.json'' b (Write_Start, sample_fs)
       (Writing 0, fs_put sample_fs ''data/recipe_cycloid-lift.json.tmp'' '''')"
    using write_step.create [of sample_fs "''data/recipe_cycloid-lift.json''" b] by auto
  then have "recipes sample_store (fs_put sample_fs ''data/recipe_cycloid-lift.json.tmp'' '''') = recipes sample_store sample_fs"
    using save_crash_atomic [of sample_recipe b sample_store sample_fs "Writing 0"] sample_recipe_valid b unfolding p by simp
  then show ?thesis using w by blast
qed

text \<open>
  Claim C7. The invariant of the data directory holds after any sequence of saves and crashed saves: every record file parses, validates and carries
  the name of its file. No record is ever lost: a name that has a record keeps having one.
\<close>

theorem store_invariant:
  assumes "(store_step s)\<^sup>*\<^sup>* fs fs'" "store_ok s fs"
  shows "store_ok s fs' \<and> dom (recipes s fs) \<subseteq> dom (recipes s fs') \<and> dom (cycles s fs) \<subseteq> dom (cycles s fs')
    \<and> (\<forall>n r. recipes s fs' n = Some r \<longrightarrow> Recipe_Validate r = Inr () \<and> rcp_Name r = n)
    \<and> (\<forall>n c. cycles s fs' n = Some c \<longrightarrow> CycleRecord_Validate c = Inr () \<and> cyc_Name c = n)"
proof -
  have "store_ok s fs' \<and> dom (recipes s fs) \<subseteq> dom (recipes s fs') \<and> dom (cycles s fs) \<subseteq> dom (cycles s fs')"
    using assms
  proof (induction rule: rtranclp_induct)
    case (step fs1 fs2)
    then show ?case using store_step_cases [of s fs1 fs2] store_step_dom [of s fs1 fs2] by blast
  qed simp
  then show ?thesis using recipes_valid cycles_valid by blast
qed

theorem store_invariant_witness:
  "\<exists>fs'. (store_step sample_store)\<^sup>*\<^sup>* sample_fs fs' \<and> store_ok sample_store fs'
     \<and> recipes sample_store fs' ''cycloid-lift'' = Some sample_recipe"
proof -
  obtain fs' where w: "SaveRecipe no_faults sample_store sample_fs sample_recipe = (fs', None)" by (rule sample_saved)
  have s: "(store_step sample_store)\<^sup>*\<^sup>* sample_fs fs'" using store_step.save_recipe [OF w] by blast
  have "recipes sample_store fs' = (recipes sample_store sample_fs)(''cycloid-lift'' \<mapsto> sample_recipe)"
    using SaveRecipe_refines(1) [OF w] by (simp add: sample_recipe_def)
  then show ?thesis using store_invariant [OF s sample_ok] s by auto
qed

end
