(* ===== verification/Server.thy ===== *)
theory Server
  imports Http_Find Record_Api Store_Crash
begin

text \<open>
  The server: the replies of \<open>net/http\<close> that are not the program's (\<open>Error\<close>, \<open>NotFound\<close>, \<open>Redirect\<close>), \<open>ServeHTTP\<close>, the routes of \<open>handlers.go\<close> and the start of
  \<open>main.go\<close>. The closures registered by \<open>routes\<close> are the constructors of a datatype and \<open>run_handler\<close> is their code. A header is the list of what was set,
  in order, each key once. \<open>None\<close> as the result of a request is a panic, after which \<open>net/http\<close> closes the connection.
\<close>

subsection \<open>Replies of the library\<close>

definition StatusMovedPermanently :: int where "StatusMovedPermanently = 301"
definition StatusMethodNotAllowed :: int where "StatusMethodNotAllowed = 405"

definition http_Error :: "string \<Rightarrow> int \<Rightarrow> response" where
  "http_Error error code =
     \<lparr>rs_Code = code, rs_Header = [(''Content-Type'', ''text/plain; charset=utf-8''), (''X-Content-Type-Options'', ''nosniff'')],
      rs_Body = error @ [CHR 0x0A]\<rparr>"

definition NotFound :: response where
  "NotFound = http_Error ''404 page not found'' StatusNotFound"

text \<open>\<open>strings.Join\<close>.\<close>

fun Join_sep :: "string list \<Rightarrow> string \<Rightarrow> string" where
  "Join_sep [] sep = ''''"
| "Join_sep [x] sep = x"
| "Join_sep (x # y # xs) sep = x @ sep @ Join_sep (y # xs) sep"

definition method_not_allowed :: "string list \<Rightarrow> response" where
  "method_not_allowed allowedMethods =
     (let resp = http_Error ''Method Not Allowed'' StatusMethodNotAllowed in
      resp\<lparr>rs_Header := (''Allow'', Join_sep allowedMethods '', '') # rs_Header resp\<rparr>)"

text \<open>\<open>htmlEscape\<close> and \<open>hexEscapeNonASCII\<close>.\<close>

definition htmlEscape :: "string \<Rightarrow> string" where
  "htmlEscape s = concat (map (\<lambda>c.
     if c = CHR ''&'' then ''&amp;'' else if c = CHR ''<'' then ''&lt;'' else if c = CHR ''>'' then ''&gt;''
     else if c = CHR 0x22 then ''&#34;'' else if c = CHR 0x27 then ''&#39;'' else [c]) s)"

definition hexEscapeNonASCII :: "string \<Rightarrow> string" where
  "hexEscapeNonASCII s = concat (map (\<lambda>c.
     if 0x80 \<le> byte c then [CHR ''%'', ''0123456789abcdef'' ! (byte c div 16), ''0123456789abcdef'' ! (byte c mod 16)] else [c]) s)"

text \<open>The target of \<open>Redirect\<close>; \<open>path.Split\<close> gives everything up to the last slash.\<close>

definition redirect_target :: "request \<Rightarrow> string \<Rightarrow> string" where
  "redirect_target r url =
     (case Parse url of
        Inl err \<Rightarrow> url
      | Inr u \<Rightarrow>
          if url_Scheme u = '''' \<and> url_Host u = '''' then
            (let oldpath = (if url_Path (rq_URL r) = '''' then ''/'' else url_Path (rq_URL r));
                 url = (if url = '''' \<or> hd url \<noteq> CHR ''/'' then rev (dropWhile (\<lambda>c. c \<noteq> CHR ''/'') (rev oldpath)) @ url else url);
                 query = dropWhile (\<lambda>c. c \<noteq> CHR ''?'') url;
                 url = takeWhile (\<lambda>c. c \<noteq> CHR ''?'') url;
                 trailing = (url \<noteq> '''' \<and> last url = CHR ''/'');
                 url = Clean url;
                 url = (if trailing \<and> \<not> (url \<noteq> '''' \<and> last url = CHR ''/'') then url @ ''/'' else url) in
             url @ query)
          else url)"

definition Redirect :: "request \<Rightarrow> string \<Rightarrow> int \<Rightarrow> response" where
  "Redirect r url code =
     (let url = redirect_target r url in
      \<lparr>rs_Code = code,
       rs_Header = (''Location'', hexEscapeNonASCII url)
         # (if rq_Method r = ''GET'' \<or> rq_Method r = ''HEAD'' then [(''Content-Type'', ''text/html; charset=utf-8'')] else []),
       rs_Body = (if rq_Method r = ''GET'' then
           ''<a href='' @ [CHR 0x22] @ htmlEscape url @ [CHR 0x22] @ ''>Moved Permanently</a>.'' @ [CHR 0x0A, CHR 0x0A] else '''')\<rparr>)"

subsection \<open>The routes\<close>

datatype api_handler =
    Healthz | List_Recipes | Put_Recipe | Get_Recipe | List_Cycles | Put_Cycle | Get_Cycle
  | Lift_GET | Lift_POST | Cycle_Curve_GET | Cycle_Curve_POST

definition run_handler :: "api_handler \<Rightarrow> api_env \<Rightarrow> file_system \<Rightarrow> request \<Rightarrow> (string \<Rightarrow> string option) \<Rightarrow> (file_system \<times> response) option" where
  "run_handler h env fs r value =
     (case h of
        Healthz \<Rightarrow> Some (fs, healthz)
      | List_Recipes \<Rightarrow> Some (fs, listRecipes env fs)
      | Put_Recipe \<Rightarrow> Some (putRecipe env fs r)
      | Get_Recipe \<Rightarrow> map_option (\<lambda>name. (fs, getRecipe env fs name)) (value ''name'')
      | List_Cycles \<Rightarrow> Some (fs, listCycles env fs)
      | Put_Cycle \<Rightarrow> Some (putCycle env fs r)
      | Get_Cycle \<Rightarrow> map_option (\<lambda>name. (fs, getCycle env fs name)) (value ''name'')
      | Lift_GET \<Rightarrow> Some (fs, liftCurveGET env fs r)
      | Lift_POST \<Rightarrow> Some (fs, liftCurvePOST env fs r)
      | Cycle_Curve_GET \<Rightarrow> Some (fs, cycleCurveGET env fs r)
      | Cycle_Curve_POST \<Rightarrow> Some (fs, cycleCurvePOST env fs r))"

definition route_table :: "(string \<times> api_handler) list" where
  "route_table =
     [(''GET /healthz'', Healthz),
      (''GET /recipes'', List_Recipes),
      (''POST /recipes'', Put_Recipe),
      (''GET /recipes/{name}'', Get_Recipe),
      (''GET /cycles'', List_Cycles),
      (''POST /cycles'', Put_Cycle),
      (''GET /cycles/{name}'', Get_Cycle),
      (''GET /lift'', Lift_GET),
      (''POST /lift'', Lift_POST),
      (''GET /cycle-curve'', Cycle_Curve_GET),
      (''POST /cycle-curve'', Cycle_Curve_POST)]"

definition routes :: "unicode_tables \<Rightarrow> (register_error, api_handler ServeMux) result" where
  "routes tb = HandleFuncs tb NewServeMux route_table"

definition ServeHTTP :: "api_handler ServeMux \<Rightarrow> api_env \<Rightarrow> file_system \<Rightarrow> request \<Rightarrow> (file_system \<times> response) option" where
  "ServeHTTP mux env fs r =
     (if rq_RequestURI r = ''*'' then
        Some (fs, \<lparr>rs_Code = StatusBadRequest, rs_Header = (if rq_ProtoAtLeast11 r then [(''Connection'', ''close'')] else []), rs_Body = ''''\<rparr>)
      else
        case findHandler mux r of
          Found_Handler h p matches \<Rightarrow> run_handler h env fs r (PathValue p matches)
        | Redirect_Handler u \<Rightarrow> Some (fs, Redirect r (URL_String u) StatusMovedPermanently)
        | Method_Not_Allowed allowedMethods \<Rightarrow> Some (fs, method_not_allowed allowedMethods)
        | No_Handler \<Rightarrow> Some (fs, NotFound)
        | Find_Panic \<Rightarrow> None)"

definition serve :: "unicode_tables \<Rightarrow> api_env \<Rightarrow> file_system \<Rightarrow> request \<Rightarrow> (file_system \<times> response) option" where
  "serve tb env fs r = (case routes tb of Inl _ \<Rightarrow> None | Inr mux \<Rightarrow> ServeHTTP mux env fs r)"

subsection \<open>The start of the program\<close>

definition envOr :: "(string \<Rightarrow> string) \<Rightarrow> string \<Rightarrow> string \<Rightarrow> string" where
  "envOr getenv key def = (let v = getenv key in if v \<noteq> '''' then v else def)"

definition seed_recipe :: recipe where
  "seed_recipe = \<lparr>rcp_Name = ''cycloid-lift'', rcp_Type = Cycloid, rcp_H = f64 10, rcp_Beta = f64 60\<rparr>"

definition seed :: "os_env \<Rightarrow> store \<Rightarrow> file_system \<Rightarrow> file_system \<times> go_error option" where
  "seed env st fs =
     (case GetRecipe env st fs ''cycloid-lift'' of
        Inr _ \<Rightarrow> (fs, None)
      | Inl err \<Rightarrow>
          if \<not> errors_Is err ErrNotFound then (fs, Some err)
          else
            (case SaveRecipe env st fs seed_recipe of
               (fs, Some err) \<Rightarrow> (fs, Some err)
             | (fs, None) \<Rightarrow> (fs, None)))"

text \<open>\<open>main\<close> up to the server: an error ends the process.\<close>

definition start :: "os_env \<Rightarrow> file_system \<Rightarrow> string \<Rightarrow> file_system \<times> (go_error, store) result" where
  "start env fs dataDir =
     (case Open env fs dataDir of
        (fs, Inl err) \<Rightarrow> (fs, Inl err)
      | (fs, Inr st) \<Rightarrow>
          (case seed env st fs of
             (fs, Some err) \<Rightarrow> (fs, Inl err)
           | (fs, None) \<Rightarrow> (fs, Inr st)))"

end
