(* ===== verification/Http_Path.thy ===== *)
theory Http_Path
  imports Http_Match
begin

text \<open>
  The segments of a canonical path: what \<open>cleanPath\<close> returns is a slash, or elements that are neither empty nor \<open>.\<close> with a slash before each and possibly one behind the
  last, so the tree sees the unescaped elements.
\<close>

definition slashed :: "string list \<Rightarrow> string" where
  "slashed es = concat (map (\<lambda>e. CHR ''/'' # e) es)"

lemma slashed_simps [simp]: "slashed [] = ''''" "slashed (e # es) = CHR ''/'' # e @ slashed es" "slashed (es @ es') = slashed es @ slashed es'"
  by (simp_all add: slashed_def)

lemma render_slashed: "es \<noteq> [] \<Longrightarrow> path_render True es = slashed es"
proof (induction es rule: path_join.induct)
  case (3 e f es)
  then show ?case by (simp add: path_render_def)
qed (simp_all add: path_render_def)

lemma takeWhile_elem: "CHR ''/'' \<notin> set e \<Longrightarrow> rest = '''' \<or> hd rest = CHR ''/'' \<Longrightarrow> takeWhile (\<lambda>c. c \<noteq> CHR ''/'') (e @ rest) = e"
  by (cases rest) (auto simp: takeWhile_append takeWhile_eq_all_conv)

lemma firstSegment_elem:
  assumes "CHR ''/'' \<notin> set e" "rest = '''' \<or> hd rest = CHR ''/''" "e \<noteq> ''''"
  shows "firstSegment (CHR ''/'' # e @ rest) = (pathUnescape e, rest)"
  using assms by (simp add: firstSegment_def Let_def takeWhile_elem)

lemma path_parts_slashed:
  assumes "list_all real_elem es" "tr = '''' \<or> tr = ''/''"
  shows "path_parts (slashed es @ tr) = map pathUnescape es @ (if tr = '''' then [] else [''/''])"
  using assms
proof (induction es)
  case Nil
  then show ?case by (auto simp: path_parts.simps [of "''/''"] firstSegment_def)
next
  case (Cons e es)
  have e: "CHR ''/'' \<notin> set e" "e \<noteq> ''''" using Cons.prems by (simp_all add: real_elem_def)
  have "slashed es @ tr = '''' \<or> hd (slashed es @ tr) = CHR ''/''" using Cons.prems(2) by (cases es) auto
  then have "firstSegment (slashed (e # es) @ tr) = (pathUnescape e, slashed es @ tr)" using firstSegment_elem [OF e(1)] e(2) by simp
  then have "path_parts (slashed (e # es) @ tr) = pathUnescape e # path_parts (slashed es @ tr)"
    by (subst path_parts.simps) simp
  then show ?case using Cons by (simp del: slashed_simps)
qed

lemma Clean_rooted:
  assumes "p \<noteq> ''''" "hd p = CHR ''/''"
  obtains st where "Clean p = path_render True st" "list_all stack_elem st" "st = foldl (clean_elem True) [] (path_elems p)"
  using assms clean_stack [of True p] by (auto simp: Clean_spec clean_spec_def Let_def)

text \<open>The two shapes of a canonical path.\<close>

lemma cleanPath_shape:
  obtains "cleanPath p = ''/''"
  | es tr where "cleanPath p = slashed es @ tr" "list_all stack_elem es" "es \<noteq> []" "tr = '''' \<or> tr = ''/''"
proof (cases "p = ''''")
  case True
  then show ?thesis using that(1) by (simp add: cleanPath_def)
next
  case False
  define q where "q = (if p ! 0 \<noteq> CHR ''/'' then ''/'' @ p else p)"
  have q: "q \<noteq> ''''" "hd q = CHR ''/''" using False by (auto simp: q_def hd_conv_nth)
  obtain st where st: "Clean q = path_render True st" "list_all stack_elem st" using Clean_rooted [OF q] by blast
  have cp: "cleanPath p = (if last q = CHR ''/'' \<and> Clean q \<noteq> ''/'' then
      (if length q = length (Clean q) + 1 \<and> take (length (Clean q)) q = Clean q then q else Clean q @ ''/'') else Clean q)"
    using False by (simp add: cleanPath_def q_def Let_def)
  show ?thesis
  proof (cases "st = []")
    case True
    then show ?thesis using that(1) cp st(1) by (simp add: path_render_def)
  next
    case ne: False
    have r: "Clean q = slashed st" using st(1) render_slashed [OF ne] by simp
    have "q = Clean q @ ''/''" if "last q = CHR ''/''" "length q = length (Clean q) + 1" "take (length (Clean q)) q = Clean q"
    proof -
      have "q = take (length (Clean q)) q @ [last q]" using that(2) q(1) by (metis append_butlast_last_id butlast_conv_take diff_add_inverse2)
      then show ?thesis using that by simp
    qed
    then have "cleanPath p = slashed st @ '''' \<or> cleanPath p = slashed st @ ''/''" unfolding cp r by auto
    then show ?thesis using that(2) [OF _ st(2) ne] by auto
  qed
qed

lemma stack_elem_real: "list_all stack_elem es \<Longrightarrow> list_all real_elem es"
  by (auto simp: list_all_iff stack_elem_def)

lemma unescape_build_nonempty: "unescape_check mode n b s = Inr r \<Longrightarrow> s \<noteq> '''' \<Longrightarrow> unescape_build mode s \<noteq> ''''"
  by (cases s) (auto split: if_splits list.splits)

lemma pathUnescape_nonempty: "e \<noteq> '''' \<Longrightarrow> pathUnescape e \<noteq> ''''"
  using unescape_build_nonempty [of encodePathSegment 0 False e]
  by (auto simp: pathUnescape_def PathUnescape_def unescape_def result_bind_eq_Inr split: sum.splits if_splits prod.splits)

text \<open>A canonical path has no empty segment.\<close>

lemma cleanPath_nonempty_parts: "'''' \<notin> set (path_parts (cleanPath p))"
proof (cases rule: cleanPath_shape [of p])
  case 1
  then show ?thesis by (simp add: path_parts.simps [of "''/''"] firstSegment_def)
next
  case (2 es tr)
  have "e \<noteq> ''''" if "e \<in> set es" for e using 2(2) that by (auto simp: list_all_iff stack_elem_def real_elem_def)
  then have "'''' \<notin> pathUnescape ` set es" using pathUnescape_nonempty by force
  then show ?thesis using 2(4) unfolding 2(1) path_parts_slashed [OF stack_elem_real [OF 2(2)] 2(4)] by auto
qed

text \<open>The path of elements that are not special is canonical.\<close>

lemma path_elems_slashed: "list_all real_elem es \<Longrightarrow> path_elems (slashed es) = es"
  using path_elems_join [of es] render_slashed [of es]
  by (cases es) (simp_all add: path_render_def path_elems.simps(2) IsPathSeparator_def)

lemma cleanPath_slashed:
  assumes "list_all real_elem es" "''.'' \<notin> set es" "''..'' \<notin> set es" "es \<noteq> []"
  shows "cleanPath (slashed es) = slashed es"
proof -
  have s: "slashed es \<noteq> ''''" "hd (slashed es) = CHR ''/''" using assms(4) by (cases es; simp)+
  have "foldl (clean_elem True) st es = st @ es" if "''.'' \<notin> set es" "''..'' \<notin> set es" for st
    using that by (induction es arbitrary: st) (auto simp: clean_elem_def)
  then have "Clean (slashed es) = slashed es"
    using assms render_slashed [OF assms(4)] s by (simp add: Clean_spec clean_spec_def Let_def path_elems_slashed)
  moreover have "last (slashed es) \<noteq> CHR ''/''"
  proof -
    obtain es' e where es: "es = es' @ [e]" using assms(4) by (metis append_butlast_last_id)
    then have "e \<noteq> ''''" "CHR ''/'' \<notin> set e" using assms(1) by (simp_all add: real_elem_def)
    then have "last e \<noteq> CHR ''/''" using last_in_set by metis
    then show ?thesis using \<open>e \<noteq> ''''\<close> by (simp add: es)
  qed
  ultimately show ?thesis using s by (simp add: cleanPath_def Let_def hd_conv_nth)
qed

end
