(* ===== verification/Server_Spec.thy ===== *)
theory Server_Spec
  imports Server Http_Path
begin

text \<open>
  What the server does with every request: the registered routes do not conflict, a request with a clean path is dispatched by its method and the
  segments of its path, and only the two handlers that save change the file system.
\<close>

subsection \<open>The routes are registered\<close>

definition literal :: "string \<Rightarrow> path_segment" where
  "literal s = \<lparr>ps_s = s, ps_wild = False, ps_multi = False\<rparr>"

definition name_wildcard :: path_segment where
  "name_wildcard = \<lparr>ps_s = ''name'', ps_wild = True, ps_multi = False\<rparr>"

definition route_pattern :: "string \<Rightarrow> string \<Rightarrow> path_segment list \<Rightarrow> pattern" where
  "route_pattern str method segs = \<lparr>pat_str = str, pat_method = method, pat_host = '''', pat_segments = segs\<rparr>"

definition route_patterns :: "(string \<times> pattern \<times> api_handler) list" where
  "route_patterns = map (\<lambda>(s, method, segs, h). (s, route_pattern s method segs, h))
     [(''GET /healthz'', ''GET'', [literal ''healthz''], Healthz),
      (''GET /recipes'', ''GET'', [literal ''recipes''], List_Recipes),
      (''POST /recipes'', ''POST'', [literal ''recipes''], Put_Recipe),
      (''GET /recipes/{name}'', ''GET'', [literal ''recipes'', name_wildcard], Get_Recipe),
      (''GET /cycles'', ''GET'', [literal ''cycles''], List_Cycles),
      (''POST /cycles'', ''POST'', [literal ''cycles''], Put_Cycle),
      (''GET /cycles/{name}'', ''GET'', [literal ''cycles'', name_wildcard], Get_Cycle),
      (''GET /lift'', ''GET'', [literal ''lift''], Lift_GET),
      (''POST /lift'', ''POST'', [literal ''lift''], Lift_POST),
      (''GET /cycle-curve'', ''GET'', [literal ''cycle-curve''], Cycle_Curve_GET),
      (''POST /cycle-curve'', ''POST'', [literal ''cycle-curve''], Cycle_Curve_POST)]"

definition route_set :: "(pattern \<times> api_handler) set" where
  "route_set = set (map snd route_patterns)"

fun registrable :: "pattern list \<Rightarrow> pattern list \<Rightarrow> bool" where
  "registrable qs [] \<longleftrightarrow> True"
| "registrable qs (p # ps) \<longleftrightarrow> routable p \<and> list_all (\<lambda>q. \<not> conflictsWith p q) qs \<and> registrable (p # qs) ps"

lemma HandleFuncs_ok:
  assumes "list_all (\<lambda>(s, p, h). parsePattern tb s = Inr p) rs" "mux_ok R mux" "fst ` R \<subseteq> set qs" "registrable qs (map (fst \<circ> snd) rs)"
  shows "\<exists>mux'. HandleFuncs tb mux (map (\<lambda>(s, p, h). (s, h)) rs) = Inr mux' \<and> mux_ok (set (map snd rs) \<union> R) mux'"
  using assms
proof (induction rs arbitrary: R mux qs)
  case (Cons x rs)
  obtain s p h where x: "x = (s, p, h)" by (cases x)
  have "parsePattern tb s = Inr p" "routable p" "\<forall>y\<in>R. \<not> conflictsWith p (fst y)"
    using Cons.prems by (auto simp: x list_all_iff)
  from mux_ok_register [OF Cons.prems(2) this, of h]
  obtain mux1 where m1: "registerErr tb mux s h = Inr mux1" "mux_ok (insert (p, h) R) mux1" by blast
  have "\<exists>mux'. HandleFuncs tb mux1 (map (\<lambda>(s, p, h). (s, h)) rs) = Inr mux' \<and> mux_ok (set (map snd rs) \<union> insert (p, h) R) mux'"
    by (rule Cons.IH [OF _ m1(2), of "p # qs"]) (use Cons.prems in \<open>auto simp: x\<close>)
  then show ?case using m1(1) by (auto simp: x)
qed simp

lemma routes_parse: "list_all (\<lambda>(s, p, h). parsePattern tb s = Inr p) route_patterns"
  by code_simp

lemma routes_registrable: "registrable [] (map (fst \<circ> snd) route_patterns)"
  by code_simp

lemma routes_registered: "\<exists>mux. routes tb = Inr mux \<and> mux_ok route_set mux"
proof -
  have "map (\<lambda>(s, p, h). (s, h)) route_patterns = route_table" by (simp add: route_patterns_def route_table_def)
  then show ?thesis
    using HandleFuncs_ok [OF routes_parse mux_ok_new _ routes_registrable] unfolding routes_def route_set_def by auto
qed

lemma routes_plain: "plain route_set"
  by (simp add: plain_def route_set_def route_patterns_def route_pattern_def literal_def name_wildcard_def)

subsection \<open>Dispatch\<close>

lemma literal_simps [simp]: "ps_multi (literal s) = False" "part_set (literal s) = {s}" "ps_s (literal s) = s" "ps_wild (literal s) = False"
  by (simp_all add: literal_def part_set_def)

lemma name_wildcard_simps [simp]:
  "ps_multi name_wildcard = False" "part_set name_wildcard = {p. p \<noteq> '''' \<and> p \<noteq> ''/''}" "ps_wild name_wildcard = True" "ps_s name_wildcard = ''name''"
  by (simp_all add: name_wildcard_def part_set_def)

text \<open>What a method and the segments of a path are dispatched to.\<close>

definition dispatch :: "string \<Rightarrow> string list \<Rightarrow> (api_handler \<times> string list) option" where
  "dispatch method parts =
     (let get = (method = ''GET'' \<or> method = ''HEAD''); post = (method = ''POST''); on = (\<lambda>b h vs. if b then Some (h, vs) else None) in
      case parts of
        [a] \<Rightarrow>
          if a = ''healthz'' then on get Healthz []
          else if a = ''recipes'' then (if post then Some (Put_Recipe, []) else on get List_Recipes [])
          else if a = ''cycles'' then (if post then Some (Put_Cycle, []) else on get List_Cycles [])
          else if a = ''lift'' then (if post then Some (Lift_POST, []) else on get Lift_GET [])
          else if a = ''cycle-curve'' then (if post then Some (Cycle_Curve_POST, []) else on get Cycle_Curve_GET [])
          else None
      | [a, n] \<Rightarrow>
          if n = '''' \<or> n = ''/'' then None
          else if a = ''recipes'' then on get Get_Recipe [n]
          else if a = ''cycles'' then on get Get_Cycle [n]
          else None
      | _ \<Rightarrow> None)"

lemma path_set_routes:
  "ps \<in> path_set [literal s] \<longleftrightarrow> ps = [s]"
  "ps \<in> path_set [literal s, name_wildcard] \<longleftrightarrow> (\<exists>n. ps = [s, n] \<and> n \<noteq> '''' \<and> n \<noteq> ''/'')"
  by (auto simp: path_set_Cons path_set_Nil)

lemma captures_routes:
  "captures [literal s] path = []"
  "path_parts path = [a, n] \<Longrightarrow> captures [literal s, name_wildcard] path = [n]"
  by (auto simp: path_parts.simps [of path] path_parts.simps [of "snd (firstSegment path)"] split: if_splits)

lemma path_parts_two: "path_parts path = [a, n] \<Longrightarrow> fst (firstSegment (snd (firstSegment path))) = n"
  by (auto simp: path_parts.simps [of path] path_parts.simps [of "snd (firstSegment path)"] split: if_splits)

lemmas route_set_simps = route_set_def route_patterns_def route_pattern_def

text \<open>The handler of a pattern that handles a request is the one of the table, with the values of the table.\<close>

lemma handles_dispatch:
  assumes "(p, h) \<in> route_set" "handles p host method path"
  shows "dispatch method (path_parts path) = Some (h, captures (pat_segments p) path)"
    and "vs = captures (pat_segments p) path \<Longrightarrow> run_handler h env fs r (PathValue p vs) = run_handler h env fs r (\<lambda>_. Some (hd vs))"
proof -
  have "pat_segments p = [literal s] \<Longrightarrow> pat_segments p \<noteq> [literal s', name_wildcard]" for s s' by simp
  have m: "method \<in> method_set (pat_method p)" and ps: "path_parts path \<in> path_set (pat_segments p)"
    using assms(2) by (simp_all add: handles_def request_set_def)
  show "dispatch method (path_parts path) = Some (h, captures (pat_segments p) path)"
    using assms(1) m ps by (auto simp: route_set_simps method_set_mem path_set_routes captures_routes dispatch_def path_parts_two)
  have "captures (pat_segments p) path = [] \<and> h \<noteq> Get_Recipe \<and> h \<noteq> Get_Cycle \<or> (\<exists>s n. pat_segments p = [literal s, name_wildcard] \<and> captures (pat_segments p) path = [n])"
    using assms(1) ps by (auto simp: route_set_simps path_set_routes captures_routes path_parts_two)
  then show "vs = captures (pat_segments p) path \<Longrightarrow> run_handler h env fs r (PathValue p vs) = run_handler h env fs r (\<lambda>_. Some (hd vs))"
    by (cases h) (auto simp: run_handler_def PathValue_def)
qed

lemma dispatch_handles:
  assumes "dispatch method (path_parts path) = Some (h, vs)"
  shows "\<exists>p. (p, h) \<in> route_set \<and> handles p host method path"
proof -
  have e: "\<exists>(s, p, h')\<in>set route_patterns. h' = h \<and> method \<in> method_set (pat_method p) \<and> path_parts path \<in> path_set (pat_segments p)"
    using assms
    by (auto simp: dispatch_def route_patterns_def route_pattern_def method_set_mem path_set_routes Let_def split: list.splits if_splits)
  then obtain s p where "(s, p, h) \<in> set route_patterns" "method \<in> method_set (pat_method p)" "path_parts path \<in> path_set (pat_segments p)" by auto
  moreover from this have "pat_host p = ''''" by (auto simp: route_patterns_def route_pattern_def)
  ultimately show ?thesis by (force simp: route_set_def handles_def request_set_def)
qed

definition allowed :: "string list \<Rightarrow> string list" where
  "allowed parts = filter (\<lambda>m. dispatch m parts \<noteq> None) [''GET'', ''HEAD'', ''POST'']"

lemma dispatch_methods: "dispatch m parts \<noteq> None \<Longrightarrow> m \<in> {''GET'', ''HEAD'', ''POST''}"
  by (auto simp: dispatch_def Let_def split: list.splits if_splits)

lemma dispatch_None: "m \<notin> {''GET'', ''HEAD'', ''POST''} \<Longrightarrow> dispatch m parts = None"
  using dispatch_methods by blast

lemma allowed_set: "set (allowed parts) = {m. dispatch m parts \<noteq> None}"
proof -
  have f: "(\<And>x. P x \<Longrightarrow> x \<in> set xs) \<Longrightarrow> set (filter P xs) = {x. P x}" for P :: "string \<Rightarrow> bool" and xs by auto
  show ?thesis unfolding allowed_def by (rule f) (drule dispatch_methods, simp)
qed

lemma allowed_methods_routes: "allowed_methods route_set host path = set (allowed (path_parts path))"
proof -
  have "m \<in> allowed_methods route_set host path \<longleftrightarrow> dispatch m (path_parts path) \<noteq> None" for m
  proof
    assume "m \<in> allowed_methods route_set host path"
    then obtain p h where "(p, h) \<in> route_set" "handles p host m path" by (auto simp: allowed_methods_def)
    then show "dispatch m (path_parts path) \<noteq> None" using handles_dispatch(1) by (metis option.distinct(1))
  next
    assume "dispatch m (path_parts path) \<noteq> None"
    then obtain h vs where "dispatch m (path_parts path) = Some (h, vs)" by auto
    then obtain p where "(p, h) \<in> route_set" "handles p host m path" using dispatch_handles by blast
    then show "m \<in> allowed_methods route_set host path" unfolding allowed_methods_def by force
  qed
  then show ?thesis unfolding allowed_set by blast
qed

lemma allowed_sorted: "sorted_list_of_set (set (allowed parts)) = allowed parts"
proof -
  have "sorted [''GET'', ''HEAD'', ''POST'']" by code_simp
  then have "sorted (allowed parts)" "distinct (allowed parts)" unfolding allowed_def by (simp_all only: sorted_wrt_filter) simp
  then show ?thesis by (simp add: sorted_list_of_set.idem_if_sorted_distinct)
qed

subsection \<open>Every request with a canonical path\<close>

lemma found_dispatch:
  assumes ok: "mux_ok route_set mux" and path: "EscapedPath (rq_URL r) = path" "rq_Method r = ''CONNECT'' \<or> cleanPath path = path" "good_path path"
  shows "case findHandler mux r of
      Found_Handler h p vs \<Rightarrow> dispatch (rq_Method r) (path_parts path) = Some (h, vs)
        \<and> run_handler h env fs r (PathValue p vs) = run_handler h env fs r (\<lambda>_. Some (hd vs))
    | Method_Not_Allowed ms \<Rightarrow> dispatch (rq_Method r) (path_parts path) = None \<and> ms = allowed (path_parts path) \<and> ms \<noteq> []
    | No_Handler \<Rightarrow> dispatch (rq_Method r) (path_parts path) = None \<and> allowed (path_parts path) = []
    | _ \<Rightarrow> False"
proof (cases "rq_Method r = ''CONNECT''")
  case False
  note f = findHandler_clean [OF ok routes_plain False path(1) _ path(3) refl]
  have "cleanPath path = path" using path(2) False by simp
  note f = f [OF this, unfolded allowed_methods_routes allowed_sorted]
  have d: "dispatch (rq_Method r) (path_parts path) = None" if "allowed (path_parts path) = []"
  proof -
    have "rq_Method r \<notin> set (allowed (path_parts path))" using that by simp
    then show ?thesis unfolding allowed_set mem_Collect_eq not_not .
  qed
  show ?thesis
  proof (cases "findHandler mux r")
    case (Found_Handler h p vs)
    then show ?thesis using f handles_dispatch [of p h "stripHostPort (rq_Host r)" "rq_Method r" path] by simp
  next
    case (Method_Not_Allowed ms)
    then have n: "\<forall>(q, g)\<in>route_set. \<not> handles q (stripHostPort (rq_Host r)) (rq_Method r) path" "ms = allowed (path_parts path)" "ms \<noteq> []"
      using f by auto
    then have "dispatch (rq_Method r) (path_parts path) = None"
      using dispatch_handles [of "rq_Method r" path _ _ "stripHostPort (rq_Host r)"] by (cases "dispatch (rq_Method r) (path_parts path)") fastforce+
    then show ?thesis using Method_Not_Allowed n by simp
  next
    case No_Handler
    then show ?thesis using f d by simp
  qed (use f in simp_all)
next
  case True
  have s: "serves route_set (mux_tree mux)" using ok by (simp add: mux_ok_def mux_holds_def)
  have none: "\<forall>(q, g)\<in>route_set. \<not> handles q host ''CONNECT'' path" for host
    by (auto simp: route_set_simps handles_def request_set_def method_set_mem)
  have n: "search (mux_tree mux) host ''CONNECT'' path = No_Match" for host
    using search_serves [OF s path(3), of host "''CONNECT''"] none [of host] by (auto split: match_result.splits)
  have m: "matchingMethods mux host path = Some (allowed (path_parts path))" for host
    using matchingMethods_plain [OF ok routes_plain path(3), of host]
    unfolding allowed_methods_eq [OF none] allowed_methods_routes allowed_sorted .
  have "dispatch ''CONNECT'' (path_parts path) = None" by (rule dispatch_None) simp
  then show ?thesis using True path(1)
    by (simp add: findHandler_def plain_matchOrRedirect [OF s routes_plain] n no_match_found_def m)
qed

text \<open>What the server does with a request whose path is canonical.\<close>

definition respond :: "api_env \<Rightarrow> file_system \<Rightarrow> request \<Rightarrow> string list \<Rightarrow> (file_system \<times> response) option" where
  "respond env fs r parts =
     (case dispatch (rq_Method r) parts of
        Some (h, vs) \<Rightarrow> run_handler h env fs r (\<lambda>_. Some (hd vs))
      | None \<Rightarrow> Some (fs, if allowed parts = [] then NotFound else method_not_allowed (allowed parts)))"

lemma serve_respond:
  assumes "rq_RequestURI r \<noteq> ''*''" "EscapedPath (rq_URL r) = path" "rq_Method r = ''CONNECT'' \<or> cleanPath path = path" "good_path path"
  shows "serve tb env fs r = respond env fs r (path_parts path)"
proof -
  obtain mux where mux: "routes tb = Inr mux" "mux_ok route_set mux" using routes_registered by blast
  note f = found_dispatch [OF mux(2) assms(2-4), of env fs]
  have "serve tb env fs r = ServeHTTP mux env fs r" by (simp add: serve_def mux(1))
  then show ?thesis using f assms(1) by (cases "findHandler mux r") (simp_all add: ServeHTTP_def respond_def)
qed

end
