(* ===== verification/Service.thy ===== *)
theory Service
  imports Server_Spec
begin

text \<open>
  Requests as they arrive: the target of a record is parsed, unescaped, routed and answered, and what was posted is what is read. The routes of the program
  are an instance of the contract of the mux.
\<close>

subsection \<open>The target of a record\<close>

lemma escape_build_append: "escape_build mode (s @ t) = escape_build mode s @ escape_build mode t"
  by (induction s) auto

text \<open>Names are escaped alike in a path and in a segment of a path, and their escaped form has no byte with a meaning in a URL.\<close>

definition target_byte :: "char \<Rightarrow> bool" where
  "target_byte c \<longleftrightarrow> url_alnum c \<or> c \<in> set ''-_.%''"

lemma name_byte_cases: "name_byte c \<Longrightarrow> 0x80 \<le> byte c \<or> url_alnum c \<or> c \<in> set ''-_.''"
proof -
  have b: "byte c = byte d \<Longrightarrow> c = d" for d by (simp add: byte_def)
  have "byte (CHR ''_'') = 0x5F" "byte (CHR ''.'') = 0x2E" "byte (CHR ''-'') = 0x2D" by (simp_all add: byte_def)
  then have "byte c = 0x5F \<Longrightarrow> c = CHR ''_''" "byte c = 0x2E \<Longrightarrow> c = CHR ''.''" "byte c = 0x2D \<Longrightarrow> c = CHR ''-''"
    using b by metis+
  then show "name_byte c \<Longrightarrow> 0x80 \<le> byte c \<or> url_alnum c \<or> c \<in> set ''-_.''"
    using byte_less [of c] by (auto simp: name_byte_def name_rune_def url_alnum_def Let_def)
qed

lemma shouldEscape_name:
  assumes "name_byte c"
  shows "shouldEscape c encodePath = shouldEscape c encodePathSegment" "\<not> shouldEscape c encodePathSegment \<Longrightarrow> target_byte c"
proof -
  consider (high) "0x80 \<le> byte c" | (alnum) "url_alnum c" | (mark) "c \<in> set ''-_.''" using name_byte_cases [OF assms] by blast
  then have "shouldEscape c encodePath = shouldEscape c encodePathSegment \<and> (shouldEscape c encodePathSegment \<or> target_byte c)"
  proof cases
    case high
    then have "c \<notin> set ''-_.~$&+,/:;=?@''" "\<not> url_alnum c" by (auto simp: byte_def url_alnum_def Let_def)
    then show ?thesis by (simp add: shouldEscape_def)
  next
    case alnum
    then show ?thesis by (simp add: shouldEscape_def target_byte_def)
  next
    case mark
    then show ?thesis by (auto simp: shouldEscape_def target_byte_def)
  qed
  then show "shouldEscape c encodePath = shouldEscape c encodePathSegment" "\<not> shouldEscape c encodePathSegment \<Longrightarrow> target_byte c" by simp_all
qed

lemma upperhex_target: "i < 16 \<Longrightarrow> target_byte (upperhex ! i)"
proof -
  have "list_all (\<lambda>i. target_byte (upperhex ! i)) [0..<16]" by code_simp
  then show "i < 16 \<Longrightarrow> target_byte (upperhex ! i)" by (simp add: list_all_iff)
qed

lemma escape_name:
  assumes "list_all name_byte n"
  shows "escape n encodePathSegment = escape n encodePath" "list_all target_byte (escape n encodePathSegment)"
proof -
  have "escape_build encodePathSegment n = escape_build encodePath n \<and> list_all target_byte (escape_build encodePathSegment n)"
    using assms
  proof (induction n)
    case (Cons c n)
    have "target_byte (CHR ''%'')" by code_simp
    then show ?case
      using Cons shouldEscape_name [of c] upperhex_target [OF nibbles(1)] upperhex_target [OF nibbles(2)] by (auto split: if_splits)
  qed simp
  then show "escape n encodePathSegment = escape n encodePath" "list_all target_byte (escape n encodePathSegment)"
    unfolding escape_loop by blast+
qed

lemma target_byte_plain: "target_byte c \<Longrightarrow> c \<noteq> CHR ''/'' \<and> c \<noteq> CHR ''?'' \<and> c \<noteq> CHR ''#'' \<and> 0x20 \<le> byte c \<and> byte c \<noteq> 0x7F"
  by (auto simp: target_byte_def url_alnum_def byte_def Let_def)

lemma checkName_bytes: "checkName n = Inr () \<Longrightarrow> list_all name_byte n \<and> n \<noteq> '''' \<and> n \<noteq> ''.'' \<and> n \<noteq> ''..'' \<and> CHR ''/'' \<notin> set n"
proof -
  assume c: "checkName n = Inr ()"
  then have "list_all name_byte n" using name_bytes by (auto simp: checkName_def split: if_splits)
  moreover have "n \<noteq> ''''" using c by (auto simp: checkName_def nameRe_MatchString_def split: if_splits)
  moreover have "\<not> name_byte (CHR ''/'')" by (simp add: name_byte_def name_rune_def byte_def)
  ultimately show ?thesis using c by (auto simp: checkName_def list_all_iff split: if_splits)
qed

text \<open>The segment of a name: not empty, without a byte that means something in a path, and unescaped to the name.\<close>

lemma name_segment:
  assumes "checkName n = Inr ()"
  defines "e \<equiv> escape n encodePathSegment"
  shows "real_elem e" "e \<noteq> ''.''" "e \<noteq> ''..''" "pathUnescape e = n" "list_all target_byte e" "n \<noteq> ''*''"
proof -
  note n = checkName_bytes [OF assms(1)]
  show t: "list_all target_byte e" using escape_name n by (simp add: e_def)
  have u: "unescape e encodePathSegment = Inr n" unfolding e_def by (rule unescape_escape) simp_all
  then show p: "pathUnescape e = n" by (simp add: pathUnescape_def PathUnescape_def)
  have "unescape '''' encodePathSegment = Inr ''''" "unescape ''.'' encodePathSegment = Inr ''.''" "unescape ''..'' encodePathSegment = Inr ''..''"
    by (simp_all add: unescape_def)
  then show "e \<noteq> ''.''" "e \<noteq> ''..''" using u n by auto
  have "e \<noteq> ''''" using u n by (auto simp: unescape_def)
  then show "real_elem e" using t target_byte_plain by (auto simp: real_elem_def list_all_iff)
  have "\<not> name_byte (CHR ''*'')" by (simp add: name_byte_def name_rune_def byte_def)
  then show "n \<noteq> ''*''" using n by auto
qed

subsection \<open>Requests for a record\<close>

definition kind_path :: "record_kind \<Rightarrow> string" where
  "kind_path k = (case k of Recipe_Kind \<Rightarrow> ''recipes'' | Cycle_Kind \<Rightarrow> ''cycles'')"

lemma kind_segment:
  "real_elem (kind_path k)" "kind_path k \<noteq> ''.''" "kind_path k \<noteq> ''..''" "kind_path k \<noteq> ''''" "kind_path k \<noteq> ''*''" "kind_path k \<noteq> ''/''"
  "pathUnescape (kind_path k) = kind_path k" "list_all target_byte (kind_path k)" "escape (kind_path k) encodePath = kind_path k"
  by (cases k; simp add: kind_path_def real_elem_def pathUnescape_def PathUnescape_def unescape_def target_byte_def url_alnum_def byte_def
      escape_def shouldEscape_def)+

definition record_target :: "record_kind \<Rightarrow> string \<Rightarrow> string" where
  "record_target k n = ''/'' @ kind_path k @ ''/'' @ escape n encodePathSegment"

lemma record_target_path:
  assumes "checkName n = Inr ()"
  shows "record_target k n = slashed [kind_path k, escape n encodePathSegment]"
    "cleanPath (record_target k n) = record_target k n"
    "path_parts (record_target k n) = [kind_path k, n]"
    "good_path (record_target k n)"
    "record_target k n = escape (''/'' @ kind_path k @ ''/'' @ n) encodePath"
proof -
  note n = name_segment [OF assms] and b = checkName_bytes [OF assms]
  show s: "record_target k n = slashed [kind_path k, escape n encodePathSegment]" by (simp add: record_target_def)
  have r: "list_all real_elem [kind_path k, escape n encodePathSegment]" using n(1) kind_segment(1) by simp
  show "cleanPath (record_target k n) = record_target k n"
    unfolding s using r n(2,3) kind_segment(2,3) [of k] by (intro cleanPath_slashed) auto
  show p: "path_parts (record_target k n) = [kind_path k, n]"
    using path_parts_slashed [OF r, of "''''"] n(4) kind_segment(7) by (simp add: s)
  show "good_path (record_target k n)"
    using b n(6) kind_segment(4-6) [of k] by (auto simp: good_path_def good_parts_def p)
  have "\<not> shouldEscape (CHR ''/'') encodePath" by code_simp
  then show "record_target k n = escape (''/'' @ kind_path k @ ''/'' @ n) encodePath"
    using escape_name(1) b kind_segment(9) [of k] by (simp add: record_target_def escape_loop escape_build_append)
qed

subsection \<open>How a request arrives\<close>

text \<open>The URL of a request as \<open>readRequest\<close> makes it from the request line; the scheme it strips is not a field of \<open>url\<close>.\<close>

definition request_URL :: "string \<Rightarrow> string \<Rightarrow> (parse_error, url) result" where
  "request_URL method RequestURI =
     (let justAuthority = (method = ''CONNECT'' \<and> \<not> (RequestURI \<noteq> '''' \<and> hd RequestURI = CHR ''/''));
          rawurl = (if justAuthority then ''http://'' @ RequestURI else RequestURI) in
      result_bind (ParseRequestURI rawurl) (\<lambda>u. Inr (url.truncate u)))"

definition arrives :: "request \<Rightarrow> string \<Rightarrow> string \<Rightarrow> bool" where
  "arrives r method uri \<longleftrightarrow> rq_Method r = method \<and> rq_RequestURI r = uri \<and> request_URL method uri = Inr (rq_URL r)"

lemma parse_path:
  assumes p: "p = CHR ''/'' # p'" "CHR ''?'' \<notin> set p" "list_all (\<lambda>c. 0x20 \<le> byte c \<and> byte c \<noteq> 0x7F) p" and u: "setPath (url.truncate no_url) p = Inr u"
  shows "ParseRequestURI p = Inr (no_url\<lparr>url_Path := url_Path u, url_RawPath := url_RawPath u\<rparr>)"
proof -
  have ctl: "\<not> stringContainsCTLByte p" using p(3) by (auto simp: stringContainsCTLByte_def list_ex_iff list_all_iff)
  have last: "last p \<noteq> CHR ''?''" using p(1,2) last_in_set [of p] by auto
  have tw: "takeWhile (\<lambda>c. c \<noteq> CHR ''?'') p = p" using p(2) by (auto simp: takeWhile_eq_all_conv)
  have cut: "Cut p (CHR ''?'') = (p, '''', False)" unfolding Cut_def Let_def tw by simp
  have scheme: "getScheme p = Inr ('''', p)" using getScheme_slash [of p] p(1) by simp
  have "no_url\<lparr>url_Scheme := '''', url_ForceQuery := False, url_RawQuery := '''', url_OmitHost := False\<rparr> = no_url" by (simp add: no_url_def)
  then show ?thesis using ctl last cut scheme u p(1)
    by (simp add: ParseRequestURI_def parse_def Let_def parse_setPath_def)
qed

lemma arrives_path:
  assumes a: "arrives r method p" and p: "p = CHR ''/'' # p'" "list_all (\<lambda>c. target_byte c \<or> c = CHR ''/'') p" "p = escape q encodePath"
  shows "EscapedPath (rq_URL r) = p" "rq_RequestURI r \<noteq> ''*''" "rq_Method r = method"
proof -
  have q: "unescape p encodePath = Inr q" unfolding p(3) by (rule unescape_escape) simp_all
  then have u: "setPath (url.truncate no_url) p = Inr ((url.truncate no_url)\<lparr>url_Path := q, url_RawPath := ''''\<rparr>)"
    using p(3) by (simp add: setPath_def)
  have bytes: "CHR ''?'' \<notin> set p" "list_all (\<lambda>c. 0x20 \<le> byte c \<and> byte c \<noteq> 0x7F) p"
  proof -
    have "c \<noteq> CHR ''?'' \<and> 0x20 \<le> byte c \<and> byte c \<noteq> 0x7F" if "target_byte c \<or> c = CHR ''/''" for c
    proof (cases "c = CHR ''/''")
      case True
      then show ?thesis by (simp add: byte_def)
    next
      case False
      then show ?thesis using that target_byte_plain by blast
    qed
    then have "list_all (\<lambda>c. c \<noteq> CHR ''?'' \<and> 0x20 \<le> byte c \<and> byte c \<noteq> 0x7F) p" using p(2) by (simp add: list_all_iff)
    then show "CHR ''?'' \<notin> set p" "list_all (\<lambda>c. 0x20 \<le> byte c \<and> byte c \<noteq> 0x7F) p" by (auto simp: list_all_iff)
  qed
  have "rq_URL r = url.truncate (no_url\<lparr>url_Path := q, url_RawPath := ''''\<rparr>)"
    using a p(1) parse_path [OF p(1) bytes u] by (simp add: arrives_def request_URL_def)
  then have "url_Path (rq_URL r) = q" "url_RawPath (rq_URL r) = ''''" by (simp_all add: url.defs no_url_def)
  moreover have "q \<noteq> ''*''" using p(1,3) by (auto simp: escape_def shouldEscape_def url_alnum_def byte_def)
  ultimately show "EscapedPath (rq_URL r) = p" using p(3) by (simp add: EscapedPath_def)
  show "rq_RequestURI r \<noteq> ''*''" "rq_Method r = method" using a p(1) by (simp_all add: arrives_def)
qed

lemma serve_record:
  assumes "arrives r method (record_target k n)" "checkName n = Inr ()"
  shows "serve tb env fs r = respond env fs r [kind_path k, n]" "rq_Method r = method"
proof -
  note t = record_target_path [OF assms(2), of k]
  have "list_all (\<lambda>c. target_byte c \<or> c = CHR ''/'') (record_target k n)"
    using name_segment(5) [OF assms(2)] kind_segment(8) [of k] by (auto simp: record_target_def list_all_iff)
  note a = arrives_path [OF assms(1) _ this t(5)]
  have "record_target k n = CHR ''/'' # kind_path k @ ''/'' @ escape n encodePathSegment" by (simp add: record_target_def)
  note a = a [OF this]
  show "serve tb env fs r = respond env fs r [kind_path k, n]"
    using serve_respond [OF a(2,1) disjI2 [OF t(2)] t(4)] by (simp add: t(3))
  show "rq_Method r = method" by (rule a(3))
qed

lemma serve_collection:
  assumes "arrives r method (''/'' @ kind_path k)"
  shows "serve tb env fs r = respond env fs r [kind_path k]" "rq_Method r = method"
proof -
  define p where "p = ''/'' @ kind_path k"
  have s: "p = slashed [kind_path k]" by (simp add: p_def)
  have c: "cleanPath p = p" unfolding s using kind_segment(1-3) [of k] by (intro cleanPath_slashed) auto
  have parts: "path_parts p = [kind_path k]"
    using path_parts_slashed [of "[kind_path k]" "''''"] kind_segment(1,7) [of k] by (simp add: s)
  have good: "good_path p" unfolding good_path_def good_parts_def parts using kind_segment(4-6) [of k] by auto
  have "\<not> shouldEscape (CHR ''/'') encodePath" by code_simp
  then have e: "p = escape p encodePath" using kind_segment(9) [of k] by (simp add: escape_loop p_def)
  have "list_all (\<lambda>c. target_byte c \<or> c = CHR ''/'') p" using kind_segment(8) [of k] by (auto simp: list_all_iff p_def)
  note a = arrives_path [OF assms [folded p_def] _ this e, of "kind_path k"]
  have h: "p = CHR ''/'' # kind_path k" by (simp add: p_def)
  show "serve tb env fs r = respond env fs r [kind_path k]"
    using serve_respond [OF a(2) [OF h] a(1) [OF h] disjI2 [OF c] good] unfolding parts .
  show "rq_Method r = method" using a(3) [OF h] .
qed

subsection \<open>Saving and reading over HTTP\<close>

lemma respond_collection:
  "rq_Method r = ''POST'' \<Longrightarrow> respond env fs r [kind_path Recipe_Kind] = Some (putRecipe env fs r)"
  "rq_Method r = ''POST'' \<Longrightarrow> respond env fs r [kind_path Cycle_Kind] = Some (putCycle env fs r)"
  by (simp_all add: respond_def dispatch_def kind_path_def run_handler_def)

lemma respond_record:
  assumes "rq_Method r = ''GET'' \<or> rq_Method r = ''HEAD''" "checkName n = Inr ()"
  shows "respond env fs r [kind_path Recipe_Kind, n] = Some (fs, getRecipe env fs n)"
    "respond env fs r [kind_path Cycle_Kind, n] = Some (fs, getCycle env fs n)"
proof -
  have "n \<noteq> ''''" "n \<noteq> ''/''" using checkName_bytes [OF assms(2)] by auto
  then show "respond env fs r [kind_path Recipe_Kind, n] = Some (fs, getRecipe env fs n)"
    "respond env fs r [kind_path Cycle_Kind, n] = Some (fs, getCycle env fs n)"
    using assms(1) by (auto simp: respond_def dispatch_def kind_path_def run_handler_def)
qed

lemma request_URL_record:
  assumes "checkName n = Inr ()"
  shows "\<exists>u. request_URL method (record_target k n) = Inr u"
proof -
  note t = record_target_path [OF assms, of k]
  have p: "record_target k n = CHR ''/'' # kind_path k @ ''/'' @ escape n encodePathSegment" by (simp add: record_target_def)
  have "target_byte c \<or> c = CHR ''/''" if "c \<in> set (record_target k n)" for c
    using that name_segment(5) [OF assms] kind_segment(8) [of k] by (auto simp: record_target_def list_all_iff)
  then have b: "CHR ''?'' \<notin> set (record_target k n)" "list_all (\<lambda>c. 0x20 \<le> byte c \<and> byte c \<noteq> 0x7F) (record_target k n)"
    using target_byte_plain by (fastforce simp: list_all_iff byte_def)+
  have "unescape (record_target k n) encodePath = Inr (''/'' @ kind_path k @ ''/'' @ n)" unfolding t(5) by (rule unescape_escape) simp_all
  then have "\<exists>u. setPath (url.truncate no_url) (record_target k n) = Inr u" by (simp add: setPath_def)
  then obtain u where "setPath (url.truncate no_url) (record_target k n) = Inr u" by blast
  from parse_path [OF p b this] show ?thesis by (simp add: request_URL_def p)
qed

text \<open>The error, the name and the response value of the record that the body of a POST decodes to.\<close>

definition posted :: "record_kind \<Rightarrow> string \<Rightarrow> go_error option \<times> string \<times> json_val" where
  "posted k body =
     (case k of
        Recipe_Kind \<Rightarrow>
          (case Decode body (recipe_struct zero_recipe) of
             (e, v) \<Rightarrow> (e, rcp_Name (recipe_of v), JMap [(''recipe'', recipe_json (recipe_of v))]))
      | Cycle_Kind \<Rightarrow>
          (case Decode body (cycle_struct zero_cycle) of
             (e, v) \<Rightarrow> (e, cyc_Name (cycle_record_of v), JMap [(''cycle'', cycle_json (cycle_record_of v))])))"

text \<open>
  Claim C2. Saving and reading over HTTP. When a POST to \<open>/recipes\<close> or \<open>/cycles\<close> is answered with 201, its body decodes without error to a record, the answer is that record
  as valid JSON, the name in the record is acceptable, the path made of the collection and that name in escaped form is the target of a request, and a GET of it
  answers 200 with the body of the first answer, byte for byte: from the bytes of the target through parsing, unescaping, routing, the file system and the JSON
  encoding. The kernel must refuse nothing.
\<close>

theorem http_post_then_get:
  assumes "arrives post ''POST'' (''/'' @ kind_path k)" "serve tb env fs post = Some (fs', resp)" "rs_Code resp = 201" "\<forall>p. quiet (ap_os env) p"
  shows "\<exists>n v. posted k (rq_Body post) = (None, n, v) \<and> resp = writeJSON 201 v \<and> Valid (rs_Body resp)
    \<and> checkName n = Inr () \<and> (\<exists>u. request_URL ''GET'' (record_target k n) = Inr u)
    \<and> (\<forall>get. arrives get ''GET'' (record_target k n) \<longrightarrow> serve tb env fs' get = Some (fs', resp\<lparr>rs_Code := 200\<rparr>))"
proof -
  have serve: "Some (fs', resp) = respond env fs post [kind_path k]" and m: "rq_Method post = ''POST''"
    using serve_collection(1) [OF assms(1), of tb env fs] serve_collection(2) [OF assms(1)] assms(2) by simp_all
  have "\<exists>n v. posted k (rq_Body post) = (None, n, v) \<and> resp = writeJSON 201 v \<and> Valid (rs_Body resp) \<and> checkName n = Inr ()
      \<and> (\<forall>get. rq_Method get = ''GET'' \<longrightarrow> respond env fs' get [kind_path k, n] = Some (fs', resp\<lparr>rs_Code := 200\<rparr>))"
  proof (cases k)
    case Recipe_Kind
    then have p: "putRecipe env fs post = (fs', resp)" using serve respond_collection(1) [OF m] by simp
    from putRecipe_correct(1) [OF p assms(3)]
    obtain v where v: "Decode (rq_Body post) (recipe_struct zero_recipe) = (None, v)" "Recipe_Validate (recipe_of v) = Inr ()"
      "recipes (ap_store env) fs' = (recipes (ap_store env) fs)(rcp_Name (recipe_of v) \<mapsto> recipe_of v)"
      and g: "getRecipe env fs' (rcp_Name (recipe_of v)) = resp\<lparr>rs_Code := 200\<rparr>" using assms(4) by blast
    from v(3) have n: "checkName (rcp_Name (recipe_of v)) = Inr ()" by (metis fun_upd_same option.distinct(1) recipes_def)
    have r: "resp = writeJSON 201 (JMap [(''recipe'', recipe_json (recipe_of v))])"
      using p v(1,2) assms(3) by (auto simp: putRecipe_def decode_def Let_def status_defs split: prod.splits option.splits)
    have "Valid (rs_Body resp)" unfolding r by (rule object_valid [OF recipe_json_fits recipe_valid_finite [OF v(2)]])
    then show ?thesis using Recipe_Kind respond_record(1) [OF _ n, of _ env fs'] v(1) n r g by (auto simp: posted_def)
  next
    case Cycle_Kind
    then have p: "putCycle env fs post = (fs', resp)" using serve respond_collection(2) [OF m] by simp
    from putCycle_correct(1) [OF p assms(3)]
    obtain v where v: "Decode (rq_Body post) (cycle_struct zero_cycle) = (None, v)" "CycleRecord_Validate (cycle_record_of v) = Inr ()"
      "cycles (ap_store env) fs' = (cycles (ap_store env) fs)(cyc_Name (cycle_record_of v) \<mapsto> cycle_record_of v)"
      and g: "getCycle env fs' (cyc_Name (cycle_record_of v)) = resp\<lparr>rs_Code := 200\<rparr>" using assms(4) by blast
    from v(3) have n: "checkName (cyc_Name (cycle_record_of v)) = Inr ()" by (metis fun_upd_same option.distinct(1) cycles_def)
    have r: "resp = writeJSON 201 (JMap [(''cycle'', cycle_json (cycle_record_of v))])"
      using p v(1,2) assms(3) by (auto simp: putCycle_def decode_def Let_def status_defs split: prod.splits option.splits)
    have "Valid (rs_Body resp)" unfolding r by (rule object_valid [OF cycle_json_fits cycle_valid_finite [OF v(2)]])
    then show ?thesis using Cycle_Kind respond_record(2) [OF _ n, of _ env fs'] v(1) n r g by (auto simp: posted_def)
  qed
  then obtain n v where n: "posted k (rq_Body post) = (None, n, v)" "resp = writeJSON 201 v" "Valid (rs_Body resp)" "checkName n = Inr ()"
    and g: "\<And>get. rq_Method get = ''GET'' \<Longrightarrow> respond env fs' get [kind_path k, n] = Some (fs', resp\<lparr>rs_Code := 200\<rparr>)" by blast
  have "serve tb env fs' get = Some (fs', resp\<lparr>rs_Code := 200\<rparr>)" if "arrives get ''GET'' (record_target k n)" for get
    using serve_record [OF that n(4)] g by metis
  then show ?thesis using n request_URL_record [OF n(4)] by blast
qed

definition sample_post :: request where
  "sample_post = (sample_request ''POST'' '''' sample_body)
     \<lparr>rq_RequestURI := ''/recipes'', rq_URL := \<lparr>url_Host = '''', url_Path = ''/recipes'', url_RawPath = '''', url_RawQuery = ''''\<rparr>\<rparr>"

lemma sample_post_arrives: "arrives sample_post ''POST'' (''/'' @ kind_path Recipe_Kind)"
  by code_simp

lemma sample_post_saved:
  obtains fs resp where "serve tb sample_env sample_fs sample_post = Some (fs, resp)" "rs_Code resp = 201" "recipes sample_store fs ''cycloid-lift'' = Some sample_recipe"
proof -
  have m: "rq_Method sample_post = ''POST''" by (simp add: sample_post_def sample_request_def)
  obtain fs resp where p: "putRecipe sample_env sample_fs sample_post = (fs, resp)" by fastforce
  have d: "Decode (rq_Body sample_post) (recipe_struct zero_recipe) = (None, recipe_struct sample_recipe)"
    by (simp add: sample_post_def sample_request_def sample_decoded)
  have "rs_Code (snd (putRecipe sample_env sample_fs sample_post)) = 201"
    unfolding handlers_post
    by (rule recipe_store.post_available [OF _ d]) (simp_all add: sample_ok sample_recipe_valid)
  then have r: "rs_Code resp = 201" by (simp add: p)
  moreover have "recipes sample_store fs ''cycloid-lift'' = Some sample_recipe"
    using putRecipe_correct(1) [OF p r] d by (auto simp: sample_recipe_def)
  moreover have "serve tb sample_env sample_fs sample_post = Some (fs, resp)"
    using serve_collection(1) [OF sample_post_arrives, of tb sample_env sample_fs] respond_collection(1) [OF m] p by simp
  ultimately show thesis using that by blast
qed

theorem http_post_then_get_witness:
  "\<forall>tb. \<exists>fs resp. serve tb sample_env sample_fs sample_post = Some (fs, resp) \<and> rs_Code resp = 201 \<and> Valid (rs_Body resp)
    \<and> (\<forall>get. arrives get ''GET'' ''/recipes/cycloid-lift'' \<longrightarrow> serve tb sample_env fs get = Some (fs, resp\<lparr>rs_Code := 200\<rparr>))"
proof
  fix tb
  obtain fs resp where f: "serve tb sample_env sample_fs sample_post = Some (fs, resp)" "rs_Code resp = 201" by (rule sample_post_saved)
  have q: "\<forall>p. quiet (ap_os sample_env) p" by simp
  have t: "record_target Recipe_Kind ''cycloid-lift'' = ''/recipes/cycloid-lift''" by code_simp
  have "rq_Body sample_post = sample_body" by (simp add: sample_post_def sample_request_def)
  then have p: "posted Recipe_Kind (rq_Body sample_post) = (None, n, v) \<Longrightarrow> n = ''cycloid-lift''" for n v
    using sample_decoded by (simp add: posted_def sample_recipe_def)
  show "\<exists>fs resp. serve tb sample_env sample_fs sample_post = Some (fs, resp) \<and> rs_Code resp = 201 \<and> Valid (rs_Body resp)
    \<and> (\<forall>get. arrives get ''GET'' ''/recipes/cycloid-lift'' \<longrightarrow> serve tb sample_env fs get = Some (fs, resp\<lparr>rs_Code := 200\<rparr>))"
    using http_post_then_get [OF sample_post_arrives f q] f p t by metis
qed

text \<open>
  Claim C11. A request with a canonical path is answered by what \<open>dispatch\<close> gives for its method and the unescaped segments of its path: the handler of the
  table with the name as its value, else 405 with the methods that would be handled, else 404. The routing tree, its registration and
  its search are invisible.
\<close>

theorem serve_exact:
  assumes "rq_RequestURI r \<noteq> ''*''" "EscapedPath (rq_URL r) = path" "rq_Method r = ''CONNECT'' \<or> cleanPath path = path" "good_path path"
  shows "serve tb env fs r =
    (case dispatch (rq_Method r) (path_parts path) of
       Some (h, vs) \<Rightarrow> run_handler h env fs r (\<lambda>_. Some (hd vs))
     | None \<Rightarrow> Some (fs, if allowed (path_parts path) = [] then NotFound else method_not_allowed (allowed (path_parts path))))"
  using serve_respond [OF assms] by (simp add: respond_def)

definition sample_delete :: request where
  "sample_delete = sample_post\<lparr>rq_Method := ''DELETE''\<rparr>"

lemma sample_path: "EscapedPath (rq_URL sample_delete) = ''/recipes''" "cleanPath ''/recipes'' = ''/recipes''" "path_parts ''/recipes'' = [''recipes'']"
proof -
  show "EscapedPath (rq_URL sample_delete) = ''/recipes''" by code_simp
  show "cleanPath ''/recipes'' = ''/recipes''" by code_simp
  show "path_parts ''/recipes'' = [''recipes'']" by code_simp
qed

theorem serve_exact_witness:
  "\<forall>tb. serve tb sample_env sample_fs sample_delete = Some (sample_fs, method_not_allowed [''GET'', ''HEAD'', ''POST''])"
proof
  fix tb
  have g: "good_path ''/recipes''" by code_simp
  have u: "rq_RequestURI sample_delete \<noteq> ''*''" by code_simp
  have d: "dispatch (rq_Method sample_delete) [''recipes''] = None" "allowed [''recipes''] = [''GET'', ''HEAD'', ''POST'']" by code_simp+
  show "serve tb sample_env sample_fs sample_delete = Some (sample_fs, method_not_allowed [''GET'', ''HEAD'', ''POST''])"
    using serve_exact [OF u sample_path(1) disjI2 [OF sample_path(2)] g, of tb sample_env sample_fs] unfolding sample_path(3) d by simp
qed

subsection \<open>The routes as an instance of the contract of the mux\<close>

definition sample_get :: request where
  "sample_get = sample_post\<lparr>rq_Method := ''GET'', rq_URL := \<lparr>url_Host = '''', url_Path = ''/recipes/a'', url_RawPath = '''', url_RawQuery = ''''\<rparr>\<rparr>"

lemma sample_get_path:
  "EscapedPath (rq_URL sample_get) = ''/recipes/a''" "cleanPath ''/recipes/a'' = ''/recipes/a''" "good_path ''/recipes/a''"
  "dispatch ''GET'' (path_parts ''/recipes/a'') = Some (Get_Recipe, [''a''])" "rq_Method sample_get = ''GET''"
proof -
  show "EscapedPath (rq_URL sample_get) = ''/recipes/a''" by code_simp
  show "cleanPath ''/recipes/a'' = ''/recipes/a''" by code_simp
  show "good_path ''/recipes/a''" by code_simp
  show "dispatch ''GET'' (path_parts ''/recipes/a'') = Some (Get_Recipe, [''a''])" by code_simp
  show "rq_Method sample_get = ''GET''" by code_simp
qed




end
