(* ===== verification/Server_Safety.thy ===== *)
theory Server_Safety
  imports Server_Spec
begin

text \<open>
  What holds of every request, however malformed its path: the server answers, only a POST to one of the two collections writes to the data directory, and the
  response is of one of a few kinds. The redirect of a path that is not canonical may lead to another path than the cleaned one.
\<close>

subsection \<open>What is found for an arbitrary path\<close>

lemma search_leaf:
  assumes "serves R rt" "search rt host method path = Matched p h vs"
  obtains cs v where "(p, h) \<in> R" "method \<in> method_set (pat_method p)" "(map seg_key (pat_segments p), cs, v) \<in> set (cands path)" "vs = with_rest p cs v"
proof (rule search_hit [OF assms(2)])
  fix hs h0 hs' ms m0 ms' es e es'
  assume split: "methods_of method = ms @ m0 # ms'" "cands path = es @ e # es'"
    and hit: "attempt (node_at (Some rt) [h0, m0]) [] e = Matched p h vs"
  obtain ks cs v where e: "e = (ks, cs, v)" by (cases e)
  then have leaf: "leaf_at (Some rt) (h0 # m0 # ks) = Some (p, h)" "vs = with_rest p cs v"
    using hit unfolding attempt_Matched e leaf_at_route by simp_all
  then have R: "(p, h) \<in> R" "route p = h0 # m0 # ks" using tree_of_leaf assms(1) by (metis fst_conv serves_def)+
  then have k: "pat_method p = m0" "map seg_key (pat_segments p) = ks" by (simp_all add: route_def)
  have "method \<in> method_set (pat_method p)" using split(1) methods_of_mem [of m0 "method"] by (simp add: k)
  moreover have "(map seg_key (pat_segments p), cs, v) \<in> set (cands path)" using split(2) by (simp add: k e)
  ultimately show thesis using that R(1) leaf(2) by blast
qed simp

lemma matchingMethods_Some:
  assumes "mux_ok R mux"
  shows "\<exists>ms. matchingMethods mux host path = Some ms"
proof -
  have s: "serves R (mux_tree mux)" and t: "tidy (mux_tree mux)" using assms by (simp_all add: mux_ok_def mux_holds_def)
  have "nd_empty (mux_tree mux) = findChild '''' (mux_tree mux)" by (simp add: findChild_def)
  then have "\<exists>S. tree_matchingMethods (mux_tree mux) host q A = Some S" for q A
    by (simp add: tree_matchingMethods_def matchingMethodsPath_Some [OF s t])
  then show ?thesis unfolding matchingMethods_def by (metis option.simps(5,9))
qed

lemma found_request:
  assumes ok: "mux_ok R mux" and p: "plain R" and none: "\<forall>x\<in>R. ''CONNECT'' \<notin> method_set (pat_method (fst x))"
  obtains (found) h pat vs cs v where "findHandler mux r = Found_Handler h pat vs" "rq_Method r \<noteq> ''CONNECT''"
      "cleanPath (EscapedPath (rq_URL r)) = EscapedPath (rq_URL r)" "(pat, h) \<in> R" "rq_Method r \<in> method_set (pat_method pat)"
      "(map seg_key (pat_segments pat), cs, v) \<in> set (cands (EscapedPath (rq_URL r)))" "vs = with_rest pat cs v"
  | (redirect) u where "findHandler mux r = Redirect_Handler u"
  | (refuse) ms where "findHandler mux r = Method_Not_Allowed ms" "ms \<noteq> []"
  | (missing) "findHandler mux r = No_Handler"
proof -
  have s: "serves R (mux_tree mux)" using ok by (simp add: mux_ok_def mux_holds_def)
  let ?p = "EscapedPath (rq_URL r)"
  consider (connect) host where "findHandler mux r = no_match_found mux host ?p (search (mux_tree mux) (rq_Host r) ''CONNECT'' ?p)" "rq_Method r = ''CONNECT''"
    | (clean) host where "findHandler mux r = no_match_found mux host ?p (search (mux_tree mux) host (rq_Method r) ?p)" "rq_Method r \<noteq> ''CONNECT''" "cleanPath ?p = ?p"
    | (unclean) u where "findHandler mux r = Redirect_Handler u"
  proof -
    assume t: "\<And>host. findHandler mux r = no_match_found mux host ?p (search (mux_tree mux) (rq_Host r) ''CONNECT'' ?p) \<Longrightarrow> rq_Method r = ''CONNECT'' \<Longrightarrow> thesis"
      "\<And>host. findHandler mux r = no_match_found mux host ?p (search (mux_tree mux) host (rq_Method r) ?p) \<Longrightarrow> rq_Method r \<noteq> ''CONNECT''
        \<Longrightarrow> cleanPath ?p = ?p \<Longrightarrow> thesis"
      "\<And>u. findHandler mux r = Redirect_Handler u \<Longrightarrow> thesis"
    have np: "search (mux_tree mux) host m q \<noteq> Match_Panic" for host m q by (rule search_no_panic [OF s])
    have c: "(case search (mux_tree mux) host m q of Match_Panic \<Rightarrow> Find_Panic | _ \<Rightarrow> x) = x" for host m q and x :: "'a found"
      using np [of host m q] by (cases "search (mux_tree mux) host m q") auto
    consider "rq_Method r = ''CONNECT''" | "rq_Method r \<noteq> ''CONNECT''" "cleanPath ?p = ?p" | "rq_Method r \<noteq> ''CONNECT''" "cleanPath ?p \<noteq> ?p" by blast
    then show thesis
    proof cases
      case 1
      then show thesis by (intro t(1) [of "url_Host (rq_URL r)"]) (simp_all add: findHandler_def plain_matchOrRedirect [OF s p] Let_def c)
    next
      case 2
      have "findHandler mux r = no_match_found mux (stripHostPort (rq_Host r)) ?p (search (mux_tree mux) (stripHostPort (rq_Host r)) (rq_Method r) ?p)"
        using 2 np [of "stripHostPort (rq_Host r)" "rq_Method r" ?p]
        by (simp add: findHandler_def plain_matchOrRedirect [OF s p] Let_def split: match_result.split)
      then show thesis using 2 by (intro t(2))
    next
      case 3
      then show thesis by (intro t(3)) (rule findHandler_unclean [OF ok p])
    qed
  qed
  then show ?thesis
  proof cases
    case connect
    obtain ms where "matchingMethods mux host ?p = Some ms" using matchingMethods_Some [OF ok] by blast
    moreover have "search (mux_tree mux) (rq_Host r) ''CONNECT'' ?p = No_Match"
    proof (cases "search (mux_tree mux) (rq_Host r) ''CONNECT'' ?p")
      case (Matched q h vs)
      then obtain "(q, h) \<in> R" "''CONNECT'' \<in> method_set (pat_method q)" by (rule search_leaf [OF s]) (rule that)
      then show ?thesis using none by force
    qed (simp_all add: search_no_panic [OF s])
    ultimately have "findHandler mux r = No_Handler \<or> findHandler mux r = Method_Not_Allowed ms \<and> ms \<noteq> []" using connect(1) by (simp add: no_match_found_def)
    then show ?thesis using refuse missing by blast
  next
    case clean
    obtain ms where ms: "matchingMethods mux host ?p = Some ms" using matchingMethods_Some [OF ok] by blast
    show ?thesis
    proof (cases "search (mux_tree mux) host (rq_Method r) ?p")
      case (Matched q h vs)
      then have "findHandler mux r = Found_Handler h q vs" using clean by (simp add: no_match_found_def)
      then show ?thesis using search_leaf [OF s Matched] found clean(2,3) by metis
    next
      case No_Match
      then have "findHandler mux r = No_Handler \<or> findHandler mux r = Method_Not_Allowed ms \<and> ms \<noteq> []" using clean(1) ms by (simp add: no_match_found_def)
      then show ?thesis using refuse missing by blast
    qed (simp add: search_no_panic [OF s])
  next
    case unclean
    then show ?thesis by (rule redirect)
  qed
qed

subsection \<open>Every request is answered\<close>

definition curve_paths :: "string list set" where
  "curve_paths = {[''lift''], [''cycle-curve'']}"

lemma cands_one: "([k], cs, v) \<in> set (cands path) \<Longrightarrow> k \<noteq> '''' \<Longrightarrow> k \<noteq> ''*'' \<Longrightarrow> path_parts path = [k]"
  by (auto simp: cands_Cons_key cands_Nil_key path_parts.simps [of path])

lemma cands_two:
  assumes "([k, ''''], cs, v) \<in> set (cands path)" "k \<noteq> ''''" "k \<noteq> ''*''" "'''' \<notin> set (path_parts path)"
  shows "\<exists>n. path_parts path = [k, n] \<and> cs = [n] \<and> v = None"
proof -
  let ?rest = "snd (firstSegment path)"
  have p: "path_parts path = k # path_parts ?rest" and c: "([''''], cs, v) \<in> set (cands ?rest)"
    using assms(1-3) path_parts.simps [of path] by (auto simp: cands_Cons_key)
  have r: "path_parts ?rest = fst (firstSegment ?rest) # path_parts (snd (firstSegment ?rest))"
    using c path_parts.simps [of ?rest] by (auto simp: cands_Cons_key)
  then have "fst (firstSegment ?rest) \<noteq> ''''" using assms(4) p by auto
  then show ?thesis using c p r by (auto simp: cands_Cons_key cands_Nil_key)
qed

lemma routes_connect: "\<forall>x\<in>route_set. ''CONNECT'' \<notin> method_set (pat_method (fst x))"
  by (simp add: route_set_simps method_set_mem)

lemma curve_route:
  assumes "(p, h) \<in> route_set" "h \<in> {Lift_GET, Lift_POST, Cycle_Curve_GET, Cycle_Curve_POST}" "(map seg_key (pat_segments p), cs, v) \<in> set (cands path)"
  shows "path_parts path \<in> curve_paths"
proof -
  have "pat_segments p = [literal ''lift''] \<or> pat_segments p = [literal ''cycle-curve'']" using assms(1,2) by (auto simp: route_set_simps)
  then have "path_parts path = [''lift''] \<or> path_parts path = [''cycle-curve'']" using assms(3) cands_one by (fastforce simp: seg_key_def)
  then show ?thesis by (auto simp: curve_paths_def)
qed

text \<open>The shape of a registered pattern: one literal, or a literal and the name.\<close>

lemma route_shape:
  assumes "(p, h) \<in> route_set"
  shows "(\<exists>s. pat_segments p = [literal s] \<and> s \<noteq> '''' \<and> s \<noteq> ''*'' \<and> h \<noteq> Get_Recipe \<and> h \<noteq> Get_Cycle
      \<and> (h = Put_Recipe \<longrightarrow> s = ''recipes'' \<and> pat_method p = ''POST'') \<and> (h = Put_Cycle \<longrightarrow> s = ''cycles'' \<and> pat_method p = ''POST''))
    \<or> (\<exists>s. pat_segments p = [literal s, name_wildcard] \<and> s \<noteq> '''' \<and> s \<noteq> ''*'' \<and> h \<in> {Get_Recipe, Get_Cycle})"
  using assms by (auto simp: route_set_simps)

lemma run_reads: "h \<noteq> Put_Recipe \<Longrightarrow> h \<noteq> Put_Cycle \<Longrightarrow> run_handler h env fs r vals = Some (fs', resp) \<Longrightarrow> fs' = fs"
  by (cases h) (auto simp: run_handler_def)

lemma request_answered:
  obtains (reads) resp where "serve tb env fs r = Some (fs, resp)"
  | (recipe) "serve tb env fs r = Some (putRecipe env fs r)" "rq_Method r = ''POST''" "path_parts (EscapedPath (rq_URL r)) = [''recipes'']"
  | (cycle) "serve tb env fs r = Some (putCycle env fs r)" "rq_Method r = ''POST''" "path_parts (EscapedPath (rq_URL r)) = [''cycles'']"
proof (cases "rq_RequestURI r = ''*''")
  case True
  obtain mux where "routes tb = Inr mux" using routes_registered by blast
  then show ?thesis using True by (intro reads) (simp add: serve_def ServeHTTP_def)
next
  case uri: False
  obtain mux where mux: "routes tb = Inr mux" "mux_ok route_set mux" using routes_registered by blast
  have serve: "serve tb env fs r = (case findHandler mux r of
          Found_Handler h p matches \<Rightarrow> run_handler h env fs r (PathValue p matches)
        | Redirect_Handler u \<Rightarrow> Some (fs, Redirect r (URL_String u) StatusMovedPermanently)
        | Method_Not_Allowed allowedMethods \<Rightarrow> Some (fs, method_not_allowed allowedMethods)
        | No_Handler \<Rightarrow> Some (fs, NotFound)
        | Find_Panic \<Rightarrow> None)"
    using uri by (simp add: serve_def mux(1) ServeHTTP_def)
  from mux(2) routes_plain routes_connect show ?thesis
  proof (cases rule: found_request [where r = r])
    case (found h pat vs cs v)
    let ?p = "EscapedPath (rq_URL r)"
    have ne: "'''' \<notin> set (path_parts ?p)" using cleanPath_nonempty_parts [of ?p] found(3) by simp
    have run: "serve tb env fs r = run_handler h env fs r (PathValue pat vs)" using serve found(1) by simp
    from route_shape [OF found(4)] show ?thesis
    proof (elim disjE exE conjE)
      fix s
      assume a: "pat_segments pat = [literal s]" "s \<noteq> ''''" "s \<noteq> ''*''" "h \<noteq> Get_Recipe" "h \<noteq> Get_Cycle"
        "h = Put_Recipe \<longrightarrow> s = ''recipes'' \<and> pat_method pat = ''POST''" "h = Put_Cycle \<longrightarrow> s = ''cycles'' \<and> pat_method pat = ''POST''"
      have "path_parts ?p = [s]" using cands_one found(6) a(2,3) by (simp add: a(1) seg_key_def)
      then show ?thesis using a(4-7) run found(5) reads recipe cycle by (cases h) (auto simp: run_handler_def method_set_mem)
    next
      fix s
      assume a: "pat_segments pat = [literal s, name_wildcard]" "s \<noteq> ''''" "s \<noteq> ''*''" "h \<in> {Get_Recipe, Get_Cycle}"
      then have "\<exists>n. path_parts ?p = [s, n] \<and> cs = [n] \<and> v = None" using found(6) ne by (intro cands_two) (simp_all add: seg_key_def)
      then have "\<exists>n. vs = [n]" using found(7) by (auto simp: with_rest_def)
      then have "\<exists>n. PathValue pat vs ''name'' = Some n" by (auto simp: PathValue_def a(1))
      then show ?thesis using a(4) run reads by (auto simp: run_handler_def)
    qed
  qed (use serve reads in simp_all)
qed

text \<open>
  Claim C10. Every request is answered, whatever its method, host, target and body: no route lookup panics and no wildcard value is missing. A request that
  changes the file system is a POST to \<open>/recipes\<close> or \<open>/cycles\<close>.
\<close>

theorem requests_safe:
  "\<exists>fs' resp. serve tb env fs r = Some (fs', resp)
     \<and> (fs' = fs
        \<or> rq_Method r = ''POST'' \<and> path_parts (EscapedPath (rq_URL r)) = [''recipes''] \<and> (fs', resp) = putRecipe env fs r
        \<or> rq_Method r = ''POST'' \<and> path_parts (EscapedPath (rq_URL r)) = [''cycles''] \<and> (fs', resp) = putCycle env fs r)"
proof (cases rule: request_answered [of tb env fs r])
  case (reads resp)
  then show ?thesis by blast
next
  case recipe
  then show ?thesis by (cases "putRecipe env fs r") simp
next
  case cycle
  then show ?thesis by (cases "putCycle env fs r") simp
qed

subsection \<open>The kinds of response\<close>

text \<open>
  A response of the program has one of five codes, the header of JSON and a body that is JSON. The exception is a curve with a number that is not finite: then the body is
  empty. The other responses are those of the library.
\<close>

definition json_text :: "response \<Rightarrow> bool" where
  "json_text resp \<longleftrightarrow> rs_Header resp = [(''Content-Type'', json_content_type)] \<and> rs_Code resp \<in> {200, 201, 400, 404, 500} \<and> Valid (rs_Body resp)"

definition curve_overflow :: "response \<Rightarrow> bool" where
  "curve_overflow resp \<longleftrightarrow> rs_Body resp = [] \<and> (\<exists>v. resp = writeJSON 200 v \<and> \<not> finite_json v)"

definition json_reply :: "request \<Rightarrow> response \<Rightarrow> bool" where
  "json_reply r resp \<longleftrightarrow> json_text resp \<or> curve_overflow resp \<and> path_parts (EscapedPath (rq_URL r)) \<in> curve_paths"

definition library_reply :: "request \<Rightarrow> response \<Rightarrow> bool" where
  "library_reply r resp \<longleftrightarrow> resp = NotFound \<or> (\<exists>ms. ms \<noteq> [] \<and> resp = method_not_allowed ms) \<or> (\<exists>u. resp = Redirect r u StatusMovedPermanently)
     \<or> rq_RequestURI r = ''*'' \<and> rs_Code resp = StatusBadRequest \<and> rs_Body resp = []"

lemma json_error: "code \<in> {400, 404, 500} \<Longrightarrow> json_text (writeErr env code msg)"
  using writeErr_valid [of env code msg] by (auto simp: json_text_def writeErr_def writeJSON_def)

lemma json_object:
  "code \<in> {200, 201} \<Longrightarrow> fits (Suc 0) v \<Longrightarrow> finite_json v \<Longrightarrow> json_text (writeJSON code (JMap [(k, v)]))"
  using object_valid [of v code k] by (auto simp: json_text_def writeJSON_def)

lemma json_list:
  "list_all (fits (Suc 0)) vs \<Longrightarrow> list_all finite_json vs \<Longrightarrow> json_text (writeJSON 200 (JMap [(k, JArray vs)]))"
  using list_valid [of vs 200 k] by (auto simp: json_text_def writeJSON_def)

lemma json_curve:
  "fits (Suc (Suc (Suc (Suc 0)))) v \<Longrightarrow> json_text (writeJSON 200 v) \<or> curve_overflow (writeJSON 200 v)"
  using writeJSON_body [OF _ nesting, of v 200] by (auto simp: json_text_def curve_overflow_def writeJSON_def split: if_splits)

lemma json_fail: "decode env r v = Inl resp \<Longrightarrow> json_text resp \<and> rs_Code resp = 400"
  by (auto simp: decode_def json_error status_defs split: prod.splits option.splits)

definition curve_reply :: "response \<Rightarrow> bool" where
  "curve_reply resp \<longleftrightarrow> (json_text resp \<or> curve_overflow resp) \<and> rs_Code resp \<notin> {201, 500}"

lemma curve_replies: "code \<in> {400, 404} \<Longrightarrow> curve_reply (writeErr env code msg)" "curve_reply (writeJSON 200 (liftResponse s pts p js))"
  "curve_reply (writeJSON 200 (cycleCurveResponse cfg b qs ks))" "decode env r v = Inl resp \<Longrightarrow> curve_reply resp"
  using json_curve [OF lift_fits] json_curve [OF cycle_fits] json_fail by (auto simp: curve_reply_def json_error)

lemma json_serveLift: "curve_reply (serveLift env fs req)"
  by (simp add: serveLift_def curve_replies status_defs split: sum.split prod.split)

lemma json_serveCycle: "curve_reply (serveCycle env cfg points)"
proof -
  consider e where "Config_Validate cfg = Inl e" | "Config_Validate cfg = Inr ()" "points < 2" | "Config_Validate cfg = Inr ()" "200001 < points"
    | b pts js where "serveCycle env cfg points = writeJSON 200 (cycleCurveResponse cfg b pts js)"
    using serveCycle_exact [where cfg = cfg and env = env and points = points] by (cases "Config_Validate cfg") (auto split: if_splits)
  then show ?thesis
  proof cases
    case 1
    then show ?thesis by (simp add: serveCycle_def curve_replies status_defs)
  qed (use serveCycle_exact [where cfg = cfg and env = env and points = points] in \<open>auto simp: curve_replies\<close>)
qed

lemma json_curves:
  "curve_reply (liftCurveGET env fs r)" "curve_reply (liftCurvePOST env fs r)" "curve_reply (cycleCurveGET env fs r)" "curve_reply (cycleCurvePOST env fs r)"
  by (simp_all add: liftCurveGET_def liftCurvePOST_def cycleCurveGET_def cycleCurvePOST_def json_serveLift json_serveCycle curve_replies status_defs Let_def
      split: sum.split prod.split)

lemma recipe_found: "GetRecipe os s fs n = Inr rec \<Longrightarrow> finite_json (recipe_json rec)"
  by (auto simp: GetRecipe_def recipe_read_finite dest!: read_finite [OF _ zero_finite(1)] split: sum.splits prod.splits option.splits)

lemma cycle_found: "GetCycle os s fs n = Inr rec \<Longrightarrow> finite_json (cycle_json rec)"
  by (auto simp: GetCycle_def cycle_read_finite dest!: read_finite [OF _ zero_finite(2)] split: sum.splits prod.splits option.splits)

lemma recipes_found: "ListRecipes os s fs = Inr rs \<Longrightarrow> list_all finite_json (map recipe_json rs)"
  by (auto simp: ListRecipes_def result_bind_eq_Inr list_all_iff recipe_read_finite dest!: read_all_finite [OF zero_finite(1)])

lemma cycles_found: "ListCycles os s fs = Inr rs \<Longrightarrow> list_all finite_json (map cycle_json rs)"
  by (auto simp: ListCycles_def result_bind_eq_Inr list_all_iff cycle_read_finite dest!: read_all_finite [OF zero_finite(2)])

lemma json_records:
  "json_text (getRecipe env fs n) \<and> rs_Code (getRecipe env fs n) \<notin> {201, 500}" "json_text (getCycle env fs n) \<and> rs_Code (getCycle env fs n) \<notin> {201, 500}"
  "json_text (snd (putRecipe env fs r)) \<and> rs_Code (snd (putRecipe env fs r)) \<noteq> 500" "json_text (snd (putCycle env fs r)) \<and> rs_Code (snd (putCycle env fs r)) \<noteq> 500"
proof -
  show "json_text (getRecipe env fs n) \<and> rs_Code (getRecipe env fs n) \<notin> {201, 500}"
    by (auto simp: getRecipe_def recipeStoreError_def json_error json_object recipe_json_fits recipe_found status_defs simp del: fits.simps split: sum.split)
  show "json_text (getCycle env fs n) \<and> rs_Code (getCycle env fs n) \<notin> {201, 500}"
    by (auto simp: getCycle_def json_error json_object cycle_json_fits cycle_found status_defs simp del: fits.simps split: sum.split)
  show "json_text (snd (putRecipe env fs r)) \<and> rs_Code (snd (putRecipe env fs r)) \<noteq> 500"
    using json_fail [of env r]
    by (auto simp: putRecipe_def json_error json_object recipe_json_fits recipe_valid_finite status_defs Let_def simp del: fits.simps split: sum.split prod.split option.split)
  show "json_text (snd (putCycle env fs r)) \<and> rs_Code (snd (putCycle env fs r)) \<noteq> 500"
    using json_fail [of env r]
    by (auto simp: putCycle_def json_error json_object cycle_json_fits cycle_valid_finite status_defs Let_def simp del: fits.simps split: sum.split prod.split option.split)
qed

lemma json_lists:
  "json_text (listRecipes env fs) \<and> rs_Code (listRecipes env fs) \<noteq> 201 \<and> (rs_Code (listRecipes env fs) = 500 \<longrightarrow> (\<exists>err. ListRecipes (ap_os env) (ap_store env) fs = Inl err))"
  "json_text (listCycles env fs) \<and> rs_Code (listCycles env fs) \<noteq> 201 \<and> (rs_Code (listCycles env fs) = 500 \<longrightarrow> (\<exists>err. ListCycles (ap_os env) (ap_store env) fs = Inl err))"
  by (auto simp: listRecipes_def listCycles_def json_error status_defs list.pred_map comp_def recipe_json_fits cycle_json_fits list.pred_True
      intro!: json_list recipes_found cycles_found simp del: fits.simps split: sum.split)

lemma handler_reply:
  assumes "run_handler h env fs r vals = Some (fs', resp)"
    and "h \<in> {Lift_GET, Lift_POST, Cycle_Curve_GET, Cycle_Curve_POST} \<Longrightarrow> path_parts (EscapedPath (rq_URL r)) \<in> curve_paths"
  shows "json_reply r resp \<and> (rs_Code resp = 500 \<longrightarrow> (\<exists>err. ListRecipes (ap_os env) (ap_store env) fs = Inl err \<or> ListCycles (ap_os env) (ap_store env) fs = Inl err))"
proof -
  have "json_text healthz" "rs_Code healthz = 200" by (simp_all add: healthz_def json_object status_defs)
  then show ?thesis
    using assms json_curves [of env fs r] json_records(1,2) [of env fs] json_records(3,4) [of env fs r] json_lists [of env fs]
    by (cases h) (auto simp: run_handler_def json_reply_def curve_reply_def)
qed

lemma request_replied:
  obtains (handler) h vals fs' resp where "serve tb env fs r = Some (fs', resp)" "run_handler h env fs r vals = Some (fs', resp)"
      "h \<in> {Lift_GET, Lift_POST, Cycle_Curve_GET, Cycle_Curve_POST} \<Longrightarrow> path_parts (EscapedPath (rq_URL r)) \<in> curve_paths"
  | (library) resp where "serve tb env fs r = Some (fs, resp)" "library_reply r resp"
proof -
  obtain mux where mux: "routes tb = Inr mux" "mux_ok route_set mux" using routes_registered by blast
  obtain fs' resp where s: "serve tb env fs r = Some (fs', resp)" by (cases rule: request_answered [of tb env fs r]) (auto, fastforce+)
  show thesis
  proof (cases "rq_RequestURI r = ''*''")
    case True
    then have "fs' = fs" "rs_Code resp = StatusBadRequest" "rs_Body resp = []" using mux(1) s by (auto simp: serve_def ServeHTTP_def)
    then have "library_reply r resp" "serve tb env fs r = Some (fs, resp)" using True s unfolding library_reply_def by blast+
    then show ?thesis by (rule library [rotated])
  next
    case uri: False
    from mux(2) routes_plain routes_connect show ?thesis
    proof (cases rule: found_request [where r = r])
      case (found h pat vs cs v)
      then have "run_handler h env fs r (PathValue pat vs) = Some (fs', resp)" using s uri by (simp add: serve_def mux(1) ServeHTTP_def)
      then show ?thesis by (rule handler [OF s]) (rule curve_route [OF found(4) _ found(6)])
    qed (use uri in \<open>auto intro!: library simp: serve_def mux(1) ServeHTTP_def library_reply_def\<close>)
  qed
qed


text \<open>
  A data directory with brackets for its name and a request to list it: the pattern of \<open>Glob\<close> is made of the name as it is, so the directory cannot be listed.
\<close>

definition bracket_env :: api_env where
  "bracket_env = sample_env\<lparr>ap_store := \<lparr>st_dir = ''[]''\<rparr>\<rparr>"

definition sample_list :: request where
  "sample_list = (sample_request ''GET'' '''' '''')\<lparr>rq_URL := \<lparr>url_Host = '''', url_Path = ''/recipes'', url_RawPath = '''', url_RawQuery = ''''\<rparr>\<rparr>"

lemma bracket_list: "rs_Code (listRecipes bracket_env sample_fs) = 500"
proof -
  have e: "ap_store bracket_env = \<lparr>st_dir = ''[]''\<rparr>" by (simp add: bracket_env_def)
  have j: "filepath_Join [''[]'', ''recipe_*.json''] = ''[]/recipe_*.json''" by code_simp
  have "class_ranges 0 False 0 '']/recipe_'' = Inl Bad_Pattern" by (simp add: class_ranges.simps getEsc_def)
  then have "matchChunk ''[]/recipe_'' '''' = Inl Bad_Pattern" by (simp add: matchChunk_def matchChunk_loop.simps [of False])
  moreover have "scanChunk ''[]/recipe_*.json'' = (False, ''[]/recipe_'', ''*.json'')" by code_simp
  ultimately have "Match ''[]/recipe_*.json'' '''' = Inl Bad_Pattern" by (simp add: Match.simps)
  then have "\<exists>err. ListRecipes os (ap_store bracket_env) fs = Inl err" for os fs
    by (simp add: ListRecipes_def e j Glob_def globWithLimit.simps)
  then obtain err where "ListRecipes (ap_os bracket_env) (ap_store bracket_env) sample_fs = Inl err" by blast
  then show ?thesis by (simp add: listRecipes_def StatusInternalServerError_def)
qed


subsection \<open>A redirect to the wrong path\<close>

text \<open>
  The path that is cleaned is the escaped one, and writing it into the redirect escapes it again: the name \<open>a b\<close>, sent as \<open>a%20b\<close> behind a doubled slash, is redirected to
  the name \<open>a%20b\<close>, and a request for a record whose name is not ASCII is redirected to one that is refused.
\<close>

definition sample_unclean :: "string \<Rightarrow> request" where
  "sample_unclean name = (sample_request ''GET'' '''' '''')
     \<lparr>rq_URL := \<lparr>url_Host = '''', url_Path = ''/recipes//'' @ name, url_RawPath = '''', url_RawQuery = ''''\<rparr>\<rparr>"

theorem redirect_escapes_twice:
  "\<forall>tb env fs. \<exists>resp. serve tb env fs (sample_unclean ''a b'') = Some (fs, resp)
     \<and> rs_Code resp = 301 \<and> map_of (rs_Header resp) ''Location'' = Some ''/recipes/a%2520b''"
proof (intro allI)
  fix tb env fs
  let ?r = "sample_unclean ''a b''" and ?p = "''/recipes//a%20b''" and ?q = "''/recipes/a%20b''"
  obtain mux where mux: "routes tb = Inr mux" "mux_ok route_set mux" using routes_registered by blast
  have p: "EscapedPath (rq_URL ?r) = ?p" by code_simp
  have q: "cleanPath ?p = ?q" by code_simp
  have "?q \<noteq> ?p" by simp
  then have f: "findHandler mux ?r = Redirect_Handler \<lparr>url_Host = '''', url_Path = ?q, url_RawPath = '''', url_RawQuery = ''''\<rparr>"
    using findHandler_unclean [OF mux(2) routes_plain, of ?r] unfolding p q by (simp add: sample_unclean_def sample_request_def)
  let ?resp = "Redirect ?r (URL_String \<lparr>url_Host = '''', url_Path = ?q, url_RawPath = '''', url_RawQuery = ''''\<rparr>) StatusMovedPermanently"
  have "rs_Code ?resp = 301 \<and> map_of (rs_Header ?resp) ''Location'' = Some ''/recipes/a%2520b''" by code_simp
  moreover have "serve tb env fs ?r = Some (fs, ?resp)"
    by (simp add: serve_def mux(1) ServeHTTP_def f) (simp add: sample_unclean_def sample_request_def)
  ultimately show "\<exists>resp. serve tb env fs ?r = Some (fs, resp) \<and> rs_Code resp = 301 \<and> map_of (rs_Header resp) ''Location'' = Some ''/recipes/a%2520b''"
    by blast
qed

end
