(* ===== verification/Startup.thy ===== *)
theory Startup
  imports Service Server_Safety
begin

text \<open>
  The start of the program and its whole life: \<open>MkdirAll\<close> leaves the records alone, \<open>seed\<close> adds its recipe only when there is none of that name, and any sequence of
  requests, interrupted saves and restarts keeps the invariant of the data directory and every record that was ever saved.
\<close>

subsection \<open>The length of a cleaned path\<close>

definition elems_length :: "string list \<Rightarrow> nat" where
  "elems_length es = sum_list (map (\<lambda>e. length e + 1) es)"

lemma path_join_length: "es \<noteq> [] \<Longrightarrow> length (path_join es) + 1 = elems_length es"
  by (induction es rule: path_join.induct) (auto simp: elems_length_def)

lemma clean_elem_length: "elems_length (clean_elem r st e) \<le> elems_length st + length e + 1"
proof -
  have b: "elems_length (butlast st) \<le> elems_length st" by (cases st rule: rev_cases) (simp_all add: elems_length_def)
  from clean_elem_cases [of r st e] have "clean_elem r st e = st \<or> clean_elem r st e = butlast st \<or> clean_elem r st e = st @ [e]" by blast
  then show ?thesis using b by (auto simp: elems_length_def)
qed

lemma clean_elems_length: "elems_length (foldl (clean_elem r) st es) \<le> elems_length st + elems_length es"
proof (induction es arbitrary: st)
  case (Cons e es)
  have "elems_length (e # es) = length e + 1 + elems_length es" by (simp add: elems_length_def)
  then show ?case using Cons.IH [of "clean_elem r st e"] clean_elem_length [of r st e] by simp
qed (simp add: elems_length_def)

lemma path_elems_length:
  "elems_length (path_elems p) \<le> length p + 1 \<and> (p = [] \<or> IsPathSeparator (hd p) \<longrightarrow> elems_length (path_elems p) \<le> length p)"
proof (induction p rule: path_elems.induct)
  case (2 c cs)
  show ?case
  proof (cases "IsPathSeparator c")
    case True
    then show ?thesis using 2(1) by (simp add: path_elems.simps(2))
  next
    case False
    let ?P = "\<lambda>c. \<not> IsPathSeparator c"
    have split: "length (c # cs) = length (takeWhile ?P (c # cs)) + length (dropWhile ?P (c # cs))" by (metis length_append takeWhile_dropWhile_id)
    have "dropWhile ?P (c # cs) = [] \<or> IsPathSeparator (hd (dropWhile ?P (c # cs)))" using hd_dropWhile [of ?P "c # cs"] by blast
    then have "elems_length (path_elems (dropWhile ?P (c # cs))) \<le> length (dropWhile ?P (c # cs))" using 2(2) [OF False] by blast
    then show ?thesis using False split by (simp add: path_elems.simps(2) elems_length_def)
  qed
qed (simp add: elems_length_def)

lemma Clean_length: "path \<noteq> [] \<Longrightarrow> length (Clean path) \<le> length path"
proof -
  assume ne: "path \<noteq> []"
  define r where "r = (hd path = CHR ''/'')"
  define st where "st = foldl (clean_elem r) [] (path_elems path)"
  have c: "Clean path = (if \<not> r \<and> st = [] then ''.'' else path_render r st)"
    unfolding Clean_spec clean_spec_def Let_def st_def using ne by (simp only: r_def not_False_eq_True simp_thms)
  have "elems_length st \<le> elems_length (path_elems path)" using clean_elems_length [of r "[]" "path_elems path"] by (simp add: st_def elems_length_def)
  then have "elems_length st \<le> length path + (if r then 0 else 1)" using path_elems_length [of path] by (auto simp: r_def IsPathSeparator_def)
  moreover have "Suc 0 \<le> length path" using ne by (cases path) simp_all
  ultimately show ?thesis using path_join_length [of st] unfolding c by (cases "st = []") (auto simp: path_render_def)
qed

subsection \<open>\<open>MkdirAll\<close> and the records\<close>

text \<open>\<open>MkdirAll\<close> touches no file, removes no directory and adds only directories whose path is no longer than its argument.\<close>

definition dirs_added :: "nat \<Rightarrow> file_system \<Rightarrow> file_system \<Rightarrow> bool" where
  "dirs_added n fs fs' \<longleftrightarrow> fs_files fs' = fs_files fs \<and> set (fs_dirs fs) \<subseteq> set (fs_dirs fs')
     \<and> (\<forall>d\<in>set (fs_dirs fs'). d \<in> set (fs_dirs fs) \<or> length d \<le> n)"

lemma dirs_added_trans: "dirs_added m fs fs1 \<Longrightarrow> dirs_added n fs1 fs2 \<Longrightarrow> m \<le> n \<Longrightarrow> dirs_added n fs fs2"
  unfolding dirs_added_def by (metis (no_types) order_trans)

lemma Mkdir_adds: "dirs_added (length path) fs (fst (os_Mkdir env fs path))"
proof (cases "path = ''''")
  case True
  have "Clean '''' = ''.''" by code_simp
  then show ?thesis using True by (simp add: os_Mkdir_def fs_is_dir_def dirs_added_def)
next
  case False
  then show ?thesis using Clean_length [of path] by (auto simp: os_Mkdir_def dirs_added_def split: option.splits)
qed

lemma MkdirAll_adds: "dirs_added (length path) fs (fst (os_MkdirAll env fs path))"
proof (induction env fs path rule: os_MkdirAll.induct)
  case (1 env fs path)
  have refl: "dirs_added n fs fs" for n fs by (simp add: dirs_added_def)
  show ?case
  proof (cases "os_Stat env fs path")
    case (Inl e)
    define q where "q = (if mkdir_parent path \<noteq> '''' then os_MkdirAll env fs (mkdir_parent path) else (fs, None))"
    have "length (mkdir_parent path) \<le> length path" using mkdir_parent_shorter [of path] by (cases "mkdir_parent path = ''''") auto
    then have q: "dirs_added (length path) fs (fst q)"
      using 1 [OF Inl] dirs_added_trans [OF _ refl] by (auto simp: q_def refl)
    have "os_MkdirAll env fs path = (case snd q of Some e \<Rightarrow> (fst q, Some e)
        | None \<Rightarrow> (case os_Mkdir env (fst q) path of (fs, None) \<Rightarrow> (fs, None)
           | (fs, Some e) \<Rightarrow> (fs, if os_Stat env fs path = Inr True then None else Some e)))"
      by (subst os_MkdirAll.simps) (simp only: Inl q_def Let_def case_prod_unfold sum.case)
    then show ?thesis using q dirs_added_trans [OF q Mkdir_adds [of path "fst q" env]] by (auto split: option.splits prod.splits)
  qed (subst os_MkdirAll.simps, simp add: refl)
qed

lemma record_file_clean:
  assumes "record_prefix pre" "CHR ''/'' \<notin> set n" "p \<in> record_files s pre n"
  shows "Clean p = p" "Clean (st_dir s) = st_dir s \<Longrightarrow> length (st_dir s) < length p"
proof -
  have "file_name (pre @ n @ ''.json'')" "file_name (pre @ n @ ''.json.tmp'')"
    using assms(2) record_prefix_chars [OF assms(1)] by (auto simp: file_name_def append_eq_Cons_conv)
  then obtain f where f: "file_name f" "p = dir_part (st_dir s) @ f" "1 < length f"
    using assms(1,3) by (auto simp: record_files_def record_path_def record_prefix_def)
  have "p = filepath_Join [st_dir s, f]" using Join_file [OF f(1)] f(2) by simp
  then show "Clean p = p" using f(1) by (cases "st_dir s = ''''") (auto simp: filepath_Join_def file_name_def Clean_idem)
  show "Clean (st_dir s) = st_dir s \<Longrightarrow> length (st_dir s) < length p" using f(2,3) by (auto simp: dir_part_def)
qed

lemma store_ok_dirs:
  assumes "store_ok s fs" "dirs_added (length (st_dir s)) fs fs'" "Clean (st_dir s) = st_dir s"
  shows "store_ok s fs'" "recipes s fs' = recipes s fs" "cycles s fs' = cycles s fs"
proof -
  have l: "fs_lookup fs' = fs_lookup fs" and files: "fs_files fs' = fs_files fs" using assms(2) by (simp_all add: dirs_added_def fs_lookup_def)
  have "\<not> fs_is_dir fs' p" if "record_prefix pre" "CHR ''/'' \<notin> set n" "p \<in> record_files s pre n" for pre n p
  proof -
    have "\<not> fs_is_dir fs p" using assms(1) that unfolding store_ok_def by blast
    then show ?thesis using record_file_clean [OF that] assms(2,3) by (force simp: fs_is_dir_def dirs_added_def)
  qed
  then show "store_ok s fs'" using assms(1) by (auto simp: store_ok_def fs_ok_def files_ok_def files l)
  show "recipes s fs' = recipes s fs" by (rule ext) (simp add: recipes_def stored_cong [where fs' = fs' and fs = fs] l)
  show "cycles s fs' = cycles s fs" by (rule ext) (simp add: cycles_def stored_cong [where fs' = fs' and fs = fs] l)
qed

subsection \<open>Seeding\<close>

lemma seed_ensure: "seed os st fs = recipe_store.ensure st os fs seed_recipe"
  by (simp add: seed_def recipe_store.ensure_def seed_recipe_def split: sum.split option.split prod.split)

lemma seed_recipe_ok: "Recipe_Validate seed_recipe = Inr ()" "checkName (rcp_Name seed_recipe) = Inr ()" "rcp_Name seed_recipe = ''cycloid-lift''"
proof -
  show "Recipe_Validate seed_recipe = Inr ()" by code_simp
  show "checkName (rcp_Name seed_recipe) = Inr ()" by code_simp
qed (simp add: seed_recipe_def)

text \<open>Whatever the kernel does, seeding keeps the invariant and every record; it may add its own recipe.\<close>

lemma seed_keeps:
  assumes "seed os st fs = (fs', err)"
  shows "store_ok st fs \<Longrightarrow> store_ok st fs'" "cycles st fs' = cycles st fs"
    "recipes st fs' = recipes st fs \<or> recipes st fs' = (recipes st fs)(''cycloid-lift'' \<mapsto> seed_recipe)"
proof -
  have "fs' = fs \<or> SaveRecipe os st fs seed_recipe = (fs', err)"
    using assms by (auto simp: seed_def split: sum.splits if_splits prod.splits option.splits)
  then have "(store_ok st fs \<longrightarrow> store_ok st fs') \<and> cycles st fs' = cycles st fs
      \<and> (recipes st fs' = recipes st fs \<or> recipes st fs' = (recipes st fs)(''cycloid-lift'' \<mapsto> seed_recipe))"
  proof
    assume w: "SaveRecipe os st fs seed_recipe = (fs', err)"
    show ?thesis using SaveRecipe_refines(1,2,3) [OF w] seed_recipe_ok(3) by simp
  qed simp
  then show "store_ok st fs \<Longrightarrow> store_ok st fs'" "cycles st fs' = cycles st fs"
    "recipes st fs' = recipes st fs \<or> recipes st fs' = (recipes st fs)(''cycloid-lift'' \<mapsto> seed_recipe)" by blast+
qed

lemma start_cases:
  assumes "start os fs dir = (fs', res)"
  obtains fs1 where "dirs_added (length dir) fs fs1" "fs' = fs1 \<or> (\<exists>err. seed os \<lparr>st_dir = dir\<rparr> fs1 = (fs', err))"
    "res = Inr st \<Longrightarrow> st = \<lparr>st_dir = dir\<rparr> \<and> seed os \<lparr>st_dir = dir\<rparr> fs1 = (fs', None)"
proof (rule that [OF MkdirAll_adds])
  obtain fs1 e where m: "os_MkdirAll os fs dir = (fs1, e)" by fastforce
  show "fs' = fst (os_MkdirAll os fs dir) \<or> (\<exists>err. seed os \<lparr>st_dir = dir\<rparr> (fst (os_MkdirAll os fs dir)) = (fs', err))"
    using assms m by (auto simp: start_def Open_def split: option.splits prod.splits)
  show "res = Inr st \<Longrightarrow> st = \<lparr>st_dir = dir\<rparr> \<and> seed os \<lparr>st_dir = dir\<rparr> (fst (os_MkdirAll os fs dir)) = (fs', None)"
    using assms m by (auto simp: start_def Open_def split: option.splits prod.splits)
qed

text \<open>
  Claim C24. A start over a data directory that satisfies the invariant, when the kernel refuses nothing on the way: the program comes up, keeps every record as it was,
  adds the recipe \<open>cycloid-lift\<close> when there is none of that name, leaves one that was changed by a caller alone, and keeps the invariant.
\<close>

theorem start_correct:
  assumes "store_ok \<lparr>st_dir = dir\<rparr> fs" "Clean dir = dir" "snd (os_MkdirAll os fs dir) = None" "\<forall>p. quiet os p" "start os fs dir = (fs', res)"
  defines "s \<equiv> \<lparr>st_dir = dir\<rparr>"
  shows "res = Inr s \<and> store_ok s fs' \<and> cycles s fs' = cycles s fs
    \<and> recipes s fs' = (recipes s fs)(''cycloid-lift'' \<mapsto> case recipes s fs ''cycloid-lift'' of Some r \<Rightarrow> r | None \<Rightarrow> seed_recipe)"
proof -
  obtain fs1 where m: "os_MkdirAll os fs dir = (fs1, None)" using assms(3) by (metis prod.collapse)
  have a: "dirs_added (length (st_dir s)) fs fs1" using MkdirAll_adds [of dir fs os] by (simp add: m s_def)
  note d = store_ok_dirs [OF assms(1) [folded s_def] a]
  obtain fs2 err where e: "seed os s fs1 = (fs2, err)" by fastforce
  have ok: "store_ok s fs1" "recipes s fs1 = recipes s fs" "cycles s fs1 = cycles s fs" using d assms(2) by (simp_all add: s_def)
  have q: "p \<in> record_files s ''recipe_'' (rcp_Name seed_recipe) \<Longrightarrow> quiet os p" for p using assms(4) by blast
  note c = recipe_store.ensure_correct [OF e [unfolded seed_ensure] ok(1) q seed_recipe_ok(1,2)]
  have "fs' = fs2" "res = Inr s" using assms(5) e c(1) by (simp_all add: start_def Open_def m s_def)
  then show ?thesis using c(2,3) seed_keeps(2) [OF e] ok(2,3) by (simp add: seed_recipe_ok(3))
qed

subsection \<open>The life of the service\<close>

text \<open>
  A step of the service over its data directory: a request that is answered, a save cut short by a crash (a step of \<open>store_step\<close>), or a restart, which may also fail. The
  kernel may behave differently at every step.
\<close>

inductive server_step :: "unicode_tables \<Rightarrow> string \<Rightarrow> file_system \<Rightarrow> file_system \<Rightarrow> bool" for tb dir where
  request: "ap_store env = \<lparr>st_dir = dir\<rparr> \<Longrightarrow> serve tb env fs r = Some (fs', resp) \<Longrightarrow> server_step tb dir fs fs'"
| interrupted: "store_step \<lparr>st_dir = dir\<rparr> fs fs' \<Longrightarrow> server_step tb dir fs fs'"
| restart: "start os fs dir = (fs', res) \<Longrightarrow> server_step tb dir fs fs'"

lemma request_keeps:
  assumes "serve tb env fs r = Some (fs', resp)"
  shows "store_ok (ap_store env) fs \<Longrightarrow> store_ok (ap_store env) fs'" "dom (recipes (ap_store env) fs) \<subseteq> dom (recipes (ap_store env) fs')"
    "dom (cycles (ap_store env) fs) \<subseteq> dom (cycles (ap_store env) fs')"
proof -
  have "(store_ok (ap_store env) fs \<longrightarrow> store_ok (ap_store env) fs') \<and> dom (recipes (ap_store env) fs) \<subseteq> dom (recipes (ap_store env) fs')
    \<and> dom (cycles (ap_store env) fs) \<subseteq> dom (cycles (ap_store env) fs')"
  proof (cases rule: request_answered [of tb env fs r])
    case (reads resp')
    then show ?thesis using assms by simp
  next
    case recipe
    then have p: "putRecipe env fs r = (fs', resp)" using assms by simp
    have "recipes (ap_store env) fs' = recipes (ap_store env) fs \<or> (\<exists>rec. recipes (ap_store env) fs' = (recipes (ap_store env) fs)(rcp_Name rec \<mapsto> rec))"
      using putRecipe_correct(1,2) [OF p] by blast
    then show ?thesis using putRecipe_correct(3,4) [OF p] by auto
  next
    case cycle
    then have p: "putCycle env fs r = (fs', resp)" using assms by simp
    have "cycles (ap_store env) fs' = cycles (ap_store env) fs \<or> (\<exists>rec. cycles (ap_store env) fs' = (cycles (ap_store env) fs)(cyc_Name rec \<mapsto> rec))"
      using putCycle_correct(1,2) [OF p] by blast
    then show ?thesis using putCycle_correct(3,4) [OF p] by auto
  qed
  then show "store_ok (ap_store env) fs \<Longrightarrow> store_ok (ap_store env) fs'" "dom (recipes (ap_store env) fs) \<subseteq> dom (recipes (ap_store env) fs')"
    "dom (cycles (ap_store env) fs) \<subseteq> dom (cycles (ap_store env) fs')" by blast+
qed

lemma server_step_keeps:
  assumes "server_step tb dir fs fs'" "store_ok \<lparr>st_dir = dir\<rparr> fs" "Clean dir = dir"
  shows "store_ok \<lparr>st_dir = dir\<rparr> fs' \<and> dom (recipes \<lparr>st_dir = dir\<rparr> fs) \<subseteq> dom (recipes \<lparr>st_dir = dir\<rparr> fs')
    \<and> dom (cycles \<lparr>st_dir = dir\<rparr> fs) \<subseteq> dom (cycles \<lparr>st_dir = dir\<rparr> fs')"
  using assms(1)
proof cases
  case (request env r resp)
  then show ?thesis using request_keeps [OF request(2)] assms(2) by simp
next
  case interrupted
  then show ?thesis using store_step_cases store_step_dom assms(2) by blast
next
  case (restart os res)
  let ?s = "\<lparr>st_dir = dir\<rparr>"
  obtain fs1 where d: "dirs_added (length dir) fs fs1" and f: "fs' = fs1 \<or> (\<exists>err. seed os ?s fs1 = (fs', err))" using start_cases [OF restart] by metis
  have ok: "store_ok ?s fs1" "recipes ?s fs1 = recipes ?s fs" "cycles ?s fs1 = cycles ?s fs" using store_ok_dirs [OF assms(2), of fs1] d assms(3) by simp_all
  from f show ?thesis
  proof
    assume "\<exists>err. seed os ?s fs1 = (fs', err)"
    then obtain err where e: "seed os ?s fs1 = (fs', err)" ..
    show ?thesis using seed_keeps [OF e] ok by auto
  qed (simp add: ok)
qed

context keyed_store
begin

lemma fetch_view:
  assumes "inv fs" "view fs n = Some r" "checkName n = Inr ()" "\<And>p. p \<in> files n \<Longrightarrow> quiet (ap_os env) p"
  shows "fetch label json env fs n = writeJSON 200 (JMap [(label, json r)])"
  using get_view [OF assms(1,4)] assms(2,3) by (simp add: fetch_def)

end

lemma served_records:
  assumes "store_ok (ap_store env) fs" "\<forall>p. quiet (ap_os env) p"
  shows "recipes (ap_store env) fs n = Some r \<Longrightarrow> getRecipe env fs n = writeJSON 200 (JMap [(''recipe'', recipe_json r)])"
    "cycles (ap_store env) fs n = Some c \<Longrightarrow> getCycle env fs n = writeJSON 200 (JMap [(''cycle'', cycle_json c)])"
proof -
  have n: "recipes (ap_store env) fs n = Some r \<Longrightarrow> checkName n = Inr ()" "cycles (ap_store env) fs n = Some c \<Longrightarrow> checkName n = Inr ()"
    by (simp_all add: recipes_def cycles_def split: if_splits)
  show "recipes (ap_store env) fs n = Some r \<Longrightarrow> getRecipe env fs n = writeJSON 200 (JMap [(''recipe'', recipe_json r)])"
    unfolding handlers_fetch by (rule recipe_store.fetch_view [OF assms(1)]) (simp_all add: n assms(2))
  show "cycles (ap_store env) fs n = Some c \<Longrightarrow> getCycle env fs n = writeJSON 200 (JMap [(''cycle'', cycle_json c)])"
    unfolding handlers_fetch by (rule cycle_store.fetch_view [OF assms(1)]) (simp_all add: n assms(2))
qed

definition record_names :: "store \<Rightarrow> record_kind \<Rightarrow> file_system \<Rightarrow> string set" where
  "record_names s k fs = (case k of Recipe_Kind \<Rightarrow> dom (recipes s fs) | Cycle_Kind \<Rightarrow> dom (cycles s fs))"

text \<open>
  Claim C3. After any sequence of requests, interrupted saves and restarts the data directory satisfies its invariant and no record is lost: a recipe or cycle that was
  there at the beginning is still there, and as long as the kernel refuses nothing a GET of its path answers 200.
\<close>

theorem server_history:
  assumes "(server_step tb dir)\<^sup>*\<^sup>* fs fs'" "store_ok \<lparr>st_dir = dir\<rparr> fs" "Clean dir = dir"
  defines "s \<equiv> \<lparr>st_dir = dir\<rparr>"
  shows "store_ok s fs' \<and> (\<forall>k n. n \<in> record_names s k fs \<longrightarrow> n \<in> record_names s k fs'
    \<and> (\<forall>env get. ap_store env = s \<and> (\<forall>p. quiet (ap_os env) p) \<and> arrives get ''GET'' (record_target k n) \<longrightarrow>
         (\<exists>resp. serve tb env fs' get = Some (fs', resp) \<and> rs_Code resp = 200)))"
proof -
  have keeps: "store_ok s fs' \<and> dom (recipes s fs) \<subseteq> dom (recipes s fs') \<and> dom (cycles s fs) \<subseteq> dom (cycles s fs')"
    using assms(1,2) unfolding s_def
  proof (induction rule: rtranclp_induct)
    case (step fs1 fs2)
    then show ?case using server_step_keeps [OF step(2) _ assms(3)] by blast
  qed simp
  have names: "n \<in> record_names s k fs'" if "n \<in> record_names s k fs" for k n
    using that keeps by (cases k) (auto simp: record_names_def)
  have "\<exists>resp. serve tb env fs' get = Some (fs', resp) \<and> rs_Code resp = 200"
    if "n \<in> record_names s k fs'" "ap_store env = s" "\<forall>p. quiet (ap_os env) p" "arrives get ''GET'' (record_target k n)" for k n env get
  proof -
    note h = that
    have ok: "store_ok (ap_store env) fs'" using keeps h(2) by simp
    have n: "checkName n = Inr ()" using h(1) by (cases k) (auto simp: record_names_def recipes_def cycles_def split: if_splits)
    have g: "rq_Method get = ''GET'' \<or> rq_Method get = ''HEAD''" using serve_record(2) [OF h(4) n] by simp
    note serve = serve_record(1) [OF h(4) n, of tb env fs']
    show ?thesis
    proof (cases k)
      case Recipe_Kind
      then obtain r where "recipes (ap_store env) fs' n = Some r" using h(1,2) by (auto simp: record_names_def)
      then show ?thesis using serve respond_record(1) [OF g n] served_records(1) [OF ok h(3)] Recipe_Kind by simp
    next
      case Cycle_Kind
      then obtain c where "cycles (ap_store env) fs' n = Some c" using h(1,2) by (auto simp: record_names_def)
      then show ?thesis using serve respond_record(2) [OF g n] served_records(2) [OF ok h(3)] Cycle_Kind by simp
    qed
  qed
  then show ?thesis using names keeps by blast
qed

subsection \<open>A run of the service\<close>

theorem server_history_witness:
  "\<forall>tb. \<exists>fs. (server_step tb ''data'')\<^sup>*\<^sup>* sample_fs fs \<and> store_ok sample_store fs"
proof
  fix tb
  have s: "sample_store = \<lparr>st_dir = ''data''\<rparr>" by (simp add: sample_store_def)
  obtain fs resp where f: "serve tb sample_env sample_fs sample_post = Some (fs, resp)" by (rule sample_post_saved)
  have "server_step tb ''data'' sample_fs fs" by (rule server_step.request [OF _ f]) (simp add: s)
  then have r: "(server_step tb ''data'')\<^sup>*\<^sup>* sample_fs fs" by blast
  have "Clean ''data'' = ''data''" by code_simp
  then have "store_ok sample_store fs" using server_history [OF r sample_ok [unfolded s]] by (simp add: s)
  then show "\<exists>fs. (server_step tb ''data'')\<^sup>*\<^sup>* sample_fs fs \<and> store_ok sample_store fs" using r by blast
qed

theorem start_correct_witness:
  "\<exists>fs. start no_faults sample_fs ''data'' = (fs, Inr sample_store) \<and> store_ok sample_store fs \<and> recipes sample_store fs ''cycloid-lift'' = Some seed_recipe"
proof -
  have s: "sample_store = \<lparr>st_dir = ''data''\<rparr>" by (simp add: sample_store_def)
  obtain fs res where f: "start no_faults sample_fs ''data'' = (fs, res)" by fastforce
  have "Clean ''data'' = ''data''" "snd (os_MkdirAll no_faults sample_fs ''data'') = None" by code_simp+
  then have c: "res = Inr sample_store \<and> store_ok sample_store fs
      \<and> recipes sample_store fs = (recipes sample_store sample_fs)(''cycloid-lift'' \<mapsto> case recipes sample_store sample_fs ''cycloid-lift'' of Some r \<Rightarrow> r | None \<Rightarrow> seed_recipe)"
    using start_correct [OF sample_ok [unfolded s] _ _ _ f] by (simp add: s)
  have "recipes sample_store sample_fs ''cycloid-lift'' = None" by code_simp
  then show ?thesis using c f by simp
qed

end
