(* ===== verification/Spec2Isabelle.thy ===== *)
theory Spec2Isabelle
  imports Cycle_Findings Startup
begin

text \<open>
  Verification of the cam follower service in \<open>src/cam-follower\<close>, a small HTTP server in Go that computes the motion of a cam follower and
  keeps named recipes and cycle records in JSON files. Every theorem below is about the definitions translated from these files, down to the parts of
  the Go standard library they call.

  \<^bold>\<open>The program.\<close> \<open>internal/law\<close> evaluates three dimensionless motion laws. \<open>internal/kinematics\<close> restores dimensions, samples a rise and compares the two
  sides of a seam. \<open>internal/cycle\<close> validates the four angles of a turn, builds its segments, evaluates the turn and reports its joints.
  \<open>internal/store\<close> keeps recipes and cycle records, one JSON file each, written to a temporary file and renamed. \<open>handlers.go\<close> maps HTTP
  requests to these packages and encodes the answers. What they use of the Go standard library (\<open>src/.tools/go/src\<close>) is modelled too: the sine
  of \<open>math\<close>, the number texts of \<open>strconv\<close>, \<open>encoding/json\<close>, \<open>unicode/utf8\<close>, \<open>path/filepath\<close>, the file functions of \<open>os\<close>, \<open>net/url\<close>, and the router
  \<open>ServeMux\<close> of \<open>net/http\<close>. \<open>main.go\<close> seeds the store and starts the server.

  \<^bold>\<open>The theories.\<close> \<open>Prelude\<close> holds the result type for Go's \<open>(T, error)\<close> and shared lemmas, \<open>Errors\<close> the error values.

  \<^item> Numbers. \<open>Rounding\<close> and \<open>Float64\<close> define binary64 arithmetic, executable on the bit fields; \<open>Float64_Real\<close> relates it to the reals. \<open>Bits\<close> and
    \<open>Go_Math\<close> model \<open>math/bits\<close> and the parts of \<open>math\<close> that are called, with the argument reduction of large angles.
  \<^item> Laws and curves. \<open>Law\<close> with \<open>Law_Spec\<close> (closed forms, end points), \<open>Stroke\<close> (the interface of a law, interpreted on the three laws),
    \<open>Kinematics\<close> (validation, sampling, seams).
  \<^item> Cycles. \<open>Cycle\<close> (every function of the package), \<open>Cycle_Build\<close> (validation and contiguous segments), \<open>Cycle_Point\<close> (evaluation at an angle and on
    the grid), \<open>Cycle_Joints\<close> (the joint report, no displacement jump), \<open>Cycle_Findings\<close> (inputs on which the report is wrong),
    \<open>Overflow\<close> (bounds on the stroke, the angles and the speed under which every value of a curve is finite).
  \<^item> Texts. \<open>Utf8\<close>, \<open>Names\<close> (trimming and the names that are accepted), \<open>Strconv\<close> and \<open>Strconv_Float\<close> (integers and floats), \<open>Float_Text\<close> (the printed
    text of a float reads back), \<open>Url_Query\<close> (escaping and query strings).
  \<^item> JSON. \<open>Json_Scanner\<close> (the state machine, complete), \<open>Json_Encode\<close>, \<open>Json_Decode\<close> (the types of the program), \<open>Json_Tokens\<close> and \<open>Json_Round_Trip\<close> (what is
    written is read back), \<open>Json_Valid\<close> (the encoder fails exactly on numbers that are not finite, and what it writes is accepted by the scanner), \<open>Json_Finite\<close> (the
    decoder stores only finite numbers).
  \<^item> Files. \<open>Filepath\<close>, \<open>File_Match\<close> (path cleaning and globbing), \<open>File_System\<close> (files, directories and system calls that may fail).
  \<^item> The store. \<open>Store\<close> (\<open>store.go\<close>, \<open>jsonfile.go\<close>), \<open>Atomic_Write\<close> (the system calls of a save as small steps), \<open>Store_Files\<close> (the laws of record
    files, a locale), \<open>Store_Spec\<close> (two maps from names to records, refined by the operations), \<open>Store_Crash\<close> (histories with crashes).
  \<^item> The handlers. \<open>Handlers\<close> (\<open>handlers.go\<close>), \<open>Handlers_Spec\<close> (exact responses of the curve handlers, bodies that are JSON), \<open>Record_Api\<close> (the keyed store as the interface
    its clients rely on, a locale interpreted on recipes and cycle records).
  \<^item> Routing (\<open>net/http\<close>). \<open>Http_Pattern\<close> (the syntax of patterns and their comparison), \<open>Http_Precedence\<close> (the comparison computes inclusion of sets of
    requests), \<open>Http_Routing\<close> (the decision tree), \<open>Http_Tree\<close> (the search as a list of candidates in order), \<open>Http_Match\<close> (the search finds the pattern
    that takes precedence), \<open>Http_Path\<close> (canonical paths), \<open>Url_Parse\<close> (the URL of a request), \<open>Http_Mux\<close> (registration, conflict index, redirects),
    \<open>Http_Mux_Spec\<close> (registration fails exactly on conflicts), \<open>Http_Find\<close> (the complete answer of \<open>findHandler\<close>).
  \<^item> The server. \<open>Server\<close> (the route table, \<open>ServeHTTP\<close>, the replies of the library, \<open>seed\<close> and the start), \<open>Server_Spec\<close> (requests with a canonical path are
    dispatched by a table), \<open>Server_Safety\<close> (every request is answered, what it may change, the kinds of response, a redirect that goes wrong), \<open>Service\<close>
    (posting and reading from the bytes of the target), \<open>Startup\<close> (the start, and the life of the service over requests, crashes and restarts).

  \<^bold>\<open>State and operations.\<close> The state of the service is the file system. Operations take it and return it changed; a fallible operation returns \<open>Inl\<close>
  of the error or \<open>Inr\<close> of the value. The mutex of the store makes its operations atomic to each other, so requests are functions of the
  state. Which system calls fail is a parameter (\<open>os_env\<close>), so the theorems hold for every behaviour of the kernel, and
  those that promise success name the calls that must not fail (\<open>quiet\<close>).

  \<^bold>\<open>Floating point.\<close> Every operation is rounded once, as on amd64, where the compiler does not fuse a multiplication with an addition.
  Constants are folded exactly and rounded, as the compiler does.

  \<^bold>\<open>Termination.\<close> There is no fuel: every loop of the model is a total function, by structural recursion or with a measure.

  \<^bold>\<open>Not modelled.\<close> The texts of error messages (a parameter of the handlers); the transport of HTTP (connections, headers of requests, the removal of
  the body of an answer to HEAD), signals, flags and logging; the mode of \<open>ServeMux\<close> that emulates Go 1.21; the classes of letters and digits above Latin-1 (a
  parameter, used only for the names of wildcards); the Eisel-Lemire and Ryu fast
  paths of the decimal conversions, which are replaced by their specification, correct rounding and the shortest decimal; the
  reflection of the JSON package, whose results are the field lists of the structs; the compiler and the rest of the toolchain.
\<close>

end
